(* ===== verification/Addressing.thy ===== *)
theory Addressing
  imports Prelude
begin

text \<open>
  Cell addressing: the limits, the A1 notation and the selection helpers of
  \<open>packages/schemas/src/spreadsheet.ts\<close> and \<open>packages/spreadsheet/src/a1.ts\<close>.

  A selection is 1-based and inclusive; \<open>selection_ok\<close> is the schema every entry point
  parses it with.  The regular expressions of the A1 schema are deterministic (an optional
  dollar sign, one to three letters, an optional dollar sign, one to seven digits), so they
  are written as a left-to-right scan.
\<close>

section \<open>Limits and errors\<close>

definition SPREADSHEET_MAX_ROWS :: int where "SPREADSHEET_MAX_ROWS = 1048576"
definition SPREADSHEET_MAX_COLUMNS :: int where "SPREADSHEET_MAX_COLUMNS = 16384"

definition maxSheets :: int where "maxSheets = 50"
definition maxCellsPerRead :: int where "maxCellsPerRead = 10000"
definition maxCellsPerWrite :: int where "maxCellsPerWrite = 10000"
definition maxCellTextChars :: nat where "maxCellTextChars = 32000"
definition maxTouchedRectangles :: nat where "maxTouchedRectangles = 64"

lemmas spreadsheet_limits =
  SPREADSHEET_MAX_ROWS_def SPREADSHEET_MAX_COLUMNS_def maxSheets_def maxCellsPerRead_def
  maxCellsPerWrite_def maxCellTextChars_def maxTouchedRectangles_def

text \<open>
  What the modelled spreadsheet code throws: the codes of \<open>SpreadsheetEngineError\<close>, the
  plain errors of the A1 helpers, a schema refusal, and whatever an engine call raised.
  The human-readable message of an error is not modelled.
\<close>

datatype engine_error =
    EngineUnavailable
  | BatchRejected
  | TooLarge
  | UnsupportedFeature
  | SchemaRejected
  | ColumnOutOfRange
  | NotAColumnLabel
  | NotAnA1Reference
  | EngineRaised

section \<open>Column labels\<close>

function column_label_loop :: "int \<Rightarrow> jsstring \<Rightarrow> jsstring" where
  "column_label_loop remaining label =
     (if remaining > 0
      then column_label_loop ((remaining - 1) div 26)
             (word_of_int (65 + (remaining - 1) mod 26) # label)
      else label)"
  by pat_completeness auto
termination
  by (relation "measure (\<lambda>(remaining, label). nat remaining)") auto

declare column_label_loop.simps [simp del]

definition columnIndexToLabel :: "int \<Rightarrow> engine_error + jsstring" where
  "columnIndexToLabel index =
     (if index < 1 \<or> index > SPREADSHEET_MAX_COLUMNS then Inl ColumnOutOfRange
      else Inr (column_label_loop index []))"

definition is_upper_letter :: "code_unit \<Rightarrow> bool" where
  "is_upper_letter c \<longleftrightarrow> 65 \<le> c \<and> c \<le> 90"

definition is_letter :: "code_unit \<Rightarrow> bool" where
  "is_letter c \<longleftrightarrow> is_upper_letter c \<or> 97 \<le> c \<and> c \<le> 122"

text \<open>
  \<open>String.prototype.toUpperCase\<close> as far as the column pattern can tell: the ASCII letters,
  and every non-ASCII code unit whose upper-case form is made of ASCII letters (sharp s,
  dotless i, long s and the Latin ligatures).  Every other code unit has an upper-case form
  outside \<open>A\<close> to \<open>Z\<close>, so leaving it alone does not change what the pattern accepts.
\<close>

definition upper_unit :: "code_unit \<Rightarrow> jsstring" where
  "upper_unit c =
     (if 97 \<le> c \<and> c \<le> 122 then [c - 32]
      else if c = 0xDF then js ''SS''
      else if c = 0x131 then js ''I''
      else if c = 0x17F then js ''S''
      else if c = 0xFB00 then js ''FF''
      else if c = 0xFB01 then js ''FI''
      else if c = 0xFB02 then js ''FL''
      else if c = 0xFB03 then js ''FFI''
      else if c = 0xFB04 then js ''FFL''
      else if c = 0xFB05 \<or> c = 0xFB06 then js ''ST''
      else [c])"

definition to_upper_case :: "jsstring \<Rightarrow> jsstring" where
  "to_upper_case s = concat (map upper_unit s)"

definition label_value :: "int \<Rightarrow> jsstring \<Rightarrow> int" where
  "label_value index s = foldl (\<lambda>index c. index * 26 + (uint c - 64)) index s"

definition columnLabelToIndex :: "jsstring \<Rightarrow> engine_error + int" where
  "columnLabelToIndex label =
     (let upper = to_upper_case label in
      if \<not> (1 \<le> length upper \<and> length upper \<le> 3 \<and> list_all is_upper_letter upper)
      then Inl NotAColumnLabel
      else (let index = label_value 0 upper in
            if index > SPREADSHEET_MAX_COLUMNS then Inl ColumnOutOfRange else Inr index))"

section \<open>Selections\<close>

record selection =
  r0 :: int
  c0 :: int
  r1 :: int
  c1 :: int

record rectangle = selection +
  rect_sheet :: int

definition selection_ok :: "selection \<Rightarrow> bool" where
  "selection_ok s \<longleftrightarrow>
     1 \<le> r0 s \<and> r0 s \<le> SPREADSHEET_MAX_ROWS \<and> 1 \<le> c0 s \<and> c0 s \<le> SPREADSHEET_MAX_COLUMNS \<and>
     1 \<le> r1 s \<and> r1 s \<le> SPREADSHEET_MAX_ROWS \<and> 1 \<le> c1 s \<and> c1 s \<le> SPREADSHEET_MAX_COLUMNS \<and>
     r0 s \<le> r1 s \<and> c0 s \<le> c1 s"

definition parse_selection :: "selection \<Rightarrow> engine_error + selection" where
  "parse_selection s = (if selection_ok s then Inr s else Inl SchemaRejected)"

definition selectionCellCount :: "selection \<Rightarrow> int" where
  "selectionCellCount s = (r1 s - r0 s + 1) * (c1 s - c0 s + 1)"

definition rectangleOf :: "int \<Rightarrow> selection \<Rightarrow> rectangle" where
  "rectangleOf sheet rng =
     \<lparr>r0 = r0 rng, c0 = c0 rng, r1 = r1 rng, c1 = c1 rng, rect_sheet = sheet\<rparr>"

definition rangesOverlap :: "selection \<Rightarrow> selection \<Rightarrow> bool" where
  "rangesOverlap a b \<longleftrightarrow> r0 a \<le> r1 b \<and> r0 b \<le> r1 a \<and> c0 a \<le> c1 b \<and> c0 b \<le> c1 a"

definition rangeContains :: "selection \<Rightarrow> int \<Rightarrow> int \<Rightarrow> bool" where
  "rangeContains outer row column \<longleftrightarrow>
     row \<ge> r0 outer \<and> row \<le> r1 outer \<and> column \<ge> c0 outer \<and> column \<le> c1 outer"

section \<open>A1 text\<close>

definition DOLLAR :: code_unit where "DOLLAR = 36"
definition COLON :: code_unit where "COLON = 58"

definition strip_dollar :: "jsstring \<Rightarrow> jsstring" where
  "strip_dollar s = (case s of [] \<Rightarrow> [] | c # t \<Rightarrow> if c = DOLLAR then t else s)"

definition row_digits :: "jsstring \<Rightarrow> bool" where
  "row_digits s = (case s of [] \<Rightarrow> False
     | d # ds \<Rightarrow> 49 \<le> d \<and> d \<le> 57 \<and> length ds \<le> 6 \<and> list_all is_digit ds)"

definition match_a1_cell :: "jsstring \<Rightarrow> (jsstring \<times> jsstring) option" where
  "match_a1_cell s =
     (let s1 = strip_dollar s;
          letters = takeWhile is_letter s1;
          digits = strip_dollar (dropWhile is_letter s1)
      in if 1 \<le> length letters \<and> length letters \<le> 3 \<and> row_digits digits
         then Some (letters, digits) else None)"

definition a1_schema :: "jsstring \<Rightarrow> engine_error + jsstring" where
  "a1_schema a1 =
     (let t = js_trim a1;
          shaped = (case split_on COLON t of
              [a] \<Rightarrow> match_a1_cell a \<noteq> None
            | [a, b] \<Rightarrow> match_a1_cell a \<noteq> None \<and> match_a1_cell b \<noteq> None
            | _ \<Rightarrow> False)
      in if 1 \<le> length t \<and> length t \<le> 64 \<and> shaped then Inr t else Inl SchemaRejected)"

definition parseA1Range :: "jsstring \<Rightarrow> engine_error + selection" where
  "parseA1Range a1 =
     bindE (a1_schema a1) (\<lambda>text.
       let parts = split_on COLON text;
           first = (case parts of [] \<Rightarrow> None | s # _ \<Rightarrow> if s = [] then None else match_a1_cell s);
           last = (case parts of _ # e # _ \<Rightarrow> if e = [] then first else match_a1_cell e
                   | _ \<Rightarrow> first)
       in case first of None \<Rightarrow> Inl NotAnA1Reference
          | Some (label1, digits1) \<Rightarrow>
            (case last of None \<Rightarrow> Inl NotAnA1Reference
             | Some (label2, digits2) \<Rightarrow>
               bindE (columnLabelToIndex label1) (\<lambda>col1.
               bindE (columnLabelToIndex label2) (\<lambda>col2.
                 let row1 = digits_value digits1; row2 = digits_value digits2 in
                 parse_selection \<lparr>r0 = min row1 row2, c0 = min col1 col2,
                                   r1 = max row1 row2, c1 = max col1 col2\<rparr>))))"

definition cellA1 :: "int \<Rightarrow> int \<Rightarrow> engine_error + jsstring" where
  "cellA1 row column = bindE (columnIndexToLabel column) (\<lambda>label. Inr (label @ int_text row))"

definition formatA1Range :: "selection \<Rightarrow> engine_error + jsstring" where
  "formatA1Range selection =
     bindE (parse_selection selection) (\<lambda>s.
     bindE (cellA1 (r0 s) (c0 s)) (\<lambda>start.
       if r0 s = r1 s \<and> c0 s = c1 s then Inr start
       else bindE (cellA1 (r1 s) (c1 s)) (\<lambda>end. Inr (start @ [COLON] @ end))))"

text \<open>An error whose message prints a range: a range outside the grid raises in \<open>formatA1Range\<close>
  before the error it was meant for is thrown.\<close>

definition refusing_range :: "selection \<Rightarrow> engine_error \<Rightarrow> engine_error" where
  "refusing_range rng err = (case formatA1Range rng of Inl x \<Rightarrow> x | Inr _ \<Rightarrow> err)"

section \<open>Enumerating and clamping a range\<close>

record cell_address =
  cell_row :: int
  cell_column :: int
  cell_a1 :: jsstring

text \<open>The row-major double loop.\<close>

definition cells_of :: "selection \<Rightarrow> (int \<times> int) list" where
  "cells_of s = concat (map (\<lambda>row. map (\<lambda>column. (row, column)) [c0 s..c1 s]) [r0 s..r1 s])"

definition rangeToCells :: "selection \<Rightarrow> int option \<Rightarrow> engine_error + cell_address list" where
  "rangeToCells rng maxOpt =
     bindE (parse_selection rng) (\<lambda>s.
       let limit = (case maxOpt of None \<Rightarrow> maxCellsPerRead | Some m \<Rightarrow> m) in
       if selectionCellCount s > limit then Inl TooLarge
       else mapE (\<lambda>(row, column). bindE (cellA1 row column) (\<lambda>a1.
              Inr \<lparr>cell_row = row, cell_column = column, cell_a1 = a1\<rparr>)) (cells_of s))"

definition clampRange :: "selection \<Rightarrow> int \<Rightarrow> engine_error + (selection \<times> bool)" where
  "clampRange rng limit =
     bindE (parse_selection rng) (\<lambda>s.
       if selectionCellCount s \<le> limit then Inr (s, False)
       else (let width = c1 s - c0 s + 1;
                 rows = max 1 (limit div width);
                 clipped = s\<lparr>r1 := min (r1 s) (r0 s + rows - 1)\<rparr>
             in if selectionCellCount clipped > limit
                then Inr (clipped\<lparr>c1 := c0 s + limit - 1\<rparr>, True)
                else Inr (clipped, True)))"

section \<open>Sheet names\<close>

text \<open>\<open>Array.prototype.findIndex\<close>: the first index that satisfies the predicate, or \<open>-1\<close>.\<close>

fun find_index_from :: "int \<Rightarrow> ('a \<Rightarrow> bool) \<Rightarrow> 'a list \<Rightarrow> int" where
  "find_index_from i p [] = -1"
| "find_index_from i p (x # xs) = (if p x then i else find_index_from (i + 1) p xs)"

text \<open>
  \<open>lower\<close> is \<open>String.prototype.toLowerCase\<close>, the case tables of the runtime's Unicode
  version; nothing below depends on what they say.
\<close>

definition resolveSheetIndex :: "(jsstring \<Rightarrow> jsstring) \<Rightarrow> jsstring list \<Rightarrow> jsstring \<Rightarrow> int" where
  "resolveSheetIndex lower names name =
     (let wanted = js_trim name;
          exact = find_index_from 0 (\<lambda>n. n = wanted) names
      in if exact \<noteq> -1 then exact
         else find_index_from 0 (\<lambda>n. lower n = lower wanted) names)"

definition requireSheetIndex ::
    "(jsstring \<Rightarrow> jsstring) \<Rightarrow> jsstring list \<Rightarrow> jsstring \<Rightarrow> engine_error + int" where
  "requireSheetIndex lower names name =
     (let index = resolveSheetIndex lower names name in
      if index = -1 then Inl BatchRejected else Inr index)"

text \<open>The colour of a presence cursor: a 32-bit rolling hash over the code units.\<close>

definition PRESENCE_PALETTE :: "string list" where
  "PRESENCE_PALETTE = [''#2563eb'', ''#db2777'', ''#16a34a'', ''#ea580c'', ''#7c3aed'',
     ''#0891b2'', ''#ca8a04'', ''#dc2626'']"

definition presence_hash :: "jsstring \<Rightarrow> 32 word" where
  "presence_hash actorId = foldl (\<lambda>hash c. hash * 31 + ucast c) 0 actorId"

definition presenceColorFor :: "jsstring \<Rightarrow> string" where
  "presenceColorFor actorId =
     PRESENCE_PALETTE ! (unat (presence_hash actorId) mod length PRESENCE_PALETTE)"


section \<open>Column labels are a bijection\<close>

lemma uint_letter: "0 \<le> m \<Longrightarrow> m < 26 \<Longrightarrow> uint (word_of_int (65 + m) :: code_unit) = 65 + m"
  by (simp add: unsigned_of_int take_bit_eq_mod del: of_int_add)

lemma is_upper_letter_of_int: "0 \<le> m \<Longrightarrow> m < 26 \<Longrightarrow> is_upper_letter (word_of_int (65 + m))"
  using uint_letter [of m] by (simp add: is_upper_letter_def word_le_def)

lemma label_value_loop:
  "0 \<le> r \<Longrightarrow> label_value 0 (column_label_loop r acc) = label_value r acc"
proof (induction r acc rule: column_label_loop.induct)
  case (1 r acc)
  show ?case
  proof (cases "r > 0")
    case True
    let ?m = "(r - 1) mod 26"
    have "label_value 0 (column_label_loop r acc)
        = label_value ((r - 1) div 26) (word_of_int (65 + ?m) # acc)"
      using True "1.IH" by (subst column_label_loop.simps) simp
    also have "\<dots> = label_value ((r - 1) div 26 * 26 + (1 + ?m)) acc"
      using uint_letter [of ?m] by (simp add: label_value_def del: of_int_add)
    also have "(r - 1) div 26 * 26 + (1 + ?m) = r"
      using div_mult_mod_eq [of "r - 1" 26] by linarith
    finally show ?thesis .
  next
    case False
    then show ?thesis using "1.prems" by (subst column_label_loop.simps) simp
  qed
qed

lemma column_label_loop_upper:
  "list_all is_upper_letter acc \<Longrightarrow> list_all is_upper_letter (column_label_loop r acc)"
proof (induction r acc rule: column_label_loop.induct)
  case (1 r acc)
  then show ?case
    using is_upper_letter_of_int [of "(r - 1) mod 26"]
    by (subst column_label_loop.simps) (simp del: of_int_add)
qed

lemma column_label_loop_step:
  "r > 0 \<Longrightarrow> column_label_loop r acc =
     column_label_loop ((r - 1) div 26) (word_of_int (65 + (r - 1) mod 26) # acc)"
  by (subst column_label_loop.simps) simp

lemma column_label_loop_done: "r \<le> 0 \<Longrightarrow> column_label_loop r acc = acc"
  by (subst column_label_loop.simps) simp

lemma length_label_1: "r \<le> 26 \<Longrightarrow> length (column_label_loop r acc) \<le> length acc + 1"
  by (cases "r > 0") (simp_all add: column_label_loop_step column_label_loop_done)

lemma length_label_2: "r \<le> 702 \<Longrightarrow> length (column_label_loop r acc) \<le> length acc + 2"
proof (cases "r > 0")
  case True
  assume "r \<le> 702"
  then have "(r - 1) div 26 \<le> 26" by linarith
  from length_label_1 [OF this, of "word_of_int (65 + (r - 1) mod 26) # acc"] show ?thesis
    using True by (simp add: column_label_loop_step)
qed (simp add: column_label_loop_done)

lemma length_label_3: "r \<le> 18278 \<Longrightarrow> length (column_label_loop r acc) \<le> length acc + 3"
proof (cases "r > 0")
  case True
  assume "r \<le> 18278"
  then have "(r - 1) div 26 \<le> 702" by linarith
  from length_label_2 [OF this, of "word_of_int (65 + (r - 1) mod 26) # acc"] show ?thesis
    using True by (simp add: column_label_loop_step)
qed (simp add: column_label_loop_done)

lemma length_label_ge: "length acc \<le> length (column_label_loop r acc)"
proof (induction r acc rule: column_label_loop.induct)
  case (1 r acc)
  then show ?case by (subst column_label_loop.simps) auto
qed

lemma column_label_not_Nil: "r > 0 \<Longrightarrow> column_label_loop r [] \<noteq> []"
  using length_label_ge [of "[word_of_int (65 + (r - 1) mod 26)]" "(r - 1) div 26"]
  by (auto simp: column_label_loop_step)

text \<open>An upper-case letter is its own upper-case form.\<close>

lemma upper_unit_upper: "is_upper_letter c \<Longrightarrow> upper_unit c = [c]"
  by (auto simp: is_upper_letter_def upper_unit_def word_le_def)

lemma to_upper_case_upper: "list_all is_upper_letter s \<Longrightarrow> to_upper_case s = s"
  by (induction s) (simp_all add: to_upper_case_def upper_unit_upper)

lemma columnIndexToLabel_ok:
  "1 \<le> i \<Longrightarrow> i \<le> SPREADSHEET_MAX_COLUMNS \<Longrightarrow>
   \<exists>label. columnIndexToLabel i = Inr label \<and> list_all is_upper_letter label \<and>
     1 \<le> length label \<and> length label \<le> 3 \<and> label_value 0 label = i"
  using length_label_3 [of i "[]"] column_label_not_Nil [of i]
    column_label_loop_upper [of "[]" i] label_value_loop [of i "[]"]
  by (auto simp: columnIndexToLabel_def SPREADSHEET_MAX_COLUMNS_def Suc_le_eq label_value_def)

lemma columnLabelToIndex_inverse:
  assumes "1 \<le> i" and "i \<le> SPREADSHEET_MAX_COLUMNS" and "columnIndexToLabel i = Inr label"
  shows "columnLabelToIndex label = Inr i"
  using columnIndexToLabel_ok [OF assms(1,2)] assms
  by (auto simp: columnLabelToIndex_def to_upper_case_upper)

text \<open>Every column index of the grid survives the trip through its label:
  \<open>columnLabelToIndex(columnIndexToLabel(i))\<close> is \<open>i\<close>, and neither call throws.\<close>

theorem column_label_roundtrip:
  assumes "1 \<le> i" and "i \<le> SPREADSHEET_MAX_COLUMNS"
  shows "bindE (columnIndexToLabel i) columnLabelToIndex = Inr i"
  using columnIndexToLabel_ok [OF assms] columnLabelToIndex_inverse [OF assms] by auto

theorem column_label_roundtrip_witness:
  "columnIndexToLabel 16384 = Inr (js ''XFD'') \<and>
   bindE (columnIndexToLabel 16384) columnLabelToIndex = Inr 16384"
  using column_label_roundtrip [of 16384]
  by (simp add: columnIndexToLabel_def SPREADSHEET_MAX_COLUMNS_def column_label_loop_step
      column_label_loop_done js_simps)


section \<open>A1 text denotes the selection it was printed from\<close>

lemma letter_not_dollar: "is_letter c \<Longrightarrow> c \<noteq> DOLLAR"
  by (auto simp: is_letter_def is_upper_letter_def DOLLAR_def)

lemma digit_not_dollar: "is_digit c \<Longrightarrow> c \<noteq> DOLLAR"
  by (auto simp: is_digit_def DOLLAR_def)

lemma digit_not_letter: "is_digit c \<Longrightarrow> \<not> is_letter c"
  by (auto simp: is_digit_def is_letter_def is_upper_letter_def word_le_def)

lemma upper_is_letter: "is_upper_letter c \<Longrightarrow> is_letter c"
  by (simp add: is_letter_def)

lemma letter_plain: "is_letter c \<Longrightarrow> c \<noteq> COLON \<and> \<not> is_js_space c"
  by (auto simp: is_letter_def is_upper_letter_def COLON_def is_js_space_def word_le_def)

lemma digit_plain: "is_digit c \<Longrightarrow> c \<noteq> COLON \<and> \<not> is_js_space c"
  by (auto simp: is_digit_def COLON_def is_js_space_def word_le_def)

lemma COLON_not_space: "\<not> is_js_space COLON"
  by (simp add: COLON_def is_js_space_def)

lemmas a1_chars = letter_not_dollar digit_not_dollar digit_not_letter upper_is_letter

lemma row_digits_nat_text: "1 \<le> n \<Longrightarrow> n \<le> 1048576 \<Longrightarrow> row_digits (nat_text n)"
proof -
  assume n: "1 \<le> n" "n \<le> 1048576"
  obtain d ds where t: "nat_text n = d # ds" by (cases "nat_text n") auto
  have len: "length ds \<le> 6" using nat_text_length [of n 6] n t by simp
  have dig: "is_digit d" "list_all is_digit ds"
    using nat_text_digits [of n] t by (auto simp: list_all_iff)
  have "d \<noteq> 48" using hd_nat_text [of n] n t by (simp add: digit_def)
  then have "49 \<le> d" using dig(1) by (simp add: is_digit_def) unat_arith
  then show ?thesis using dig len t by (simp add: row_digits_def is_digit_def)
qed

lemma match_a1_cell_text:
  assumes "list_all is_upper_letter l" and "1 \<le> length l" and "length l \<le> 3"
    and "row_digits ds" and "list_all is_digit ds"
  shows "match_a1_cell (l @ ds) = Some (l, ds)"
proof -
  obtain d ds' where ds: "ds = d # ds'" using assms(4) by (cases ds) (auto simp: row_digits_def)
  obtain c l' where l: "l = c # l'" using assms(2) by (cases l) auto
  have letters: "\<forall>x\<in>set l. is_letter x" using assms(1) by (auto simp: list_all_iff a1_chars)
  have d: "is_digit d" using assms(5) ds by simp
  have s1: "strip_dollar (l @ ds) = l @ ds"
    using letters l by (simp add: strip_dollar_def letter_not_dollar)
  have tw: "takeWhile is_letter (l @ ds) = l"
    using letters d ds digit_not_letter by (simp add: takeWhile_append2)
  have dw: "dropWhile is_letter (l @ ds) = ds"
    using letters d ds digit_not_letter by (simp add: dropWhile_append2)
  have s2: "strip_dollar ds = ds"
    using d ds by (simp add: strip_dollar_def digit_not_dollar)
  show ?thesis using assms by (simp add: match_a1_cell_def s1 tw dw s2)
qed

text \<open>The text of one cell, with everything the parser asks of it.\<close>

lemma cellA1_text:
  assumes "1 \<le> row" "row \<le> SPREADSHEET_MAX_ROWS" "1 \<le> column" "column \<le> SPREADSHEET_MAX_COLUMNS"
  obtains label ds where "cellA1 row column = Inr (label @ ds)"
    and "match_a1_cell (label @ ds) = Some (label, ds)"
    and "columnLabelToIndex label = Inr column" and "digits_value ds = row"
    and "\<forall>c\<in>set (label @ ds). c \<noteq> COLON \<and> \<not> is_js_space c"
    and "label @ ds \<noteq> []" and "length (label @ ds) \<le> 10"
proof -
  obtain label where l: "columnIndexToLabel column = Inr label" "list_all is_upper_letter label"
    "1 \<le> length label" "length label \<le> 3"
    using columnIndexToLabel_ok [OF assms(3,4)] by blast
  have rt: "columnLabelToIndex label = Inr column"
    using columnLabelToIndex_inverse [OF assms(3,4) l(1)] .
  let ?ds = "nat_text (nat row)"
  have n: "1 \<le> nat row" "nat row \<le> 1048576"
    using assms(1,2) by (auto simp: SPREADSHEET_MAX_ROWS_def)
  have rd: "row_digits ?ds" and dig: "list_all is_digit ?ds"
    using row_digits_nat_text [OF n] nat_text_digits by (auto simp: list_all_iff)
  have len: "length ?ds \<le> 7" using nat_text_length [of "nat row" 6] n by simp
  show thesis
  proof (rule that [of label ?ds])
    show "cellA1 row column = Inr (label @ ?ds)"
      using l(1) assms(1) by (simp add: cellA1_def int_text_def)
    show "match_a1_cell (label @ ?ds) = Some (label, ?ds)"
      by (rule match_a1_cell_text [OF l(2-4) rd dig])
    show "columnLabelToIndex label = Inr column" by (rule rt)
    show "digits_value ?ds = row" using assms(1) by (simp add: digits_value_nat_text)
    show "\<forall>c\<in>set (label @ ?ds). c \<noteq> COLON \<and> \<not> is_js_space c"
    proof
      fix c assume "c \<in> set (label @ ?ds)"
      then have "is_letter c \<or> is_digit c"
        using l(2) dig upper_is_letter by (auto simp: list_all_iff)
      then show "c \<noteq> COLON \<and> \<not> is_js_space c" using letter_plain digit_plain by blast
    qed
    show "label @ ?ds \<noteq> []" by simp
    show "length (label @ ?ds) \<le> 10" using l(4) len by simp
  qed
qed

lemma a1_schema_one:
  "match_a1_cell s = Some m \<Longrightarrow> \<forall>c\<in>set s. c \<noteq> COLON \<and> \<not> is_js_space c \<Longrightarrow> s \<noteq> [] \<Longrightarrow>
   length s \<le> 10 \<Longrightarrow> a1_schema s = Inr s \<and> split_on COLON s = [s]"
  using split_on_plain [of COLON s] js_trim_plain [of s]
  by (auto simp: a1_schema_def Suc_le_eq)

lemma a1_schema_two:
  assumes "match_a1_cell s = Some m" "\<forall>c\<in>set s. c \<noteq> COLON \<and> \<not> is_js_space c" "length s \<le> 10"
    and "match_a1_cell t = Some k" "\<forall>c\<in>set t. c \<noteq> COLON \<and> \<not> is_js_space c" "length t \<le> 10"
  shows "a1_schema (s @ [COLON] @ t) = Inr (s @ [COLON] @ t) \<and>
    split_on COLON (s @ [COLON] @ t) = [s, t]"
proof -
  have "COLON \<notin> set s" "COLON \<notin> set t" using assms by auto
  then have sp: "split_on COLON (s @ [COLON] @ t) = [s, t]"
    by (simp add: split_on_append split_on_plain)
  have "js_trim (s @ [COLON] @ t) = s @ [COLON] @ t"
    using assms COLON_not_space by (intro js_trim_plain) auto
  then show ?thesis using sp assms by (simp add: a1_schema_def)
qed

lemma parseA1Range_two:
  assumes "a1_schema text = Inr text" "split_on COLON text = [s, t]" "s \<noteq> []" "t \<noteq> []"
    and "match_a1_cell s = Some (l, d)" "match_a1_cell t = Some (m, e)"
    and "columnLabelToIndex l = Inr i" "columnLabelToIndex m = Inr j"
  shows "parseA1Range text = parse_selection
    \<lparr>r0 = min (digits_value d) (digits_value e), c0 = min i j,
     r1 = max (digits_value d) (digits_value e), c1 = max i j\<rparr>"
  using assms by (simp add: parseA1Range_def Let_def)

text \<open>C28: the A1 text of a valid selection parses back to the very same selection, for a
  single cell (\<open>B2\<close>) and for a range (\<open>B2:D40\<close>) alike.\<close>

theorem a1_roundtrip:
  assumes "selection_ok s"
  shows "bindE (formatA1Range s) parseA1Range = Inr s"
proof -
  have b: "1 \<le> r0 s" "r0 s \<le> SPREADSHEET_MAX_ROWS" "1 \<le> c0 s" "c0 s \<le> SPREADSHEET_MAX_COLUMNS"
    "1 \<le> r1 s" "r1 s \<le> SPREADSHEET_MAX_ROWS" "1 \<le> c1 s" "c1 s \<le> SPREADSHEET_MAX_COLUMNS"
    "r0 s \<le> r1 s" "c0 s \<le> c1 s"
    using assms by (auto simp: selection_ok_def)
  obtain l d where A: "cellA1 (r0 s) (c0 s) = Inr (l @ d)" "match_a1_cell (l @ d) = Some (l, d)"
    "columnLabelToIndex l = Inr (c0 s)" "digits_value d = r0 s"
    "\<forall>c\<in>set (l @ d). c \<noteq> COLON \<and> \<not> is_js_space c" "l @ d \<noteq> []" "length (l @ d) \<le> 10"
    using cellA1_text [OF b(1-4)] by blast
  obtain m e where B: "cellA1 (r1 s) (c1 s) = Inr (m @ e)" "match_a1_cell (m @ e) = Some (m, e)"
    "columnLabelToIndex m = Inr (c1 s)" "digits_value e = r1 s"
    "\<forall>c\<in>set (m @ e). c \<noteq> COLON \<and> \<not> is_js_space c" "m @ e \<noteq> []" "length (m @ e) \<le> 10"
    using cellA1_text [OF b(5-8)] by blast
  have eta: "\<lparr>r0 = r0 s, c0 = c0 s, r1 = r1 s, c1 = c1 s\<rparr> = s" by simp
  show ?thesis
  proof (cases "r0 s = r1 s \<and> c0 s = c1 s")
    case True
    then show ?thesis
      using assms A a1_schema_one [OF A(2,5,6,7)]
      by (cases s) (simp add: formatA1Range_def parse_selection_def parseA1Range_def Let_def)
  next
    case False
    have sch: "a1_schema ((l @ d) @ [COLON] @ (m @ e)) = Inr ((l @ d) @ [COLON] @ (m @ e))"
      and spl: "split_on COLON ((l @ d) @ [COLON] @ (m @ e)) = [l @ d, m @ e]"
      using a1_schema_two [OF A(2,5,7) B(2,5,7)] by blast+
    have "formatA1Range s = Inr ((l @ d) @ [COLON] @ (m @ e))"
      using False assms A(1) B(1) by (simp add: formatA1Range_def parse_selection_def)
    moreover have "parseA1Range ((l @ d) @ [COLON] @ (m @ e)) = parse_selection s"
      using parseA1Range_two [OF sch spl A(6) B(6) A(2) B(2) A(3) B(3)] A(4) B(4) b(9,10) eta
      by (simp only: min_absorb1 max_absorb2)
    ultimately show ?thesis using assms by (simp add: parse_selection_def)
  qed
qed

theorem a1_roundtrip_witness:
  "formatA1Range \<lparr>r0 = 2, c0 = 2, r1 = 40, c1 = 4\<rparr> = Inr (js ''B2:D40'') \<and>
   bindE (formatA1Range \<lparr>r0 = 2, c0 = 2, r1 = 40, c1 = 4\<rparr>) parseA1Range
     = Inr \<lparr>r0 = 2, c0 = 2, r1 = 40, c1 = 4\<rparr>"
  using a1_roundtrip [of "\<lparr>r0 = 2, c0 = 2, r1 = 40, c1 = 4\<rparr>"]
  by (simp add: formatA1Range_def parse_selection_def selection_ok_def spreadsheet_limits
      cellA1_def columnIndexToLabel_def column_label_loop_step column_label_loop_done
      int_text_def nat_text.simps digit_def COLON_def js_simps)


section \<open>Ranges as sets of cells\<close>

lemma set_cells_of: "set (cells_of s) = {(r, c). rangeContains s r c}"
  by (auto simp: cells_of_def rangeContains_def)

lemma length_cells_of:
  "r0 s \<le> r1 s \<Longrightarrow> c0 s \<le> c1 s \<Longrightarrow> int (length (cells_of s)) = selectionCellCount s"
  by (simp add: cells_of_def length_concat o_def sum_list_triv selectionCellCount_def)

lemma cells_of_sorted: "sorted_wrt (\<lambda>(r, c) (r', c'). r < r' \<or> r = r' \<and> c < c') (cells_of s)"
proof -
  have row: "sorted_wrt (<) [c0 s..c1 s]" for s by (rule sorted_wrt_upto)
  have "sorted_wrt (\<lambda>(r, c) (r', c'). r < r' \<or> r = r' \<and> c < c')
      (concat (map (\<lambda>row. map (\<lambda>column. (row, column)) [c0 s..c1 s]) rows))"
    if "sorted_wrt (<) rows" for rows :: "int list"
    using that row [of s]
    by (induction rows) (auto simp: sorted_wrt_append sorted_wrt_map)
  then show ?thesis by (simp add: cells_of_def sorted_wrt_upto)
qed

lemma mapE_Inr: "(\<And>x. x \<in> set xs \<Longrightarrow> f x = Inr (g x)) \<Longrightarrow> mapE f xs = Inr (map g xs)"
  by (induction xs) auto

lemma mapE_all:
  "(\<And>x. x \<in> set xs \<Longrightarrow> \<exists>y. f x = Inr y \<and> P x y) \<Longrightarrow>
   \<exists>ys. mapE f xs = Inr ys \<and> list_all2 P xs ys"
proof (induction xs)
  case Nil
  then show ?case by simp
next
  case (Cons x xs)
  obtain y where y: "f x = Inr y" "P x y" using Cons.prems [of x] by auto
  obtain ys where "mapE f xs = Inr ys" "list_all2 P xs ys"
    using Cons.IH Cons.prems by (metis list.set_intros(2))
  then show ?case using y by auto
qed

lemma parseA1Range_cell:
  assumes "1 \<le> row" "row \<le> SPREADSHEET_MAX_ROWS" "1 \<le> column" "column \<le> SPREADSHEET_MAX_COLUMNS"
  shows "\<exists>text. cellA1 row column = Inr text \<and>
    parseA1Range text = Inr \<lparr>r0 = row, c0 = column, r1 = row, c1 = column\<rparr>"
proof -
  obtain l d where A: "cellA1 row column = Inr (l @ d)" "match_a1_cell (l @ d) = Some (l, d)"
    "columnLabelToIndex l = Inr column" "digits_value d = row"
    "\<forall>c\<in>set (l @ d). c \<noteq> COLON \<and> \<not> is_js_space c" "l @ d \<noteq> []" "length (l @ d) \<le> 10"
    using cellA1_text [OF assms] by blast
  have "parseA1Range (l @ d) = Inr \<lparr>r0 = row, c0 = column, r1 = row, c1 = column\<rparr>"
    using A assms a1_schema_one [OF A(2,5,6,7)]
    by (simp add: parseA1Range_def Let_def parse_selection_def selection_ok_def)
  then show ?thesis using A(1) by blast
qed

text \<open>\<open>rangeToCells\<close> lists exactly the cells of a valid range, each once, row by row, with
  an address that parses back to that cell; over the cap it refuses with
  \<open>SPREADSHEET_TOO_LARGE\<close> and never truncates.\<close>

theorem rangeToCells_exact:
  assumes "selection_ok s"
  shows "if selectionCellCount s > (case cap of None \<Rightarrow> maxCellsPerRead | Some m \<Rightarrow> m)
    then rangeToCells s cap = Inl TooLarge
    else (\<exists>cells. rangeToCells s cap = Inr cells \<and>
      set (map (\<lambda>c. (cell_row c, cell_column c)) cells) = {(r, c). rangeContains s r c} \<and>
      int (length cells) = selectionCellCount s \<and>
      sorted_wrt (\<lambda>a b. cell_row a < cell_row b \<or>
        cell_row a = cell_row b \<and> cell_column a < cell_column b) cells \<and>
      (\<forall>c\<in>set cells. parseA1Range (cell_a1 c) =
        Inr \<lparr>r0 = cell_row c, c0 = cell_column c, r1 = cell_row c, c1 = cell_column c\<rparr>))"
proof (cases "selectionCellCount s > (case cap of None \<Rightarrow> maxCellsPerRead | Some m \<Rightarrow> m)")
  case True
  then show ?thesis using assms by (simp add: rangeToCells_def parse_selection_def)
next
  case False
  let ?f = "\<lambda>(row, column). bindE (cellA1 row column) (\<lambda>a1.
              Inr \<lparr>cell_row = row, cell_column = column, cell_a1 = a1\<rparr>)"
  let ?P = "\<lambda>rc (a :: cell_address). (cell_row a, cell_column a) = rc \<and> parseA1Range (cell_a1 a) =
        Inr \<lparr>r0 = cell_row a, c0 = cell_column a, r1 = cell_row a, c1 = cell_column a\<rparr>"
  have "\<exists>y. ?f x = Inr y \<and> ?P x y" if x: "x \<in> set (cells_of s)" for x
  proof -
    obtain r c where "x = (r, c)" "rangeContains s r c" using x by (auto simp: set_cells_of)
    then show ?thesis
      using assms parseA1Range_cell [of r c] by (auto simp: rangeContains_def selection_ok_def)
  qed
  then obtain cells where cells: "mapE ?f (cells_of s) = Inr cells" "list_all2 ?P (cells_of s) cells"
    using mapE_all [of "cells_of s" ?f ?P] by blast
  have eq: "cells_of s = map (\<lambda>a. (cell_row a, cell_column a)) cells"
    using cells(2) by (induction rule: list_all2_induct) auto
  have "\<forall>a\<in>set cells. parseA1Range (cell_a1 a) =
        Inr \<lparr>r0 = cell_row a, c0 = cell_column a, r1 = cell_row a, c1 = cell_column a\<rparr>"
    using cells(2) by (induction rule: list_all2_induct) auto
  moreover have "sorted_wrt (\<lambda>a b. cell_row a < cell_row b \<or>
        cell_row a = cell_row b \<and> cell_column a < cell_column b) cells"
    using cells_of_sorted [of s] by (simp add: eq sorted_wrt_map)
  moreover have "int (length cells) = selectionCellCount s"
    using length_cells_of [of s] assms by (simp add: eq selection_ok_def)
  moreover have "rangeToCells s cap = Inr cells"
    using False assms cells(1) by (simp add: rangeToCells_def parse_selection_def)
  moreover have "set (map (\<lambda>c. (cell_row c, cell_column c)) cells) = {(r, c). rangeContains s r c}"
    using set_cells_of [of s] eq by metis
  ultimately show ?thesis using False by simp
qed

theorem rangeToCells_exact_witness:
  "\<exists>cells. rangeToCells \<lparr>r0 = 2, c0 = 2, r1 = 3, c1 = 4\<rparr> None = Inr cells \<and> length cells = 6"
  using rangeToCells_exact [of "\<lparr>r0 = 2, c0 = 2, r1 = 3, c1 = 4\<rparr>" None]
  by (auto simp: selection_ok_def spreadsheet_limits selectionCellCount_def)

lemma clampRange_spec:
  assumes "selection_ok s" and "1 \<le> limit"
  shows "\<exists>t cut. clampRange s limit = Inr (t, cut) \<and> selection_ok t \<and>
    selectionCellCount t \<le> limit \<and> (cut \<longleftrightarrow> limit < selectionCellCount s) \<and>
    r0 t = r0 s \<and> c0 t = c0 s \<and> (\<forall>r c. rangeContains t r c \<longrightarrow> rangeContains s r c) \<and>
    (cut \<longrightarrow> c1 s - c0 s + 1 \<le> limit \<longrightarrow>
       c1 t = c1 s \<and> selectionCellCount (t\<lparr>r1 := r1 t + 1\<rparr>) > limit)"
proof (cases "selectionCellCount s \<le> limit")
  case True
  then show ?thesis
    using assms by (intro exI [of _ s] exI [of _ False]) (auto simp: clampRange_def parse_selection_def)
next
  case False
  define width where "width = c1 s - c0 s + 1"
  define rows where "rows = max 1 (limit div width)"
  define t where "t = s\<lparr>r1 := min (r1 s) (r0 s + rows - 1)\<rparr>"
  have ok: "1 \<le> r0 s" "r0 s \<le> r1 s" "1 \<le> c0 s" "c0 s \<le> c1 s" "r1 s \<le> SPREADSHEET_MAX_ROWS"
    "c1 s \<le> SPREADSHEET_MAX_COLUMNS" using assms(1) by (auto simp: selection_ok_def)
  have w: "0 < width" using ok by (simp add: width_def)
  have rows1: "1 \<le> rows" by (simp add: rows_def)
  have clamp: "clampRange s limit = (if selectionCellCount t > limit
      then Inr (t\<lparr>c1 := c0 s + limit - 1\<rparr>, True) else Inr (t, True))"
    using False assms(1)
    by (simp add: clampRange_def parse_selection_def Let_def t_def rows_def width_def)
  show ?thesis
  proof (cases "width \<le> limit")
    case True
    have lim: "1 \<le> limit div width" using True w by (simp add: pos_imp_zdiv_pos_iff int_one_le_iff_zero_less)
    then have rows: "rows = limit div width" by (simp add: rows_def)
    have mul: "rows * width \<le> limit"
      unfolding rows using div_mult_mod_eq [of limit width] w pos_mod_sign [of width limit] by linarith
    have over: "limit < (rows + 1) * width"
    proof -
      have "limit = rows * width + limit mod width" unfolding rows by simp
      also have "\<dots> < rows * width + width" using pos_mod_bound [OF w, of limit] by simp
      finally show ?thesis by (simp add: distrib_right)
    qed
    have "r0 s + rows - 1 < r1 s"
    proof (rule ccontr)
      assume "\<not> ?thesis"
      then have "(r1 s - r0 s + 1) * width \<le> rows * width" using w by simp
      then show False using mul False by (simp add: selectionCellCount_def width_def)
    qed
    then have r1t: "r1 t = r0 s + rows - 1" by (simp add: t_def)
    have cnt: "selectionCellCount t = rows * width"
      using r1t by (simp add: selectionCellCount_def t_def width_def)
    then have "clampRange s limit = Inr (t, True)" using clamp mul by simp
    moreover have "selectionCellCount (t\<lparr>r1 := r1 t + 1\<rparr>) > limit"
      using over r1t by (simp add: selectionCellCount_def t_def width_def algebra_simps)
    ultimately show ?thesis
      using False ok rows1 r1t cnt mul \<open>r0 s + rows - 1 < r1 s\<close> assms(1)
      by (intro exI [of _ t] exI [of _ True])
        (auto simp: selection_ok_def rangeContains_def t_def)
  next
    case narrow: False
    have "limit div width = 0" using narrow assms(2) by (simp add: div_pos_pos_trivial)
    then have "rows = 1" by (simp add: rows_def)
    then have r1t: "r1 t = r0 s" using ok by (simp add: t_def)
    have cnt: "selectionCellCount t = width"
      using r1t by (simp add: selectionCellCount_def t_def width_def)
    then have "clampRange s limit = Inr (t\<lparr>c1 := c0 s + limit - 1\<rparr>, True)"
      using clamp narrow by simp
    then show ?thesis
      using False narrow ok r1t assms
      by (intro exI [of _ "t\<lparr>c1 := c0 s + limit - 1\<rparr>"] exI [of _ True])
        (auto simp: selection_ok_def rangeContains_def t_def width_def selectionCellCount_def)
  qed
qed

text \<open>\<open>clampRange\<close> keeps the top-left corner, never addresses a cell outside the range,
  fits the cap, and says \<open>truncated\<close> exactly when the range did not fit; a range no wider
  than the cap keeps whole rows, and as many of them as fit.\<close>

theorem clampRange_fits:
  assumes "selection_ok s" and "1 \<le> limit"
  shows "\<exists>t cut. clampRange s limit = Inr (t, cut) \<and> selection_ok t \<and>
    selectionCellCount t \<le> limit \<and> (cut \<longleftrightarrow> limit < selectionCellCount s) \<and>
    r0 t = r0 s \<and> c0 t = c0 s \<and> (\<forall>r c. rangeContains t r c \<longrightarrow> rangeContains s r c) \<and>
    (cut \<longrightarrow> c1 s - c0 s + 1 \<le> limit \<longrightarrow>
       c1 t = c1 s \<and> selectionCellCount (t\<lparr>r1 := r1 t + 1\<rparr>) > limit)"
  using clampRange_spec [OF assms] .

theorem clampRange_fits_witness:
  "\<exists>t. clampRange \<lparr>r0 = 1, c0 = 1, r1 = 100, c1 = 3\<rparr> 10 = Inr (t, True) \<and> selectionCellCount t \<le> 10"
proof -
  have "selection_ok \<lparr>r0 = 1, c0 = 1, r1 = 100, c1 = 3\<rparr>"
    by (simp add: selection_ok_def spreadsheet_limits)
  from clampRange_fits [OF this, of 10] show ?thesis
    by (fastforce simp: selectionCellCount_def)
qed

text \<open>Two valid ranges overlap, as the code tests it, exactly when they share a cell.\<close>

lemma rangesOverlap_iff:
  "selection_ok a \<Longrightarrow> selection_ok b \<Longrightarrow>
   rangesOverlap a b \<longleftrightarrow> (\<exists>r c. rangeContains a r c \<and> rangeContains b r c)"
proof
  assume "selection_ok a" "selection_ok b" "rangesOverlap a b"
  then show "\<exists>r c. rangeContains a r c \<and> rangeContains b r c"
    by (intro exI [of _ "max (r0 a) (r0 b)"] exI [of _ "max (c0 a) (c0 b)"])
      (auto simp: rangesOverlap_def rangeContains_def selection_ok_def)
qed (auto simp: rangesOverlap_def rangeContains_def)

section \<open>Sheet names resolve exactly first\<close>

lemma find_index_from_bounds:
  "find_index_from i p xs = -1 \<or> i \<le> find_index_from i p xs \<and> find_index_from i p xs < i + int (length xs)"
  by (induction xs arbitrary: i) (auto, (smt (verit))+)

lemma find_index_from_hit:
  "0 \<le> i \<Longrightarrow> find_index_from i p xs \<noteq> -1 \<Longrightarrow> p (xs ! nat (find_index_from i p xs - i))"
proof (induction xs arbitrary: i)
  case Nil
  then show ?case by simp
next
  case (Cons x xs)
  show ?case
  proof (cases "p x")
    case True
    then show ?thesis by simp
  next
    case False
    let ?j = "find_index_from (i + 1) p xs"
    have "?j \<noteq> -1" using Cons.prems False by simp
    then have "i + 1 \<le> ?j" using find_index_from_bounds [of "i + 1" p xs] by auto
    then have "nat (?j - i) = Suc (nat (?j - (i + 1)))" by simp
    then show ?thesis using Cons.IH [of "i + 1"] Cons.prems False by simp
  qed
qed

lemma find_index_from_miss: "0 \<le> i \<Longrightarrow> find_index_from i p xs = -1 \<longleftrightarrow> (\<forall>x\<in>set xs. \<not> p x)"
  by (induction xs arbitrary: i) auto

text \<open>resolving a sheet name gives an index of the workbook: a sheet with exactly the
  trimmed name when there is one, else one equal up to case, else \<open>-1\<close>, which
  \<open>requireSheetIndex\<close> turns into the batch-rejected error.\<close>

theorem resolveSheetIndex_correct:
  fixes lower :: "jsstring \<Rightarrow> jsstring" and names :: "jsstring list" and name :: jsstring
  defines "i \<equiv> resolveSheetIndex lower names name" and "wanted \<equiv> js_trim name"
  shows "(i = -1 \<longleftrightarrow> wanted \<notin> set names \<and> (\<forall>n\<in>set names. lower n \<noteq> lower wanted)) \<and>
    (i \<noteq> -1 \<longrightarrow> 0 \<le> i \<and> i < int (length names) \<and> lower (names ! nat i) = lower wanted) \<and>
    (wanted \<in> set names \<longrightarrow> names ! nat i = wanted) \<and>
    requireSheetIndex lower names name = (if i = -1 then Inl BatchRejected else Inr i)"
proof (cases "wanted \<in> set names")
  case True
  let ?p = "\<lambda>n. n = wanted"
  have "find_index_from 0 ?p names \<noteq> -1" using True by (simp add: find_index_from_miss)
  then have "i = find_index_from 0 ?p names" and "names ! nat i = wanted"
    using find_index_from_hit [of 0 ?p names]
    by (simp_all add: i_def wanted_def resolveSheetIndex_def Let_def)
  then show ?thesis
    using True \<open>find_index_from 0 ?p names \<noteq> -1\<close> find_index_from_bounds [of 0 ?p names]
    by (auto simp: requireSheetIndex_def i_def)
next
  case False
  let ?p = "\<lambda>n. lower n = lower wanted"
  have i: "i = find_index_from 0 ?p names"
    using False by (auto simp: i_def wanted_def resolveSheetIndex_def Let_def find_index_from_miss)
  then show ?thesis
    using False find_index_from_bounds [of 0 ?p names] find_index_from_hit [of 0 ?p names]
      find_index_from_miss [of 0 ?p names]
    by (auto simp: requireSheetIndex_def i_def)
qed

theorem resolveSheetIndex_correct_witness:
  "resolveSheetIndex (\<lambda>s. s) [js ''Data'', js ''Q3''] (js '' Q3'') = 1 \<and>
   [js ''Data'', js ''Q3''] ! nat 1 = js_trim (js '' Q3'')"
  using resolveSheetIndex_correct [of "\<lambda>s. s" "[js ''Data'', js ''Q3'']" "js '' Q3''"]
  by (simp add: resolveSheetIndex_def js_trim_def is_js_space_def js_simps)

lemma presenceColorFor_in_palette: "presenceColorFor a \<in> set PRESENCE_PALETTE"
  unfolding presenceColorFor_def by (rule nth_mem) (simp add: PRESENCE_PALETTE_def)

end
