(* ===== verification/LineEdits.thy ===== *)
theory LineEdits
  imports Prelude
begin

text \<open>
  The specification of a structural edit, independent of any index arithmetic: splicing a
  list of lines (the rows, the columns or the sheets of a workbook), and the contract
  \<open>line_edit\<close> between such a splice and an index map.  The index maps of the code are
  interpretations of it, in the theory of structural edits.
\<close>

section \<open>The specification: splicing a list of lines\<close>

definition insert_at :: "nat \<Rightarrow> nat \<Rightarrow> 'a \<Rightarrow> 'a list \<Rightarrow> 'a list" where
  "insert_at a n blank xs = take a xs @ replicate n blank @ drop a xs"

definition delete_at :: "nat \<Rightarrow> nat \<Rightarrow> 'a list \<Rightarrow> 'a list" where
  "delete_at a n xs = take a xs @ drop (a + n) xs"

text \<open>Cut and reinsert: the lines in between close the gap.\<close>

definition move_block :: "nat \<Rightarrow> nat \<Rightarrow> nat \<Rightarrow> 'a list \<Rightarrow> 'a list" where
  "move_block a n p xs =
     (let rest = delete_at a n xs in take p rest @ take n (drop a xs) @ drop p rest)"

text \<open>
  The contract of a line edit: \<open>edit\<close> rewrites a list of \<open>len\<close> lines into one of \<open>len'\<close>,
  \<open>shift\<close> says where each line went, \<open>origin\<close> where each line came from, and a line that
  came from nowhere is blank.
\<close>

locale line_edit =
  fixes shift :: "nat \<Rightarrow> nat option" and origin :: "nat \<Rightarrow> nat option" and edit :: "'a list \<Rightarrow> 'a list" and blank :: 'a
    and len :: nat and len' :: nat
  assumes length_edit: "length xs = len \<Longrightarrow> length (edit xs) = len'"
    and shift_bound: "i < len \<Longrightarrow> shift i = Some j \<Longrightarrow> j < len'"
    and track: "length xs = len \<Longrightarrow> i < len \<Longrightarrow> shift i = Some j \<Longrightarrow> edit xs ! j = xs ! i"
    and origin_some: "j < len' \<Longrightarrow> origin j = Some i \<Longrightarrow> i < len \<and> shift i = Some j"
    and origin_none: "length xs = len \<Longrightarrow> j < len' \<Longrightarrow> origin j = None \<Longrightarrow> edit xs ! j = blank"
    and shift_inj: "i < len \<Longrightarrow> k < len \<Longrightarrow> shift i = Some j \<Longrightarrow> shift k = Some j \<Longrightarrow> i = k"
begin

text \<open>
  Two lists whose lines correspond under the edit: what the edited list holds is
  determined by the source list and the map.
\<close>

lemma edit_eqI:
  assumes "length xs = len" and "length ys = len'"
    and "\<And>i j. i < len \<Longrightarrow> shift i = Some j \<Longrightarrow> ys ! j = xs ! i"
    and "\<And>j. j < len' \<Longrightarrow> \<forall>i<len. shift i \<noteq> Some j \<Longrightarrow> ys ! j = edit xs ! j"
  shows "edit xs = ys"
proof (rule nth_equalityI)
  show "length (edit xs) = length ys" using assms(1,2) length_edit by simp
next
  fix j assume "j < length (edit xs)"
  then have j: "j < len'" using length_edit [OF assms(1)] by simp
  show "edit xs ! j = ys ! j"
  proof (cases "\<exists>i<len. shift i = Some j")
    case True
    then show ?thesis using assms(1,3) track by metis
  next
    case False
    then show ?thesis using assms(4) [OF j] by auto
  qed
qed

lemma unreached_blank:
  "length xs = len \<Longrightarrow> j < len' \<Longrightarrow> \<forall>i<len. shift i \<noteq> Some j \<Longrightarrow> edit xs ! j = blank"
  using origin_some origin_none by (cases "origin j") auto

lemma update_commute:
  assumes "length xs = len" and "i < len"
  shows "edit (xs[i := v]) =
    (case shift i of None \<Rightarrow> edit xs | Some j \<Rightarrow> (edit xs)[j := v])"
proof (rule edit_eqI)
  show "length (xs[i := v]) = len" using assms by simp
  show "length (case shift i of None \<Rightarrow> edit xs | Some j \<Rightarrow> (edit xs)[j := v]) = len'"
    using assms length_edit by (simp split: option.split)
next
  fix k j assume "k < len" "shift k = Some j"
  then have j: "j < len'" and t: "edit xs ! j = xs ! k" and l: "length (edit xs) = len'"
    using assms track shift_bound length_edit by auto
  show "(case shift i of None \<Rightarrow> edit xs | Some j \<Rightarrow> (edit xs)[j := v]) ! j = xs[i := v] ! k"
  proof (cases "i = k")
    case True
    then show ?thesis using \<open>shift k = Some j\<close> j l assms by simp
  next
    case False
    then have "shift i \<noteq> Some j" using shift_inj \<open>k < len\<close> \<open>shift k = Some j\<close> assms(2) by blast
    then show ?thesis using False t by (auto split: option.split)
  qed
next
  fix j assume "j < len'" "\<forall>k<len. shift k \<noteq> Some j"
  then show "(case shift i of None \<Rightarrow> edit xs | Some j \<Rightarrow> (edit xs)[j := v]) ! j = edit (xs[i := v]) ! j"
    using assms unreached_blank [of xs j] unreached_blank [of "xs[i := v]" j]
    by (auto simp: nth_list_update split: option.splits)
qed

lemma map_commute:
  assumes "length xs = len" and "f blank = blank"
  shows "edit (map f xs) = map f (edit xs)"
proof (rule edit_eqI)
  fix j assume "j < len'" "\<forall>k<len. shift k \<noteq> Some j"
  then show "map f (edit xs) ! j = edit (map f xs) ! j"
    using assms unreached_blank [of xs j] unreached_blank [of "map f xs" j] length_edit by simp
qed (use assms length_edit track shift_bound in auto)

end

end
