(* ===== verification/Structural.thy ===== *)
theory Structural
  imports Addressing LineEdits
begin

text \<open>
  Structural edits of a workbook: rows and columns inserted, deleted or moved, sheets
  added, deleted or moved (\<open>packages/spreadsheet/src/filter.ts\<close>), the recorded intents
  and batch summaries they are read from (\<open>packages/schemas/src/spreadsheet.ts\<close>), and
  where an index lands after an edit.

  Every index map is shown to be the splice it stands for, by an interpretation of the
  contract \<open>line_edit\<close>.
\<close>

section \<open>Edits, intents and summaries\<close>

datatype axis = RowAxis | ColumnAxis

datatype structural_edit =
    InsertRows (edit_sheet: int) int int
  | DeleteRows (edit_sheet: int) int int
  | InsertColumns (edit_sheet: int) int int
  | DeleteColumns (edit_sheet: int) int int
  | MoveRows (edit_sheet: int) int int int
  | MoveColumns (edit_sheet: int) int int int
  | AddSheet int
  | DeleteSheet int
  | MoveSheet int int

datatype structural_kind =
    SKInsertRows | SKDeleteRows | SKInsertColumns | SKDeleteColumns | SKMoveRows | SKMoveColumns
  | SKSort | SKAddSheet | SKDeleteSheet | SKRenameSheet | SKMoveSheet | SKRestore

datatype clear_kind = ClearAll | ClearContents | ClearFormatting

text \<open>
  One recorded call of the browser.  \<open>IntUndoRedo\<close> is the two-valued kind \<open>undo\<close> or
  \<open>redo\<close>; the boolean is \<open>True\<close> for \<open>redo\<close>.
\<close>

datatype intent =
    IntSetUserInput int int int jsstring
  | IntUpdateRangeStyle int selection jsstring jsstring
  | IntRangeClear clear_kind int selection
  | IntInsertRows int int int
  | IntDeleteRows int int int
  | IntInsertColumns int int int
  | IntDeleteColumns int int int
  | IntMoveRows int int int int
  | IntMoveColumns int int int int
  | IntSetRowsHidden int int int bool
  | IntSetColumnsHidden int int int bool
  | IntSetRowsHeight int int int int
  | IntSetColumnsWidth int int int int
  | IntSetFrozenRowsCount int int
  | IntSetFrozenColumnsCount int int
  | IntPaste int int int bool
  | IntUndoRedo bool

record batch_summary =
  structuralKind :: "structural_kind option"
  sheetIndexes :: "int list"
  cellCount :: int
  touched :: "rectangle list"
  intents :: "intent list option"

fun structuralEditsFromIntent :: "intent \<Rightarrow> structural_edit list" where
  "structuralEditsFromIntent (IntInsertRows sheet row count) = [InsertRows sheet row count]"
| "structuralEditsFromIntent (IntDeleteRows sheet row count) = [DeleteRows sheet row count]"
| "structuralEditsFromIntent (IntInsertColumns sheet column count) = [InsertColumns sheet column count]"
| "structuralEditsFromIntent (IntDeleteColumns sheet column count) = [DeleteColumns sheet column count]"
| "structuralEditsFromIntent (IntMoveRows sheet start count delta) = [MoveRows sheet start count delta]"
| "structuralEditsFromIntent (IntMoveColumns sheet start count delta) =
     [MoveColumns sheet start count delta]"
| "structuralEditsFromIntent _ = []"

definition structuralEditsFromSummary :: "batch_summary \<Rightarrow> structural_edit list" where
  "structuralEditsFromSummary summary =
     (case (structuralKind summary, intents summary) of
        (Some _, Some is) \<Rightarrow> concat (map structuralEditsFromIntent is)
      | _ \<Rightarrow> [])"

section \<open>Where an index lands\<close>

text \<open>The three shapes of \<open>shiftIndex\<close>, for the axis the edit runs along.\<close>

definition shift_inserted :: "int \<Rightarrow> int \<Rightarrow> int \<Rightarrow> int option" where
  "shift_inserted at count index = Some (if index \<ge> at then index + count else index)"

definition shift_deleted :: "int \<Rightarrow> int \<Rightarrow> int \<Rightarrow> int option" where
  "shift_deleted at count index =
     (if index \<ge> at \<and> index < at + count then None
      else Some (if index \<ge> at + count then index - count else index))"

definition shift_moved :: "int \<Rightarrow> int \<Rightarrow> int \<Rightarrow> int \<Rightarrow> int option" where
  "shift_moved start count delta index =
     Some (if delta = 0 then index
           else if index \<ge> start \<and> index < start + count then index + delta
           else if delta > 0 \<and> index \<ge> start + count \<and> index < start + count + delta
             then index - count
           else if delta < 0 \<and> index \<ge> start + delta \<and> index < start then index + count
           else index)"

fun shiftIndex :: "int \<Rightarrow> structural_edit \<Rightarrow> axis \<Rightarrow> int option" where
  "shiftIndex index (InsertRows _ row count) axis =
     (if axis = RowAxis then shift_inserted row count index else Some index)"
| "shiftIndex index (DeleteRows _ row count) axis =
     (if axis \<noteq> RowAxis then Some index else shift_deleted row count index)"
| "shiftIndex index (InsertColumns _ column count) axis =
     (if axis \<noteq> RowAxis then shift_inserted column count index else Some index)"
| "shiftIndex index (DeleteColumns _ column count) axis =
     (if axis = RowAxis then Some index else shift_deleted column count index)"
| "shiftIndex index (MoveRows _ start count delta) axis =
     (if axis \<noteq> RowAxis then Some index else shift_moved start count delta index)"
| "shiftIndex index (MoveColumns _ start count delta) axis =
     (if axis = RowAxis then Some index else shift_moved start count delta index)"
| "shiftIndex index _ axis = Some index"

fun remapSheetIndex :: "int \<Rightarrow> structural_edit \<Rightarrow> int option" where
  "remapSheetIndex sheet (AddSheet index) = Some (if sheet \<ge> index then sheet + 1 else sheet)"
| "remapSheetIndex sheet (DeleteSheet index) =
     (if sheet = index then None else Some (if sheet > index then sheet - 1 else sheet))"
| "remapSheetIndex sheet (MoveSheet from to) =
     Some (if sheet = from then to
           else if from < to \<and> sheet > from \<and> sheet \<le> to then sheet - 1
           else if from > to \<and> sheet \<ge> to \<and> sheet < from then sheet + 1
           else sheet)"
| "remapSheetIndex sheet _ = Some sheet"

section \<open>Every index map keeps the line contract\<close>

text \<open>An index map of the code, seen on 0-based positions.\<close>

definition position_map :: "(int \<Rightarrow> int option) \<Rightarrow> nat \<Rightarrow> nat option" where
  "position_map f i = map_option (\<lambda>j. nat (j - 1)) (f (int i + 1))"

lemma position_inserted:
  "position_map (shift_inserted (int a + 1) (int n)) = (\<lambda>i. Some (if a \<le> i then i + n else i))"
  by (rule ext) (auto simp: position_map_def shift_inserted_def nat_add_distrib)

lemma position_deleted:
  "position_map (shift_deleted (int a + 1) (int n)) =
     (\<lambda>i. if a \<le> i \<and> i < a + n then None else Some (if a + n \<le> i then i - n else i))"
  by (rule ext) (auto simp: position_map_def shift_deleted_def)

lemma position_moved_down:
  "position_map (shift_moved (int a + 1) (int n) (int m)) =
     (\<lambda>i. Some (if a \<le> i \<and> i < a + n then i + m
                else if a + n \<le> i \<and> i < a + n + m then i - n else i))"
  by (rule ext) (auto simp: position_map_def shift_moved_def nat_add_distrib)

lemma position_moved_up:
  "position_map (shift_moved (int (a + m) + 1) (int n) (- int m)) =
     (\<lambda>i. Some (if a + m \<le> i \<and> i < a + m + n then i - m
                else if a \<le> i \<and> i < a + m then i + n else i))"
  by (rule ext) (auto simp: position_map_def shift_moved_def nat_add_distrib)

text \<open>Rows or columns inserted before line \<open>a\<close> of \<open>a + b\<close>.\<close>

interpretation inserted: line_edit
  "position_map (shift_inserted (int a + 1) (int n))"
  "\<lambda>j. if j < a then Some j else if j < a + n then None else Some (j - n)"
  "insert_at a n blank" blank "a + b" "a + n + b" for a n b :: nat and blank :: 'a
  unfolding position_inserted
  by unfold_locales
    (auto simp: insert_at_def nth_append split: if_splits)

text \<open>The \<open>n\<close> lines from \<open>a\<close> on deleted, \<open>b\<close> lines after them.\<close>

interpretation deleted: line_edit
  "position_map (shift_deleted (int a + 1) (int n))"
  "\<lambda>j. Some (if j < a then j else j + n)"
  "delete_at a n" blank "a + n + b" "a + b" for a n b :: nat and blank :: 'a
  unfolding position_deleted
  by unfold_locales
    (auto simp: delete_at_def nth_append split: if_splits)

text \<open>A block of \<open>n\<close> lines moved down over \<open>m\<close> lines, and up over \<open>m\<close> lines.\<close>

interpretation moved_down: line_edit
  "position_map (shift_moved (int a + 1) (int n) (int m))"
  "\<lambda>j. Some (if a \<le> j \<and> j < a + m then j + n else if a + m \<le> j \<and> j < a + m + n then j - m else j)"
  "move_block a n (a + m)" blank "a + n + m + b" "a + n + m + b" for a n m b :: nat and blank :: 'a
  unfolding position_moved_down
  by unfold_locales
    (auto simp: move_block_def delete_at_def Let_def nth_append
      min_def split: if_splits)

interpretation moved_up: line_edit
  "position_map (shift_moved (int (a + m) + 1) (int n) (- int m))"
  "\<lambda>j. Some (if a \<le> j \<and> j < a + n then j + m else if a + n \<le> j \<and> j < a + n + m then j - n else j)"
  "move_block (a + m) n a" blank "a + m + n + b" "a + m + n + b" for a n m b :: nat and blank :: 'a
  unfolding position_moved_up
  by unfold_locales
    (auto simp: move_block_def delete_at_def Let_def nth_append
      min_def split: if_splits)

text \<open>An edit of the other axis leaves the lines alone.\<close>

interpretation untouched: line_edit "position_map Some" Some "\<lambda>xs. xs" blank n n
  for n :: nat and blank :: 'a
  by unfold_locales (auto simp: position_map_def)

section \<open>Every edit of the code is a line edit\<close>

text \<open>
  \<open>edit_lines axis e blank\<close> is what the edit does to the list of lines of one axis, and
  \<open>lines_fit axis e n\<close> that it addresses lines a sheet of \<open>n\<close> lines has.
\<close>

fun edit_lines :: "axis \<Rightarrow> structural_edit \<Rightarrow> 'a \<Rightarrow> 'a list \<Rightarrow> 'a list" where
  "edit_lines RowAxis (InsertRows _ row count) blank xs = insert_at (nat (row - 1)) (nat count) blank xs"
| "edit_lines RowAxis (DeleteRows _ row count) blank xs = delete_at (nat (row - 1)) (nat count) xs"
| "edit_lines RowAxis (MoveRows _ start count delta) blank xs =
     move_block (nat (start - 1)) (nat count) (nat (start + delta - 1)) xs"
| "edit_lines ColumnAxis (InsertColumns _ column count) blank xs =
     insert_at (nat (column - 1)) (nat count) blank xs"
| "edit_lines ColumnAxis (DeleteColumns _ column count) blank xs =
     delete_at (nat (column - 1)) (nat count) xs"
| "edit_lines ColumnAxis (MoveColumns _ start count delta) blank xs =
     move_block (nat (start - 1)) (nat count) (nat (start + delta - 1)) xs"
| "edit_lines _ _ blank xs = xs"

lemmas edit_lines_fun = edit_lines.simps [abs_def]

definition insert_fits :: "int \<Rightarrow> int \<Rightarrow> nat \<Rightarrow> bool" where
  "insert_fits at count n \<longleftrightarrow> 1 \<le> at \<and> at \<le> int n + 1 \<and> 0 \<le> count"

definition delete_fits :: "int \<Rightarrow> int \<Rightarrow> nat \<Rightarrow> bool" where
  "delete_fits at count n \<longleftrightarrow> 1 \<le> at \<and> at + count \<le> int n + 1 \<and> 0 \<le> count"

definition move_fits :: "int \<Rightarrow> int \<Rightarrow> int \<Rightarrow> nat \<Rightarrow> bool" where
  "move_fits start count delta n \<longleftrightarrow>
     delete_fits start count n \<and> 1 \<le> start + delta \<and> start + delta + count \<le> int n + 1"

fun lines_fit :: "axis \<Rightarrow> structural_edit \<Rightarrow> nat \<Rightarrow> bool" where
  "lines_fit RowAxis (InsertRows _ row count) n = insert_fits row count n"
| "lines_fit RowAxis (DeleteRows _ row count) n = delete_fits row count n"
| "lines_fit RowAxis (MoveRows _ start count delta) n = move_fits start count delta n"
| "lines_fit ColumnAxis (InsertColumns _ column count) n = insert_fits column count n"
| "lines_fit ColumnAxis (DeleteColumns _ column count) n = delete_fits column count n"
| "lines_fit ColumnAxis (MoveColumns _ start count delta) n = move_fits start count delta n"
| "lines_fit _ _ n = True"

text \<open>The number of lines afterwards.\<close>

fun lines_after :: "axis \<Rightarrow> structural_edit \<Rightarrow> nat \<Rightarrow> nat" where
  "lines_after RowAxis (InsertRows _ row count) n = n + nat count"
| "lines_after RowAxis (DeleteRows _ row count) n = n - nat count"
| "lines_after ColumnAxis (InsertColumns _ column count) n = n + nat count"
| "lines_after ColumnAxis (DeleteColumns _ column count) n = n - nat count"
| "lines_after _ _ n = n"

lemma line_edit_insert:
  assumes "insert_fits at count n"
  shows "\<exists>origin. line_edit (position_map (shift_inserted at count)) origin
    (insert_at (nat (at - 1)) (nat count) blank) blank n (n + nat count)"
proof -
  define a where "a = nat (at - 1)"
  define b where "b = n - a"
  have e: "at = int a + 1" "count = int (nat count)" "n = a + b"
    using assms by (auto simp: insert_fits_def a_def b_def)
  have "\<exists>origin. line_edit (position_map (shift_inserted (int a + 1) (int (nat count)))) origin
      (insert_at a (nat count) blank) blank (a + b) (a + nat count + b)"
    by (rule exI) (rule inserted.line_edit_axioms)
  then show ?thesis
    unfolding a_def [symmetric] e(1) [symmetric] e(2) [symmetric] e(3) by (simp add: ac_simps)
qed

lemma line_edit_delete:
  assumes "delete_fits at count n"
  shows "\<exists>origin. line_edit (position_map (shift_deleted at count)) origin
    (delete_at (nat (at - 1)) (nat count)) blank n (n - nat count)"
proof -
  define a where "a = nat (at - 1)"
  define b where "b = n - a - nat count"
  have e: "at = int a + 1" "count = int (nat count)" "n = a + nat count + b"
    using assms by (auto simp: delete_fits_def a_def b_def)
  have "\<exists>origin. line_edit (position_map (shift_deleted (int a + 1) (int (nat count)))) origin
      (delete_at a (nat count)) blank (a + nat count + b) (a + b)"
    by (rule exI) (rule deleted.line_edit_axioms)
  then show ?thesis
    unfolding a_def [symmetric] e(1) [symmetric] e(2) [symmetric] e(3) by simp
qed

lemma line_edit_move:
  assumes "move_fits start count delta n"
  shows "\<exists>origin. line_edit (position_map (shift_moved start count delta)) origin
    (move_block (nat (start - 1)) (nat count) (nat (start + delta - 1))) blank n n"
proof (cases "0 \<le> delta")
  case True
  define a where "a = nat (start - 1)"
  define m where "m = nat delta"
  define b where "b = n - a - nat count - m"
  have e: "start = int a + 1" "count = int (nat count)" "delta = int m" "n = a + nat count + m + b"
    "nat (start + delta - 1) = a + m"
    using assms True by (auto simp: move_fits_def delete_fits_def a_def b_def m_def nat_add_distrib)
  have "\<exists>origin. line_edit (position_map (shift_moved (int a + 1) (int (nat count)) (int m))) origin
      (move_block a (nat count) (a + m)) blank (a + nat count + m + b) (a + nat count + m + b)"
    by (rule exI) (rule moved_down.line_edit_axioms)
  then show ?thesis
    unfolding a_def [symmetric] e(1) [symmetric] e(2) [symmetric] e(3) [symmetric] e(4) e(5) .
next
  case False
  define m where "m = nat (- delta)"
  define a where "a = nat (start + delta - 1)"
  define b where "b = n - a - m - nat count"
  have e: "start = int (a + m) + 1" "count = int (nat count)" "delta = - int m"
    "n = a + m + nat count + b" "nat (start - 1) = a + m"
    using assms False by (auto simp: move_fits_def delete_fits_def a_def b_def m_def)
  have "\<exists>origin. line_edit (position_map (shift_moved (int (a + m) + 1) (int (nat count)) (- int m)))
      origin (move_block (a + m) (nat count) a) blank (a + m + nat count + b) (a + m + nat count + b)"
    by (rule exI) (rule moved_up.line_edit_axioms)
  then show ?thesis
    unfolding a_def [symmetric] e(5) e(1) [symmetric] e(2) [symmetric] e(3) [symmetric] e(4) .
qed

lemma line_edit_of:
  assumes "lines_fit axis e n"
  shows "\<exists>origin. line_edit (position_map (\<lambda>i. shiftIndex i e axis)) origin
    (edit_lines axis e blank) blank n (lines_after axis e n)"
proof -
  have id: "\<exists>origin. line_edit (position_map Some) origin (\<lambda>xs. xs) blank n n"
    by (rule exI) (rule untouched.line_edit_axioms)
  show ?thesis
    using assms line_edit_insert [where blank = blank] line_edit_delete [where blank = blank]
      line_edit_move [where blank = blank] id
    by (cases e; cases axis) (simp_all add: edit_lines_fun)
qed


section \<open>Facts about the index map itself\<close>

text \<open>Two surviving lines never land on the same place.\<close>

lemma shift_inserted_inj:
  "0 \<le> count \<Longrightarrow> shift_inserted at count i = Some j \<Longrightarrow> shift_inserted at count k = Some j \<Longrightarrow> i = k"
  by (auto simp: shift_inserted_def split: if_splits)

lemma shift_deleted_inj:
  "0 \<le> count \<Longrightarrow> shift_deleted at count i = Some j \<Longrightarrow> shift_deleted at count k = Some j \<Longrightarrow> i = k"
  by (auto simp: shift_deleted_def split: if_splits)

lemma shift_moved_inj:
  "0 \<le> count \<Longrightarrow> shift_moved s count d i = Some j \<Longrightarrow> shift_moved s count d k = Some j \<Longrightarrow> i = k"
  by (auto simp: shift_moved_def split: if_splits)

lemma shift_moved_total: "shift_moved s count d i \<noteq> None"
  by (simp add: shift_moved_def)

text \<open>Moving a block and moving it back is the identity on indexes.\<close>

lemma shift_moved_back:
  assumes "0 \<le> count"
  shows "Option.bind (shift_moved s count d i) (shift_moved (s + d) count (- d)) = Some i"
  using assms by (auto simp: shift_moved_def)

text \<open>The lines an edit deletes.\<close>

fun deletes_line :: "axis \<Rightarrow> structural_edit \<Rightarrow> int \<Rightarrow> bool" where
  "deletes_line RowAxis (DeleteRows _ row count) i = (row \<le> i \<and> i < row + count)"
| "deletes_line ColumnAxis (DeleteColumns _ column count) i = (column \<le> i \<and> i < column + count)"
| "deletes_line _ _ i = False"

lemma shiftIndex_None: "shiftIndex i e axis = None \<longleftrightarrow> deletes_line axis e i"
  by (cases e; cases axis) (auto simp: shift_inserted_def shift_deleted_def shift_moved_def)

lemma shiftIndex_inj:
  assumes "lines_fit axis e n" "shiftIndex i e axis = Some j" "shiftIndex k e axis = Some j"
  shows "i = k"
  using assms
  by (cases e; cases axis)
    (auto simp: insert_fits_def delete_fits_def move_fits_def
      intro: shift_inserted_inj shift_deleted_inj shift_moved_inj)

lemma shiftIndex_pos:
  assumes "lines_fit axis e n" "1 \<le> i" "shiftIndex i e axis = Some j"
  shows "1 \<le> j"
  using assms
  by (cases e; cases axis)
    (auto simp: insert_fits_def delete_fits_def move_fits_def shift_inserted_def shift_deleted_def
      shift_moved_def split: if_splits)

text \<open>Every edit is inert along one of the two axes.\<close>

fun edit_axis :: "structural_edit \<Rightarrow> axis" where
  "edit_axis (InsertColumns _ _ _) = ColumnAxis"
| "edit_axis (DeleteColumns _ _ _) = ColumnAxis"
| "edit_axis (MoveColumns _ _ _ _) = ColumnAxis"
| "edit_axis _ = RowAxis"

lemma inert_axis:
  assumes "axis \<noteq> edit_axis e"
  shows "shiftIndex i e axis = Some i" "edit_lines axis e blank xs = xs"
    "lines_fit axis e n" "lines_after axis e n = n"
  using assms by (cases e; cases axis; simp)+

lemma position_at:
  "1 \<le> i \<Longrightarrow> position_map f (nat (i - 1)) = map_option (\<lambda>j. nat (j - 1)) (f i)"
  by (simp add: position_map_def)

lemma line_update:
  assumes "lines_fit axis e (length xs)" "1 \<le> i" "i \<le> int (length xs)"
  shows "edit_lines axis e blank (xs[nat (i - 1) := v]) =
    (case shiftIndex i e axis of None \<Rightarrow> edit_lines axis e blank xs
     | Some j \<Rightarrow> (edit_lines axis e blank xs)[nat (j - 1) := v])"
proof -
  obtain origin where "line_edit (position_map (\<lambda>i. shiftIndex i e axis)) origin
      (edit_lines axis e blank) blank (length xs) (lines_after axis e (length xs))"
    using line_edit_of [OF assms(1), of blank] by (elim exE)
  from line_edit.update_commute [OF this, of xs "nat (i - 1)" v] show ?thesis
    using assms(2,3) by (simp add: position_at split: option.split)
qed

lemma line_track:
  assumes "lines_fit axis e (length xs)" "1 \<le> i" "i \<le> int (length xs)" "shiftIndex i e axis = Some j"
  shows "edit_lines axis e blank xs ! nat (j - 1) = xs ! nat (i - 1)"
    and "nat (j - 1) < length (edit_lines axis e blank xs)"
proof -
  obtain origin where le: "line_edit (position_map (\<lambda>i. shiftIndex i e axis)) origin
      (edit_lines axis e blank) blank (length xs) (lines_after axis e (length xs))"
    using line_edit_of [OF assms(1), of blank] by (elim exE)
  show "edit_lines axis e blank xs ! nat (j - 1) = xs ! nat (i - 1)"
    using line_edit.track [OF le, of xs "nat (i - 1)" "nat (j - 1)"] assms by (simp add: position_at)
  show "nat (j - 1) < length (edit_lines axis e blank xs)"
    using line_edit.shift_bound [OF le, of "nat (i - 1)" "nat (j - 1)"]
      line_edit.length_edit [OF le, of xs] assms by (simp add: position_at)
qed

text \<open>C15: the index arithmetic is the splice.  For an edit that fits a sheet of
  \<open>length xs\<close> lines, \<open>shiftIndex\<close> sends the line at index \<open>i\<close> to the index that holds the
  same line afterwards, reports \<open>null\<close> only for a line inside the deleted block, keeps
  distinct lines distinct, and a line nothing was sent to is one the edit inserted blank.\<close>

theorem shiftIndex_tracks_lines:
  fixes xs :: "'a list" and blank :: 'a
  assumes "lines_fit axis e (length xs)"
  shows "length (edit_lines axis e blank xs) = lines_after axis e (length xs) \<and>
    (\<forall>i. 1 \<le> i \<and> i \<le> int (length xs) \<longrightarrow>
       (case shiftIndex i e axis of
          Some j \<Rightarrow> 1 \<le> j \<and> j \<le> int (lines_after axis e (length xs)) \<and>
            edit_lines axis e blank xs ! nat (j - 1) = xs ! nat (i - 1)
        | None \<Rightarrow> deletes_line axis e i)) \<and>
    (\<forall>i k j. shiftIndex i e axis = Some j \<and> shiftIndex k e axis = Some j \<longrightarrow> i = k) \<and>
    (\<forall>j. 1 \<le> j \<and> j \<le> int (lines_after axis e (length xs)) \<longrightarrow>
       (\<exists>i. 1 \<le> i \<and> i \<le> int (length xs) \<and> shiftIndex i e axis = Some j) \<or>
       edit_lines axis e blank xs ! nat (j - 1) = blank)"
proof (intro conjI allI impI)
  obtain origin where le: "line_edit (position_map (\<lambda>i. shiftIndex i e axis)) origin
      (edit_lines axis e blank) blank (length xs) (lines_after axis e (length xs))"
    using line_edit_of [OF assms, of blank] by (elim exE)
  show len: "length (edit_lines axis e blank xs) = lines_after axis e (length xs)"
    using line_edit.length_edit [OF le] by simp
  fix i assume i: "1 \<le> i \<and> i \<le> int (length xs)"
  show "case shiftIndex i e axis of
          Some j \<Rightarrow> 1 \<le> j \<and> j \<le> int (lines_after axis e (length xs)) \<and>
            edit_lines axis e blank xs ! nat (j - 1) = xs ! nat (i - 1)
        | None \<Rightarrow> deletes_line axis e i"
  proof (cases "shiftIndex i e axis")
    case None
    then show ?thesis using shiftIndex_None [of i e axis] by simp
  next
    case (Some j)
    have "1 \<le> j" using shiftIndex_pos [OF assms _ Some] i by simp
    moreover have "nat (j - 1) < lines_after axis e (length xs)"
      using line_track(2) [OF assms _ _ Some, of blank] i len by simp
    moreover have "edit_lines axis e blank xs ! nat (j - 1) = xs ! nat (i - 1)"
      using line_track(1) [OF assms _ _ Some, of blank] i by simp
    ultimately show ?thesis using Some by simp
  qed
next
  fix i k j assume "shiftIndex i e axis = Some j \<and> shiftIndex k e axis = Some j"
  then show "i = k" using shiftIndex_inj [OF assms] by blast
next
  obtain origin where le: "line_edit (position_map (\<lambda>i. shiftIndex i e axis)) origin
      (edit_lines axis e blank) blank (length xs) (lines_after axis e (length xs))"
    using line_edit_of [OF assms, of blank] by (elim exE)
  fix j assume j: "1 \<le> j \<and> j \<le> int (lines_after axis e (length xs))"
  then have j': "nat (j - 1) < lines_after axis e (length xs)" by linarith
  show "(\<exists>i. 1 \<le> i \<and> i \<le> int (length xs) \<and> shiftIndex i e axis = Some j) \<or>
       edit_lines axis e blank xs ! nat (j - 1) = blank"
  proof (cases "origin (nat (j - 1))")
    case None
    then show ?thesis using line_edit.origin_none [OF le _ j'] by simp
  next
    case (Some p)
    from line_edit.origin_some [OF le j' Some] have p: "p < length xs"
      "position_map (\<lambda>i. shiftIndex i e axis) p = Some (nat (j - 1))" by auto
    then obtain j2 where j2: "shiftIndex (int p + 1) e axis = Some j2" "nat (j2 - 1) = nat (j - 1)"
      by (auto simp: position_map_def)
    then have "1 \<le> j2" using shiftIndex_pos [OF assms _ j2(1)] by simp
    then have "j2 = j" using j2(2) j by linarith
    then show ?thesis using j2(1) p(1) by (intro disjI1 exI [of _ "int p + 1"]) auto
  qed
qed

theorem shiftIndex_tracks_lines_witness:
  "shiftIndex 5 (DeleteRows 0 2 2) RowAxis = Some 3 \<and>
   edit_lines RowAxis (DeleteRows 0 2 2) 0 [10, 20, 30, 40, 50 :: nat] ! nat (3 - 1)
     = [10, 20, 30, 40, 50] ! nat (5 - 1)"
proof -
  have "lines_fit RowAxis (DeleteRows 0 2 2) (length [10, 20, 30, 40, 50 :: nat])"
    by (simp add: delete_fits_def)
  from shiftIndex_tracks_lines [OF this, of 0] show ?thesis
    by (simp add: shift_deleted_def delete_at_def)
qed

end
