(* ===== verification/Grids.thy ===== *)
theory Grids
  imports Structural
begin

text \<open>
  The abstract workbook the structural code is about: a list of sheets, each the matrix of
  its cell contents.  \<open>edit_workbook\<close> is what a structural edit means on it, in terms of the
  splices of \<open>LineEdits\<close>; the theorems say that writing one cell commutes with any edit
  once its address has been shifted the way the code shifts it.
\<close>

section \<open>Grids\<close>

text \<open>
  A sheet as the matrix of its cell contents, \<open>[]\<close> for an empty cell; \<open>rect h w g\<close> says
  it has \<open>h\<close> rows of \<open>w\<close> cells.
\<close>

type_synonym grid = "jsstring list list"

definition rect :: "nat \<Rightarrow> nat \<Rightarrow> grid \<Rightarrow> bool" where
  "rect h w g \<longleftrightarrow> length g = h \<and> (\<forall>row\<in>set g. length row = w)"

definition edit_grid :: "structural_edit \<Rightarrow> nat \<Rightarrow> grid \<Rightarrow> grid" where
  "edit_grid e w g = map (edit_lines ColumnAxis e []) (edit_lines RowAxis e (replicate w []) g)"

definition set_cell :: "int \<Rightarrow> int \<Rightarrow> jsstring \<Rightarrow> grid \<Rightarrow> grid" where
  "set_cell r c v g = g[nat (r - 1) := (g ! nat (r - 1))[nat (c - 1) := v]]"

definition cell_shift :: "structural_edit \<Rightarrow> int \<Rightarrow> int \<Rightarrow> (int \<times> int) option" where
  "cell_shift e r c =
     (case (shiftIndex r e RowAxis, shiftIndex c e ColumnAxis) of
        (Some r', Some c') \<Rightarrow> Some (r', c') | _ \<Rightarrow> None)"

definition edit_fits :: "structural_edit \<Rightarrow> nat \<Rightarrow> nat \<Rightarrow> bool" where
  "edit_fits e h w \<longleftrightarrow> lines_fit RowAxis e h \<and> lines_fit ColumnAxis e w"

lemma rect_row: "rect h w g \<Longrightarrow> i < h \<Longrightarrow> length (g ! i) = w"
  by (auto simp: rect_def)

lemma nth_update_map: "i < length xs \<Longrightarrow> f (xs ! i) = f' \<Longrightarrow> map f xs = (map f xs)[i := f']"
  by (metis length_map list_update_id nth_map)

text \<open>Writing a cell and editing the structure commute, with the cell's address shifted.\<close>

lemma set_cell_edit_rows:
  assumes "rect h w g" "edit_fits e h w" "1 \<le> r" "r \<le> int h" and ax: "edit_axis e = RowAxis"
  shows "edit_grid e w (set_cell r c v g) =
    (case shiftIndex r e RowAxis of None \<Rightarrow> edit_grid e w g
     | Some r' \<Rightarrow> set_cell r' c v (edit_grid e w g))"
proof -
  have eg: "edit_grid e w = edit_lines RowAxis e (replicate w [])"
  proof -
    have "edit_lines ColumnAxis e [] = (\<lambda>row :: jsstring list. row)"
      using ax by (simp add: fun_eq_iff inert_axis(2))
    then show ?thesis by (intro ext) (simp add: edit_grid_def map_idI)
  qed
  have fit: "lines_fit RowAxis e (length g)" and r: "r \<le> int (length g)"
    using assms by (simp_all add: edit_fits_def rect_def)
  show ?thesis
  proof (cases "shiftIndex r e RowAxis")
    case None
    then show ?thesis
      unfolding eg set_cell_def using line_update [OF fit assms(3) r] by simp
  next
    case (Some r')
    then show ?thesis
      unfolding eg set_cell_def
      using line_update [OF fit assms(3) r] line_track(1) [OF fit assms(3) r Some] by simp
  qed
qed

lemma set_cell_edit_columns:
  assumes "rect h w g" "edit_fits e h w" "1 \<le> r" "r \<le> int h" "1 \<le> c" "c \<le> int w"
    and ax: "edit_axis e = ColumnAxis"
  shows "edit_grid e w (set_cell r c v g) =
    (case shiftIndex c e ColumnAxis of None \<Rightarrow> edit_grid e w g
     | Some c' \<Rightarrow> set_cell r c' v (edit_grid e w g))"
proof -
  let ?f = "edit_lines ColumnAxis e []"
  let ?i = "nat (r - 1)"
  have eg: "edit_grid e w = map ?f"
    using ax by (simp add: edit_grid_def fun_eq_iff inert_axis(2))
  have i: "?i < length g" and row: "length (g ! ?i) = w"
    using assms by (auto simp: rect_def)
  have fit: "lines_fit ColumnAxis e (length (g ! ?i))"
    using assms(2) row by (simp add: edit_fits_def)
  have c: "c \<le> int (length (g ! ?i))" using assms(6) row by simp
  show ?thesis
    unfolding eg set_cell_def using line_update [OF fit assms(5) c, of "[]" v] i
    by (cases "shiftIndex c e ColumnAxis") (simp_all add: map_update list_update_same_conv)
qed

lemma set_cell_edit_grid:
  assumes "rect h w g" "edit_fits e h w" "1 \<le> r" "r \<le> int h" "1 \<le> c" "c \<le> int w"
  shows "edit_grid e w (set_cell r c v g) =
    (case cell_shift e r c of None \<Rightarrow> edit_grid e w g
     | Some (r', c') \<Rightarrow> set_cell r' c' v (edit_grid e w g))"
  using set_cell_edit_rows [OF assms(1-4)] set_cell_edit_columns [OF assms]
    inert_axis(1) [of RowAxis e] inert_axis(1) [of ColumnAxis e]
  by (cases "edit_axis e") (auto simp: cell_shift_def split: option.splits)

lemma rect_set_cell: "rect h w g \<Longrightarrow> 1 \<le> r \<Longrightarrow> r \<le> int h \<Longrightarrow> rect h w (set_cell r c v g)"
  unfolding rect_def set_cell_def
  by (auto dest!: subsetD [OF set_update_subset_insert])

section \<open>Workbooks\<close>

text \<open>
  The sheets of a workbook with their sizes.  A new sheet is added at the index the edit
  names, with the size \<open>blank_sheet\<close> has.
\<close>

record sheet_state =
  height :: nat
  width :: nat
  cells :: grid

type_synonym workbook = "sheet_state list"

definition sheet_ok :: "sheet_state \<Rightarrow> bool" where
  "sheet_ok s \<longleftrightarrow> rect (height s) (width s) (cells s)"

definition edit_sheet_state :: "structural_edit \<Rightarrow> sheet_state \<Rightarrow> sheet_state" where
  "edit_sheet_state e s =
     \<lparr>height = lines_after RowAxis e (height s), width = lines_after ColumnAxis e (width s),
      cells = edit_grid e (width s) (cells s)\<rparr>"

fun is_sheet_edit :: "structural_edit \<Rightarrow> bool" where
  "is_sheet_edit (AddSheet _) = True"
| "is_sheet_edit (DeleteSheet _) = True"
| "is_sheet_edit (MoveSheet _ _) = True"
| "is_sheet_edit _ = False"

fun edit_workbook :: "sheet_state \<Rightarrow> structural_edit \<Rightarrow> workbook \<Rightarrow> workbook" where
  "edit_workbook new (AddSheet index) wb = insert_at (nat index) 1 new wb"
| "edit_workbook new (DeleteSheet index) wb = delete_at (nat index) 1 wb"
| "edit_workbook new (MoveSheet from to) wb = move_block (nat from) 1 (nat to) wb"
| "edit_workbook new e wb = wb[nat (edit_sheet e) := edit_sheet_state e (wb ! nat (edit_sheet e))]"

fun workbook_fits :: "structural_edit \<Rightarrow> workbook \<Rightarrow> bool" where
  "workbook_fits (AddSheet index) wb = (0 \<le> index \<and> index \<le> int (length wb))"
| "workbook_fits (DeleteSheet index) wb = (0 \<le> index \<and> index < int (length wb))"
| "workbook_fits (MoveSheet from to) wb =
     (0 \<le> from \<and> from < int (length wb) \<and> 0 \<le> to \<and> to < int (length wb))"
| "workbook_fits e wb =
     (0 \<le> edit_sheet e \<and> edit_sheet e < int (length wb) \<and>
      edit_fits e (height (wb ! nat (edit_sheet e))) (width (wb ! nat (edit_sheet e))))"

definition write_cell :: "int \<Rightarrow> int \<Rightarrow> int \<Rightarrow> jsstring \<Rightarrow> workbook \<Rightarrow> workbook" where
  "write_cell s r c v wb =
     wb[nat s := (wb ! nat s)\<lparr>cells := set_cell r c v (cells (wb ! nat s))\<rparr>]"

definition cell_in_workbook :: "int \<Rightarrow> int \<Rightarrow> int \<Rightarrow> workbook \<Rightarrow> bool" where
  "cell_in_workbook s r c wb \<longleftrightarrow>
     0 \<le> s \<and> s < int (length wb) \<and> 1 \<le> r \<and> r \<le> int (height (wb ! nat s)) \<and>
     1 \<le> c \<and> c \<le> int (width (wb ! nat s))"

text \<open>Where a cell of the workbook lands: its sheet through the sheet map, and its address
  through the line maps when the edit is on its sheet.\<close>

definition locate :: "structural_edit \<Rightarrow> int \<Rightarrow> int \<Rightarrow> int \<Rightarrow> (int \<times> int \<times> int) option" where
  "locate e s r c =
     (case remapSheetIndex s e of None \<Rightarrow> None
      | Some s' \<Rightarrow>
        if is_sheet_edit e \<or> edit_sheet e \<noteq> s then Some (s', r, c)
        else map_option (\<lambda>(r', c'). (s', r', c')) (cell_shift e r c))"

text \<open>The sheet map is the line map of a one-line edit of the list of sheets.\<close>

lemma sheet_line_edit:
  assumes "workbook_fits e wb" "is_sheet_edit e"
  shows "\<exists>origin len'. line_edit (\<lambda>i. map_option nat (remapSheetIndex (int i) e)) origin
    (edit_workbook new e) new (length wb) len'"
proof (cases e)
  case (AddSheet index)
  define a where "a = nat index"
  define b where "b = length wb - a"
  have e: "index = int a" "length wb = a + b"
    using assms AddSheet by (auto simp: a_def b_def)
  have "(\<lambda>i. map_option nat (remapSheetIndex (int i) e)) = (\<lambda>i. Some (if a \<le> i then i + 1 else i))"
    using AddSheet e by (auto simp: fun_eq_iff nat_add_distrib)
  moreover have "edit_workbook new e = insert_at a 1 new"
    using AddSheet e by (simp add: fun_eq_iff)
  ultimately show ?thesis
    using inserted.line_edit_axioms [where a = a and n = 1 and b = b and blank = new] e(2) unfolding position_inserted by auto
next
  case (DeleteSheet index)
  define a where "a = nat index"
  define b where "b = length wb - a - 1"
  have e: "index = int a" "length wb = a + 1 + b"
    using assms DeleteSheet by (auto simp: a_def b_def)
  have "(\<lambda>i. map_option nat (remapSheetIndex (int i) e)) =
      (\<lambda>i. if a \<le> i \<and> i < a + 1 then None else Some (if a + 1 \<le> i then i - 1 else i))"
    using DeleteSheet e by (auto simp: fun_eq_iff)
  moreover have "edit_workbook new e = delete_at a 1"
    using DeleteSheet e by (simp add: fun_eq_iff)
  ultimately show ?thesis
    using deleted.line_edit_axioms [where a = a and n = 1 and b = b and blank = new] e(2) unfolding position_deleted by auto
next
  case (MoveSheet source target)
  show ?thesis
  proof (cases "source \<le> target")
    case True
    define a where "a = nat source"
    define m where "m = nat (target - source)"
    define b where "b = length wb - a - 1 - m"
    have e: "source = int a" "target = int (a + m)" "length wb = a + 1 + m + b"
      using assms MoveSheet True by (auto simp: a_def b_def m_def)
    have "(\<lambda>i. map_option nat (remapSheetIndex (int i) e)) =
        (\<lambda>i. Some (if a \<le> i \<and> i < a + 1 then i + m
                   else if a + 1 \<le> i \<and> i < a + 1 + m then i - 1 else i))"
      using MoveSheet e by (auto simp: fun_eq_iff)
    moreover have "edit_workbook new e = move_block a 1 (a + m)"
      using MoveSheet e by (simp add: fun_eq_iff nat_add_distrib)
    ultimately show ?thesis
      using moved_down.line_edit_axioms [where a = a and n = 1 and m = m and b = b and blank = new] e(3) unfolding position_moved_down by auto
  next
    case False
    define a where "a = nat target"
    define m where "m = nat (source - target)"
    define b where "b = length wb - a - m - 1"
    have e: "target = int a" "source = int (a + m)" "length wb = a + m + 1 + b"
      using assms MoveSheet False by (auto simp: a_def b_def m_def)
    have "(\<lambda>i. map_option nat (remapSheetIndex (int i) e)) =
        (\<lambda>i. Some (if a + m \<le> i \<and> i < a + m + 1 then i - m
                   else if a \<le> i \<and> i < a + m then i + 1 else i))"
      using MoveSheet e False by (auto simp: fun_eq_iff)
    moreover have "edit_workbook new e = move_block (a + m) 1 a"
      using MoveSheet e by (simp add: fun_eq_iff nat_add_distrib)
    ultimately show ?thesis
      using moved_up.line_edit_axioms [where a = a and n = 1 and m = m and b = b and blank = new] e(3) unfolding position_moved_up by auto
  qed
qed (use assms in simp_all)

lemma write_cell_sheet_edit:
  assumes fit: "workbook_fits e wb" and se: "is_sheet_edit e" and s: "0 \<le> s" "s < int (length wb)"
  shows "edit_workbook new e (write_cell s r c v wb) =
    (case remapSheetIndex s e of None \<Rightarrow> edit_workbook new e wb
     | Some s' \<Rightarrow> write_cell s' r c v (edit_workbook new e wb))"
proof -
  obtain origin len' where le: "line_edit (\<lambda>i. map_option nat (remapSheetIndex (int i) e)) origin
      (edit_workbook new e) new (length wb) len'"
    using sheet_line_edit [OF fit se, of new] by (elim exE)
  have n: "nat s < length wb" "int (nat s) = s" using s by auto
  show ?thesis
  proof (cases "remapSheetIndex s e")
    case None
    then show ?thesis
      using line_edit.update_commute [OF le refl n(1)] n(2) by (simp add: write_cell_def)
  next
    case (Some s')
    have "edit_workbook new e wb ! nat s' = wb ! nat s"
      using line_edit.track [OF le refl n(1), of "nat s'"] n(2) Some by simp
    then show ?thesis
      using line_edit.update_commute [OF le refl n(1)] n(2) Some by (simp add: write_cell_def)
  qed
qed

lemma line_edit_workbook:
  "\<not> is_sheet_edit e \<Longrightarrow> edit_workbook new e wb =
     wb[nat (edit_sheet e) := edit_sheet_state e (wb ! nat (edit_sheet e))]"
  "\<not> is_sheet_edit e \<Longrightarrow> workbook_fits e wb \<longleftrightarrow>
     0 \<le> edit_sheet e \<and> edit_sheet e < int (length wb) \<and>
     edit_fits e (height (wb ! nat (edit_sheet e))) (width (wb ! nat (edit_sheet e)))"
  "\<not> is_sheet_edit e \<Longrightarrow> remapSheetIndex s e = Some s"
  by (cases e; simp)+

lemma write_cell_line_edit:
  assumes fit: "workbook_fits e wb" and ne: "\<not> is_sheet_edit e" and cell: "cell_in_workbook s r c wb"
    and ok: "sheet_ok (wb ! nat s)" and same: "edit_sheet e = s"
  shows "edit_workbook new e (write_cell s r c v wb) =
    (case cell_shift e r c of None \<Rightarrow> edit_workbook new e wb
     | Some (r', c') \<Rightarrow> write_cell s r' c' v (edit_workbook new e wb))"
proof -
  let ?t = "wb ! nat s"
  have s: "nat s < length wb" using cell by (auto simp: cell_in_workbook_def)
  have "edit_grid e (width ?t) (set_cell r c v (cells ?t)) =
    (case cell_shift e r c of None \<Rightarrow> edit_grid e (width ?t) (cells ?t)
     | Some (r', c') \<Rightarrow> set_cell r' c' v (edit_grid e (width ?t) (cells ?t)))"
    using fit ok cell same ne
    by (intro set_cell_edit_grid [of "height ?t"])
      (auto simp: sheet_ok_def cell_in_workbook_def line_edit_workbook)
  then show ?thesis
    using s same
    by (simp add: line_edit_workbook(1) [OF ne] write_cell_def edit_sheet_state_def
        split: option.split)
qed

text \<open>
  The convergence of one cell write with any structural edit: writing and then editing is
  editing and then writing at the located cell, or just editing when the cell is gone.
\<close>

lemma write_cell_edit_workbook:
  assumes fit: "workbook_fits e wb" and cell: "cell_in_workbook s r c wb"
    and ok: "\<forall>t\<in>set wb. sheet_ok t"
  shows "edit_workbook new e (write_cell s r c v wb) =
    (case locate e s r c of None \<Rightarrow> edit_workbook new e wb
     | Some (s', r', c') \<Rightarrow> write_cell s' r' c' v (edit_workbook new e wb))"
proof -
  have s: "0 \<le> s" "s < int (length wb)" "nat s < length wb"
    using cell by (auto simp: cell_in_workbook_def)
  consider "is_sheet_edit e" | "\<not> is_sheet_edit e" "edit_sheet e \<noteq> s"
    | "\<not> is_sheet_edit e" "edit_sheet e = s" by blast
  then show ?thesis
  proof cases
    case 1
    then show ?thesis
      using write_cell_sheet_edit [OF fit 1 s(1,2)] by (simp add: locate_def split: option.split)
  next
    case 2
    then have "nat (edit_sheet e) \<noteq> nat s"
      using fit s(1) by (simp add: line_edit_workbook(2) eq_nat_nat_iff)
    then show ?thesis
      using 2 by (simp add: locate_def line_edit_workbook write_cell_def list_update_swap)
  next
    case 3
    then show ?thesis
      using write_cell_line_edit [OF fit 3(1) cell _ 3(2), of new v] ok s(3)
      by (simp add: locate_def line_edit_workbook(3) split: option.splits)
  qed
qed

text \<open>What an edit keeps: the sheets stay rectangular, and a located cell is in the workbook.\<close>

lemma length_edit_lines:
  assumes "lines_fit axis e (length xs)"
  shows "length (edit_lines axis e blank xs) = lines_after axis e (length xs)"
proof -
  obtain origin where "line_edit (position_map (\<lambda>i. shiftIndex i e axis)) origin
      (edit_lines axis e blank) blank (length xs) (lines_after axis e (length xs))"
    using line_edit_of [OF assms, of blank] by (elim exE)
  then show ?thesis by (rule line_edit.length_edit) simp
qed

lemma set_edit_lines: "set (edit_lines axis e blank xs) \<subseteq> insert blank (set xs)"
  by (cases e; cases axis)
    (auto simp: insert_at_def delete_at_def move_block_def Let_def dest: in_set_takeD in_set_dropD)

lemma shiftIndex_bounds:
  assumes "lines_fit axis e n" "1 \<le> i" "i \<le> int n" "shiftIndex i e axis = Some j"
  shows "1 \<le> j \<and> j \<le> int (lines_after axis e n)"
proof -
  have "nat (j - 1) < lines_after axis e n"
    using line_track(2) [of axis e "replicate n ()" i j "()"] length_edit_lines [of axis e "replicate n ()" "()"]
      assms by simp
  then show ?thesis using shiftIndex_pos [OF assms(1,2,4)] by linarith
qed

lemma rect_edit_grid:
  assumes "rect h w g" "edit_fits e h w"
  shows "rect (lines_after RowAxis e h) (lines_after ColumnAxis e w) (edit_grid e w g)"
proof -
  have fit: "lines_fit RowAxis e (length g)" "lines_fit ColumnAxis e w" "length g = h"
    using assms by (auto simp: rect_def edit_fits_def)
  have rows: "\<forall>row\<in>set (edit_lines RowAxis e (replicate w []) g). length row = w"
    using assms(1) set_edit_lines [of RowAxis e "replicate w []" g] by (auto simp: rect_def)
  then have "\<forall>row\<in>set (edit_grid e w g). length row = lines_after ColumnAxis e w"
    using fit(2) by (auto simp: edit_grid_def length_edit_lines)
  then show ?thesis
    using fit by (simp add: rect_def edit_grid_def length_edit_lines)
qed

lemma sheets_ok_edit:
  assumes "workbook_fits e wb" "\<forall>t\<in>set wb. sheet_ok t" "sheet_ok new"
  shows "\<forall>t\<in>set (edit_workbook new e wb). sheet_ok t"
proof (cases "is_sheet_edit e")
  case True
  then have "set (edit_workbook new e wb) \<subseteq> insert new (set wb)"
    by (cases e) (auto simp: insert_at_def delete_at_def move_block_def Let_def
        dest: in_set_takeD in_set_dropD)
  then show ?thesis using assms(2,3) by auto
next
  case False
  let ?t = "wb ! nat (edit_sheet e)"
  have "?t \<in> set wb" using assms(1) by (auto simp: line_edit_workbook(2) [OF False])
  then have "sheet_ok ?t" using assms(2) by blast
  then have "sheet_ok (edit_sheet_state e ?t)"
    using assms(1) rect_edit_grid [of "height ?t" "width ?t" "cells ?t" e]
    by (simp add: line_edit_workbook(2) [OF False] sheet_ok_def edit_sheet_state_def)
  then show ?thesis
    using assms(2) by (auto simp: line_edit_workbook(1) [OF False]
        dest!: subsetD [OF set_update_subset_insert])
qed

lemma sheets_ok_write:
  assumes "\<forall>t\<in>set wb. sheet_ok t" "cell_in_workbook s r c wb"
  shows "\<forall>t\<in>set (write_cell s r c v wb). sheet_ok t"
proof -
  let ?t = "wb ! nat s"
  have "?t \<in> set wb" using assms(2) by (auto simp: cell_in_workbook_def)
  then have "sheet_ok ?t" using assms(1) by blast
  then have "sheet_ok (?t\<lparr>cells := set_cell r c v (cells ?t)\<rparr>)"
    using assms(2) rect_set_cell [of "height ?t" "width ?t" "cells ?t" r c v]
    by (simp add: sheet_ok_def cell_in_workbook_def)
  then show ?thesis
    using assms(1) by (auto simp: write_cell_def dest!: subsetD [OF set_update_subset_insert])
qed

lemma locate_in_workbook:
  assumes fit: "workbook_fits e wb" and cell: "cell_in_workbook s r c wb"
    and loc: "locate e s r c = Some (s', r', c')"
  shows "cell_in_workbook s' r' c' (edit_workbook new e wb)"
proof (cases "is_sheet_edit e")
  case True
  have n: "nat s < length wb" "int (nat s) = s" using cell by (auto simp: cell_in_workbook_def)
  obtain origin len' where le: "line_edit (\<lambda>i. map_option nat (remapSheetIndex (int i) e)) origin
      (edit_workbook new e) new (length wb) len'"
    using sheet_line_edit [OF fit True, of new] by (elim exE)
  have m: "remapSheetIndex s e = Some s'" "r' = r" "c' = c"
    using loc True by (auto simp: locate_def split: option.splits)
  have "edit_workbook new e wb ! nat s' = wb ! nat s" "nat s' < length (edit_workbook new e wb)"
    using line_edit.track [OF le refl n(1), of "nat s'"] line_edit.shift_bound [OF le n(1), of "nat s'"]
      line_edit.length_edit [OF le refl] n(2) m by auto
  moreover have "0 \<le> s'"
    using m(1) True fit cell by (cases e) (auto simp: cell_in_workbook_def split: if_splits)
  ultimately show ?thesis using cell m by (auto simp: cell_in_workbook_def)
next
  case False
  have s': "s' = s" using loc False by (auto simp: locate_def line_edit_workbook split: if_splits)
  show ?thesis
  proof (cases "edit_sheet e = s")
    case True
    let ?t = "wb ! nat s"
    have "lines_fit RowAxis e (height ?t)" "lines_fit ColumnAxis e (width ?t)"
      using fit True by (auto simp: line_edit_workbook(2) [OF False] edit_fits_def)
    moreover have "shiftIndex r e RowAxis = Some r'" "shiftIndex c e ColumnAxis = Some c'"
      using loc False True by (auto simp: locate_def cell_shift_def split: option.splits)
    ultimately have "1 \<le> r' \<and> r' \<le> int (lines_after RowAxis e (height ?t))"
      "1 \<le> c' \<and> c' \<le> int (lines_after ColumnAxis e (width ?t))"
      using cell shiftIndex_bounds [of RowAxis e "height ?t" r r']
        shiftIndex_bounds [of ColumnAxis e "width ?t" c c'] by (auto simp: cell_in_workbook_def)
    moreover have "nat s < length wb" using cell by (auto simp: cell_in_workbook_def)
    ultimately show ?thesis
      using cell s' True
      by (simp add: line_edit_workbook(1) [OF False] cell_in_workbook_def edit_sheet_state_def)
  next
    case other: False
    then have "r' = r" "c' = c" "nat (edit_sheet e) \<noteq> nat s"
      using loc False fit cell
      by (auto simp: locate_def line_edit_workbook(2,3) [OF False] cell_in_workbook_def)
    then show ?thesis
      using cell s' by (simp add: line_edit_workbook(1) [OF False] cell_in_workbook_def)
  qed
qed

end
