(* ===== verification/Rebase.thy ===== *)
theory Rebase
  imports Grids
begin

text \<open>
  Replaying recorded intents after a structural refusal
  (\<open>packages/spreadsheet/src/rebase.ts\<close>): every row, column and sheet index of an intent is
  moved through the foreign batches, oldest first; an intent whose target is gone is dropped.
  The theorems state what the file's own comment asks for, on the abstract workbook of
  \<open>Grids\<close>: applying the foreign edits and then the shifted intent is applying the intent
  and then the foreign edits.
\<close>

section \<open>Selections\<close>

definition shiftSelectionThroughMove ::
    "bool \<Rightarrow> int \<Rightarrow> int \<Rightarrow> int \<Rightarrow> selection \<Rightarrow> selection option" where
  "shiftSelectionThroughMove rows start count delta rng =
     (let low = (if rows then r0 rng else c0 rng);
          high = (if rows then r1 rng else c1 rng);
          blockLow = start;
          blockHigh = start + count - 1;
          windowLow = min blockLow (blockLow + delta);
          windowHigh = max blockHigh (blockHigh + delta)
      in if delta = 0 \<or> high < windowLow \<or> low > windowHigh then Some rng
         else if low \<ge> blockLow \<and> high \<le> blockHigh
         then Some (if rows then rng\<lparr>r0 := low + delta, r1 := high + delta\<rparr>
                    else rng\<lparr>c0 := low + delta, c1 := high + delta\<rparr>)
         else None)"

text \<open>A bound inside a deletion collapses onto the deletion's edge.\<close>

fun collapsed_row :: "structural_edit \<Rightarrow> int option" where
  "collapsed_row (DeleteRows _ row _) = Some row"
| "collapsed_row _ = None"

fun collapsed_column :: "structural_edit \<Rightarrow> int option" where
  "collapsed_column (DeleteColumns _ column _) = Some column"
| "collapsed_column _ = None"

definition or_else :: "'a option \<Rightarrow> 'a option \<Rightarrow> 'a option" where
  "or_else a b = (case a of Some x \<Rightarrow> Some x | None \<Rightarrow> b)"

definition shiftSelectionBounds :: "selection \<Rightarrow> structural_edit \<Rightarrow> selection option" where
  "shiftSelectionBounds rng e =
     (let lowRow = or_else (shiftIndex (r0 rng) e RowAxis) (collapsed_row e);
          highRow = or_else (shiftIndex (r1 rng) e RowAxis) (map_option (\<lambda>r. r - 1) (collapsed_row e));
          lowColumn = or_else (shiftIndex (c0 rng) e ColumnAxis) (collapsed_column e);
          highColumn = or_else (shiftIndex (c1 rng) e ColumnAxis)
                         (map_option (\<lambda>c. c - 1) (collapsed_column e))
      in case (lowRow, highRow, lowColumn, highColumn) of
           (Some lr, Some hr, Some lc, Some hc) \<Rightarrow>
             if hr < lr \<or> hc < lc \<or> lr < 1 \<or> lc < 1 then None
             else Some \<lparr>r0 = lr, c0 = lc, r1 = hr, c1 = hc\<rparr>
         | _ \<Rightarrow> None)"

fun shiftSelection :: "selection \<Rightarrow> structural_edit \<Rightarrow> selection option" where
  "shiftSelection rng (MoveRows _ start count delta) =
     shiftSelectionThroughMove True start count delta rng"
| "shiftSelection rng (MoveColumns _ start count delta) =
     shiftSelectionThroughMove False start count delta rng"
| "shiftSelection rng e = shiftSelectionBounds rng e"

section \<open>Intents\<close>

fun intent_sheet :: "intent \<Rightarrow> int option" where
  "intent_sheet (IntUndoRedo _) = None"
| "intent_sheet (IntSetUserInput sheet _ _ _) = Some sheet"
| "intent_sheet (IntUpdateRangeStyle sheet _ _ _) = Some sheet"
| "intent_sheet (IntRangeClear _ sheet _) = Some sheet"
| "intent_sheet (IntInsertRows sheet _ _) = Some sheet"
| "intent_sheet (IntDeleteRows sheet _ _) = Some sheet"
| "intent_sheet (IntInsertColumns sheet _ _) = Some sheet"
| "intent_sheet (IntDeleteColumns sheet _ _) = Some sheet"
| "intent_sheet (IntMoveRows sheet _ _ _) = Some sheet"
| "intent_sheet (IntMoveColumns sheet _ _ _) = Some sheet"
| "intent_sheet (IntSetRowsHidden sheet _ _ _) = Some sheet"
| "intent_sheet (IntSetColumnsHidden sheet _ _ _) = Some sheet"
| "intent_sheet (IntSetRowsHeight sheet _ _ _) = Some sheet"
| "intent_sheet (IntSetColumnsWidth sheet _ _ _) = Some sheet"
| "intent_sheet (IntSetFrozenRowsCount sheet _) = Some sheet"
| "intent_sheet (IntSetFrozenColumnsCount sheet _) = Some sheet"
| "intent_sheet (IntPaste sheet _ _ _) = Some sheet"

text \<open>\<open>{ ...intent, sheet }\<close>.\<close>

fun with_sheet :: "int \<Rightarrow> intent \<Rightarrow> intent" where
  "with_sheet t (IntUndoRedo redo) = IntUndoRedo redo"
| "with_sheet t (IntSetUserInput _ row column v) = IntSetUserInput t row column v"
| "with_sheet t (IntUpdateRangeStyle _ rng path v) = IntUpdateRangeStyle t rng path v"
| "with_sheet t (IntRangeClear kind _ rng) = IntRangeClear kind t rng"
| "with_sheet t (IntInsertRows _ row count) = IntInsertRows t row count"
| "with_sheet t (IntDeleteRows _ row count) = IntDeleteRows t row count"
| "with_sheet t (IntInsertColumns _ column count) = IntInsertColumns t column count"
| "with_sheet t (IntDeleteColumns _ column count) = IntDeleteColumns t column count"
| "with_sheet t (IntMoveRows _ start count delta) = IntMoveRows t start count delta"
| "with_sheet t (IntMoveColumns _ start count delta) = IntMoveColumns t start count delta"
| "with_sheet t (IntSetRowsHidden _ start stop hidden) = IntSetRowsHidden t start stop hidden"
| "with_sheet t (IntSetColumnsHidden _ start stop hidden) = IntSetColumnsHidden t start stop hidden"
| "with_sheet t (IntSetRowsHeight _ start stop sz) = IntSetRowsHeight t start stop sz"
| "with_sheet t (IntSetColumnsWidth _ start stop sz) = IntSetColumnsWidth t start stop sz"
| "with_sheet t (IntSetFrozenRowsCount _ count) = IntSetFrozenRowsCount t count"
| "with_sheet t (IntSetFrozenColumnsCount _ count) = IntSetFrozenColumnsCount t count"
| "with_sheet t (IntPaste _ row column isCut) = IntPaste t row column isCut"

text \<open>The spans of the size and visibility intents.\<close>

definition shift_span :: "structural_edit \<Rightarrow> axis \<Rightarrow> int \<Rightarrow> int \<Rightarrow> (int \<times> int) option" where
  "shift_span e axis start stop =
     (case (shiftIndex start e axis, shiftIndex stop e axis) of
        (Some start', Some stop') \<Rightarrow> if stop' < start' then None else Some (start', stop')
      | _ \<Rightarrow> None)"

text \<open>The \<open>switch\<close> for an intent on the sheet of the edit.\<close>

fun shift_on_sheet :: "int \<Rightarrow> structural_edit \<Rightarrow> intent \<Rightarrow> intent option" where
  "shift_on_sheet t e (IntSetUserInput _ row column v) =
     map_option (\<lambda>(row', column'). IntSetUserInput t row' column' v) (cell_shift e row column)"
| "shift_on_sheet t e (IntPaste _ row column isCut) =
     map_option (\<lambda>(row', column'). IntPaste t row' column' isCut) (cell_shift e row column)"
| "shift_on_sheet t e (IntUpdateRangeStyle _ rng path v) =
     map_option (\<lambda>rng'. IntUpdateRangeStyle t rng' path v) (shiftSelection rng e)"
| "shift_on_sheet t e (IntRangeClear kind _ rng) =
     map_option (\<lambda>rng'. IntRangeClear kind t rng') (shiftSelection rng e)"
| "shift_on_sheet t e (IntInsertRows _ row count) =
     map_option (\<lambda>row'. IntInsertRows t row' count) (shiftIndex row e RowAxis)"
| "shift_on_sheet t e (IntDeleteRows _ row count) =
     map_option (\<lambda>row'. IntDeleteRows t row' count) (shiftIndex row e RowAxis)"
| "shift_on_sheet t e (IntInsertColumns _ column count) =
     map_option (\<lambda>column'. IntInsertColumns t column' count) (shiftIndex column e ColumnAxis)"
| "shift_on_sheet t e (IntDeleteColumns _ column count) =
     map_option (\<lambda>column'. IntDeleteColumns t column' count) (shiftIndex column e ColumnAxis)"
| "shift_on_sheet t e (IntMoveRows _ start count delta) =
     map_option (\<lambda>start'. IntMoveRows t start' count delta) (shiftIndex start e RowAxis)"
| "shift_on_sheet t e (IntMoveColumns _ start count delta) =
     map_option (\<lambda>start'. IntMoveColumns t start' count delta) (shiftIndex start e ColumnAxis)"
| "shift_on_sheet t e (IntSetRowsHidden _ start stop hidden) =
     map_option (\<lambda>(start', stop'). IntSetRowsHidden t start' stop' hidden) (shift_span e RowAxis start stop)"
| "shift_on_sheet t e (IntSetColumnsHidden _ start stop hidden) =
     map_option (\<lambda>(start', stop'). IntSetColumnsHidden t start' stop' hidden)
       (shift_span e ColumnAxis start stop)"
| "shift_on_sheet t e (IntSetRowsHeight _ start stop sz) =
     map_option (\<lambda>(start', stop'). IntSetRowsHeight t start' stop' sz) (shift_span e RowAxis start stop)"
| "shift_on_sheet t e (IntSetColumnsWidth _ start stop sz) =
     map_option (\<lambda>(start', stop'). IntSetColumnsWidth t start' stop' sz)
       (shift_span e ColumnAxis start stop)"
| "shift_on_sheet t e intent = Some (with_sheet t intent)"

definition shiftIntentByEdit :: "intent \<Rightarrow> structural_edit \<Rightarrow> intent option" where
  "shiftIntentByEdit intent e =
     (case intent_sheet intent of None \<Rightarrow> Some intent
      | Some own \<Rightarrow>
        (case remapSheetIndex own e of None \<Rightarrow> None
         | Some sheet \<Rightarrow>
           let sameSheet = (if is_sheet_edit e then False else edit_sheet e = own) in
           if \<not> sameSheet then Some (with_sheet sheet intent)
           else shift_on_sheet sheet e intent))"

text \<open>The inner loop of \<open>shiftIntent\<close> stops at the first edit that removed the intent.\<close>

fun shift_through :: "intent option \<Rightarrow> structural_edit list \<Rightarrow> intent option" where
  "shift_through current [] = current"
| "shift_through current (e # es) =
     (case current of None \<Rightarrow> None | Some i \<Rightarrow> shift_through (shiftIntentByEdit i e) es)"

fun shift_summaries :: "intent option \<Rightarrow> batch_summary list \<Rightarrow> intent option" where
  "shift_summaries current [] = current"
| "shift_summaries current (summary # rest) =
     shift_summaries (shift_through current (structuralEditsFromSummary summary)) rest"

definition shiftIntent :: "intent \<Rightarrow> batch_summary list \<Rightarrow> intent option" where
  "shiftIntent intent foreignSummaries = shift_summaries (Some intent) foreignSummaries"

definition shiftIntents :: "intent list \<Rightarrow> batch_summary list \<Rightarrow> intent list" where
  "shiftIntents is foreignSummaries =
     concat (map (\<lambda>i. case shiftIntent i foreignSummaries of None \<Rightarrow> [] | Some n \<Rightarrow> [n]) is)"


section \<open>Cell-level intents converge\<close>

lemma shift_through_None [simp]: "shift_through None es = None"
  by (cases es) simp_all

lemma shift_through_append: "shift_through i (es @ fs) = shift_through (shift_through i es) fs"
  by (induction es arbitrary: i) (auto split: option.split)

lemma shift_summaries_concat:
  "shift_summaries i ss = shift_through i (concat (map structuralEditsFromSummary ss))"
  by (induction ss arbitrary: i) (simp_all add: shift_through_append)

lemma shift_cell_intent:
  "shiftIntentByEdit (IntSetUserInput s r c v) e =
     map_option (\<lambda>(s', r', c'). IntSetUserInput s' r' c' v) (locate e s r c)"
  by (cases "cell_shift e r c")
    (auto simp: shiftIntentByEdit_def locate_def Let_def split: option.split)

text \<open>
  The engine.  A structural edit moves the lines and rewrites the references of the formulas that
  survive it (\<open>formula-shift.ts\<close>: the engine does this itself).  What the rewriting makes of a
  cell's content is not part of this repository: \<open>rw e s r c v\<close> stands for what the edit \<open>e\<close>
  leaves of the content \<open>v\<close> of the cell that ends at row \<open>r\<close> and column \<open>c\<close> of sheet \<open>s\<close>.
\<close>

type_synonym rewriting = "structural_edit \<Rightarrow> int \<Rightarrow> int \<Rightarrow> int \<Rightarrow> jsstring \<Rightarrow> jsstring"

definition map_at :: "(int \<Rightarrow> 'a \<Rightarrow> 'b) \<Rightarrow> int \<Rightarrow> 'a list \<Rightarrow> 'b list" where
  "map_at f k xs = map (\<lambda>i. f (k + int i) (xs ! i)) [0..<length xs]"

definition rewrite_sheet :: "(int \<Rightarrow> int \<Rightarrow> jsstring \<Rightarrow> jsstring) \<Rightarrow> sheet_state \<Rightarrow> sheet_state" where
  "rewrite_sheet f t = t\<lparr>cells := map_at (\<lambda>r. map_at (f r) 1) 1 (cells t)\<rparr>"

definition rewrite_workbook :: "(int \<Rightarrow> int \<Rightarrow> int \<Rightarrow> jsstring \<Rightarrow> jsstring) \<Rightarrow> workbook \<Rightarrow> workbook" where
  "rewrite_workbook f wb = map_at (\<lambda>s. rewrite_sheet (f s)) 0 wb"

definition engine_edit :: "rewriting \<Rightarrow> sheet_state \<Rightarrow> structural_edit \<Rightarrow> workbook \<Rightarrow> workbook" where
  "engine_edit rw new e wb = rewrite_workbook (rw e) (edit_workbook new e wb)"

text \<open>Only formulas have references.\<close>

definition formula_text :: "jsstring \<Rightarrow> bool" where
  "formula_text v \<longleftrightarrow> starts_with v [61]"

definition rewrites_formulas :: "rewriting \<Rightarrow> bool" where
  "rewrites_formulas rw \<longleftrightarrow> (\<forall>e s r c v. \<not> formula_text v \<longrightarrow> rw e s r c v = v)"

lemma map_at_simps [simp]:
  "length (map_at f k xs) = length xs" "i < length xs \<Longrightarrow> map_at f k xs ! i = f (k + int i) (xs ! i)"
  by (simp_all add: map_at_def)

lemma map_at_update: "i < length xs \<Longrightarrow> map_at f k (xs[i := v]) = (map_at f k xs)[i := f (k + int i) v]"
  by (rule nth_equalityI) (auto simp: nth_list_update)

lemma rewrite_sheet_simps [simp]:
  "height (rewrite_sheet f t) = height t" "width (rewrite_sheet f t) = width t"
  by (simp_all add: rewrite_sheet_def)

lemma rect_rewrite: "rect h w g \<Longrightarrow> rect h w (map_at (\<lambda>r. map_at (f r) 1) 1 g)"
proof -
  assume g: "rect h w g"
  then have "length (g ! i) = w" if "i < length g" for i using that by (simp add: rect_def)
  then show ?thesis using g by (auto simp: rect_def in_set_conv_nth)
qed

lemma rewritten_workbook:
  "length (rewrite_workbook f wb) = length wb"
  "(\<forall>t\<in>set wb. sheet_ok t) \<Longrightarrow> \<forall>t\<in>set (rewrite_workbook f wb). sheet_ok t"
  "cell_in_workbook s r c (rewrite_workbook f wb) \<longleftrightarrow> cell_in_workbook s r c wb"
proof -
  show "length (rewrite_workbook f wb) = length wb" by (simp add: rewrite_workbook_def)
  have "sheet_ok t \<Longrightarrow> sheet_ok (rewrite_sheet g t)" for g t
    using rect_rewrite [of "height t" "width t" "cells t" g] by (simp add: sheet_ok_def rewrite_sheet_def)
  then show "(\<forall>t\<in>set wb. sheet_ok t) \<Longrightarrow> \<forall>t\<in>set (rewrite_workbook f wb). sheet_ok t"
    by (auto simp: rewrite_workbook_def in_set_conv_nth) (metis nth_mem)
  show "cell_in_workbook s r c (rewrite_workbook f wb) \<longleftrightarrow> cell_in_workbook s r c wb"
    by (cases "0 \<le> s \<and> nat s < length wb") (auto simp: cell_in_workbook_def rewrite_workbook_def nat_less_iff)
qed

text \<open>Rewriting after a write: the cell holds the rewritten value.\<close>

lemma rewrite_write_cell:
  assumes "cell_in_workbook s r c wb" "\<forall>t\<in>set wb. sheet_ok t"
  shows "rewrite_workbook f (write_cell s r c v wb) = write_cell s r c (f s r c v) (rewrite_workbook f wb)"
proof -
  let ?t = "wb ! nat s"
  have n: "nat s < length wb" "int (nat s) = s" "1 + int (nat (r - 1)) = r" "1 + int (nat (c - 1)) = c"
    "nat (r - 1) < height ?t" "nat (c - 1) < width ?t"
    using assms(1) by (auto simp: cell_in_workbook_def)
  have "sheet_ok ?t" using assms(2) n(1) by simp
  then have l: "length (cells ?t) = height ?t" "length (cells ?t ! nat (r - 1)) = width ?t"
    using n(5) by (auto simp: sheet_ok_def rect_def)
  let ?g = "\<lambda>r. map_at (f s r) 1"
  have "map_at ?g 1 (set_cell r c v (cells ?t)) = set_cell r c (f s r c v) (map_at ?g 1 (cells ?t))"
    using n l by (simp add: set_cell_def map_at_update)
  then show ?thesis
    using n(1,2) by (simp add: write_cell_def rewrite_workbook_def map_at_update rewrite_sheet_def)
qed

text \<open>Edits that fit one after the other, and their effect.\<close>

fun edits_fit :: "rewriting \<Rightarrow> sheet_state \<Rightarrow> structural_edit list \<Rightarrow> workbook \<Rightarrow> bool" where
  "edits_fit rw new [] wb = True"
| "edits_fit rw new (e # es) wb = (workbook_fits e wb \<and> edits_fit rw new es (engine_edit rw new e wb))"

definition edit_all :: "rewriting \<Rightarrow> sheet_state \<Rightarrow> structural_edit list \<Rightarrow> workbook \<Rightarrow> workbook" where
  "edit_all rw new es wb = fold (engine_edit rw new) es wb"

text \<open>The effect of a cell intent on the workbook, and what the edits make of a value on its way.\<close>

fun apply_cell_intent :: "intent option \<Rightarrow> workbook \<Rightarrow> workbook" where
  "apply_cell_intent (Some (IntSetUserInput s r c v)) wb = write_cell s r c v wb"
| "apply_cell_intent _ wb = wb"

fun with_value :: "jsstring \<Rightarrow> intent \<Rightarrow> intent" where
  "with_value v (IntSetUserInput s r c _) = IntSetUserInput s r c v"
| "with_value v i = i"

fun carried :: "rewriting \<Rightarrow> structural_edit list \<Rightarrow> int \<Rightarrow> int \<Rightarrow> int \<Rightarrow> jsstring \<Rightarrow> jsstring" where
  "carried rw [] s r c v = v"
| "carried rw (e # es) s r c v =
     (case locate e s r c of None \<Rightarrow> v | Some (s', r', c') \<Rightarrow> carried rw es s' r' c' (rw e s' r' c' v))"

lemma carried_text: "rewrites_formulas rw \<Longrightarrow> \<not> formula_text v \<Longrightarrow> carried rw es s r c v = v"
  by (induction es arbitrary: s r c) (auto simp: rewrites_formulas_def split: option.split)

lemma carried_intent:
  "map_option (with_value x) (shift_through (Some (IntSetUserInput s r c v)) es) =
   map_option (with_value x) (shift_through (Some (IntSetUserInput s r c w)) es)"
proof (induction es arbitrary: s r c)
  case (Cons e es)
  then show ?case by (cases "locate e s r c") (auto simp: shift_cell_intent)
qed simp

lemma cell_intent_through:
  assumes "sheet_ok new" "\<forall>t\<in>set wb. sheet_ok t" "edits_fit rw new es wb" "cell_in_workbook s r c wb"
  shows "edit_all rw new es (write_cell s r c v wb) =
    apply_cell_intent (map_option (with_value (carried rw es s r c v)) (shift_through (Some (IntSetUserInput s r c v)) es))
      (edit_all rw new es wb)"
  using assms(2-)
proof (induction es arbitrary: wb s r c v)
  case Nil
  then show ?case by (simp add: edit_all_def)
next
  case (Cons e es)
  have fit: "workbook_fits e wb" "edits_fit rw new es (engine_edit rw new e wb)"
    using Cons.prems(2) by auto
  have ok': "\<forall>t\<in>set (edit_workbook new e wb). sheet_ok t"
    using sheets_ok_edit [OF fit(1) Cons.prems(1) assms(1)] .
  then have ok: "\<forall>t\<in>set (engine_edit rw new e wb). sheet_ok t" by (simp add: engine_edit_def rewritten_workbook(2))
  have one: "edit_workbook new e (write_cell s r c v wb) =
    (case locate e s r c of None \<Rightarrow> edit_workbook new e wb
     | Some (s', r', c') \<Rightarrow> write_cell s' r' c' v (edit_workbook new e wb))"
    by (rule write_cell_edit_workbook [OF fit(1) Cons.prems(3,1)])
  show ?case
  proof (cases "locate e s r c")
    case None
    then show ?thesis using one by (simp add: edit_all_def engine_edit_def shift_cell_intent)
  next
    case (Some p)
    obtain s' r' c' where p: "p = (s', r', c')" by (cases p)
    have cell: "cell_in_workbook s' r' c' (edit_workbook new e wb)"
      using locate_in_workbook [OF fit(1) Cons.prems(3)] Some p by blast
    then have "engine_edit rw new e (write_cell s r c v wb) = write_cell s' r' c' (rw e s' r' c' v) (engine_edit rw new e wb)"
      using one Some p rewrite_write_cell [OF cell ok'] by (simp add: engine_edit_def)
    moreover have "cell_in_workbook s' r' c' (engine_edit rw new e wb)"
      using cell by (simp add: engine_edit_def rewritten_workbook(3))
    ultimately show ?thesis
      using Cons.IH [OF ok fit(2), of s' r' c' "rw e s' r' c' v"] Some p
        carried_intent [of _ s' r' c' "rw e s' r' c' v" es v]
      by (simp add: edit_all_def shift_cell_intent)
  qed
qed

text \<open>C4: replay converges for a cell write.  Whatever the engine's rewriting of formulas is: when
  the foreign batches' edits fit the workbook and the intent addresses one of its cells, writing
  the cell and then applying the foreign edits leaves the same workbook as applying the foreign
  edits and then the shifted intent, with the value the engine's rewriting has made of the one that
  was written; and as applying nothing at all when the intent has no shifted form.  For a value that
  is not a formula this is the shifted intent itself, as it is replayed.  (A formula is replayed as
  it was typed, with the references it had before the foreign edits.)\<close>

theorem cell_intent_converges:
  assumes "sheet_ok new" and "\<forall>t\<in>set wb. sheet_ok t" and "cell_in_workbook s r c wb"
    and "edits_fit rw new (concat (map structuralEditsFromSummary summaries)) wb" and "rewrites_formulas rw"
  shows "let edits = concat (map structuralEditsFromSummary summaries);
      replayed = shiftIntent (IntSetUserInput s r c v) summaries
    in edit_all rw new edits (write_cell s r c v wb) =
         apply_cell_intent (map_option (with_value (carried rw edits s r c v)) replayed) (edit_all rw new edits wb) \<and>
       (\<not> formula_text v \<longrightarrow> map_option (with_value (carried rw edits s r c v)) replayed = replayed)"
proof -
  have same: "map_option (with_value v) (shift_through (Some (IntSetUserInput s r c v)) es) =
      shift_through (Some (IntSetUserInput s r c v)) es" for es
  proof (induction es arbitrary: s r c)
    case (Cons e es)
    then show ?case by (cases "locate e s r c") (auto simp: shift_cell_intent)
  qed simp
  show ?thesis
    using cell_intent_through [OF assms(1,2,4,3), of v] carried_text [OF assms(5), of v]
    by (simp add: shiftIntent_def shift_summaries_concat same Let_def)
qed

text \<open>An engine that rewrites: it appends an apostrophe to every formula it touches.\<close>

definition marking :: rewriting where
  "marking e s r c v = (if formula_text v then v @ [39] else v)"

definition example_sheet :: sheet_state where
  "example_sheet = \<lparr>height = 3, width = 2,
     cells = [[js ''a'', js ''b''], [js ''c'', js ''d''], [js ''e'', js ''=A1'']]\<rparr>"

definition insert_batch :: batch_summary where
  "insert_batch = \<lparr>structuralKind = Some SKInsertRows, sheetIndexes = [0], cellCount = 0,
     touched = [], intents = Some [IntInsertRows 0 2 1]\<rparr>"

theorem cell_intent_converges_witness:
  "shiftIntent (IntSetUserInput 0 3 1 (js ''X'')) [insert_batch]
     = Some (IntSetUserInput 0 4 1 (js ''X'')) \<and>
   edit_all marking example_sheet [InsertRows 0 2 1] (write_cell 0 3 1 (js ''X'') [example_sheet]) =
   write_cell 0 4 1 (js ''X'') (edit_all marking example_sheet [InsertRows 0 2 1] [example_sheet])"
proof -
  have s: "shiftIntent (IntSetUserInput 0 3 1 (js ''X'')) [insert_batch]
     = Some (IntSetUserInput 0 4 1 (js ''X''))"
    by (simp add: shiftIntent_def insert_batch_def structuralEditsFromSummary_def
        shiftIntentByEdit_def cell_shift_def shift_inserted_def)
  have f: "edits_fit marking example_sheet (concat (map structuralEditsFromSummary [insert_batch])) [example_sheet]"
    by (simp add: insert_batch_def structuralEditsFromSummary_def edit_fits_def insert_fits_def
        example_sheet_def)
  have "rewrites_formulas marking" by (simp add: rewrites_formulas_def marking_def)
  moreover have "\<not> formula_text (js ''X'')" by (simp add: formula_text_def starts_with_iff js_simps)
  ultimately show ?thesis
    using s cell_intent_converges [OF _ _ _ f, of 0 3 1 "js ''X''"]
    by (simp add: sheet_ok_def rect_def cell_in_workbook_def example_sheet_def insert_batch_def
        structuralEditsFromSummary_def Let_def)
qed

section \<open>Shifted selections cover exactly the surviving cells\<close>

definition covers :: "selection \<Rightarrow> int \<Rightarrow> int \<Rightarrow> bool" where
  "covers rng r c \<longleftrightarrow> r0 rng \<le> r \<and> r \<le> r1 rng \<and> c0 rng \<le> c \<and> c \<le> c1 rng"

fun is_move :: "structural_edit \<Rightarrow> bool" where
  "is_move (MoveRows _ _ _ _) = True"
| "is_move (MoveColumns _ _ _ _) = True"
| "is_move _ = False"

text \<open>1-based positions and counts that are not negative, as the schema of an intent has them.\<close>

fun edit_addresses :: "structural_edit \<Rightarrow> bool" where
  "edit_addresses (InsertRows _ row count) = (1 \<le> row \<and> 0 \<le> count)"
| "edit_addresses (DeleteRows _ row count) = (1 \<le> row \<and> 0 \<le> count)"
| "edit_addresses (InsertColumns _ column count) = (1 \<le> column \<and> 0 \<le> count)"
| "edit_addresses (DeleteColumns _ column count) = (1 \<le> column \<and> 0 \<le> count)"
| "edit_addresses (MoveRows _ start count _) = (1 \<le> start \<and> 0 \<le> count)"
| "edit_addresses (MoveColumns _ start count _) = (1 \<le> start \<and> 0 \<le> count)"
| "edit_addresses _ = True"

definition proper_selection :: "selection \<Rightarrow> bool" where
  "proper_selection rng \<longleftrightarrow> 1 \<le> r0 rng \<and> r0 rng \<le> r1 rng \<and> 1 \<le> c0 rng \<and> c0 rng \<le> c1 rng"

text \<open>One axis at a time: a bound keeps its side of every surviving line.\<close>

definition low_bound :: "structural_edit \<Rightarrow> axis \<Rightarrow> int \<Rightarrow> int option" where
  "low_bound e axis i = or_else (shiftIndex i e axis)
     (if axis = RowAxis then collapsed_row e else collapsed_column e)"

definition high_bound :: "structural_edit \<Rightarrow> axis \<Rightarrow> int \<Rightarrow> int option" where
  "high_bound e axis i = or_else (shiftIndex i e axis)
     (map_option (\<lambda>k. k - 1) (if axis = RowAxis then collapsed_row e else collapsed_column e))"

lemma shiftSelectionBounds_axes:
  "shiftSelectionBounds rng e = Some rng' \<longleftrightarrow>
     low_bound e RowAxis (r0 rng) = Some (r0 rng') \<and> high_bound e RowAxis (r1 rng) = Some (r1 rng') \<and>
     low_bound e ColumnAxis (c0 rng) = Some (c0 rng') \<and> high_bound e ColumnAxis (c1 rng) = Some (c1 rng') \<and>
     r0 rng' \<le> r1 rng' \<and> c0 rng' \<le> c1 rng' \<and> 1 \<le> r0 rng' \<and> 1 \<le> c0 rng'"
  unfolding shiftSelectionBounds_def low_bound_def high_bound_def Let_def
  by (cases rng') (auto split: option.split)

lemma bound_some:
  "\<not> is_move e \<Longrightarrow> \<exists>k. low_bound e axis i = Some k" "\<not> is_move e \<Longrightarrow> \<exists>k. high_bound e axis i = Some k"
  by (cases e; simp add: low_bound_def high_bound_def or_else_def shift_deleted_def shift_inserted_def)+

lemma low_bound_side:
  assumes "\<not> is_move e" "edit_addresses e" "low_bound e axis l = Some l'" "shiftIndex i e axis = Some i'"
  shows "l' \<le> i' \<longleftrightarrow> l \<le> i"
  using assms by (cases e; cases axis)
    (auto simp: low_bound_def or_else_def shift_deleted_def shift_inserted_def split: if_splits)

lemma high_bound_side:
  assumes "\<not> is_move e" "edit_addresses e" "high_bound e axis h = Some h'" "shiftIndex i e axis = Some i'"
  shows "i' \<le> h' \<longleftrightarrow> i \<le> h"
  using assms by (cases e; cases axis)
    (auto simp: high_bound_def or_else_def shift_deleted_def shift_inserted_def split: if_splits)

lemma low_bound_pos:
  assumes "\<not> is_move e" "edit_addresses e" "low_bound e axis l = Some l'" "1 \<le> l"
  shows "1 \<le> l'"
  using assms by (cases e; cases axis)
    (auto simp: low_bound_def or_else_def shift_deleted_def shift_inserted_def split: if_splits)

text \<open>When the bounds cross, no line between them survived.\<close>

lemma crossed_bounds:
  assumes "\<not> is_move e" "edit_addresses e" "low_bound e axis l = Some l'" "high_bound e axis h = Some h'"
    and "h' < l'" "l \<le> i" "i \<le> h"
  shows "shiftIndex i e axis = None"
proof (rule ccontr)
  assume "shiftIndex i e axis \<noteq> None"
  then obtain i' where "shiftIndex i e axis = Some i'" by auto
  then show False
    using low_bound_side [OF assms(1-3)] high_bound_side [OF assms(1,2,4)] assms(5-7) by force
qed

lemma move_side:
  assumes "delta = 0 \<or> high < min start (start + delta) \<or> max (start + n - 1) (start + n - 1 + delta) < low"
    and "0 \<le> n" "low \<le> high" "shift_moved start n delta i = Some k"
  shows "low \<le> k \<and> k \<le> high \<longleftrightarrow> low \<le> i \<and> i \<le> (high :: int)"
  using assms by (simp add: shift_moved_def split: if_splits; linarith)

lemma move_inside:
  assumes "start \<le> low" "high \<le> start + n - 1" "0 \<le> n" "low \<le> high" "shift_moved start n delta i = Some k"
  shows "low + delta \<le> k \<and> k \<le> high + delta \<longleftrightarrow> low \<le> i \<and> i \<le> (high :: int)"
  using assms by (simp add: shift_moved_def split: if_splits; linarith)

lemma move_covers:
  assumes s: "shiftSelectionThroughMove rows start count delta rng = Some rng'" and n: "0 \<le> count"
    and m: "shift_moved start count delta (if rows then r else c) = Some k"
    and p: "proper_selection rng"
  shows "covers rng' (if rows then k else r) (if rows then c else k) \<longleftrightarrow> covers rng r c"
proof -
  let ?low = "if rows then r0 rng else c0 rng" and ?high = "if rows then r1 rng else c1 rng"
  have lh: "?low \<le> ?high" using p by (simp add: proper_selection_def)
  show ?thesis
  proof (cases "delta = 0 \<or> ?high < min start (start + delta) \<or>
      max (start + count - 1) (start + count - 1 + delta) < ?low")
    case True
    then have "rng' = rng"
      using s unfolding shiftSelectionThroughMove_def Let_def by (auto split: if_splits)
    then show ?thesis using move_side [OF True n lh m] by (auto simp: covers_def split: if_splits)
  next
    case False
    then have inside: "start \<le> ?low" "?high \<le> start + count - 1"
      and r: "rng' = (if rows then rng\<lparr>r0 := ?low + delta, r1 := ?high + delta\<rparr>
        else rng\<lparr>c0 := ?low + delta, c1 := ?high + delta\<rparr>)"
      using s unfolding shiftSelectionThroughMove_def Let_def by (auto split: if_splits)
    show ?thesis
      using move_inside [OF inside n lh m] by (cases rows) (auto simp: r covers_def)
  qed
qed

lemma shiftSelection_bounds [simp]: "\<not> is_move e \<Longrightarrow> shiftSelection rng e = shiftSelectionBounds rng e"
  by (cases e) simp_all

lemma cell_shift_Some:
  "cell_shift e r c = Some (r', c') \<longleftrightarrow> shiftIndex r e RowAxis = Some r' \<and> shiftIndex c e ColumnAxis = Some c'"
  by (auto simp: cell_shift_def split: option.split)

lemma shiftSelection_covers:
  assumes "edit_addresses e" "proper_selection rng" "shiftSelection rng e = Some rng'"
    and "cell_shift e r c = Some (r', c')"
  shows "covers rng' r' c' \<longleftrightarrow> covers rng r c"
proof (cases "is_move e")
  case False
  then have b: "shiftSelectionBounds rng e = Some rng'" using assms(3) by simp
  note ax = b [unfolded shiftSelectionBounds_axes]
  have i: "shiftIndex r e RowAxis = Some r'" "shiftIndex c e ColumnAxis = Some c'"
    using assms(4) by (auto simp: cell_shift_Some)
  have "r0 rng' \<le> r' \<longleftrightarrow> r0 rng \<le> r" "c0 rng' \<le> c' \<longleftrightarrow> c0 rng \<le> c"
    using low_bound_side [OF False assms(1) _ i(1)] low_bound_side [OF False assms(1) _ i(2)] ax by blast+
  moreover have "r' \<le> r1 rng' \<longleftrightarrow> r \<le> r1 rng" "c' \<le> c1 rng' \<longleftrightarrow> c \<le> c1 rng"
    using high_bound_side [OF False assms(1) _ i(1)] high_bound_side [OF False assms(1) _ i(2)] ax by blast+
  ultimately show ?thesis by (simp add: covers_def)
next
  case True
  then show ?thesis
    using assms move_covers [where rows = True and r = r and c = c and rng' = rng']
      move_covers [where rows = False and r = r and c = c and rng' = rng']
    by (cases e) (auto simp: cell_shift_Some)
qed

lemma shiftSelection_nonempty:
  assumes "edit_addresses e" "proper_selection rng" "shiftSelection rng e = Some rng'"
  shows "r0 rng' \<le> r1 rng' \<and> c0 rng' \<le> c1 rng'"
proof (cases "is_move e")
  case False
  then have b: "shiftSelectionBounds rng e = Some rng'" using assms(3) by simp
  show ?thesis using b [unfolded shiftSelectionBounds_axes] by blast
next
  case True
  then show ?thesis
    using assms by (cases e) (auto simp: shiftSelectionThroughMove_def proper_selection_def Let_def split: if_splits)
qed

lemma shiftSelection_None:
  assumes e: "edit_addresses e" "proper_selection rng" "shiftSelection rng e = None" "\<not> is_move e"
    and "covers rng r c"
  shows "cell_shift e r c = None"
proof -
  obtain lr hr lc hc where b: "low_bound e RowAxis (r0 rng) = Some lr" "high_bound e RowAxis (r1 rng) = Some hr"
    "low_bound e ColumnAxis (c0 rng) = Some lc" "high_bound e ColumnAxis (c1 rng) = Some hc"
    using bound_some [OF e(4)] by metis
  have "1 \<le> lr" "1 \<le> lc"
    using low_bound_pos [OF e(4,1)] b e(2) by (auto simp: proper_selection_def)
  moreover have "shiftSelectionBounds rng e \<noteq> Some \<lparr>r0 = lr, c0 = lc, r1 = hr, c1 = hc\<rparr>"
    using e(3,4) by simp
  ultimately have "hr < lr \<or> hc < lc"
    using b by (auto simp: shiftSelectionBounds_axes)
  then have "shiftIndex r e RowAxis = None \<or> shiftIndex c e ColumnAxis = None"
    using crossed_bounds [OF e(4,1)] b assms(5) by (metis covers_def)
  then show ?thesis by (auto simp: cell_shift_def split: option.split)
qed

text \<open>C14: a shifted selection addresses exactly the cells the original one did.  When
  \<open>shiftSelection\<close> answers a rectangle, a cell that survives the edit is in the new
  rectangle if and only if it was in the old one, and the rectangle is not empty; when it
  answers nothing for an insertion or a deletion, no cell of the selection survived (only a
  move may be refused with survivors left).\<close>

theorem shiftSelection_exact:
  assumes "edit_addresses e" and "proper_selection rng"
  shows "case shiftSelection rng e of
      Some rng' \<Rightarrow> r0 rng' \<le> r1 rng' \<and> c0 rng' \<le> c1 rng' \<and>
        (\<forall>r c r' c'. cell_shift e r c = Some (r', c') \<longrightarrow> covers rng' r' c' = covers rng r c)
    | None \<Rightarrow> is_move e \<or> (\<forall>r c. covers rng r c \<longrightarrow> cell_shift e r c = None)"
  using shiftSelection_covers [OF assms] shiftSelection_nonempty [OF assms]
    shiftSelection_None [OF assms] by (auto split: option.split)

theorem shiftSelection_exact_witness:
  "shiftSelection \<lparr>r0 = 4, c0 = 1, r1 = 8, c1 = 2\<rparr> (DeleteRows 0 3 3) = Some \<lparr>r0 = 3, c0 = 1, r1 = 5, c1 = 2\<rparr> \<and>
   (covers \<lparr>r0 = 3, c0 = 1, r1 = 5, c1 = 2\<rparr> 5 1 = covers \<lparr>r0 = 4, c0 = 1, r1 = 8, c1 = 2\<rparr> 8 1)"
proof -
  have s: "shiftSelection \<lparr>r0 = 4, c0 = 1, r1 = 8, c1 = 2\<rparr> (DeleteRows 0 3 3)
      = Some \<lparr>r0 = 3, c0 = 1, r1 = 5, c1 = 2\<rparr>"
    by (simp add: shiftSelectionBounds_def or_else_def shift_deleted_def)
  have "cell_shift (DeleteRows 0 3 3) 8 1 = Some (5, 1)"
    by (simp add: cell_shift_def shift_deleted_def)
  then show ?thesis
    using s shiftSelection_exact [of "DeleteRows 0 3 3" "\<lparr>r0 = 4, c0 = 1, r1 = 8, c1 = 2\<rparr>"]
    by (simp add: proper_selection_def)
qed

definition delete_batch :: batch_summary where
  "delete_batch = \<lparr>structuralKind = Some SKDeleteRows, sheetIndexes = [0], cellCount = 0,
     touched = [], intents = Some [IntDeleteRows 0 5 2]\<rparr>"

text \<open>a row-level intent keeps its count.  When a foreign batch has already deleted rows
  inside the block an intent deletes, replaying it deletes as many rows as before, and so
  rows the recorded intent did not address: rows 3 to 7 are to be deleted, a foreign batch
  deletes rows 5 and 6, and the replayed intent takes rows 8 and 9 of the original sheet too.\<close>

theorem replayed_deletion_takes_foreign_rows:
  "shiftIntent (IntDeleteRows 0 3 5) [delete_batch] = Some (IntDeleteRows 0 3 5) \<and>
   edit_lines RowAxis (DeleteRows 0 3 5) 0
     (edit_lines RowAxis (DeleteRows 0 5 2) 0 [1, 2, 3, 4, 5, 6, 7, 8, 9, 10 :: nat]) = [1, 2, 10] \<and>
   edit_lines RowAxis (DeleteRows 0 3 5) 0 [1, 2, 3, 4, 5, 6, 7, 8, 9, 10 :: nat] = [1, 2, 8, 9, 10]"
  by (simp add: shiftIntent_def delete_batch_def structuralEditsFromSummary_def
      shiftIntentByEdit_def shift_deleted_def delete_at_def)

end
