(* ===== verification/Engine.thy ===== *)
theory Engine
  imports Structural
begin

text \<open>
  The engine interface every caller codes against, and the adapters of the two IronCalc
  bindings (\<open>packages/spreadsheet/src/engine.ts\<close>).

  IronCalc itself is not part of the repository: a raw binding is a record of operations over
  an unknown state \<open>'m\<close>.  A write is an \<open>act\<close>: from a state it either raises an error or
  returns, and in both cases leaves a state.  Reads return a value and change nothing.
\<close>

section \<open>Engine calls in sequence\<close>

type_synonym ('m, 'a) act = "'m \<Rightarrow> (engine_error + 'a) \<times> 'm"

definition ret :: "'a \<Rightarrow> ('m, 'a) act" where
  "ret a m = (Inr a, m)"

definition raise :: "engine_error \<Rightarrow> ('m, 'a) act" where
  "raise e m = (Inl e, m)"

definition ask :: "('m \<Rightarrow> 'a) \<Rightarrow> ('m, 'a) act" where
  "ask f m = (Inr (f m), m)"

definition attempt :: "('m \<Rightarrow> engine_error + 'a) \<Rightarrow> ('m, 'a) act" where
  "attempt f m = (f m, m)"

definition and_then :: "('m, 'a) act \<Rightarrow> ('a \<Rightarrow> ('m, 'b) act) \<Rightarrow> ('m, 'b) act" where
  "and_then p f m = (case p m of (Inl e, m') \<Rightarrow> (Inl e, m') | (Inr a, m') \<Rightarrow> f a m')"

definition seq :: "('m, unit) act \<Rightarrow> ('m, 'b) act \<Rightarrow> ('m, 'b) act" where
  "seq p q = and_then p (\<lambda>_. q)"

fun for_each :: "('a \<Rightarrow> ('m, unit) act) \<Rightarrow> 'a list \<Rightarrow> ('m, unit) act" where
  "for_each f [] = ret ()"
| "for_each f (x # xs) = seq (f x) (for_each f xs)"

lemmas act_defs = ret_def raise_def ask_def attempt_def and_then_def seq_def

lemma for_each_append: "for_each f (xs @ ys) = seq (for_each f xs) (for_each f ys)"
  by (induction xs) (auto simp: fun_eq_iff act_defs split: prod.split sum.split)

text \<open>An action that keeps a predicate of the state, whether it returns or raises.\<close>

definition act_keeps :: "('m \<Rightarrow> bool) \<Rightarrow> ('m, 'a) act \<Rightarrow> bool" where
  "act_keeps P p \<longleftrightarrow> (\<forall>m. P m \<longrightarrow> P (snd (p m)))"

lemma keeps_ret [keeps]: "act_keeps P (ret a)"
  and keeps_raise [keeps]: "act_keeps P (raise e)"
  and keeps_ask [keeps]: "act_keeps P (ask f)"
  and keeps_attempt [keeps]: "act_keeps P (attempt g)"
  by (simp_all add: act_keeps_def act_defs)

lemma keeps_and_then [keeps]:
  "act_keeps P p \<Longrightarrow> (\<And>a. act_keeps P (f a)) \<Longrightarrow> act_keeps P (and_then p f)"
  unfolding act_keeps_def and_then_def
  by (force split: prod.split sum.split)

lemma keeps_seq [keeps]: "act_keeps P p \<Longrightarrow> act_keeps P q \<Longrightarrow> act_keeps P (seq p q)"
  by (simp add: seq_def keeps_and_then)

lemma keeps_for_each [keeps]: "(\<And>x. x \<in> set xs \<Longrightarrow> act_keeps P (f x)) \<Longrightarrow> act_keeps P (for_each f xs)"
  by (induction xs) (auto intro: keeps)

section \<open>The engine surface\<close>

text \<open>
  The style of a cell is an opaque object: the code copies it and never looks inside, so it
  is kept as its serialised text.
\<close>

type_synonym cell_style = jsstring

record sheet_properties =
  sheet_name :: jsstring
  sheet_state :: "string option"
  sheet_color :: "jsstring option"

datatype engine_binding = Node | Wasm

record 'm engine_model =
  binding :: engine_binding
  sheets :: "'m \<Rightarrow> sheet_properties list"
  dimensions :: "'m \<Rightarrow> int \<Rightarrow> int \<times> int \<times> int \<times> int"
  cellContent :: "'m \<Rightarrow> int \<Rightarrow> int \<Rightarrow> int \<Rightarrow> jsstring"
  formattedValue :: "'m \<Rightarrow> int \<Rightarrow> int \<Rightarrow> int \<Rightarrow> jsstring"
  cellType :: "'m \<Rightarrow> int \<Rightarrow> int \<Rightarrow> int \<Rightarrow> int"
  cellStyle :: "'m \<Rightarrow> int \<Rightarrow> int \<Rightarrow> int \<Rightarrow> cell_style"
  rowHeight :: "'m \<Rightarrow> int \<Rightarrow> int \<Rightarrow> int"
  columnWidth :: "'m \<Rightarrow> int \<Rightarrow> int \<Rightarrow> int"
  isRowHidden :: "'m \<Rightarrow> int \<Rightarrow> int \<Rightarrow> bool"
  isColumnHidden :: "'m \<Rightarrow> int \<Rightarrow> int \<Rightarrow> bool"
  frozenRowsCount :: "'m \<Rightarrow> int \<Rightarrow> int"
  frozenColumnsCount :: "'m \<Rightarrow> int \<Rightarrow> int"
  flushSendQueue :: "('m, 8 word list) act"
  pauseEvaluation :: "('m, unit) act"
  resumeEvaluation :: "('m, unit) act"
  evaluate :: "('m, unit) act"
  setUserInput :: "int \<Rightarrow> int \<Rightarrow> int \<Rightarrow> jsstring \<Rightarrow> ('m, unit) act"
  updateRangeStyle :: "int \<Rightarrow> selection \<Rightarrow> jsstring \<Rightarrow> jsstring \<Rightarrow> ('m, unit) act"
  setRangeStyles :: "int \<Rightarrow> int \<Rightarrow> int \<Rightarrow> cell_style list list \<Rightarrow> ('m, unit) act"
  rangeClear :: "clear_kind \<Rightarrow> int \<Rightarrow> selection \<Rightarrow> ('m, unit) act"
  insertRows :: "int \<Rightarrow> int \<Rightarrow> int \<Rightarrow> ('m, unit) act"
  deleteRows :: "int \<Rightarrow> int \<Rightarrow> int \<Rightarrow> ('m, unit) act"
  insertColumns :: "int \<Rightarrow> int \<Rightarrow> int \<Rightarrow> ('m, unit) act"
  deleteColumns :: "int \<Rightarrow> int \<Rightarrow> int \<Rightarrow> ('m, unit) act"
  moveRows :: "int \<Rightarrow> int \<Rightarrow> int \<Rightarrow> int \<Rightarrow> ('m, unit) act"
  moveColumns :: "int \<Rightarrow> int \<Rightarrow> int \<Rightarrow> int \<Rightarrow> ('m, unit) act"
  setRowsHidden :: "int \<Rightarrow> int \<Rightarrow> int \<Rightarrow> bool \<Rightarrow> ('m, unit) act"
  setColumnsHidden :: "int \<Rightarrow> int \<Rightarrow> int \<Rightarrow> bool \<Rightarrow> ('m, unit) act"
  setRowsHeight :: "int \<Rightarrow> int \<Rightarrow> int \<Rightarrow> int \<Rightarrow> ('m, unit) act"
  setColumnsWidth :: "int \<Rightarrow> int \<Rightarrow> int \<Rightarrow> int \<Rightarrow> ('m, unit) act"
  setFrozenRowsCount :: "int \<Rightarrow> int \<Rightarrow> ('m, unit) act"
  setFrozenColumnsCount :: "int \<Rightarrow> int \<Rightarrow> ('m, unit) act"
  newSheet :: "('m, unit) act"
  deleteSheet :: "int \<Rightarrow> ('m, unit) act"
  renameSheet :: "int \<Rightarrow> jsstring \<Rightarrow> ('m, unit) act"
  moveSheet :: "int \<Rightarrow> int \<Rightarrow> ('m, unit) act"
  hideSheet :: "int \<Rightarrow> ('m, unit) act"
  unhideSheet :: "int \<Rightarrow> ('m, unit) act"

section \<open>Contents written cell by cell\<close>

type_synonym contents = "int \<Rightarrow> int \<Rightarrow> int \<Rightarrow> jsstring"

definition put :: "int \<Rightarrow> int \<times> int \<Rightarrow> jsstring \<Rightarrow> contents \<Rightarrow> contents" where
  "put s p v f = f(s := (f s)(fst p := (f s (fst p))(snd p := v)))"

lemma put_apply:
  "put s p v f s' r c = (if s' = s \<and> (r, c) = p then v else f s' r c)"
  by (cases p) (auto simp: put_def)

lemma fold_put_other_sheet:
  "s' \<noteq> s \<Longrightarrow> fold (\<lambda>x. put s (pos x) (val x)) xs f s' = f s'"
  by (induction xs arbitrary: f) (auto simp: put_def)

lemma fold_put_miss:
  "(r, c) \<notin> pos ` set xs \<Longrightarrow> fold (\<lambda>x. put s (pos x) (val x)) xs f s r c = f s r c"
  by (induction xs arbitrary: f) (auto simp: put_apply)

lemma fold_put_hit:
  "distinct (map pos xs) \<Longrightarrow> x \<in> set xs \<Longrightarrow> pos x = (r, c) \<Longrightarrow>
   fold (\<lambda>x. put s (pos x) (val x)) xs f s r c = val x"
proof (induction xs arbitrary: f)
  case Nil
  then show ?case by simp
next
  case (Cons y ys)
  show ?case
  proof (cases "x = y")
    case True
    then have "(r, c) \<notin> pos ` set ys" using Cons.prems by auto
    then have "fold (\<lambda>x. put s (pos x) (val x)) ys (put s (r, c) (val y) f) s r c = put s (r, c) (val y) f s r c"
      by (rule fold_put_miss)
    then show ?thesis using True Cons.prems put_apply [of s "(r, c)" "val y" f s r c] by simp
  next
    case False
    then show ?thesis using Cons by simp
  qed
qed

section \<open>What the writes rely on\<close>

text \<open>
  \<open>content_store e norm\<close>: a successful \<open>setUserInput\<close> changes the content of its own cell
  only, which then reads back as the engine's spelling \<open>norm v\<close> of the input, and pausing,
  resuming and evaluating change no content.
\<close>

definition content_store :: "'m engine_model \<Rightarrow> (jsstring \<Rightarrow> jsstring) \<Rightarrow> bool" where
  "content_store e norm \<longleftrightarrow>
     (\<forall>s r c v m m'. setUserInput e s r c v m = (Inr (), m') \<longrightarrow>
        cellContent e m' = put s (r, c) (norm v) (cellContent e m)) \<and>
     (\<forall>m. cellContent e (snd (pauseEvaluation e m)) = cellContent e m) \<and>
     (\<forall>m. cellContent e (snd (resumeEvaluation e m)) = cellContent e m) \<and>
     (\<forall>m. cellContent e (snd (evaluate e m)) = cellContent e m)"

text \<open>\<open>styles_keep_content e\<close>: pasting styles changes no content either.\<close>

definition styles_keep_content :: "'m engine_model \<Rightarrow> bool" where
  "styles_keep_content e \<longleftrightarrow>
     (\<forall>s r c sts m. cellContent e (snd (setRangeStyles e s r c sts m)) = cellContent e m)"

lemma for_each_content:
  assumes "\<And>x m m'. x \<in> set xs \<Longrightarrow> f x m = (Inr (), m') \<Longrightarrow>
      cellContent e m' = put s (pos x) (val x) (cellContent e m)"
    and "for_each f xs m = (Inr (), m')"
  shows "cellContent e m' = fold (\<lambda>x. put s (pos x) (val x)) xs (cellContent e m)"
  using assms
proof (induction xs arbitrary: m)
  case Nil
  then show ?case by (simp add: ret_def)
next
  case (Cons x xs)
  then obtain m1 where "f x m = (Inr (), m1)" "for_each f xs m1 = (Inr (), m')"
    by (auto simp: seq_def and_then_def split: prod.splits sum.splits)
  moreover have "cellContent e m1 = put s (pos x) (val x) (cellContent e m)"
    using Cons.prems(1) [of x m m1] calculation(1) by simp
  moreover have "cellContent e m' = fold (\<lambda>x. put s (pos x) (val x)) xs (cellContent e m1)"
    by (rule Cons.IH [OF Cons.prems(1) calculation(2)]) simp_all
  ultimately show ?case by (simp only: fold_simps)
qed

section \<open>An engine whose calls are recorded\<close>

text \<open>
  \<open>recorded e\<close> behaves as \<open>e\<close> and keeps the list of the calls made on it, so that a
  statement about the calls of an operation holds for every engine.
\<close>

datatype engine_call = CPause | CResume | CEvaluate | CFlush | CWrite

definition logged :: "engine_call \<Rightarrow> ('m, 'a) act \<Rightarrow> ('m \<times> engine_call list, 'a) act" where
  "logged call p = (\<lambda>(m, log). case p m of (r, m') \<Rightarrow> (r, (m', log @ [call])))"

definition recorded :: "'m engine_model \<Rightarrow> ('m \<times> engine_call list) engine_model" where
  "recorded e = \<lparr>
     binding = binding e,
     sheets = sheets e \<circ> fst,
     dimensions = dimensions e \<circ> fst,
     cellContent = cellContent e \<circ> fst,
     formattedValue = formattedValue e \<circ> fst,
     cellType = cellType e \<circ> fst,
     cellStyle = cellStyle e \<circ> fst,
     rowHeight = rowHeight e \<circ> fst,
     columnWidth = columnWidth e \<circ> fst,
     isRowHidden = isRowHidden e \<circ> fst,
     isColumnHidden = isColumnHidden e \<circ> fst,
     frozenRowsCount = frozenRowsCount e \<circ> fst,
     frozenColumnsCount = frozenColumnsCount e \<circ> fst,
     flushSendQueue = logged CFlush (flushSendQueue e),
     pauseEvaluation = logged CPause (pauseEvaluation e),
     resumeEvaluation = logged CResume (resumeEvaluation e),
     evaluate = logged CEvaluate (evaluate e),
     setUserInput = (\<lambda>s r c v. logged CWrite (setUserInput e s r c v)),
     updateRangeStyle = (\<lambda>s g p v. logged CWrite (updateRangeStyle e s g p v)),
     setRangeStyles = (\<lambda>s r c st. logged CWrite (setRangeStyles e s r c st)),
     rangeClear = (\<lambda>k s g. logged CWrite (rangeClear e k s g)),
     insertRows = (\<lambda>s a b. logged CWrite (insertRows e s a b)),
     deleteRows = (\<lambda>s a b. logged CWrite (deleteRows e s a b)),
     insertColumns = (\<lambda>s a b. logged CWrite (insertColumns e s a b)),
     deleteColumns = (\<lambda>s a b. logged CWrite (deleteColumns e s a b)),
     moveRows = (\<lambda>s a b d. logged CWrite (moveRows e s a b d)),
     moveColumns = (\<lambda>s a b d. logged CWrite (moveColumns e s a b d)),
     setRowsHidden = (\<lambda>s a b h. logged CWrite (setRowsHidden e s a b h)),
     setColumnsHidden = (\<lambda>s a b h. logged CWrite (setColumnsHidden e s a b h)),
     setRowsHeight = (\<lambda>s a b h. logged CWrite (setRowsHeight e s a b h)),
     setColumnsWidth = (\<lambda>s a b h. logged CWrite (setColumnsWidth e s a b h)),
     setFrozenRowsCount = (\<lambda>s n. logged CWrite (setFrozenRowsCount e s n)),
     setFrozenColumnsCount = (\<lambda>s n. logged CWrite (setFrozenColumnsCount e s n)),
     newSheet = logged CWrite (newSheet e),
     deleteSheet = (\<lambda>s. logged CWrite (deleteSheet e s)),
     renameSheet = (\<lambda>s n. logged CWrite (renameSheet e s n)),
     moveSheet = (\<lambda>s i. logged CWrite (moveSheet e s i)),
     hideSheet = (\<lambda>s. logged CWrite (hideSheet e s)),
     unhideSheet = (\<lambda>s. logged CWrite (unhideSheet e s))\<rparr>"

text \<open>An action that only makes write calls.\<close>

definition only_writes :: "('m \<times> engine_call list, 'a) act \<Rightarrow> bool" where
  "only_writes p \<longleftrightarrow> (\<forall>m log. \<exists>n. snd (snd (p (m, log))) = log @ replicate n CWrite)"

named_theorems writes \<open>actions that only make write calls\<close>

lemma writes_logged [writes]: "only_writes (logged CWrite p)"
  unfolding only_writes_def logged_def
  by (auto split: prod.split intro!: exI [of _ 1])

lemma writes_ret [writes]: "only_writes (ret a)"
  and writes_raise [writes]: "only_writes (raise x)"
  and writes_ask [writes]: "only_writes (ask f)"
  and writes_attempt [writes]: "only_writes (attempt g)"
  by (auto simp: only_writes_def act_defs intro: exI [of _ 0])

lemma writes_and_then [writes]:
  assumes "only_writes p" "\<And>a. only_writes (f a)"
  shows "only_writes (and_then p f)"
  unfolding only_writes_def
proof (intro allI)
  fix m log
  obtain r m1 log1 where p: "p (m, log) = (r, m1, log1)" by (cases "p (m, log)") auto
  obtain n where n: "log1 = log @ replicate n CWrite"
    using assms(1) p unfolding only_writes_def by (metis snd_conv)
  show "\<exists>n. snd (snd (and_then p f (m, log))) = log @ replicate n CWrite"
  proof (cases r)
    case (Inl x)
    then show ?thesis using p n by (auto simp: and_then_def)
  next
    case (Inr a)
    obtain k where "snd (snd (f a (m1, log1))) = log1 @ replicate k CWrite"
      using assms(2) unfolding only_writes_def by blast
    then show ?thesis using p n Inr
      by (auto simp: and_then_def replicate_add intro!: exI [of _ "n + k"])
  qed
qed

lemma writes_seq [writes]: "only_writes p \<Longrightarrow> only_writes q \<Longrightarrow> only_writes (seq p q)"
  by (simp add: seq_def writes_and_then)

lemma writes_for_each [writes]: "(\<And>x. only_writes (f x)) \<Longrightarrow> only_writes (for_each f xs)"
  by (induction xs) (auto intro: writes)

section \<open>An engine in memory\<close>

text \<open>
  A small engine that keeps contents in a function, used to show that the hypotheses about
  the engine can hold.  It evaluates nothing: a cell's formatted value is its content.
\<close>

record memory =
  texts :: "int \<Rightarrow> int \<Rightarrow> int \<Rightarrow> jsstring"
  hidden_at :: "int \<Rightarrow> int \<Rightarrow> bool"
  tab_names :: "jsstring list"
  extent :: "int \<times> int \<times> int \<times> int"

definition memory_type :: "jsstring \<Rightarrow> int" where
  "memory_type v = (if v \<noteq> [] \<and> list_all is_digit v then 1 else 2)"

definition memory_engine :: "memory engine_model" where
  "memory_engine = \<lparr>
     binding = Node,
     sheets = (\<lambda>m. map (\<lambda>n. \<lparr>sheet_name = n, sheet_state = None, sheet_color = None\<rparr>) (tab_names m)),
     dimensions = (\<lambda>m s. extent m),
     cellContent = texts,
     formattedValue = texts,
     cellType = (\<lambda>m s r c. memory_type (texts m s r c)),
     cellStyle = (\<lambda>m s r c. []),
     rowHeight = (\<lambda>m s r. if hidden_at m s r then 0 else 20),
     columnWidth = (\<lambda>m s c. 80),
     isRowHidden = hidden_at,
     isColumnHidden = (\<lambda>m s c. False),
     frozenRowsCount = (\<lambda>m s. 0),
     frozenColumnsCount = (\<lambda>m s. 0),
     flushSendQueue = ret [0],
     pauseEvaluation = ret (),
     resumeEvaluation = ret (),
     evaluate = ret (),
     setUserInput = (\<lambda>s r c v m.
       (Inr (), m\<lparr>texts := (texts m)(s := (texts m s)(r := (texts m s r)(c := v)))\<rparr>)),
     updateRangeStyle = (\<lambda>s g p v. ret ()),
     setRangeStyles = (\<lambda>s r c st. ret ()),
     rangeClear = (\<lambda>k s g. ret ()),
     insertRows = (\<lambda>s a b. ret ()),
     deleteRows = (\<lambda>s a b. ret ()),
     insertColumns = (\<lambda>s a b. ret ()),
     deleteColumns = (\<lambda>s a b. ret ()),
     moveRows = (\<lambda>s a b d. ret ()),
     moveColumns = (\<lambda>s a b d. ret ()),
     setRowsHidden = (\<lambda>s a b h m.
       (Inr (), m\<lparr>hidden_at := (\<lambda>s' r. if s' = s \<and> a \<le> r \<and> r \<le> b then h else hidden_at m s' r)\<rparr>)),
     setColumnsHidden = (\<lambda>s a b h. ret ()),
     setRowsHeight = (\<lambda>s a b h. ret ()),
     setColumnsWidth = (\<lambda>s a b h. ret ()),
     setFrozenRowsCount = (\<lambda>s n. ret ()),
     setFrozenColumnsCount = (\<lambda>s n. ret ()),
     newSheet = ret (),
     deleteSheet = (\<lambda>s. ret ()),
     renameSheet = (\<lambda>s n. ret ()),
     moveSheet = (\<lambda>s i. ret ()),
     hideSheet = (\<lambda>s. ret ()),
     unhideSheet = (\<lambda>s. ret ())\<rparr>"

lemma memory_engine_calls [simp]:
  "sheets memory_engine m = map (\<lambda>n. \<lparr>sheet_name = n, sheet_state = None, sheet_color = None\<rparr>) (tab_names m)"
  "dimensions memory_engine m s = extent m"
  "cellContent memory_engine = texts" "formattedValue memory_engine = texts"
  "cellType memory_engine m s r c = memory_type (texts m s r c)"
  "cellStyle memory_engine m s r c = []"
  "isRowHidden memory_engine = hidden_at"
  "pauseEvaluation memory_engine = ret ()" "resumeEvaluation memory_engine = ret ()"
  "evaluate memory_engine = ret ()"
  "setUserInput memory_engine s r c v m =
     (Inr (), m\<lparr>texts := (texts m)(s := (texts m s)(r := (texts m s r)(c := v)))\<rparr>)"
  "setRangeStyles memory_engine s r c st = ret ()"
  "setRowsHidden memory_engine s a b h m =
     (Inr (), m\<lparr>hidden_at := (\<lambda>s' r. if s' = s \<and> a \<le> r \<and> r \<le> b then h else hidden_at m s' r)\<rparr>)"
  by (simp_all add: memory_engine_def)

lemma memory_engine_laws:
  "content_store memory_engine (\<lambda>v. v)" "styles_keep_content memory_engine"
  by (auto simp: content_store_def put_def styles_keep_content_def ret_def)

definition empty_memory :: memory where
  "empty_memory = \<lparr>texts = (\<lambda>s r c. []), hidden_at = (\<lambda>s r. False), tab_names = [js ''A''],
     extent = (1, 1, 1, 1)\<rparr>"

end
