(* ===== verification/SheetWrite.thy ===== *)
theory SheetWrite
  imports Engine
begin

text \<open>
  Writes (\<open>packages/spreadsheet/src/write.ts\<close>): the pause discipline, the batch summary, and
  the operations that change contents, formats, lines and tabs.

  \<open>runPaused\<close> is the \<open>try ... finally\<close> of the source: evaluation is resumed whether the
  body returned or raised, and a failing \<open>resumeEvaluation\<close> replaces the error of the body.
\<close>

section \<open>The pause discipline\<close>

definition runPaused :: "'m engine_model \<Rightarrow> ('m, 'a) act \<Rightarrow> ('m, 'a) act" where
  "runPaused e body =
     seq (pauseEvaluation e)
       (\<lambda>m. case body m of
          (result, m1) \<Rightarrow>
            (case resumeEvaluation e m1 of
               (Inl x, m2) \<Rightarrow> (Inl x, m2)
             | (Inr _, m2) \<Rightarrow>
                 (case result of
                    Inl x \<Rightarrow> (Inl x, m2)
                  | Inr v \<Rightarrow> seq (evaluate e) (ret v) m2)))"

definition EMPTY_DIFFS_BYTE :: "8 word" where
  "EMPTY_DIFFS_BYTE = 0"

definition isEmptyDiffs :: "8 word list \<Rightarrow> bool" where
  "isEmptyDiffs diffs \<longleftrightarrow>
     length diffs \<le> 1 \<and> (length diffs = 0 \<or> diffs ! 0 = EMPTY_DIFFS_BYTE)"

definition flushDiffs :: "'m engine_model \<Rightarrow> ('m, 8 word list option) act" where
  "flushDiffs e = and_then (flushSendQueue e) (\<lambda>diffs. ret (if isEmptyDiffs diffs then None else Some diffs))"

definition summaryOf ::
    "structural_kind option \<Rightarrow> int list \<Rightarrow> int \<Rightarrow> rectangle list \<Rightarrow> batch_summary" where
  "summaryOf kind sheets' count rects =
     \<lparr>structuralKind = kind, sheetIndexes = sort (remdups sheets'), cellCount = count,
      touched = take maxTouchedRectangles rects, intents = None\<rparr>"

section \<open>Contents\<close>

datatype cell_input = CellText jsstring | CellNumber int | CellBool bool | CellNone

record write_range_input =
  wr_sheet :: int
  anchor_row :: int
  anchor_column :: int
  wr_rows :: "cell_input list list"

fun asInput :: "cell_input \<Rightarrow> jsstring" where
  "asInput CellNone = []"
| "asInput (CellText s) = s"
| "asInput (CellNumber n) = int_text n"
| "asInput (CellBool b) = (if b then js ''true'' else js ''false'')"

text \<open>\<open>row[c]\<close> of a row that may be shorter than the widest one.\<close>

definition input_at :: "cell_input list \<Rightarrow> nat \<Rightarrow> cell_input" where
  "input_at row c = (if c < length row then row ! c else CellNone)"

definition widest :: "'a list list \<Rightarrow> nat" where
  "widest rows = foldl (\<lambda>w row. max w (length row)) 0 rows"

definition grid_positions :: "nat \<Rightarrow> nat \<Rightarrow> (nat \<times> nat) list" where
  "grid_positions height width = concat (map (\<lambda>r. map (Pair r) [0..<width]) [0..<height])"

definition write_cell_at :: "'m engine_model \<Rightarrow> write_range_input \<Rightarrow> nat \<times> nat \<Rightarrow> ('m, unit) act" where
  "write_cell_at e input = (\<lambda>(r, c).
     let text = asInput (input_at (wr_rows input ! r) c) in
     if length text > maxCellTextChars then raise TooLarge
     else setUserInput e (wr_sheet input) (anchor_row input + int r) (anchor_column input + int c) text)"

definition writeRange :: "'m engine_model \<Rightarrow> write_range_input \<Rightarrow> ('m, batch_summary) act" where
  "writeRange e input =
     (let height = length (wr_rows input); width = widest (wr_rows input) in
      if height = 0 \<or> width = 0 then ret (summaryOf None [wr_sheet input] 0 [])
      else
        (let rng = \<lparr>r0 = anchor_row input, c0 = anchor_column input,
                    r1 = anchor_row input + int height - 1, c1 = anchor_column input + int width - 1\<rparr>;
             count = selectionCellCount rng
         in if count > maxCellsPerWrite
            then raise (refusing_range rng TooLarge)
            else seq (runPaused e (for_each (write_cell_at e input) (grid_positions height width)))
                   (ret (summaryOf None [wr_sheet input] (int (height * width))
                      [rectangleOf (wr_sheet input) rng]))))"

definition clearRange ::
    "'m engine_model \<Rightarrow> int \<Rightarrow> selection \<Rightarrow> clear_kind option \<Rightarrow> ('m, batch_summary) act" where
  "clearRange e sheet rng kind =
     seq (runPaused e (rangeClear e (case kind of None \<Rightarrow> ClearContents | Some k \<Rightarrow> k) sheet rng))
       (ret (summaryOf None [sheet] (selectionCellCount rng) [rectangleOf sheet rng]))"

section \<open>Format\<close>

record style_edit =
  style_path :: jsstring
  style_value :: jsstring

definition formatRange ::
    "'m engine_model \<Rightarrow> int \<Rightarrow> selection \<Rightarrow> style_edit list \<Rightarrow> ('m, batch_summary) act" where
  "formatRange e sheet rng styles =
     (if styles = [] then raise BatchRejected
      else if selectionCellCount rng > maxCellsPerWrite then raise (refusing_range rng TooLarge)
      else seq (runPaused e (for_each (\<lambda>st. updateRangeStyle e sheet rng (style_path st) (style_value st)) styles))
             (ret (summaryOf None [sheet] (selectionCellCount rng) [rectangleOf sheet rng])))"

section \<open>Restructure\<close>

datatype restructure_action =
    RInsertRows int int int
  | RDeleteRows int int int
  | RInsertColumns int int int
  | RDeleteColumns int int int
  | RMoveRows int int int int
  | RMoveColumns int int int int
  | RSetRowsHidden int int int bool
  | RSetColumnsHidden int int int bool
  | RSetRowsHeight int int int int
  | RSetColumnsWidth int int int int
  | RSetFrozenRowsCount int int
  | RSetFrozenColumnsCount int int

definition whole_rows :: "int \<Rightarrow> int \<Rightarrow> selection" where
  "whole_rows low high = \<lparr>r0 = low, c0 = 1, r1 = high, c1 = 16384\<rparr>"

definition whole_columns :: "int \<Rightarrow> int \<Rightarrow> selection" where
  "whole_columns low high = \<lparr>r0 = 1, c0 = low, r1 = 1048576, c1 = high\<rparr>"

definition paused_summary ::
    "'m engine_model \<Rightarrow> ('m, unit) act \<Rightarrow> structural_kind option \<Rightarrow> int \<Rightarrow> rectangle list
      \<Rightarrow> ('m, batch_summary) act" where
  "paused_summary e body kind sheet rects =
     seq (runPaused e body) (ret (summaryOf kind [sheet] 0 rects))"

fun restructure :: "'m engine_model \<Rightarrow> restructure_action \<Rightarrow> ('m, batch_summary) act" where
  "restructure e (RInsertRows sheet row count) =
     paused_summary e (insertRows e sheet row count) (Some SKInsertRows) sheet
       [rectangleOf sheet (whole_rows row (row + count - 1))]"
| "restructure e (RDeleteRows sheet row count) =
     paused_summary e (deleteRows e sheet row count) (Some SKDeleteRows) sheet
       [rectangleOf sheet (whole_rows row (row + count - 1))]"
| "restructure e (RInsertColumns sheet column count) =
     paused_summary e (insertColumns e sheet column count) (Some SKInsertColumns) sheet
       [rectangleOf sheet (whole_columns column (column + count - 1))]"
| "restructure e (RDeleteColumns sheet column count) =
     paused_summary e (deleteColumns e sheet column count) (Some SKDeleteColumns) sheet
       [rectangleOf sheet (whole_columns column (column + count - 1))]"
| "restructure e (RMoveRows sheet start count delta) =
     (if delta = 0 then ret (summaryOf (Some SKMoveRows) [sheet] 0 [])
      else paused_summary e (moveRows e sheet start count delta) (Some SKMoveRows) sheet
        [rectangleOf sheet
          (whole_rows (min start (start + delta)) (max start (start + delta) + count - 1))])"
| "restructure e (RMoveColumns sheet start count delta) =
     (if delta = 0 then ret (summaryOf (Some SKMoveColumns) [sheet] 0 [])
      else paused_summary e (moveColumns e sheet start count delta) (Some SKMoveColumns) sheet
        [rectangleOf sheet
          (whole_columns (min start (start + delta)) (max start (start + delta) + count - 1))])"
| "restructure e (RSetRowsHidden sheet start stop hidden) =
     paused_summary e (setRowsHidden e sheet start stop hidden) None sheet
       [rectangleOf sheet (whole_rows start stop)]"
| "restructure e (RSetColumnsHidden sheet start stop hidden) =
     paused_summary e (setColumnsHidden e sheet start stop hidden) None sheet
       [rectangleOf sheet (whole_columns start stop)]"
| "restructure e (RSetRowsHeight sheet start stop sz) =
     paused_summary e (setRowsHeight e sheet start stop sz) None sheet
       [rectangleOf sheet (whole_rows start stop)]"
| "restructure e (RSetColumnsWidth sheet start stop sz) =
     paused_summary e (setColumnsWidth e sheet start stop sz) None sheet
       [rectangleOf sheet (whole_columns start stop)]"
| "restructure e (RSetFrozenRowsCount sheet count) =
     paused_summary e (setFrozenRowsCount e sheet count) None sheet []"
| "restructure e (RSetFrozenColumnsCount sheet count) =
     paused_summary e (setFrozenColumnsCount e sheet count) None sheet []"

section \<open>Tabs\<close>

datatype tab_action =
    AddTab "jsstring option"
  | DeleteTab int
  | RenameTab int jsstring
  | MoveTab int int
  | HideTab int
  | UnhideTab int

definition requireSheet :: "nat \<Rightarrow> int \<Rightarrow> ('m, unit) act" where
  "requireSheet count index = (if index < 0 \<or> index \<ge> int count then raise BatchRejected else ret ())"

text \<open>\<open>findIndex\<close> of another sheet of that name, \<open>-1\<close> when there is none.\<close>

definition name_clash :: "sheet_properties list \<Rightarrow> int \<Rightarrow> jsstring \<Rightarrow> int" where
  "name_clash before sheet name =
     find_index_from 0 (\<lambda>(index, p). index \<noteq> sheet \<and> sheet_name p = name)
       (zip (map int [0..<length before]) before)"

fun manage_tabs :: "'m engine_model \<Rightarrow> sheet_properties list \<Rightarrow> tab_action \<Rightarrow> ('m, batch_summary) act" where
  "manage_tabs e before (AddTab name) =
     (if int (length before) \<ge> maxSheets then raise TooLarge
      else paused_summary e
             (seq (newSheet e)
                (case name of None \<Rightarrow> ret () | Some n \<Rightarrow> renameSheet e (int (length before)) n))
             (Some SKAddSheet) (int (length before)) [])"
| "manage_tabs e before (DeleteTab sheet) =
     (if length before \<le> 1 then raise BatchRejected
      else seq (requireSheet (length before) sheet)
             (paused_summary e (deleteSheet e sheet) (Some SKDeleteSheet) sheet []))"
| "manage_tabs e before (RenameTab sheet raw) =
     seq (requireSheet (length before) sheet)
       (let name = js_trim raw in
        if name = [] then raise BatchRejected
        else if name_clash before sheet name \<noteq> -1 then raise BatchRejected
        else paused_summary e (renameSheet e sheet name) (Some SKRenameSheet) sheet [])"
| "manage_tabs e before (MoveTab sheet toIndex) =
     seq (requireSheet (length before) sheet)
       (seq (requireSheet (length before) toIndex)
         (seq (runPaused e (moveSheet e sheet toIndex))
           (ret (summaryOf (Some SKMoveSheet) [sheet, toIndex] 0 []))))"
| "manage_tabs e before (HideTab sheet) =
     seq (requireSheet (length before) sheet) (paused_summary e (hideSheet e sheet) None sheet [])"
| "manage_tabs e before (UnhideTab sheet) =
     seq (requireSheet (length before) sheet) (paused_summary e (unhideSheet e sheet) None sheet [])"

definition manageTabs :: "'m engine_model \<Rightarrow> tab_action \<Rightarrow> ('m, batch_summary) act" where
  "manageTabs e action m = manage_tabs e (sheets e m) action m"

section \<open>Every engine call is inside the pause\<close>

definition disciplined :: "bool \<Rightarrow> engine_call list \<Rightarrow> bool" where
  "disciplined returned log \<longleftrightarrow>
     log = [] \<or> (\<exists>n. log = CPause # replicate n CWrite @ [CResume, CEvaluate]) \<or>
     \<not> returned \<and> (log = [CPause] \<or> (\<exists>n. log = CPause # replicate n CWrite @ [CResume]))"

text \<open>An action whose whole call log, on a recorded engine, is disciplined.\<close>

definition paused_act :: "('m \<times> engine_call list, 'a) act \<Rightarrow> bool" where
  "paused_act p \<longleftrightarrow> (\<forall>m. case p (m, []) of (r, (_, log)) \<Rightarrow> disciplined (\<not> isl r) log)"

lemma paused_no_calls:
  "paused_act (ret a)" "paused_act (raise x)"
  by (simp_all add: paused_act_def disciplined_def ret_def raise_def)

lemma recorded_pause_calls:
  "pauseEvaluation (recorded e) = logged CPause (pauseEvaluation e)"
  "resumeEvaluation (recorded e) = logged CResume (resumeEvaluation e)"
  "evaluate (recorded e) = logged CEvaluate (evaluate e)"
  by (simp_all add: recorded_def)

lemma runPaused_disciplined:
  assumes "only_writes body"
  shows "paused_act (runPaused (recorded e) body)"
  unfolding paused_act_def
proof (intro allI)
  fix m
  obtain rp mp where p: "pauseEvaluation e m = (rp, mp)" by (cases "pauseEvaluation e m")
  obtain rb mb lb where b: "body (mp, [CPause]) = (rb, mb, lb)" by (cases "body (mp, [CPause])") auto
  obtain n where n: "lb = [CPause] @ replicate n CWrite"
    using assms b unfolding only_writes_def by (metis snd_conv)
  obtain rr mr where r: "resumeEvaluation e mb = (rr, mr)" by (cases "resumeEvaluation e mb")
  obtain re me where ev: "evaluate e mr = (re, me)" by (cases "evaluate e mr")
  show "case runPaused (recorded e) body (m, []) of (r, (_, log)) \<Rightarrow> disciplined (\<not> isl r) log"
    using p b n r ev
    by (cases rp; cases rb; cases rr; cases re)
      (simp_all add: runPaused_def recorded_pause_calls logged_def act_defs disciplined_def)
qed

lemma paused_then_ret:
  assumes "paused_act p"
  shows "paused_act (seq p (ret a))"
  unfolding paused_act_def
proof (intro allI)
  fix m
  obtain r m' log where p: "p (m, []) = (r, m', log)" by (cases "p (m, [])") auto
  then have "disciplined (\<not> isl r) log"
    using assms [unfolded paused_act_def, THEN spec [of _ m]] by simp
  then show "case seq p (ret a) (m, []) of (r, (_, log)) \<Rightarrow> disciplined (\<not> isl r) log"
    using p by (cases r) (simp_all add: act_defs)
qed

lemma paused_after_check:
  "paused_act q \<Longrightarrow> paused_act (seq (requireSheet n i) q)"
  by (simp add: paused_act_def requireSheet_def act_defs disciplined_def)

lemma paused_paused_summary:
  "only_writes body \<Longrightarrow> paused_act (paused_summary (recorded e) body k s rects)"
  unfolding paused_summary_def by (intro paused_then_ret runPaused_disciplined)

lemma recorded_write_calls [writes]:
  "only_writes (setUserInput (recorded e) s r c v)"
  "only_writes (updateRangeStyle (recorded e) s g p v)"
  "only_writes (setRangeStyles (recorded e) s r c st)"
  "only_writes (rangeClear (recorded e) k s g)"
  "only_writes (insertRows (recorded e) s a b)" "only_writes (deleteRows (recorded e) s a b)"
  "only_writes (insertColumns (recorded e) s a b)" "only_writes (deleteColumns (recorded e) s a b)"
  "only_writes (moveRows (recorded e) s a b d)" "only_writes (moveColumns (recorded e) s a b d)"
  "only_writes (setRowsHidden (recorded e) s a b h)" "only_writes (setColumnsHidden (recorded e) s a b h)"
  "only_writes (setRowsHeight (recorded e) s a b z)" "only_writes (setColumnsWidth (recorded e) s a b z)"
  "only_writes (setFrozenRowsCount (recorded e) s z)" "only_writes (setFrozenColumnsCount (recorded e) s z)"
  "only_writes (newSheet (recorded e))" "only_writes (deleteSheet (recorded e) s)"
  "only_writes (renameSheet (recorded e) s nm)" "only_writes (moveSheet (recorded e) s i)"
  "only_writes (hideSheet (recorded e) s)" "only_writes (unhideSheet (recorded e) s)"
  by (simp_all add: recorded_def writes_logged)

lemma writes_write_cell_at [writes]: "only_writes (write_cell_at (recorded e) input rc)"
  by (cases rc) (auto simp: write_cell_at_def Let_def intro: writes)

lemma writeRange_paused: "paused_act (writeRange (recorded e) input)"
  unfolding writeRange_def Let_def
  by (auto intro!: paused_no_calls paused_then_ret runPaused_disciplined writes)

lemma clearRange_paused: "paused_act (clearRange (recorded e) s g k)"
  unfolding clearRange_def by (intro paused_then_ret runPaused_disciplined writes)

lemma formatRange_paused: "paused_act (formatRange (recorded e) s g styles)"
  unfolding formatRange_def
  by (auto intro!: paused_no_calls paused_then_ret runPaused_disciplined writes)

lemma restructure_paused: "paused_act (restructure (recorded e) action)"
  by (cases action) (auto intro!: paused_paused_summary paused_no_calls writes)

lemma manageTabs_paused: "paused_act (manageTabs (recorded e) action)"
proof -
  have "paused_act (manage_tabs (recorded e) before action)" for before
    by (cases action)
      (auto simp: Let_def intro!: paused_paused_summary paused_no_calls paused_after_check
        paused_then_ret runPaused_disciplined writes split: option.split)
  then show ?thesis by (simp add: paused_act_def manageTabs_def)
qed

text \<open>C22: every operation keeps the pause discipline, for every engine.  Whatever the
  engine does, the calls that \<open>writeRange\<close>, \<open>clearRange\<close>, \<open>formatRange\<close>, \<open>restructure\<close> and
  \<open>manageTabs\<close> make are either none, or one pause, the writes, one resume and exactly one
  evaluation; an operation that raises has still resumed unless pausing itself failed.\<close>

theorem writes_are_paused:
  "paused_act (writeRange (recorded e) input) \<and> paused_act (clearRange (recorded e) s g k) \<and>
   paused_act (formatRange (recorded e) s g styles) \<and> paused_act (restructure (recorded e) action) \<and>
   paused_act (manageTabs (recorded e) tab)"
  using writeRange_paused clearRange_paused formatRange_paused restructure_paused manageTabs_paused
  by blast

section \<open>What a write leaves in the sheet\<close>

lemma runPaused_result:
  assumes "runPaused e body m = (Inr v, m')"
  obtains m0 m1 m2 where "pauseEvaluation e m = (Inr (), m0)" "body m0 = (Inr v, m1)"
    "resumeEvaluation e m1 = (Inr (), m2)" "evaluate e m2 = (Inr (), m')"
  using assms unfolding runPaused_def act_defs
  by (auto split: prod.splits sum.splits)

lemma runPaused_content:
  assumes "content_store e norm" "runPaused e body m = (Inr v, m')"
  obtains m0 m1 where "cellContent e m0 = cellContent e m" "body m0 = (Inr v, m1)"
    "cellContent e m' = cellContent e m1"
proof -
  from runPaused_result [OF assms(2)] obtain m0 m1 m2
    where s: "pauseEvaluation e m = (Inr (), m0)" "body m0 = (Inr v, m1)"
      "resumeEvaluation e m1 = (Inr (), m2)" "evaluate e m2 = (Inr (), m')" by blast
  have "cellContent e m0 = cellContent e m" "cellContent e m2 = cellContent e m1"
    "cellContent e m' = cellContent e m2"
    using assms(1) s(1,3,4) unfolding content_store_def by (metis snd_conv)+
  then show ?thesis using that s(2) by auto
qed

lemma seq_Inr:
  "seq p q m = (Inr v, m') \<longleftrightarrow> (\<exists>m1. p m = (Inr (), m1) \<and> q m1 = (Inr v, m'))"
  by (auto simp: seq_def and_then_def split: prod.split sum.split)

lemma set_grid_positions: "set (grid_positions h w) = {..<h} \<times> {..<w}"
  by (auto simp: grid_positions_def)

lemma distinct_grid_positions: "distinct (grid_positions h w)"
proof (induction h)
  case 0
  then show ?case by (simp add: grid_positions_def)
next
  case (Suc h)
  have "grid_positions (Suc h) w = grid_positions h w @ map (Pair h) [0..<w]"
    by (simp add: grid_positions_def)
  then show ?case using Suc by (auto simp: distinct_map inj_on_def set_grid_positions)
qed

lemma distinct_positions_at:
  "distinct (map (\<lambda>rc. (a + int (fst rc), b + int (snd rc))) (grid_positions h w))"
  using distinct_grid_positions by (auto simp: distinct_map inj_on_def)

text \<open>What a block of cells written at an anchor leaves.\<close>

lemma fold_put_block:
  "fold (\<lambda>rc. put t (a + int (fst rc), b + int (snd rc)) (val rc)) (grid_positions h w) f s r c =
     (if s = t \<and> 0 \<le> r - a \<and> r - a < int h \<and> 0 \<le> c - b \<and> c - b < int w
      then val (nat (r - a), nat (c - b)) else f s r c)"
proof -
  let ?pos = "\<lambda>rc :: nat \<times> nat. (a + int (fst rc), b + int (snd rc))"
  consider "s \<noteq> t"
    | "s = t" "0 \<le> r - a \<and> r - a < int h \<and> 0 \<le> c - b \<and> c - b < int w"
    | "s = t" "\<not> (0 \<le> r - a \<and> r - a < int h \<and> 0 \<le> c - b \<and> c - b < int w)" by blast
  then show ?thesis
  proof cases
    case 1
    then show ?thesis by (simp add: fold_put_other_sheet)
  next
    case 2
    then have "(nat (r - a), nat (c - b)) \<in> set (grid_positions h w)"
      "?pos (nat (r - a), nat (c - b)) = (r, c)"
      by (auto simp: set_grid_positions nat_less_iff)
    from fold_put_hit [OF distinct_positions_at this, of t val f] show ?thesis using 2 by simp
  next
    case 3
    then have "(r, c) \<notin> ?pos ` set (grid_positions h w)"
      by (auto simp: set_grid_positions)
    from fold_put_miss [OF this, of t val f] show ?thesis using 3 by auto
  qed
qed

lemma writeRange_contents:
  assumes store: "content_store e norm" and w: "writeRange e input m = (Inr summary, m')"
  shows "cellContent e m' =
    fold (\<lambda>rc. put (wr_sheet input) (anchor_row input + int (fst rc), anchor_column input + int (snd rc))
             (norm (asInput (input_at (wr_rows input ! fst rc) (snd rc)))))
      (grid_positions (length (wr_rows input)) (widest (wr_rows input))) (cellContent e m)"
proof (cases "length (wr_rows input) = 0 \<or> widest (wr_rows input) = 0")
  case True
  then have "grid_positions (length (wr_rows input)) (widest (wr_rows input)) = []"
    by (auto simp: grid_positions_def)
  then show ?thesis using w True by (auto simp: writeRange_def Let_def ret_def)
next
  case False
  let ?ps = "grid_positions (length (wr_rows input)) (widest (wr_rows input))"
  have "runPaused e (for_each (write_cell_at e input) ?ps) m = (Inr (), m')"
    using w False unfolding writeRange_def Let_def
    by (auto simp: seq_Inr ret_def raise_def split: if_splits)
  from runPaused_content [OF store this] obtain m0 m1
    where m: "cellContent e m0 = cellContent e m" "for_each (write_cell_at e input) ?ps m0 = (Inr (), m1)"
      "cellContent e m' = cellContent e m1" by blast
  have "cellContent e b = put (wr_sheet input) (anchor_row input + int (fst x), anchor_column input + int (snd x))
      (norm (asInput (input_at (wr_rows input ! fst x) (snd x)))) (cellContent e a)"
    if "write_cell_at e input x a = (Inr (), b)" for x a b
    using that store by (cases x) (auto simp: write_cell_at_def Let_def raise_def content_store_def split: if_splits)
  from for_each_content [OF this m(2)] show ?thesis using m(1,3) by simp
qed

text \<open>C23: a write that returns has written its block.  When \<open>writeRange\<close> returns, every
  cell of the anchored block holds the engine's spelling of its input (cells a short row
  does not have are cleared), every other cell is as it was, and the summary counts the
  cells of the block.\<close>

theorem writeRange_correct:
  assumes store: "content_store e norm" and w: "writeRange e input m = (Inr summary, m')"
  shows "(\<forall>s r c. cellContent e m' s r c =
      (let i = r - anchor_row input; j = c - anchor_column input in
       if s = wr_sheet input \<and> 0 \<le> i \<and> i < int (length (wr_rows input)) \<and>
          0 \<le> j \<and> j < int (widest (wr_rows input))
       then norm (asInput (input_at (wr_rows input ! nat i) (nat j)))
       else cellContent e m s r c)) \<and>
    cellCount summary = int (length (wr_rows input) * widest (wr_rows input))"
proof
  show "\<forall>s r c. cellContent e m' s r c =
      (let i = r - anchor_row input; j = c - anchor_column input in
       if s = wr_sheet input \<and> 0 \<le> i \<and> i < int (length (wr_rows input)) \<and>
          0 \<le> j \<and> j < int (widest (wr_rows input))
       then norm (asInput (input_at (wr_rows input ! nat i) (nat j)))
       else cellContent e m s r c)"
    unfolding writeRange_contents [OF assms] fold_put_block by (simp add: Let_def)
  show "cellCount summary = int (length (wr_rows input) * widest (wr_rows input))"
    using w by (auto simp: writeRange_def summaryOf_def Let_def seq_Inr ret_def raise_def split: if_splits)
qed

lemma runPaused_memory [simp]: "runPaused memory_engine body = body"
  by (rule ext) (simp add: runPaused_def act_defs split: prod.split sum.split)

definition sample_write :: write_range_input where
  "sample_write = \<lparr>wr_sheet = 0, anchor_row = 2, anchor_column = 3,
     wr_rows = [[CellText (js ''a''), CellNumber 7], [CellBool True]]\<rparr>"

theorem writeRange_correct_witness:
  "\<exists>summary m'. writeRange memory_engine sample_write empty_memory = (Inr summary, m') \<and>
     texts m' 0 2 4 = js ''7'' \<and> texts m' 0 3 3 = js ''true'' \<and> texts m' 0 3 4 = [] \<and>
     cellCount summary = 4"
proof -
  obtain summary m' where w: "writeRange memory_engine sample_write empty_memory = (Inr summary, m')"
    by (simp add: writeRange_def sample_write_def memory_engine_def widest_def selectionCellCount_def
        spreadsheet_limits runPaused_def grid_positions_def write_cell_at_def input_at_def act_defs
        nat_text.simps int_text_def js_simps upt_rec)
  note c = writeRange_correct [OF memory_engine_laws(1) w]
  have "int_text 7 = js ''7''" by (simp add: int_text_def nat_text.simps digit_def js_simps)
  then show ?thesis
    using w c
    by (intro exI [of _ summary] exI [of _ m'])
      (simp add: sample_write_def memory_engine_def widest_def input_at_def)
qed

end
