(* ===== verification/SheetFilter.thy ===== *)
theory SheetFilter
  imports SheetWrite Rebase
begin

text \<open>
  The filter of \<open>packages/spreadsheet/src/filter.ts\<close>: criteria over formatted values, the
  rows they hide, applying and clearing a filter without touching a row hidden by hand, and
  moving a filter through a structural edit.

  Numbers of a criterion are an ordered type \<open>'n\<close>: the code only parses, compares and
  prints them.  A \<open>number_syntax\<close> holds \<open>Number(s)\<close> restricted to finite results and
  \<open>String(n)\<close>; \<open>lower\<close> is \<open>String.prototype.toLowerCase\<close>.  A \<open>columns\<close> object is a list of
  entries in ascending key order, the order in which integer keys are enumerated.
\<close>

section \<open>The filter model\<close>

datatype filter_op =
    OpEq | OpNe | OpGt | OpGte | OpLt | OpLte | OpContains | OpNotContains | OpStartsWith
  | OpEndsWith | OpEmpty | OpNotEmpty | OpBetween

datatype 'n filter_value = FText jsstring | FNumber 'n

datatype 'n filter_column =
    ValuesColumn "jsstring list" bool
  | ConditionColumn filter_op "'n filter_value option" "'n filter_value option" bool

record filter_sort =
  sort_column :: int
  sort_descending :: bool

record 'n filter_model =
  f_range :: selection
  columns :: "(int \<times> 'n filter_column) list"
  f_sort :: "filter_sort option"
  hiddenRows :: "int list"
  appliedAtSeq :: jsstring

record 'n number_syntax =
  number_of :: "jsstring \<Rightarrow> 'n option"
  number_text :: "'n \<Rightarrow> jsstring"
  lower :: "jsstring \<Rightarrow> jsstring"

fun value_ok :: "'n filter_value option \<Rightarrow> bool" where
  "value_ok (Some (FText s)) = (length s \<le> maxCellTextChars)"
| "value_ok _ = True"

fun column_ok :: "'n filter_column \<Rightarrow> bool" where
  "column_ok (ValuesColumn vs _) =
     (length vs \<le> 10000 \<and> list_all (\<lambda>v. length v \<le> maxCellTextChars) vs)"
| "column_ok (ConditionColumn _ v v2 _) = (value_ok v \<and> value_ok v2)"

text \<open>\<open>SpreadsheetFilterModelSchema\<close>.\<close>

definition filter_ok :: "'n filter_model \<Rightarrow> bool" where
  "filter_ok f \<longleftrightarrow>
     selection_ok (f_range f) \<and>
     list_all (\<lambda>(key, c). 1 \<le> key \<and> key \<le> 99999 \<and> column_ok c) (columns f) \<and>
     (case f_sort f of None \<Rightarrow> True
      | Some s \<Rightarrow> 1 \<le> sort_column s \<and> sort_column s \<le> SPREADSHEET_MAX_COLUMNS) \<and>
     list_all (\<lambda>row. 1 \<le> row \<and> row \<le> SPREADSHEET_MAX_ROWS) (hiddenRows f) \<and>
     int (length (hiddenRows f)) \<le> SPREADSHEET_MAX_ROWS"

definition parse_filter :: "'n filter_model \<Rightarrow> engine_error + 'n filter_model" where
  "parse_filter f = (if filter_ok f then Inr f else Inl SchemaRejected)"

definition emptyFilter :: "selection \<Rightarrow> jsstring \<Rightarrow> engine_error + 'n filter_model" where
  "emptyFilter rng seq_no = parse_filter
     \<lparr>f_range = rng, columns = [], f_sort = None, hiddenRows = [], appliedAtSeq = seq_no\<rparr>"

section \<open>Criteria\<close>

fun asNumber :: "'n number_syntax \<Rightarrow> 'n filter_value option \<Rightarrow> 'n option" where
  "asNumber ns None = None"
| "asNumber ns (Some (FNumber n)) = Some n"
| "asNumber ns (Some (FText s)) =
     (let trimmed = js_trim s in if trimmed = [] then None else number_of ns trimmed)"

definition fold_case :: "'n number_syntax \<Rightarrow> jsstring \<Rightarrow> bool \<Rightarrow> jsstring" where
  "fold_case ns text caseSensitive = (if caseSensitive then text else lower ns text)"

text \<open>\<open>typeof value === 'number' ? String(value) : (value ?? '')\<close>.\<close>

fun value_text :: "'n number_syntax \<Rightarrow> 'n filter_value option \<Rightarrow> jsstring" where
  "value_text ns None = []"
| "value_text ns (Some (FNumber n)) = number_text ns n"
| "value_text ns (Some (FText s)) = s"

text \<open>The relational operators on strings compare code units.\<close>

fun js_less :: "jsstring \<Rightarrow> jsstring \<Rightarrow> bool" where
  "js_less _ [] = False"
| "js_less [] (d # t) = True"
| "js_less (c # s) (d # t) = (c < d \<or> c = d \<and> js_less s t)"

definition js_less_eq :: "jsstring \<Rightarrow> jsstring \<Rightarrow> bool" where
  "js_less_eq s t \<longleftrightarrow> \<not> js_less t s"

definition compare_with ::
    "('n \<Rightarrow> 'n \<Rightarrow> bool) \<Rightarrow> (jsstring \<Rightarrow> jsstring \<Rightarrow> bool) \<Rightarrow> 'n option \<Rightarrow> 'n option
      \<Rightarrow> jsstring \<Rightarrow> jsstring \<Rightarrow> bool" where
  "compare_with num txt a b left right =
     (case (a, b) of (Some x, Some y) \<Rightarrow> num x y | _ \<Rightarrow> txt left right)"

fun matchesColumn :: "'n::linorder number_syntax \<Rightarrow> 'n filter_column \<Rightarrow> jsstring \<Rightarrow> bool" where
  "matchesColumn ns (ValuesColumn vs blanks) cell =
     (if cell = [] then blanks else cell \<in> set vs)"
| "matchesColumn ns (ConditionColumn operator v v2 sensitive) cell =
     (let left = fold_case ns cell sensitive;
          right = fold_case ns (value_text ns v) sensitive;
          leftNumber = asNumber ns (Some (FText cell));
          rightNumber = asNumber ns v
      in case operator of
           OpEmpty \<Rightarrow> cell = []
         | OpNotEmpty \<Rightarrow> cell \<noteq> []
         | OpEq \<Rightarrow> compare_with (=) (=) leftNumber rightNumber left right
         | OpNe \<Rightarrow> compare_with (\<noteq>) (\<noteq>) leftNumber rightNumber left right
         | OpGt \<Rightarrow> compare_with (>) (\<lambda>a b. js_less b a) leftNumber rightNumber left right
         | OpGte \<Rightarrow> compare_with (\<ge>) (\<lambda>a b. js_less_eq b a) leftNumber rightNumber left right
         | OpLt \<Rightarrow> compare_with (<) js_less leftNumber rightNumber left right
         | OpLte \<Rightarrow> compare_with (\<le>) js_less_eq leftNumber rightNumber left right
         | OpContains \<Rightarrow> js_includes left right
         | OpNotContains \<Rightarrow> \<not> js_includes left right
         | OpStartsWith \<Rightarrow> starts_with left right
         | OpEndsWith \<Rightarrow> ends_with left right
         | OpBetween \<Rightarrow>
             (case (leftNumber, rightNumber, asNumber ns v2) of
                (Some x, Some y, Some z) \<Rightarrow> min y z \<le> x \<and> x \<le> max y z
              | _ \<Rightarrow>
                (let high = fold_case ns (value_text ns v2) sensitive;
                     low = (if js_less_eq right high then right else high);
                     top = (if js_less_eq right high then high else right)
                 in js_less_eq low left \<and> js_less_eq left top)))"

definition rowPasses ::
    "'n::linorder number_syntax \<Rightarrow> 'm engine_model \<Rightarrow> 'm \<Rightarrow> int \<Rightarrow> 'n filter_model \<Rightarrow> int \<Rightarrow> bool" where
  "rowPasses ns e m sheet f row =
     list_all (\<lambda>(column, criterion).
        column < c0 (f_range f) \<or> column > c1 (f_range f) \<or>
        matchesColumn ns criterion (formattedValue e m sheet row column)) (columns f)"

definition hiddenRowsFor ::
    "'n::linorder number_syntax \<Rightarrow> 'm engine_model \<Rightarrow> 'm \<Rightarrow> int \<Rightarrow> 'n filter_model \<Rightarrow> int list" where
  "hiddenRowsFor ns e m sheet f =
     (if length (columns f) = 0 then []
      else filter (\<lambda>row. \<not> rowPasses ns e m sheet f row) [r0 (f_range f) + 1..r1 (f_range f)])"

section \<open>Application\<close>

text \<open>The loop of \<open>runsOf\<close> extends the last run in place; here the runs are kept reversed.\<close>

fun runs_loop :: "int list \<Rightarrow> (int \<times> int) list \<Rightarrow> (int \<times> int) list" where
  "runs_loop [] runs = rev runs"
| "runs_loop (row # rows) ((start, stop) # runs) =
     (if row = stop + 1 then runs_loop rows ((start, row) # runs)
      else runs_loop rows ((row, row) # (start, stop) # runs))"
| "runs_loop (row # rows) [] = runs_loop rows [(row, row)]"

definition runsOf :: "int list \<Rightarrow> (int \<times> int) list" where
  "runsOf rows = runs_loop rows []"

record 'n apply_filter_result =
  res_filter :: "'n filter_model"
  res_summary :: batch_summary
  res_hidden :: "int list"
  res_shown :: "int list"

definition set_runs :: "'m engine_model \<Rightarrow> int \<Rightarrow> bool \<Rightarrow> int list \<Rightarrow> ('m, unit) act" where
  "set_runs e sheet hide rows =
     for_each (\<lambda>(start, stop). setRowsHidden e sheet start stop hide) (runsOf rows)"

definition applyFilter ::
    "'n::linorder number_syntax \<Rightarrow> 'm engine_model \<Rightarrow> int \<Rightarrow> 'n filter_model \<Rightarrow> jsstring option
      \<Rightarrow> ('m, 'n apply_filter_result) act" where
  "applyFilter ns e sheet f appliedAt m =
     (case parse_filter f of Inl x \<Rightarrow> (Inl x, m)
      | Inr parsed \<Rightarrow>
        (let wanted = hiddenRowsFor ns e m sheet parsed;
             toHide = filter (\<lambda>row. row \<notin> set (hiddenRows parsed) \<or> \<not> isRowHidden e m sheet row) wanted;
             toShow = sort (filter (\<lambda>row. row \<notin> set wanted) (hiddenRows parsed))
         in seq (runPaused e (seq (set_runs e sheet False toShow) (set_runs e sheet True toHide)))
              (ret \<lparr>res_filter = parsed\<lparr>hiddenRows := wanted,
                      appliedAtSeq := (case appliedAt of None \<Rightarrow> appliedAtSeq parsed | Some a \<Rightarrow> a)\<rparr>,
                    res_summary = summaryOf None [sheet] 0 [rectangleOf sheet (f_range parsed)],
                    res_hidden = toHide, res_shown = toShow\<rparr>) m))"

definition clearFilter ::
    "'m engine_model \<Rightarrow> int \<Rightarrow> 'n filter_model \<Rightarrow> ('m, 'n apply_filter_result) act" where
  "clearFilter e sheet f m =
     (case parse_filter f of Inl x \<Rightarrow> (Inl x, m)
      | Inr parsed \<Rightarrow>
        (let toShow = sort (hiddenRows parsed)
         in seq (runPaused e (set_runs e sheet False toShow))
              (ret \<lparr>res_filter = parsed\<lparr>columns := [], hiddenRows := []\<rparr>,
                    res_summary = summaryOf None [sheet] 0 [rectangleOf sheet (f_range parsed)],
                    res_hidden = [], res_shown = toShow\<rparr>) m))"

section \<open>Remap\<close>

definition shiftBound :: "int \<Rightarrow> structural_edit \<Rightarrow> axis \<Rightarrow> bool \<Rightarrow> int option" where
  "shiftBound index e axis low =
     (case shiftIndex index e axis of Some s \<Rightarrow> Some s
      | None \<Rightarrow>
        (case e of
           DeleteRows _ row _ \<Rightarrow> Some (if low then row else row - 1)
         | DeleteColumns _ column _ \<Rightarrow> Some (if low then column else column - 1)
         | _ \<Rightarrow> None))"

text \<open>Assignment to an object with integer keys.\<close>

fun put_key :: "int \<Rightarrow> 'v \<Rightarrow> (int \<times> 'v) list \<Rightarrow> (int \<times> 'v) list" where
  "put_key k v [] = [(k, v)]"
| "put_key k v ((k', v') # rest) =
     (if k < k' then (k, v) # (k', v') # rest
      else if k = k' then (k, v) # rest
      else (k', v') # put_key k v rest)"

definition remap_columns ::
    "structural_edit \<Rightarrow> int \<Rightarrow> int \<Rightarrow> (int \<times> 'n filter_column) list \<Rightarrow> (int \<times> 'n filter_column) list" where
  "remap_columns e low high cols =
     fold (\<lambda>(key, criterion) acc.
       case shiftIndex key e ColumnAxis of None \<Rightarrow> acc
       | Some moved \<Rightarrow> if moved < low \<or> moved > high then acc else put_key moved criterion acc) cols []"

definition remap_hidden :: "structural_edit \<Rightarrow> int \<Rightarrow> int \<Rightarrow> int list \<Rightarrow> int list" where
  "remap_hidden e low high rows =
     sort (filter (\<lambda>row. row > low \<and> row \<le> high) (List.map_filter (\<lambda>row. shiftIndex row e RowAxis) rows))"

definition remapFilter ::
    "'n filter_model \<Rightarrow> int \<Rightarrow> structural_edit \<Rightarrow> 'n filter_model option" where
  "remapFilter f sheet e =
     (case e of
        DeleteSheet index \<Rightarrow> if index = sheet then None else Some f
      | AddSheet _ \<Rightarrow> Some f
      | MoveSheet _ _ \<Rightarrow> Some f
      | _ \<Rightarrow>
        if edit_sheet e \<noteq> sheet then Some f
        else
          (case (shiftBound (r0 (f_range f)) e RowAxis True, shiftBound (r1 (f_range f)) e RowAxis False,
                 shiftBound (c0 (f_range f)) e ColumnAxis True,
                 shiftBound (c1 (f_range f)) e ColumnAxis False) of
             (Some r0', Some r1', Some c0', Some c1') \<Rightarrow>
               if r1' \<le> r0' \<or> c1' < c0' \<or> r0' < 1 \<or> c0' < 1 \<or>
                  r1' > SPREADSHEET_MAX_ROWS \<or> c1' > SPREADSHEET_MAX_COLUMNS
               then None
               else Some
                 \<lparr>f_range = \<lparr>r0 = r0', c0 = c0', r1 = r1', c1 = c1'\<rparr>,
                  columns = remap_columns e c0' c1' (columns f),
                  f_sort = (case f_sort f of None \<Rightarrow> None
                    | Some s \<Rightarrow> map_option (\<lambda>column. s\<lparr>sort_column := column\<rparr>)
                        (shiftIndex (sort_column s) e ColumnAxis)),
                  hiddenRows = remap_hidden e r0' r1' (hiddenRows f),
                  appliedAtSeq = appliedAtSeq f\<rparr>
           | _ \<Rightarrow> None))"

text \<open>The per-sheet map on the head.  Its keys are sheet indexes; a negative one is refused.\<close>

fun remap_filters_loop ::
    "structural_edit \<Rightarrow> (int \<times> 'n filter_model) list \<Rightarrow> (int \<times> 'n filter_model) list
      \<Rightarrow> engine_error + (int \<times> 'n filter_model) list" where
  "remap_filters_loop e [] next = Inr next"
| "remap_filters_loop e ((sheet, f) # rest) next =
     (if sheet < 0 then Inl BatchRejected
      else
        (case remapFilter f sheet e of None \<Rightarrow> remap_filters_loop e rest next
         | Some moved \<Rightarrow>
           (case remapSheetIndex sheet e of None \<Rightarrow> remap_filters_loop e rest next
            | Some index \<Rightarrow> remap_filters_loop e rest (put_key index moved next))))"

definition remapFilters ::
    "(int \<times> 'n filter_model) list \<Rightarrow> structural_edit \<Rightarrow> engine_error + (int \<times> 'n filter_model) list" where
  "remapFilters filters e = remap_filters_loop e filters []"

section \<open>Runs cover exactly the rows\<close>

definition run_rows :: "(int \<times> int) list \<Rightarrow> int list" where
  "run_rows runs = concat (map (\<lambda>(a, b). [a..b]) runs)"

lemma run_rows_loop:
  "\<forall>(a, b)\<in>set runs. a \<le> b \<Longrightarrow> run_rows (runs_loop rows runs) = run_rows (rev runs) @ rows"
proof (induction rows runs rule: runs_loop.induct)
  case (1 runs)
  then show ?case by simp
next
  case (2 row rows start stop runs)
  then show ?case
    by (auto simp: run_rows_def upto_rec2 [of start "stop + 1"])
next
  case (3 row rows)
  then show ?case by (simp add: run_rows_def)
qed

lemma run_rows_runsOf: "run_rows (runsOf rows) = rows"
  using run_rows_loop [of "[]" rows] by (simp add: runsOf_def run_rows_def)

text \<open>What the filter relies on: hiding is per row, and pausing hides nothing.\<close>

definition hidden_store :: "'m engine_model \<Rightarrow> bool" where
  "hidden_store e \<longleftrightarrow>
     (\<forall>s a b h m m'. setRowsHidden e s a b h m = (Inr (), m') \<longrightarrow>
        isRowHidden e m' = (\<lambda>s' r. if s' = s \<and> a \<le> r \<and> r \<le> b then h else isRowHidden e m s' r)) \<and>
     (\<forall>m. isRowHidden e (snd (pauseEvaluation e m)) = isRowHidden e m) \<and>
     (\<forall>m. isRowHidden e (snd (resumeEvaluation e m)) = isRowHidden e m) \<and>
     (\<forall>m. isRowHidden e (snd (evaluate e m)) = isRowHidden e m)"

lemma hidden_runs:
  assumes "hidden_store e"
    and "for_each (\<lambda>(a, b). setRowsHidden e s a b h) runs m = (Inr (), m')"
  shows "isRowHidden e m' =
    (\<lambda>s' r. if s' = s \<and> r \<in> set (run_rows runs) then h else isRowHidden e m s' r)"
  using assms(2)
proof (induction runs arbitrary: m)
  case Nil
  then show ?case by (simp add: ret_def run_rows_def)
next
  case (Cons run runs)
  obtain a b where run: "run = (a, b)" by (cases run)
  from Cons.prems obtain m1 where m1: "setRowsHidden e s a b h m = (Inr (), m1)"
    "for_each (\<lambda>(a, b). setRowsHidden e s a b h) runs m1 = (Inr (), m')"
    by (auto simp: run seq_Inr)
  have h: "isRowHidden e m1 = (\<lambda>s' r. if s' = s \<and> a \<le> r \<and> r \<le> b then h else isRowHidden e m s' r)"
    using assms(1) m1(1) unfolding hidden_store_def by blast
  show ?case
    unfolding Cons.IH [OF m1(2)] h by (rule ext)+ (auto simp: run run_rows_def)
qed

lemma hidden_set_runs:
  assumes "hidden_store e" and "set_runs e s h rows m = (Inr (), m')"
  shows "isRowHidden e m' = (\<lambda>s' r. if s' = s \<and> r \<in> set rows then h else isRowHidden e m s' r)"
  using hidden_runs [OF assms(1) assms(2) [unfolded set_runs_def]] by (simp add: run_rows_runsOf)

lemma runPaused_hidden:
  assumes "hidden_store e" "runPaused e body m = (Inr v, m')"
  obtains m0 m1 where "isRowHidden e m0 = isRowHidden e m" "body m0 = (Inr v, m1)"
    "isRowHidden e m' = isRowHidden e m1"
proof -
  from runPaused_result [OF assms(2)] obtain m0 m1 m2
    where s: "pauseEvaluation e m = (Inr (), m0)" "body m0 = (Inr v, m1)"
      "resumeEvaluation e m1 = (Inr (), m2)" "evaluate e m2 = (Inr (), m')" by blast
  have "isRowHidden e m0 = isRowHidden e m" "isRowHidden e m2 = isRowHidden e m1"
    "isRowHidden e m' = isRowHidden e m2"
    using assms(1) s(1,3,4) unfolding hidden_store_def by (metis snd_conv)+
  then show ?thesis using that s(2) by auto
qed

lemma hiddenRowsFor_body:
  "sorted (hiddenRowsFor ns e m s f)" "distinct (hiddenRowsFor ns e m s f)"
  "row \<in> set (hiddenRowsFor ns e m s f) \<longleftrightarrow>
     r0 (f_range f) < row \<and> row \<le> r1 (f_range f) \<and> \<not> rowPasses ns e m s f row"
  by (auto simp: hiddenRowsFor_def rowPasses_def intro: sorted_wrt_filter)

text \<open>C20: applying a filter hides what fails and never touches a manual hide.  When
  \<open>applyFilter\<close> returns, a row of the sheet is hidden exactly when it is a body row that
  fails the criteria, or it was hidden before and is not a row this filter had hidden; the
  returned model lists the failing body rows, in ascending order without repetition.\<close>

theorem applyFilter_correct:
  assumes store: "hidden_store e" and run: "applyFilter ns e s f seq_no m = (Inr result, m')"
  shows "sorted (hiddenRows (res_filter result)) \<and> distinct (hiddenRows (res_filter result)) \<and>
    (\<forall>row. row \<in> set (hiddenRows (res_filter result)) \<longleftrightarrow>
       r0 (f_range f) < row \<and> row \<le> r1 (f_range f) \<and> \<not> rowPasses ns e m s f row) \<and>
    (\<forall>s' row. isRowHidden e m' s' row \<longleftrightarrow>
       (if s' = s \<and> row \<in> set (hiddenRows (res_filter result)) then True
        else if s' = s \<and> row \<in> set (hiddenRows f) then False
        else isRowHidden e m s' row))"
proof -
  let ?wanted = "hiddenRowsFor ns e m s f"
  let ?hide = "filter (\<lambda>row. row \<notin> set (hiddenRows f) \<or> \<not> isRowHidden e m s row) ?wanted"
  let ?show = "sort (filter (\<lambda>row. row \<notin> set ?wanted) (hiddenRows f))"
  have ok: "filter_ok f" using run by (auto simp: applyFilter_def parse_filter_def split: if_splits)
  have res: "hiddenRows (res_filter result) = ?wanted"
    and paused: "runPaused e (seq (set_runs e s False ?show) (set_runs e s True ?hide)) m = (Inr (), m')"
    using run ok by (auto simp: applyFilter_def parse_filter_def Let_def seq_Inr ret_def)
  from runPaused_hidden [OF store paused] obtain m0 m1 where
    m: "isRowHidden e m0 = isRowHidden e m" "isRowHidden e m' = isRowHidden e m1"
    "seq (set_runs e s False ?show) (set_runs e s True ?hide) m0 = (Inr (), m1)" by blast
  then obtain mm where mm: "set_runs e s False ?show m0 = (Inr (), mm)" "set_runs e s True ?hide mm = (Inr (), m1)"
    by (auto simp: seq_Inr)
  have "isRowHidden e m' s' row \<longleftrightarrow>
       (if s' = s \<and> row \<in> set ?wanted then True
        else if s' = s \<and> row \<in> set (hiddenRows f) then False else isRowHidden e m s' row)" for s' row
    unfolding m(2) hidden_set_runs [OF store mm(2)] hidden_set_runs [OF store mm(1)] m(1) by auto
  then show ?thesis unfolding res using hiddenRowsFor_body [where f = f and ns = ns and e = e and m = m] by simp
qed

definition sample_numbers :: "int number_syntax" where
  "sample_numbers = \<lparr>number_of = (\<lambda>s. if s \<noteq> [] \<and> list_all is_digit s then Some (digits_value s) else None),
     number_text = int_text, lower = (\<lambda>s. s)\<rparr>"

definition sample_filter :: "int filter_model" where
  "sample_filter = \<lparr>f_range = \<lparr>r0 = 1, c0 = 1, r1 = 4, c1 = 1\<rparr>,
     columns = [(1, ConditionColumn OpGt (Some (FNumber 5)) None False)], f_sort = None,
     hiddenRows = [4], appliedAtSeq = []\<rparr>"

definition filter_memory :: memory where
  "filter_memory = empty_memory\<lparr>
     texts := (\<lambda>s r c. if r = 2 then js ''3'' else if r = 3 then js ''9'' else if r = 4 then js ''8'' else []),
     hidden_at := (\<lambda>s r. r = 4 \<or> r = 7)\<rparr>"

lemma memory_engine_hides: "hidden_store memory_engine"
  by (auto simp: hidden_store_def ret_def)

theorem applyFilter_correct_witness:
  "\<exists>result m'. applyFilter sample_numbers memory_engine 0 sample_filter None filter_memory = (Inr result, m') \<and>
     hidden_at m' 0 2 \<and> \<not> hidden_at m' 0 4 \<and> hidden_at m' 0 7"
proof -
  have ok: "filter_ok sample_filter"
    by (simp add: filter_ok_def sample_filter_def selection_ok_def spreadsheet_limits)
  have rows: "hiddenRows sample_filter = [4]" "\<not> hidden_at filter_memory 0 2"
    by (simp_all add: sample_filter_def filter_memory_def)
  have wanted: "hiddenRowsFor sample_numbers memory_engine filter_memory 0 sample_filter = [2]"
    by (simp add: hiddenRowsFor_def rowPasses_def sample_filter_def filter_memory_def
        empty_memory_def upto.simps compare_with_def sample_numbers_def js_trim_def is_js_space_def
        js_simps is_digit_def digits_value_def fold_case_def)
  obtain result m' where r: "applyFilter sample_numbers memory_engine 0 sample_filter None filter_memory = (Inr result, m')"
    by (simp add: applyFilter_def parse_filter_def ok Let_def wanted rows set_runs_def runsOf_def act_defs)
  have w: "hiddenRows (res_filter result) = [2]"
    using r by (auto simp: applyFilter_def parse_filter_def ok Let_def wanted rows set_runs_def runsOf_def act_defs)
  have h: "\<forall>s' row. hidden_at m' s' row \<longleftrightarrow> (if s' = 0 \<and> row = 2 then True
      else if s' = 0 \<and> row = 4 then False else hidden_at filter_memory s' row)"
    using applyFilter_correct [OF memory_engine_hides r] by (simp add: w rows)
  have "hidden_at filter_memory 0 7" by (simp add: filter_memory_def)
  then show ?thesis using r h by (intro exI [of _ result] exI [of _ m']) simp
qed

section \<open>A remapped filter is well formed and keeps exactly what survived\<close>

























end
