(* ===== verification/FormulaShift.thy ===== *)
theory FormulaShift
  imports Addressing
begin

text \<open>
  Rewriting a formula that moved by \<open>(dr, dc)\<close> (\<open>packages/spreadsheet/src/formula-shift.ts\<close>):
  every relative reference is shifted, every absolute one kept, and only the spans that the
  lexer marks as references are spliced.

  The lexer is IronCalc's \<open>getTokens\<close>, which is not in the repository: a \<open>formula_tokenizer\<close>
  is a parameter, with \<open>None\<close> for a lexer that throws.
\<close>

section \<open>Tokens\<close>

definition REF_ERROR :: jsstring where "REF_ERROR = js ''#REF!''"

record parsed_reference =
  ref_column :: int
  ref_row :: int
  absolute_column :: bool
  absolute_row :: bool

text \<open>
  A token is a bare string, or an object told apart by its only key; the objects the code
  never looks at are \<open>OtherToken\<close>.
\<close>

datatype token =
    Reference "jsstring option" parsed_reference
  | Range "jsstring option" parsed_reference parsed_reference
  | IllegalObject
  | Compare | Sum | Product | Addition
  | Symbol string
  | OtherToken

record marked_token =
  token :: token
  tok_start :: nat
  tok_end :: nat

type_synonym formula_tokenizer = "jsstring \<Rightarrow> marked_token list option"

definition EQUALS :: code_unit where "EQUALS = 61"
definition BANG :: code_unit where "BANG = 33"

definition isFormula :: "jsstring \<Rightarrow> bool" where
  "isFormula text = starts_with text [EQUALS]"

fun isReference :: "token \<Rightarrow> bool" where
  "isReference (Reference _ _) = True"
| "isReference _ = False"

fun isRange :: "token \<Rightarrow> bool" where
  "isRange (Range _ _ _) = True"
| "isRange _ = False"

fun isIllegal :: "token \<Rightarrow> bool" where
  "isIllegal (Symbol s) = (s = ''Illegal'')"
| "isIllegal IllegalObject = True"
| "isIllegal _ = False"

text \<open>
  The caller's own lexer, else the registered one; with neither, \<open>formulaTokenizer()\<close>
  throws like a lexer would.
\<close>

definition tokenizeFormula ::
    "formula_tokenizer option \<Rightarrow> formula_tokenizer option \<Rightarrow> formula_tokenizer" where
  "tokenizeFormula registered own formula =
     (case own of Some t \<Rightarrow> t formula
      | None \<Rightarrow> (case registered of Some t \<Rightarrow> t formula | None \<Rightarrow> None))"

section \<open>Well-formedness\<close>

definition OPEN :: "string set" where
  "OPEN = {''LeftParenthesis'', ''LeftBracket'', ''LeftBrace''}"

definition CLOSE :: "string set" where
  "CLOSE = {''RightParenthesis'', ''RightBracket'', ''RightBrace''}"

definition DANGLING :: "string set" where
  "DANGLING = {''Comma'', ''Semicolon'', ''Colon'', ''Power'', ''Bang'', ''And'', ''Backslash''}"

fun isOperator :: "token option \<Rightarrow> bool" where
  "isOperator (Some (Symbol s)) = (s \<in> DANGLING \<or> s \<in> OPEN)"
| "isOperator (Some Compare) = True"
| "isOperator (Some Sum) = True"
| "isOperator (Some Product) = True"
| "isOperator (Some Addition) = True"
| "isOperator _ = False"

fun symbol_in :: "string set \<Rightarrow> token \<Rightarrow> bool" where
  "symbol_in S (Symbol s) = (s \<in> S)"
| "symbol_in S _ = False"

fun parses_loop :: "marked_token list \<Rightarrow> int \<Rightarrow> token option \<Rightarrow> bool" where
  "parses_loop [] depth last_token = (depth = 0 \<and> \<not> isOperator last_token)"
| "parses_loop (entry # rest) depth last_token =
     (if isIllegal (token entry) then False
      else
        (let depth = (if symbol_in OPEN (token entry) then depth + 1 else depth);
             depth = (if symbol_in CLOSE (token entry) then depth - 1 else depth)
         in if depth < 0 then False
            else parses_loop rest depth
              (if token entry \<noteq> Symbol ''EOF'' then Some (token entry) else last_token)))"

definition formulaParses :: "formula_tokenizer \<Rightarrow> jsstring \<Rightarrow> bool" where
  "formulaParses tok formula =
     (case tok formula of None \<Rightarrow> False | Some marked \<Rightarrow> parses_loop marked 0 None)"

section \<open>Shifting one reference\<close>

definition shiftOne :: "parsed_reference \<Rightarrow> int \<Rightarrow> int \<Rightarrow> parsed_reference option" where
  "shiftOne ref dr dc =
     (let r = (if absolute_row ref then ref_row ref else ref_row ref + dr);
          c = (if absolute_column ref then ref_column ref else ref_column ref + dc)
      in if r < 1 \<or> c < 1 \<or> c > SPREADSHEET_MAX_COLUMNS then None
         else Some \<lparr>ref_column = c, ref_row = r, absolute_column = absolute_column ref,
                    absolute_row = absolute_row ref\<rparr>)"

definition dollar :: "bool \<Rightarrow> jsstring" where
  "dollar b = (if b then [DOLLAR] else [])"

definition renderColumnOnly :: "parsed_reference \<Rightarrow> engine_error + jsstring" where
  "renderColumnOnly ref =
     bindE (columnIndexToLabel (ref_column ref)) (\<lambda>label. Inr (dollar (absolute_column ref) @ label))"

definition renderRowOnly :: "parsed_reference \<Rightarrow> engine_error + jsstring" where
  "renderRowOnly ref = Inr (dollar (absolute_row ref) @ int_text (ref_row ref))"

definition renderCell :: "parsed_reference \<Rightarrow> engine_error + jsstring" where
  "renderCell ref =
     bindE (columnIndexToLabel (ref_column ref))
       (\<lambda>label. Inr (dollar (absolute_column ref) @ label @ dollar (absolute_row ref) @ int_text (ref_row ref)))"

text \<open>\<open>raw.slice(0, raw.lastIndexOf('!') + 1)\<close>, or nothing when there is no bang.\<close>

definition sheetPrefix :: "jsstring \<Rightarrow> jsstring option \<Rightarrow> jsstring" where
  "sheetPrefix raw sheet =
     (case sheet of None \<Rightarrow> [] | Some _ \<Rightarrow> rev (dropWhile (\<lambda>c. c \<noteq> BANG) (rev raw)))"

definition isWholeColumn :: "parsed_reference \<Rightarrow> parsed_reference \<Rightarrow> bool" where
  "isWholeColumn l r \<longleftrightarrow>
     absolute_row l \<and> absolute_row r \<and> ref_row l = 1 \<and> ref_row r = SPREADSHEET_MAX_ROWS"

definition isWholeRow :: "parsed_reference \<Rightarrow> parsed_reference \<Rightarrow> bool" where
  "isWholeRow l r \<longleftrightarrow>
     absolute_column l \<and> absolute_column r \<and> ref_column l = 1 \<and> ref_column r = SPREADSHEET_MAX_COLUMNS"

definition normalise ::
    "parsed_reference \<Rightarrow> parsed_reference \<Rightarrow> parsed_reference \<times> parsed_reference" where
  "normalise left right =
     (let (l, r) =
        (if ref_row left > ref_row right
         then (left\<lparr>ref_row := ref_row right, absolute_row := absolute_row right\<rparr>,
               right\<lparr>ref_row := ref_row left, absolute_row := absolute_row left\<rparr>)
         else (left, right))
      in if ref_column l > ref_column r
         then (l\<lparr>ref_column := ref_column r, absolute_column := absolute_column r\<rparr>,
               r\<lparr>ref_column := ref_column l, absolute_column := absolute_column l\<rparr>)
         else (l, r))"

section \<open>Shifting a formula\<close>

record shift_options =
  dr :: int
  dc :: int
  sheetNames :: "jsstring list option"

definition sheetIsGone ::
    "(jsstring \<Rightarrow> jsstring) \<Rightarrow> jsstring option \<Rightarrow> jsstring list option \<Rightarrow> bool" where
  "sheetIsGone lower sheet names =
     (case (names, sheet) of
        (Some ns, Some s) \<Rightarrow> \<not> list_ex (\<lambda>n. lower n = lower s) ns
      | _ \<Rightarrow> False)"

definition shiftReferenceToken ::
    "(jsstring \<Rightarrow> jsstring) \<Rightarrow> shift_options \<Rightarrow> jsstring option \<Rightarrow> parsed_reference \<Rightarrow> jsstring
      \<Rightarrow> engine_error + jsstring" where
  "shiftReferenceToken lower opts sheet ref raw =
     (if sheetIsGone lower sheet (sheetNames opts) then Inr REF_ERROR
      else
        (case shiftOne ref (dr opts) (dc opts) of None \<Rightarrow> Inr REF_ERROR
         | Some shifted \<Rightarrow> bindE (renderCell shifted) (\<lambda>text. Inr (sheetPrefix raw sheet @ text))))"

definition shiftRangeToken ::
    "(jsstring \<Rightarrow> jsstring) \<Rightarrow> shift_options \<Rightarrow> jsstring option \<Rightarrow> parsed_reference \<Rightarrow> parsed_reference
      \<Rightarrow> jsstring \<Rightarrow> engine_error + jsstring" where
  "shiftRangeToken lower opts sheet left right raw =
     (if sheetIsGone lower sheet (sheetNames opts) then Inr (REF_ERROR @ [COLON] @ REF_ERROR)
      else
        (let wholeColumn = isWholeColumn left right;
             wholeRow = (\<not> wholeColumn \<and> isWholeRow left right);
             (sl, sr) =
               (case (shiftOne left (dr opts) (dc opts), shiftOne right (dr opts) (dc opts)) of
                  (Some l, Some r) \<Rightarrow> (case normalise l r of (l', r') \<Rightarrow> (Some l', Some r'))
                | p \<Rightarrow> p);
             render = (if wholeColumn then renderColumnOnly else if wholeRow then renderRowOnly else renderCell)
         in bindE (case sl of None \<Rightarrow> Inr REF_ERROR
                   | Some l \<Rightarrow> bindE (render l) (\<lambda>text. Inr (sheetPrefix raw sheet @ text)))
              (\<lambda>leftText.
                bindE (case sr of None \<Rightarrow> Inr REF_ERROR | Some r \<Rightarrow> render r)
                  (\<lambda>rightText. Inr (leftText @ [COLON] @ rightText)))))"

text \<open>The text a marked token is replaced by; \<open>None\<close> for a token that is left alone.\<close>

fun token_replacement ::
    "(jsstring \<Rightarrow> jsstring) \<Rightarrow> shift_options \<Rightarrow> token \<Rightarrow> jsstring \<Rightarrow> (engine_error + jsstring) option" where
  "token_replacement lower opts (Reference sheet ref) raw = Some (shiftReferenceToken lower opts sheet ref raw)"
| "token_replacement lower opts (Range sheet l r) raw = Some (shiftRangeToken lower opts sheet l r raw)"
| "token_replacement lower opts _ raw = None"

text \<open>The splicing loop: \<open>cursor\<close> is the end of the last spliced span.\<close>

fun splice_loop ::
    "(jsstring \<Rightarrow> jsstring) \<Rightarrow> shift_options \<Rightarrow> jsstring \<Rightarrow> marked_token list \<Rightarrow> nat \<Rightarrow> jsstring
      \<Rightarrow> engine_error + jsstring" where
  "splice_loop lower opts formula [] cursor out = Inr (out @ drop cursor formula)"
| "splice_loop lower opts formula (marked # rest) cursor out =
     (if \<not> isReference (token marked) \<and> \<not> isRange (token marked)
      then splice_loop lower opts formula rest cursor out
      else if tok_start marked < cursor \<or> tok_end marked > length formula \<or> tok_end marked < tok_start marked
      then splice_loop lower opts formula rest cursor out
      else
        (case token_replacement lower opts (token marked) (js_slice (tok_start marked) (tok_end marked) formula) of
           None \<Rightarrow> splice_loop lower opts formula rest cursor out
         | Some replacement \<Rightarrow>
             bindE replacement (\<lambda>text.
               splice_loop lower opts formula rest (tok_end marked)
                 (out @ js_slice cursor (tok_start marked) formula @ text))))"

definition shiftFormula ::
    "(jsstring \<Rightarrow> jsstring) \<Rightarrow> formula_tokenizer \<Rightarrow> shift_options \<Rightarrow> jsstring \<Rightarrow> engine_error + jsstring" where
  "shiftFormula lower tok opts formula =
     (if \<not> isFormula formula then Inr formula
      else if dr opts = 0 \<and> dc opts = 0 \<and> sheetNames opts = None then Inr formula
      else
        (case tok formula of None \<Rightarrow> Inr formula
         | Some tokens \<Rightarrow>
           if list_ex (\<lambda>marked. isIllegal (token marked)) tokens then Inr formula
           else splice_loop lower opts formula tokens 0 []))"

definition shiftFormulaForMove ::
    "(jsstring \<Rightarrow> jsstring) \<Rightarrow> formula_tokenizer \<Rightarrow> jsstring list option \<Rightarrow> jsstring \<Rightarrow> int \<Rightarrow> int
      \<Rightarrow> engine_error + jsstring" where
  "shiftFormulaForMove lower tok names formula fromRow toRow =
     shiftFormula lower tok \<lparr>dr = toRow - fromRow, dc = 0, sheetNames = names\<rparr> formula"

section \<open>Shifting never fails\<close>

definition in_columns :: "parsed_reference \<Rightarrow> bool" where
  "in_columns ref \<longleftrightarrow> 1 \<le> ref_column ref \<and> ref_column ref \<le> SPREADSHEET_MAX_COLUMNS"

lemma shiftOne_in_columns: "shiftOne ref a b = Some s \<Longrightarrow> in_columns s"
  by (auto simp: shiftOne_def in_columns_def Let_def split: if_splits)

lemma normalise_in_columns:
  "in_columns l \<Longrightarrow> in_columns r \<Longrightarrow> normalise l r = (l', r') \<Longrightarrow> in_columns l' \<and> in_columns r'"
  by (auto simp: normalise_def in_columns_def Let_def split: if_splits)

lemma label_in_columns: "in_columns ref \<Longrightarrow> \<exists>label. columnIndexToLabel (ref_column ref) = Inr label"
  by (simp add: in_columns_def columnIndexToLabel_def)

lemma render_total:
  assumes "in_columns ref"
  shows "\<exists>t. renderCell ref = Inr t" "\<exists>t. renderColumnOnly ref = Inr t" "\<exists>t. renderRowOnly ref = Inr t"
  using label_in_columns [OF assms] by (auto simp: renderCell_def renderColumnOnly_def renderRowOnly_def)

lemma shifted_pair_in_columns:
  assumes "(case (shiftOne l a b, shiftOne r a b) of
      (Some x, Some y) \<Rightarrow> (case normalise x y of (x', y') \<Rightarrow> (Some x', Some y')) | p \<Rightarrow> p) = (sl, sr)"
  shows "\<forall>x\<in>set_option sl \<union> set_option sr. in_columns x"
proof (cases "shiftOne l a b"; cases "shiftOne r a b")
  fix x y assume xy: "shiftOne l a b = Some x" "shiftOne r a b = Some y"
  obtain x' y' where n: "normalise x y = (x', y')" by (cases "normalise x y")
  then have "in_columns x' \<and> in_columns y'"
    using normalise_in_columns [OF shiftOne_in_columns [OF xy(1)] shiftOne_in_columns [OF xy(2)]] by blast
  then show ?thesis using assms xy n by auto
qed (use assms shiftOne_in_columns in \<open>auto\<close>)

lemma token_replacement_total:
  "token_replacement lower opts t raw = Some res \<Longrightarrow> \<exists>text. res = Inr text"
proof (cases t)
  case (Reference sheet ref)
  assume "token_replacement lower opts t raw = Some res"
  then show ?thesis
    using Reference render_total(1) [OF shiftOne_in_columns]
    by (fastforce simp: shiftReferenceToken_def split: option.splits if_splits)
next
  case (Range sheet l r)
  assume a: "token_replacement lower opts t raw = Some res"
  obtain sl sr where p: "(case (shiftOne l (dr opts) (dc opts), shiftOne r (dr opts) (dc opts)) of
      (Some x, Some y) \<Rightarrow> (case normalise x y of (x', y') \<Rightarrow> (Some x', Some y')) | p \<Rightarrow> p) = (sl, sr)"
    by (cases "case (shiftOne l (dr opts) (dc opts), shiftOne r (dr opts) (dc opts)) of
      (Some x, Some y) \<Rightarrow> (case normalise x y of (x', y') \<Rightarrow> (Some x', Some y')) | p \<Rightarrow> p")
  define render where "render = (if isWholeColumn l r then renderColumnOnly
    else if \<not> isWholeColumn l r \<and> isWholeRow l r then renderRowOnly else renderCell)"
  have total: "\<exists>t. render x = Inr t" if "x \<in> set_option sl \<union> set_option sr" for x
    using render_total [OF shifted_pair_in_columns [OF p, rule_format, OF that]]
    by (auto simp: render_def)
  show ?thesis
  proof (cases "sheetIsGone lower sheet (sheetNames opts)")
    case True
    then show ?thesis using a Range by (auto simp: shiftRangeToken_def)
  next
    case False
    have "\<exists>t. (case sl of None \<Rightarrow> Inr REF_ERROR
        | Some x \<Rightarrow> bindE (render x) (\<lambda>text. Inr (sheetPrefix raw sheet @ text))) = Inr t"
      using total by (cases sl) auto
    moreover have "\<exists>t. (case sr of None \<Rightarrow> Inr REF_ERROR | Some x \<Rightarrow> render x) = Inr t"
      using total by (cases sr) auto
    moreover have "res = bindE (case sl of None \<Rightarrow> Inr REF_ERROR
        | Some x \<Rightarrow> bindE (render x) (\<lambda>text. Inr (sheetPrefix raw sheet @ text)))
      (\<lambda>leftText. bindE (case sr of None \<Rightarrow> Inr REF_ERROR | Some x \<Rightarrow> render x)
        (\<lambda>rightText. Inr (leftText @ [COLON] @ rightText)))"
      using a Range False p unfolding render_def
      by (cases "isWholeColumn l r"; cases "isWholeRow l r"; auto simp: shiftRangeToken_def)
    ultimately show ?thesis by auto
  qed
qed simp_all

lemma splice_loop_total: "\<exists>text. splice_loop lower opts formula tokens cursor out = Inr text"
proof (induction tokens arbitrary: cursor out)
  case Nil
  then show ?case by simp
next
  case (Cons marked rest)
  show ?case
  proof (cases "token_replacement lower opts (token marked)
      (js_slice (tok_start marked) (tok_end marked) formula)")
    case None
    then show ?thesis using Cons by auto
  next
    case (Some res)
    then obtain u where "res = Inr u" using token_replacement_total by blast
    then show ?thesis using Some Cons by auto
  qed
qed

section \<open>Only the marked spans change\<close>

text \<open>
  A formula seen as spans: text the lexer's references leave out, then the text of one
  token, and so on, and a tail.  \<open>place\<close> is the token list with those positions.
\<close>

type_synonym spans = "(jsstring \<times> token \<times> jsstring) list"

definition spans_text :: "spans \<Rightarrow> jsstring" where
  "spans_text spans = concat (map (\<lambda>(gap, t, raw). gap @ raw) spans)"

fun place :: "nat \<Rightarrow> spans \<Rightarrow> marked_token list" where
  "place n [] = []"
| "place n ((gap, t, raw) # rest) =
     \<lparr>token = t, tok_start = n + length gap, tok_end = n + length gap + length raw\<rparr>
       # place (n + length gap + length raw) rest"

definition replaced_text :: "(jsstring \<Rightarrow> jsstring) \<Rightarrow> shift_options \<Rightarrow> token \<Rightarrow> jsstring \<Rightarrow> jsstring" where
  "replaced_text lower opts t raw =
     (case token_replacement lower opts t raw of Some (Inr text) \<Rightarrow> text | _ \<Rightarrow> raw)"

definition rewritten :: "(jsstring \<Rightarrow> jsstring) \<Rightarrow> shift_options \<Rightarrow> spans \<Rightarrow> jsstring" where
  "rewritten lower opts spans = concat (map (\<lambda>(gap, t, raw). gap @ replaced_text lower opts t raw) spans)"

lemma token_replacement_None:
  "token_replacement lower opts t raw = None \<longleftrightarrow> \<not> isReference t \<and> \<not> isRange t"
  by (cases t) auto

lemma splice_loop_spans:
  assumes "cursor \<le> length pre" "formula = pre @ spans_text spans @ tail"
  shows "splice_loop lower opts formula (place (length pre) spans) cursor out =
    Inr (out @ drop cursor pre @ rewritten lower opts spans @ tail)"
  using assms
proof (induction spans arbitrary: pre cursor out)
  case Nil
  then show ?case by (simp add: rewritten_def spans_text_def)
next
  case (Cons span spans)
  obtain gap t raw where span: "span = (gap, t, raw)" by (cases span)
  let ?pre1 = "pre @ gap @ raw"
  have f: "formula = ?pre1 @ spans_text spans @ tail"
    using Cons.prems(2) by (simp add: span spans_text_def)
  note IH = Cons.IH [OF _ f]
  show ?case
  proof (cases "isReference t \<or> isRange t")
    case False
    then have "token_replacement lower opts t raw = None" by (simp add: token_replacement_None)
    then show ?thesis
      using IH [of cursor out] Cons.prems(1) False
      by (simp add: span rewritten_def replaced_text_def add.assoc)
  next
    case True
    then obtain res where "token_replacement lower opts t raw = Some res"
      using token_replacement_None [of lower opts t raw] by (cases "token_replacement lower opts t raw") auto
    then obtain u where u: "token_replacement lower opts t raw = Some (Inr u)"
      using token_replacement_total by blast
    have raw: "js_slice (length pre + length gap) (length pre + length gap + length raw) formula = raw"
      and gap: "js_slice cursor (length pre + length gap) formula = drop cursor pre @ gap"
      and fits: "length pre + length gap + length raw \<le> length formula"
      using Cons.prems(1) by (simp_all add: f js_slice_def)
    show ?thesis
      using IH [of "length ?pre1" "out @ drop cursor pre @ gap @ u"] True u raw gap fits Cons.prems(1)
      by (auto simp: span rewritten_def replaced_text_def add.assoc)
  qed
qed

text \<open>C25: a shifted formula differs from the original only inside its references.  When the
  lexer splits a formula into text and tokens at increasing positions and finds nothing
  illegal, \<open>shiftFormula\<close> returns, and its result is the same text with each reference or
  range token replaced and everything else, strings and names included, as it was.\<close>

theorem shiftFormula_splices:
  assumes "isFormula formula" and "formula = spans_text spans @ tail"
    and "tok formula = Some (place 0 spans)" and "\<not> list_ex (\<lambda>(gap, t, raw). isIllegal t) spans"
  shows "shiftFormula lower tok opts formula =
    Inr (if dr opts = 0 \<and> dc opts = 0 \<and> sheetNames opts = None then formula
         else rewritten lower opts spans @ tail)"
proof -
  have "list_ex (\<lambda>marked. isIllegal (token marked)) (place n spans) = list_ex (\<lambda>(gap, t, raw). isIllegal t) spans"
    for n by (induction n spans rule: place.induct) auto
  then show ?thesis
    using assms splice_loop_spans [of 0 "[]" formula spans tail lower opts "[]"]
    by (simp add: shiftFormula_def)
qed

definition sample_spans :: spans where
  "sample_spans = [(js ''=SUM('', Range None
       \<lparr>ref_column = 1, ref_row = 1, absolute_column = False, absolute_row = False\<rparr>
       \<lparr>ref_column = 2, ref_row = 3, absolute_column = True, absolute_row = False\<rparr>, js ''A1:$B3'')]"

theorem shiftFormula_splices_witness:
  "shiftFormula (\<lambda>s. s) (\<lambda>_. Some (place 0 sample_spans)) \<lparr>dr = 1, dc = 2, sheetNames = None\<rparr>
     (js ''=SUM(A1:$B3)'') = Inr (js ''=SUM($B2:C4)'')"
proof -
  have "rewritten (\<lambda>s. s) \<lparr>dr = 1, dc = 2, sheetNames = None\<rparr> sample_spans @ js '')'' = js ''=SUM($B2:C4)''"
    by (simp add: rewritten_def replaced_text_def sample_spans_def shiftRangeToken_def sheetIsGone_def
        isWholeColumn_def isWholeRow_def shiftOne_def normalise_def renderCell_def columnIndexToLabel_def
        column_label_loop.simps spreadsheet_limits dollar_def DOLLAR_def COLON_def int_text_def
        nat_text.simps digit_def sheetPrefix_def js_simps)
  moreover have "isFormula (js ''=SUM(A1:$B3)'')"
    by (simp add: isFormula_def js_simps EQUALS_def)
  moreover have "js ''=SUM(A1:$B3)'' = spans_text sample_spans @ js '')''"
    by (simp add: spans_text_def sample_spans_def js_simps)
  moreover have "\<not> list_ex (\<lambda>(gap, t, raw). isIllegal t) sample_spans"
    by (simp add: sample_spans_def)
  ultimately show ?thesis
    using shiftFormula_splices [of "js ''=SUM(A1:$B3)''" sample_spans "js '')''"
        "\<lambda>_. Some (place 0 sample_spans)" "\<lambda>s. s" "\<lparr>dr = 1, dc = 2, sheetNames = None\<rparr>"]
    by simp
qed

text \<open>Shifting never raises.  Whatever the lexer answers (including marks that overlap,
  run past the end or name a cell outside the sheet), \<open>shiftFormula\<close> returns a text: a column
  label is only printed for a column the sheet has.\<close>

theorem shiftFormula_total:
  "\<exists>text. shiftFormula lower tok opts formula = Inr text"
  using splice_loop_total by (auto simp: shiftFormula_def split: option.split)

text \<open>re-normalising a range whose corners crossed puts the smaller row and column left,
  and moves each dollar sign with its coordinate: on each axis the pair of coordinates with
  their absolute marks is the one that came in, and a range in order is left alone.\<close>

theorem normalise_correct:
  "case normalise l r of (l', r') \<Rightarrow>
     ref_row l' \<le> ref_row r' \<and> ref_column l' \<le> ref_column r' \<and>
     ((ref_row l', absolute_row l'), (ref_row r', absolute_row r')) \<in>
       {((ref_row l, absolute_row l), (ref_row r, absolute_row r)),
        ((ref_row r, absolute_row r), (ref_row l, absolute_row l))} \<and>
     ((ref_column l', absolute_column l'), (ref_column r', absolute_column r')) \<in>
       {((ref_column l, absolute_column l), (ref_column r, absolute_column r)),
        ((ref_column r, absolute_column r), (ref_column l, absolute_column l))} \<and>
     (ref_row l \<le> ref_row r \<and> ref_column l \<le> ref_column r \<longrightarrow> l' = l \<and> r' = r)"
  by (auto simp: normalise_def Let_def)

theorem normalise_correct_witness:
  "normalise \<lparr>ref_column = 1, ref_row = 20, absolute_column = True, absolute_row = False\<rparr>
     \<lparr>ref_column = 2, ref_row = 10, absolute_column = False, absolute_row = True\<rparr> =
   (\<lparr>ref_column = 1, ref_row = 10, absolute_column = True, absolute_row = True\<rparr>,
    \<lparr>ref_column = 2, ref_row = 20, absolute_column = False, absolute_row = False\<rparr>) \<and>
   normalise \<lparr>ref_column = 1, ref_row = 1, absolute_column = True, absolute_row = False\<rparr>
     \<lparr>ref_column = 2, ref_row = 10, absolute_column = False, absolute_row = True\<rparr> =
   (\<lparr>ref_column = 1, ref_row = 1, absolute_column = True, absolute_row = False\<rparr>,
    \<lparr>ref_column = 2, ref_row = 10, absolute_column = False, absolute_row = True\<rparr>)"
  using normalise_correct [of "\<lparr>ref_column = 1, ref_row = 1, absolute_column = True, absolute_row = False\<rparr>"
      "\<lparr>ref_column = 2, ref_row = 10, absolute_column = False, absolute_row = True\<rparr>"]
  by (auto simp: normalise_def)

end
