(* ===== verification/SheetSort.thy ===== *)
theory SheetSort
  imports SheetWrite FormulaShift
begin

text \<open>
  Sorting a range (\<open>packages/spreadsheet/src/sort.ts\<close>): the value a cell sorts by, the
  comparator, the order, and the writes that carry contents, formulas and styles to their
  new lines.

  \<open>Intl.Collator\<close>, \<open>Number\<close> and the lexer are parameters, held in a \<open>sort_env\<close>.
  \<open>Array.prototype.sort\<close> with a consistent comparator is a stable sort; it is written as
  an insertion sort.
\<close>

section \<open>Comparators\<close>

text \<open>
  The contract of a comparator that sorting may rely on: swapping the arguments flips the
  sign, and \<open>\<le> 0\<close> is transitive.
\<close>

locale comparator =
  fixes cmp :: "'a \<Rightarrow> 'a \<Rightarrow> int"
  assumes flip: "sgn (cmp a b) = - sgn (cmp b a)"
    and trans: "cmp a b \<le> 0 \<Longrightarrow> cmp b c \<le> 0 \<Longrightarrow> cmp a c \<le> 0"
begin

lemma refl: "cmp a a = 0"
  using flip [of a a] by (simp add: sgn_if split: if_splits)

lemma flip_less: "cmp a b < 0 \<longleftrightarrow> 0 < cmp b a"
  using flip [of a b] by (auto simp: sgn_if split: if_splits)

lemma flip_zero: "cmp a b = 0 \<longleftrightarrow> cmp b a = 0"
  using flip [of a b] by (auto simp: sgn_if split: if_splits)

lemma total: "cmp a b \<le> 0 \<or> cmp b a \<le> 0"
  using flip [of a b] by (auto simp: sgn_if split: if_splits)

lemma zero_left: "cmp a b = 0 \<Longrightarrow> sgn (cmp a c) = sgn (cmp b c)"
proof -
  assume z: "cmp a b = 0"
  then have z': "cmp b a = 0" using flip_zero by blast
  have "cmp a c \<le> 0 \<longleftrightarrow> cmp b c \<le> 0" "cmp c a \<le> 0 \<longleftrightarrow> cmp c b \<le> 0"
    using trans [of a b c] trans [of b a c] trans [of c a b] trans [of c b a] z z' by auto
  then show ?thesis
    using flip [of a c] flip [of b c] by (auto simp: sgn_if split: if_splits)
qed

end

text \<open>Ordering by one comparator and, for what it leaves equal, by another.\<close>

definition then_by :: "('a \<Rightarrow> 'a \<Rightarrow> int) \<Rightarrow> ('a \<Rightarrow> 'a \<Rightarrow> int) \<Rightarrow> 'a \<Rightarrow> 'a \<Rightarrow> int" where
  "then_by f g a b = (let result = f a b in if result \<noteq> 0 then result else g a b)"

lemma comparator_then_by:
  assumes "comparator f" "comparator g"
  shows "comparator (then_by f g)"
proof
  fix a b
  show "sgn (then_by f g a b) = - sgn (then_by f g b a)"
    using comparator.flip [OF assms(1), of a b] comparator.flip [OF assms(2), of a b]
      comparator.flip_zero [OF assms(1), of a b] by (auto simp: then_by_def Let_def)
next
  fix a b c
  assume ab: "then_by f g a b \<le> 0" and bc: "then_by f g b c \<le> 0"
  then have f: "f a b \<le> 0" "f b c \<le> 0" by (auto simp: then_by_def Let_def split: if_splits)
  have fac: "f a c \<le> 0" using comparator.trans [OF assms(1) f] .
  show "then_by f g a c \<le> 0"
  proof (cases "f a c = 0")
    case False
    then show ?thesis using fac by (simp add: then_by_def Let_def)
  next
    case True
    have "f c a \<le> 0" using True comparator.flip_zero [OF assms(1)] by force
    then have "f b a \<le> 0" "f c b \<le> 0"
      using comparator.trans [OF assms(1)] f by blast+
    then have z: "f a b = 0" "f b c = 0"
      using f comparator.flip_less [OF assms(1), of a b] comparator.flip_less [OF assms(1), of b c] by auto
    then have "g a b \<le> 0" "g b c \<le> 0" using ab bc by (auto simp: then_by_def Let_def)
    then show ?thesis using True comparator.trans [OF assms(2)] by (auto simp: then_by_def Let_def)
  qed
qed

lemma comparator_on:
  assumes "comparator f"
  shows "comparator (\<lambda>a b. f (g a) (g b))"
  by (unfold_locales; use comparator.flip [OF assms] comparator.trans [OF assms] in blast)

lemma comparator_flip:
  assumes "comparator f"
  shows "comparator (\<lambda>a b. - f a b)"
proof
  fix a b show "sgn (- f a b) = - sgn (- f b a)"
    using comparator.flip [OF assms, of a b] by simp
next
  fix a b c
  assume "- f a b \<le> 0" "- f b c \<le> 0"
  then have "f c b \<le> 0" "f b a \<le> 0"
    using comparator.flip_less [OF assms, of b a] comparator.flip_less [OF assms, of c b]
      comparator.flip_less [OF assms, of a b] comparator.flip_less [OF assms, of b c] by linarith+
  from comparator.trans [OF assms this] show "- f a c \<le> 0"
    using comparator.flip_less [OF assms, of a c] by linarith
qed

section \<open>Sorting by a comparator\<close>

context comparator
begin

lemma sorted_insert_by:
  "sorted_wrt (\<lambda>a b. cmp a b \<le> 0) ys \<Longrightarrow> sorted_wrt (\<lambda>a b. cmp a b \<le> 0) (insert_by cmp x ys)"
proof (induction ys)
  case (Cons y ys)
  then show ?case using total [of x y] trans [of x y] by auto
qed simp

lemma sorted_js_sort: "sorted_wrt (\<lambda>a b. cmp a b \<le> 0) (js_sort cmp xs)"
  by (induction xs) (simp_all add: sorted_insert_by)

end

section \<open>The value of a cell\<close>

definition CLASS_BLANK :: int where "CLASS_BLANK = 3"
definition CLASS_NUMBER :: int where "CLASS_NUMBER = 0"
definition CLASS_TEXT :: int where "CLASS_TEXT = 1"
definition CLASS_OTHER :: int where "CLASS_OTHER = 2"

lemmas class_defs = CLASS_BLANK_def CLASS_NUMBER_def CLASS_TEXT_def CLASS_OTHER_def

record 'n sort_value =
  rank :: int
  num :: 'n
  sv_text :: jsstring

text \<open>\<open>js_number s\<close> is \<open>Number(s)\<close> when it is finite; \<open>collate\<close> is \<open>collator.compare\<close>.\<close>

record 'n sort_env =
  js_number :: "jsstring \<Rightarrow> 'n option"
  zero_number :: 'n
  collate :: "jsstring \<Rightarrow> jsstring \<Rightarrow> int"
  fold_lower :: "jsstring \<Rightarrow> jsstring"
  lexer :: formula_tokenizer

text \<open>\<open>replace(/[^\d.eE+-]/g, '')\<close>.\<close>

definition numeric_chars :: "jsstring \<Rightarrow> jsstring" where
  "numeric_chars s = filter (\<lambda>c. is_digit c \<or> c \<in> {46, 101, 69, 43, 45}) s"

definition first_finite :: "'n option \<Rightarrow> 'n option \<Rightarrow> 'n \<Rightarrow> 'n" where
  "first_finite a b z = (case a of Some x \<Rightarrow> x | None \<Rightarrow> (case b of Some y \<Rightarrow> y | None \<Rightarrow> z))"

definition valueOf ::
    "'n sort_env \<Rightarrow> 'm engine_model \<Rightarrow> 'm \<Rightarrow> int \<Rightarrow> int \<Rightarrow> int \<Rightarrow> 'n sort_value" where
  "valueOf env e m sheet r c =
     (let formatted = formattedValue e m sheet r c;
          content = cellContent e m sheet r c;
          type = cellType e m sheet r c
      in if content = [] \<and> formatted = []
         then \<lparr>rank = CLASS_BLANK, num = zero_number env, sv_text = []\<rparr>
         else if type = 1
         then \<lparr>rank = CLASS_NUMBER,
               num = first_finite
                 (if isFormula content then js_number env (numeric_chars formatted) else js_number env content)
                 (js_number env (numeric_chars formatted)) (zero_number env),
               sv_text = formatted\<rparr>
         else if type = 2 then \<lparr>rank = CLASS_TEXT, num = zero_number env, sv_text = formatted\<rparr>
         else \<lparr>rank = CLASS_OTHER, num = zero_number env, sv_text = formatted\<rparr>)"

definition compare_numbers :: "'n::linorder \<Rightarrow> 'n \<Rightarrow> int" where
  "compare_numbers a b = (if a = b then 0 else if a < b then -1 else 1)"

definition compare_values ::
    "(jsstring \<Rightarrow> jsstring \<Rightarrow> int) \<Rightarrow> 'n::linorder sort_value \<Rightarrow> 'n sort_value \<Rightarrow> int" where
  "compare_values coll a b =
     (if rank a \<noteq> rank b then rank a - rank b
      else if rank a = CLASS_BLANK then 0
      else if rank a = CLASS_NUMBER then compare_numbers (num a) (num b)
      else coll (sv_text a) (sv_text b))"

definition compareForDirection ::
    "(jsstring \<Rightarrow> jsstring \<Rightarrow> int) \<Rightarrow> bool \<Rightarrow> 'n::linorder sort_value \<Rightarrow> 'n sort_value \<Rightarrow> int" where
  "compareForDirection coll descending a b =
     (if rank a = CLASS_BLANK \<or> rank b = CLASS_BLANK
      then (if rank a = rank b then 0 else if rank a = CLASS_BLANK then 1 else -1)
      else (let result = compare_values coll a b in if descending then - result else result))"

section \<open>The order\<close>

record sort_key =
  key_column :: int
  descending :: bool

record sort_input =
  sort_sheet :: int
  sort_range :: selection
  sort_keys :: "sort_key list"
  hasHeader :: bool
  byRows :: bool
  sort_sheetNames :: "jsstring list option"

definition first_line :: "sort_input \<Rightarrow> int" where
  "first_line input =
     (if byRows input then r0 (sort_range input) else c0 (sort_range input))
       + (if hasHeader input then 1 else 0)"

definition line_count :: "sort_input \<Rightarrow> int" where
  "line_count input =
     max 0 ((if byRows input then r1 (sort_range input) else c1 (sort_range input)) - first_line input + 1)"

definition key_within :: "sort_input \<Rightarrow> sort_key \<Rightarrow> bool" where
  "key_within input key =
     (if byRows input
      then key_column key \<ge> c0 (sort_range input) \<and> key_column key \<le> c1 (sort_range input)
      else key_column key \<ge> r0 (sort_range input) \<and> key_column key \<le> r1 (sort_range input))"

definition keyValue ::
    "'n sort_env \<Rightarrow> 'm engine_model \<Rightarrow> 'm \<Rightarrow> sort_input \<Rightarrow> int \<Rightarrow> sort_key \<Rightarrow> 'n sort_value" where
  "keyValue env e m input line key =
     (if byRows input then valueOf env e m (sort_sheet input) line (key_column key)
      else valueOf env e m (sort_sheet input) (key_column key) line)"

text \<open>The comparator: the keys in turn, then the original position.\<close>

fun compare_keys :: "('k \<Rightarrow> 'a \<Rightarrow> 'a \<Rightarrow> int) \<Rightarrow> 'k list \<Rightarrow> ('a \<Rightarrow> 'a \<Rightarrow> int) \<Rightarrow> 'a \<Rightarrow> 'a \<Rightarrow> int" where
  "compare_keys by_key [] tie = tie"
| "compare_keys by_key (key # keys) tie = then_by (by_key key) (compare_keys by_key keys tie)"

definition compare_lines ::
    "'n::linorder sort_env \<Rightarrow> 'm engine_model \<Rightarrow> 'm \<Rightarrow> sort_input \<Rightarrow> int \<times> int \<Rightarrow> int \<times> int \<Rightarrow> int" where
  "compare_lines env e m input =
     compare_keys
       (\<lambda>key a b. compareForDirection (collate env) (descending key)
          (keyValue env e m input (fst a) key) (keyValue env e m input (fst b) key))
       (sort_keys input) (\<lambda>a b. snd a - snd b)"

definition sortOrder ::
    "'n::linorder sort_env \<Rightarrow> 'm engine_model \<Rightarrow> 'm \<Rightarrow> sort_input \<Rightarrow> engine_error + (int list \<times> int \<times> int)" where
  "sortOrder env e m input =
     (let first = first_line input; count = line_count input in
      if sort_keys input = [] then Inl BatchRejected
      else if \<not> list_all (key_within input) (sort_keys input)
      then Inl (refusing_range (sort_range input) BatchRejected)
      else
        (let decorated = map (\<lambda>index. (first + index, index)) [0..count - 1]
         in Inr (map (\<lambda>entry. fst entry - first) (js_sort (compare_lines env e m input) decorated),
                 first, count)))"

section \<open>The write\<close>

definition cross_first :: "sort_input \<Rightarrow> int" where
  "cross_first input = (if byRows input then c0 (sort_range input) else r0 (sort_range input))"

definition cross_count :: "sort_input \<Rightarrow> int" where
  "cross_count input =
     (if byRows input then c1 (sort_range input) else r1 (sort_range input)) - cross_first input + 1"

text \<open>The cell of a line and a cross position, both counted from the block's corner.\<close>

definition block_cell :: "sort_input \<Rightarrow> int \<Rightarrow> int \<Rightarrow> int \<times> int" where
  "block_cell input line cross =
     (if byRows input then (first_line input + line, cross_first input + cross)
      else (cross_first input + cross, first_line input + line))"

definition read_block ::
    "'m engine_model \<Rightarrow> 'm \<Rightarrow> sort_input \<Rightarrow> (jsstring \<times> cell_style) list list" where
  "read_block e m input =
     map (\<lambda>line. map (\<lambda>cross.
         case block_cell input line cross of
           (r, c) \<Rightarrow> (cellContent e m (sort_sheet input) r c, cellStyle e m (sort_sheet input) r c))
       [0..cross_count input - 1]) [0..line_count input - 1]"

definition moved_content ::
    "'n sort_env \<Rightarrow> sort_input \<Rightarrow> int \<Rightarrow> int \<Rightarrow> jsstring \<Rightarrow> engine_error + jsstring" where
  "moved_content env input source destination content =
     (if isFormula content
      then shiftFormula (fold_lower env) (lexer env)
             \<lparr>dr = (if byRows input then destination - source else 0),
              dc = (if byRows input then 0 else destination - source),
              sheetNames = sort_sheetNames input\<rparr> content
      else Inr content)"

text \<open>The cells that are written, in order, with the content each one gets.\<close>

definition sort_writes ::
    "'n sort_env \<Rightarrow> sort_input \<Rightarrow> int list \<Rightarrow> (jsstring \<times> cell_style) list list
      \<Rightarrow> ((int \<times> int) \<times> (engine_error + jsstring)) list" where
  "sort_writes env input order block =
     concat (map (\<lambda>destination.
       let source = order ! nat destination in
       if source = destination then []
       else map (\<lambda>cross. (block_cell input destination cross,
              moved_content env input source destination (fst (block ! nat source ! nat cross))))
            [0..cross_count input - 1]) [0..line_count input - 1])"

definition transpose_block :: "'a list list \<Rightarrow> 'a list list" where
  "transpose_block matrix =
     map (\<lambda>c. map (\<lambda>r. matrix ! r ! c) [0..<length matrix])
       [0..<(case matrix of [] \<Rightarrow> 0 | row # _ \<Rightarrow> length row)]"

definition write_moved ::
    "'m engine_model \<Rightarrow> int \<Rightarrow> (int \<times> int) \<times> (engine_error + jsstring) \<Rightarrow> ('m, unit) act" where
  "write_moved e sheet = (\<lambda>((r, c), content).
     and_then (attempt (\<lambda>_. content)) (\<lambda>text. setUserInput e sheet r c text))"

text \<open>The styles go in one paste of the whole reordered block.\<close>

definition paste_styles ::
    "'m engine_model \<Rightarrow> sort_input \<Rightarrow> int list \<Rightarrow> (jsstring \<times> cell_style) list list \<Rightarrow> ('m, unit) act" where
  "paste_styles e input order block =
     (let moved = list_ex (\<lambda>(destination, source). source \<noteq> destination)
            (zip [0..line_count input - 1] order);
          styles = map (\<lambda>source. map snd (block ! nat source)) order
      in if \<not> moved then ret ()
         else setRangeStyles e (sort_sheet input)
           (if byRows input then first_line input else cross_first input)
           (if byRows input then cross_first input else first_line input)
           (if byRows input then styles else transpose_block styles))"

definition sortRange ::
    "'n::linorder sort_env \<Rightarrow> 'm engine_model \<Rightarrow> sort_input \<Rightarrow> ('m, batch_summary) act" where
  "sortRange env e input m =
     (if selectionCellCount (sort_range input) > maxCellsPerWrite
      then (Inl (refusing_range (sort_range input) TooLarge), m)
      else
        (case sortOrder env e m input of Inl x \<Rightarrow> (Inl x, m)
         | Inr (order, first, count) \<Rightarrow>
           if count \<le> 1
           then (Inr (summaryOf (Some SKSort) [sort_sheet input] 0
                   [rectangleOf (sort_sheet input) (sort_range input)]), m)
           else
             (let block = read_block e m input;
                  writes = sort_writes env input order block
              in seq (runPaused e
                   (seq (for_each (write_moved e (sort_sheet input)) writes)
                      (paste_styles e input order block)))
                   (ret (summaryOf (Some SKSort) [sort_sheet input] (int (length writes))
                      [rectangleOf (sort_sheet input) (sort_range input)])) m)))"

section \<open>The comparators of the code\<close>

interpretation numbers: comparator "compare_numbers :: 'n::linorder \<Rightarrow> 'n \<Rightarrow> int"
  by unfold_locales (auto simp: compare_numbers_def split: if_splits)

interpretation positions: comparator "\<lambda>a b. (a :: int) - b"
  by unfold_locales (auto simp: sgn_if)

lemma comparator_values:
  assumes "comparator coll"
  shows "comparator (compare_values coll)"
proof
  fix a b
  show "sgn (compare_values coll a b) = - sgn (compare_values coll b a)"
    using comparator.flip [OF assms, of "sv_text a" "sv_text b"] numbers.flip [of "num a" "num b"]
      positions.flip [of "rank a" "rank b"]
    by (auto simp: compare_values_def)
next
  fix a b c
  assume ab: "compare_values coll a b \<le> 0" and bc: "compare_values coll b c \<le> 0"
  have r: "rank a \<le> rank b" "rank b \<le> rank c"
    using ab bc by (auto simp: compare_values_def split: if_splits)
  show "compare_values coll a c \<le> 0"
  proof (cases "rank a = rank c")
    case False
    then show ?thesis using r by (simp add: compare_values_def)
  next
    case True
    then have same: "rank a = rank b" "rank b = rank c" using r by auto
    then show ?thesis
      using ab bc comparator.trans [OF assms, of "sv_text a" "sv_text b" "sv_text c"]
        numbers.trans [of "num a" "num b" "num c"]
      by (auto simp: compare_values_def split: if_splits)
  qed
qed

lemma comparator_direction:
  assumes "comparator coll"
  shows "comparator (compareForDirection coll d)"
proof
  have dir: "comparator (\<lambda>a b. if d then - compare_values coll a b else compare_values coll a b)"
    using comparator_values [OF assms] comparator_flip [OF comparator_values [OF assms]] by (cases d) simp_all
  fix a b
  show "sgn (compareForDirection coll d a b) = - sgn (compareForDirection coll d b a)"
    using comparator.flip [OF dir, of a b] by (auto simp: compareForDirection_def Let_def)
  fix c
  assume ab: "compareForDirection coll d a b \<le> 0" and bc: "compareForDirection coll d b c \<le> 0"
  show "compareForDirection coll d a c \<le> 0"
  proof (cases "rank c = CLASS_BLANK")
    case True
    then show ?thesis by (simp add: compareForDirection_def)
  next
    case False
    then have "rank b \<noteq> CLASS_BLANK" using bc by (auto simp: compareForDirection_def)
    moreover from this have "rank a \<noteq> CLASS_BLANK" using ab by (auto simp: compareForDirection_def)
    ultimately show ?thesis
      using ab bc False comparator.trans [OF dir, of a b c]
      by (auto simp: compareForDirection_def Let_def)
  qed
qed

lemma comparator_keys:
  assumes "\<And>key. key \<in> set keys \<Longrightarrow> comparator (by_key key)" "comparator tie"
  shows "comparator (compare_keys by_key keys tie)"
  using assms by (induction keys) (auto intro: comparator_then_by)

lemma comparator_lines:
  assumes "comparator (collate env)"
  shows "comparator (compare_lines env e m input)"
  unfolding compare_lines_def
  by (intro comparator_keys comparator_on [OF comparator_direction [OF assms]]
      comparator_on [OF positions.comparator_axioms])

lemma compare_keys_tie:
  "compare_keys by_key keys tie a b =
     (let result = compare_keys by_key keys (\<lambda>_ _. 0) a b in if result \<noteq> 0 then result else tie a b)"
  by (induction keys) (auto simp: then_by_def Let_def)

section \<open>What the order is\<close>

text \<open>The keys alone, for two lines of the sheet.\<close>

definition keys_compare ::
    "'n::linorder sort_env \<Rightarrow> 'm engine_model \<Rightarrow> 'm \<Rightarrow> sort_input \<Rightarrow> int \<Rightarrow> int \<Rightarrow> int" where
  "keys_compare env e m input l k =
     compare_keys
       (\<lambda>key a b. compareForDirection (collate env) (descending key)
          (keyValue env e m input a key) (keyValue env e m input b key))
       (sort_keys input) (\<lambda>_ _. 0) l k"

lemma compare_keys_on:
  "compare_keys (\<lambda>key a b. f key (g a) (g b)) keys (\<lambda>a b. h (g a) (g b)) a b =
     compare_keys f keys h (g a) (g b)"
  by (induction keys) (simp_all add: then_by_def Let_def)

lemma compare_lines_keys:
  "compare_lines env e m input a b =
     (let result = keys_compare env e m input (fst a) (fst b) in
      if result \<noteq> 0 then result else snd a - snd b)"
  using compare_keys_on [of "\<lambda>key a b. compareForDirection (collate env) (descending key)
      (keyValue env e m input a key) (keyValue env e m input b key)" fst "sort_keys input" "\<lambda>_ _. 0" a b]
  by (simp add: compare_lines_def keys_compare_def compare_keys_tie [of _ _ "\<lambda>a b. snd a - snd b"])

lemma sortOrder_Inr:
  assumes "sortOrder env e m input = Inr (order, first, count)"
  shows "first = first_line input" "count = line_count input" "sort_keys input \<noteq> []"
    "order = map (\<lambda>entry. fst entry - first)
      (js_sort (compare_lines env e m input) (map (\<lambda>index. (first + index, index)) [0..count - 1]))"
  using assms by (auto simp: sortOrder_def Let_def split: if_splits)

lemma sorted_wrt_strict:
  assumes "sorted_wrt P xs" "distinct xs" "\<And>x y. x \<in> set xs \<Longrightarrow> y \<in> set xs \<Longrightarrow> x \<noteq> y \<Longrightarrow> P x y \<Longrightarrow> Q x y"
  shows "sorted_wrt Q xs"
  using assms by (induction xs) auto

lemma sortOrder_sorted:
  assumes coll: "comparator (collate env)" and s: "sortOrder env e m input = Inr (order, first, count)"
  shows "distinct order" "set order = {0..<count}"
    "sorted_wrt (\<lambda>i j. let k = keys_compare env e m input (first + i) (first + j)
                       in k < 0 \<or> k = 0 \<and> i < j) order"
proof -
  let ?decorated = "map (\<lambda>index. (first + index, index)) [0..count - 1]"
  let ?sorted = "js_sort (compare_lines env e m input) ?decorated"
  have order: "order = map (\<lambda>entry. fst entry - first) ?sorted" using sortOrder_Inr [OF s] by simp
  have entries: "\<forall>x\<in>set ?sorted. fst x = first + snd x" by auto
  then have order': "order = map snd ?sorted" unfolding order by simp
  have inj: "inj_on snd (set ?sorted)" using entries by (auto simp: inj_on_def)
  have d: "distinct ?sorted" by (auto simp: distinct_map inj_on_def)
  show "distinct order" unfolding order' using d inj by (simp add: distinct_map)
  show "set order = {0..<count}" unfolding order' by (auto simp: image_iff)
  have "sorted_wrt (\<lambda>a b. compare_lines env e m input a b \<le> 0) ?sorted"
    by (rule comparator.sorted_js_sort [OF comparator_lines [OF coll]])
  then have "sorted_wrt (\<lambda>a b. let k = keys_compare env e m input (first + snd a) (first + snd b)
      in k < 0 \<or> k = 0 \<and> snd a < snd b) ?sorted"
  proof (rule sorted_wrt_strict [OF _ d])
    fix x y
    assume x: "x \<in> set ?sorted" "y \<in> set ?sorted" "x \<noteq> y" "compare_lines env e m input x y \<le> 0"
    have "fst x = first + snd x" "fst y = first + snd y" using entries x(1,2) by blast+
    moreover from this have "snd x \<noteq> snd y" using x(3) by (metis prod.collapse)
    ultimately show "let k = keys_compare env e m input (first + snd x) (first + snd y)
      in k < 0 \<or> k = 0 \<and> snd x < snd y"
      using x(4) by (auto simp: compare_lines_keys Let_def split: if_splits)
  qed
  then show "sorted_wrt (\<lambda>i j. let k = keys_compare env e m input (first + i) (first + j)
      in k < 0 \<or> k = 0 \<and> i < j) order"
    unfolding order' by (simp add: sorted_wrt_map)
qed

lemma keys_compare_blank:
  assumes "keys_compare env e m input l k \<le> 0" "sort_keys input = key # keys"
    "rank (keyValue env e m input l key) = CLASS_BLANK"
  shows "rank (keyValue env e m input k key) = CLASS_BLANK"
  using assms by (auto simp: keys_compare_def then_by_def Let_def compareForDirection_def split: if_splits)

text \<open>C18: a sort order is the stable order of its keys, with blanks last.  For any collation
  that is a comparator, \<open>sortOrder\<close> answers a permutation of the lines of the block in which
  a line comes before another exactly when the keys put it first, or the keys tie and it was
  first already; and once a line is blank in the leading key every later line is, for an
  ascending and for a descending key alike.\<close>

theorem sortOrder_correct:
  assumes coll: "comparator (collate env)" and s: "sortOrder env e m input = Inr (order, first, count)"
  shows "distinct order \<and> set order = {0..<count} \<and>
    sorted_wrt (\<lambda>i j. let k = keys_compare env e m input (first + i) (first + j)
                       in k < 0 \<or> k = 0 \<and> i < j) order \<and>
    sorted_wrt (\<lambda>i j. rank (keyValue env e m input (first + i) (hd (sort_keys input))) = CLASS_BLANK \<longrightarrow>
                      rank (keyValue env e m input (first + j) (hd (sort_keys input))) = CLASS_BLANK) order"
proof -
  obtain key keys where k: "sort_keys input = key # keys"
    using sortOrder_Inr(3) [OF s] by (cases "sort_keys input") auto
  note sorted = sortOrder_sorted [OF coll s]
  have "sorted_wrt (\<lambda>i j. rank (keyValue env e m input (first + i) key) = CLASS_BLANK \<longrightarrow>
      rank (keyValue env e m input (first + j) key) = CLASS_BLANK) order"
  proof (rule sorted_wrt_mono_rel [OF _ sorted(3)])
    fix i j
    assume "let c = keys_compare env e m input (first + i) (first + j) in c < 0 \<or> c = 0 \<and> i < j"
    then have "keys_compare env e m input (first + i) (first + j) \<le> 0" by (auto simp: Let_def)
    from keys_compare_blank [OF this k]
    show "rank (keyValue env e m input (first + i) key) = CLASS_BLANK \<longrightarrow>
      rank (keyValue env e m input (first + j) key) = CLASS_BLANK" by blast
  qed
  then show ?thesis using sorted k by simp
qed

definition sample_env :: "int sort_env" where
  "sample_env = \<lparr>js_number = (\<lambda>s. if s \<noteq> [] \<and> list_all is_digit s then Some (digits_value s) else None),
     zero_number = 0, collate = (\<lambda>a b. int (length a) - int (length b)), fold_lower = (\<lambda>s. s),
     lexer = (\<lambda>_. None)\<rparr>"

definition sample_sort :: sort_input where
  "sample_sort = \<lparr>sort_sheet = 0, sort_range = \<lparr>r0 = 1, c0 = 1, r1 = 3, c1 = 1\<rparr>,
     sort_keys = [\<lparr>key_column = 1, descending = True\<rparr>], hasHeader = False, byRows = True,
     sort_sheetNames = None\<rparr>"

definition sort_memory :: memory where
  "sort_memory = empty_memory\<lparr>texts := (\<lambda>s r c. if c = 1 \<and> r = 2 then js ''3'' else if c = 1 \<and> r = 3 then js ''9'' else [])\<rparr>"

lemma sample_env_collate: "comparator (collate sample_env)"
  by (simp add: sample_env_def comparator_on [OF positions.comparator_axioms])

lemma sample_order: "sortOrder sample_env memory_engine sort_memory sample_sort = Inr ([2, 1, 0], 1, 3)"
proof -
  have v: "valueOf sample_env memory_engine sort_memory 0 1 1 = \<lparr>rank = 3, num = 0, sv_text = []\<rparr>"
    "valueOf sample_env memory_engine sort_memory 0 2 1 = \<lparr>rank = 0, num = 3, sv_text = js ''3''\<rparr>"
    "valueOf sample_env memory_engine sort_memory 0 3 1 = \<lparr>rank = 0, num = 9, sv_text = js ''9''\<rparr>"
    by (simp_all add: valueOf_def sort_memory_def empty_memory_def sample_env_def class_defs memory_type_def
        js_simps is_digit_def isFormula_def EQUALS_def first_finite_def digits_value_def Let_def)
  show ?thesis
    by (simp add: sortOrder_def sample_sort_def first_line_def line_count_def key_within_def upto.simps
        compare_lines_def then_by_def keyValue_def v compareForDirection_def compare_values_def class_defs
        compare_numbers_def)
qed

theorem sortOrder_correct_witness:
  "sortOrder sample_env memory_engine sort_memory sample_sort = Inr ([2, 1, 0], 1, 3) \<and>
   set [2, 1, 0] = {0..<3 :: int}"
  using sample_order sortOrder_correct [OF sample_env_collate sample_order] by blast

section \<open>What a sort writes\<close>

lemma concat_product:
  "concat (map (\<lambda>d. if P d then [] else map (f d) ks) ds) =
     map (\<lambda>(d, k). f d k) (filter (\<lambda>(d, k). \<not> P d) (List.product ds ks))"
proof (induction ds)
  case (Cons d ds)
  have "filter (\<lambda>(d, k). \<not> P d) (map (Pair d) ks) = (if P d then [] else map (Pair d) ks)"
    by (induction ks) auto
  then show ?case using Cons by auto
qed simp

definition moved_cells :: "sort_input \<Rightarrow> int list \<Rightarrow> (int \<times> int) list" where
  "moved_cells input order =
     filter (\<lambda>(d, k). order ! nat d \<noteq> d) (List.product [0..line_count input - 1] [0..cross_count input - 1])"

lemma sort_writes_moved:
  "sort_writes env input order block =
     map (\<lambda>(d, k). (block_cell input d k,
        moved_content env input (order ! nat d) d (fst (block ! nat (order ! nat d) ! nat k))))
       (moved_cells input order)"
proof -
  have "sort_writes env input order block = concat (map (\<lambda>d. if order ! nat d = d then []
      else map (\<lambda>k. (block_cell input d k,
        moved_content env input (order ! nat d) d (fst (block ! nat (order ! nat d) ! nat k))))
       [0..cross_count input - 1]) [0..line_count input - 1])"
    by (simp add: sort_writes_def Let_def)
  then show ?thesis unfolding concat_product moved_cells_def by (simp add: case_prod_beta')
qed

lemma block_cell_inj: "block_cell input d k = block_cell input d' k' \<longleftrightarrow> d = d' \<and> k = k'"
  by (auto simp: block_cell_def split: if_splits)

lemma distinct_moved: "distinct (map (\<lambda>(d, k). block_cell input d k) (moved_cells input order))"
proof -
  have "distinct (moved_cells input order)"
    by (simp add: moved_cells_def distinct_product)
  then show ?thesis by (auto simp: distinct_map inj_on_def block_cell_inj)
qed

lemma read_block_nth:
  assumes "0 \<le> line" "line < line_count input" "0 \<le> k" "k < cross_count input"
  shows "fst (read_block e m input ! nat line ! nat k) =
    (case block_cell input line k of (r, c) \<Rightarrow> cellContent e m (sort_sheet input) r c)"
  using assms by (simp add: read_block_def split: prod.split)

lemma write_moved_content:
  assumes "content_store e norm" "write_moved e s x m = (Inr (), m')"
  shows "cellContent e m' = put s (fst x) (norm (projr (snd x))) (cellContent e m)"
  using assms by (cases x) (auto simp: write_moved_def act_defs content_store_def split: sum.splits)

lemma paste_styles_content:
  "styles_keep_content e \<Longrightarrow>
   cellContent e (snd (paste_styles e input order block m)) = cellContent e m"
  by (simp add: paste_styles_def Let_def ret_def styles_keep_content_def)

lemma sort_contents:
  assumes store: "content_store e norm" "styles_keep_content e"
    and s: "sortOrder env e m input = Inr (order, first, count)" "1 < count"
    and w: "sortRange env e input m = (Inr summary, m')"
  shows "cellContent e m' = fold (\<lambda>x. put (sort_sheet input) (fst x) (norm (projr (snd x))))
    (sort_writes env input order (read_block e m input)) (cellContent e m)"
proof -
  let ?writes = "sort_writes env input order (read_block e m input)"
  let ?loop = "for_each (write_moved e (sort_sheet input)) ?writes"
  let ?paste = "paste_styles e input order (read_block e m input)"
  have p: "runPaused e (seq ?loop ?paste) m = (Inr (), m')"
    using w s by (auto simp: sortRange_def Let_def seq_Inr ret_def split: if_splits)
  from runPaused_content [OF store(1) p] obtain m0 m1 where
    m: "cellContent e m0 = cellContent e m" "cellContent e m' = cellContent e m1"
      "seq ?loop ?paste m0 = (Inr (), m1)" by blast
  then obtain m2 where m2: "?loop m0 = (Inr (), m2)" "?paste m2 = (Inr (), m1)"
    by (auto simp: seq_Inr)
  have "cellContent e m1 = cellContent e m2"
    using paste_styles_content [OF store(2), of input order "read_block e m input" m2] m2(2) by simp
  then show ?thesis
    using for_each_content [OF write_moved_content [OF store(1)] m2(1)] m(1,2) by simp
qed

lemma sortOrder_lines:
  assumes "sortOrder env e m input = Inr (order, first, count)"
  shows "length order = nat count" "set order = {0..<count}"
  using sortOrder_Inr [OF assms] by (auto simp: image_iff)

text \<open>C19: a sort moves every cell of a moved line, and nothing else.  When \<open>sortRange\<close>
  returns, the cell at a destination line holds the content of the same cross position of
  its source line (a formula rewritten for the distance it moved); lines that stay, the
  header, and every cell outside the block hold what they held.\<close>

theorem sortRange_correct:
  assumes store: "content_store e norm" "styles_keep_content e"
    and s: "sortOrder env e m input = Inr (order, first, count)"
    and w: "sortRange env e input m = (Inr summary, m')"
  shows "(\<forall>d k. 0 \<le> d \<and> d < count \<and> 0 \<le> k \<and> k < cross_count input \<longrightarrow>
      (case (block_cell input d k, block_cell input (order ! nat d) k) of ((r, c), (r', c')) \<Rightarrow>
        cellContent e m' (sort_sheet input) r c =
          (if order ! nat d = d then cellContent e m (sort_sheet input) r c
           else norm (projr (moved_content env input (order ! nat d) d
                  (cellContent e m (sort_sheet input) r' c')))))) \<and>
    (\<forall>t r c. \<not> (t = sort_sheet input \<and> (\<exists>d k. 0 \<le> d \<and> d < count \<and> 0 \<le> k \<and> k < cross_count input \<and>
        block_cell input d k = (r, c))) \<longrightarrow> cellContent e m' t r c = cellContent e m t r c)"
proof (cases "1 < count")
  case False
  have "order ! nat d = d" if "0 \<le> d" "d < count" for d
  proof -
    have c: "count = 1" "d = 0" using that False by linarith+
    then have "order \<noteq> []" using sortOrder_lines(1) [OF s] by auto
    then have "hd order \<in> {0..<1}" using sortOrder_lines(2) [OF s] c(1) by (metis hd_in_set)
    then show ?thesis using \<open>order \<noteq> []\<close> c(2) by (simp add: hd_conv_nth)
  qed
  moreover have "m' = m" using w s False by (auto simp: sortRange_def split: if_splits)
  ultimately show ?thesis by (auto split: prod.split)
next
  case True
  let ?writes = "sort_writes env input order (read_block e m input)"
  have lines: "count = line_count input" using sortOrder_Inr [OF s] by simp
  have d: "distinct (map fst ?writes)"
    using distinct_moved [of input order] by (simp add: sort_writes_moved comp_def case_prod_beta')
  note contents = sort_contents [OF store s True w]
  have fsts: "fst ` set ?writes = {block_cell input d k | d k. (d, k) \<in> set (moved_cells input order)}"
    unfolding sort_writes_moved by force
  have moved: "(d, k) \<in> set (moved_cells input order) \<longleftrightarrow>
      0 \<le> d \<and> d < count \<and> 0 \<le> k \<and> k < cross_count input \<and> order ! nat d \<noteq> d" for d k
    by (auto simp: moved_cells_def lines)
  show ?thesis
  proof (intro conjI allI impI)
    fix d k assume dk: "0 \<le> d \<and> d < count \<and> 0 \<le> k \<and> k < cross_count input"
    obtain r c r' c' where rc: "block_cell input d k = (r, c)" "block_cell input (order ! nat d) k = (r', c')"
      by (metis surj_pair)
    have source: "0 \<le> order ! nat d" "order ! nat d < line_count input"
      using dk sortOrder_lines [OF s] nth_mem [of "nat d" order] lines by (auto simp: nat_less_iff)
    show "case (block_cell input d k, block_cell input (order ! nat d) k) of ((r, c), (r', c')) \<Rightarrow>
        cellContent e m' (sort_sheet input) r c =
          (if order ! nat d = d then cellContent e m (sort_sheet input) r c
           else norm (projr (moved_content env input (order ! nat d) d (cellContent e m (sort_sheet input) r' c'))))"
    proof (cases "order ! nat d = d")
      case stays: True
      have "(r, c) \<notin> fst ` set ?writes"
      proof
        assume "(r, c) \<in> fst ` set ?writes"
        then obtain d' k' where "block_cell input d' k' = block_cell input d k" "(d', k') \<in> set (moved_cells input order)"
          unfolding fsts rc(1) by auto
        then show False using block_cell_inj moved stays by auto
      qed
      then have "cellContent e m' (sort_sheet input) r c = cellContent e m (sort_sheet input) r c"
        unfolding contents by (rule fold_put_miss)
      then show ?thesis using stays rc by simp
    next
      case False
      let ?x = "(block_cell input d k, moved_content env input (order ! nat d) d
        (fst (read_block e m input ! nat (order ! nat d) ! nat k)))"
      have "(d, k) \<in> set (moved_cells input order)" using dk False moved by blast
      then have "?x \<in> set ?writes" unfolding sort_writes_moved by force
      from fold_put_hit [OF d this] have "cellContent e m' (sort_sheet input) r c = norm (projr (snd ?x))"
        using contents rc(1) by simp
      then show ?thesis
        using False rc read_block_nth [OF source, of k e m] dk by simp
    qed
  next
    fix t r c
    assume out: "\<not> (t = sort_sheet input \<and> (\<exists>d k. 0 \<le> d \<and> d < count \<and> 0 \<le> k \<and> k < cross_count input \<and>
        block_cell input d k = (r, c)))"
    show "cellContent e m' t r c = cellContent e m t r c"
    proof (cases "t = sort_sheet input")
      case True
      then have "(r, c) \<notin> fst ` set ?writes" unfolding fsts using out moved by fastforce
      then show ?thesis unfolding contents True by (rule fold_put_miss)
    next
      case False
      from fold_put_other_sheet [OF this, of fst "\<lambda>x. norm (projr (snd x))" ?writes]
      show ?thesis unfolding contents by simp
    qed
  qed
qed

theorem sortRange_correct_witness:
  "\<exists>summary m'. sortRange sample_env memory_engine sample_sort sort_memory = (Inr summary, m') \<and>
     texts m' 0 1 1 = js ''9'' \<and> texts m' 0 3 1 = []"
proof -
  have range: "selectionCellCount (sort_range sample_sort) \<le> maxCellsPerWrite"
    by (simp add: sample_sort_def selectionCellCount_def spreadsheet_limits)
  have shape: "line_count sample_sort = 3" "cross_count sample_sort = 1" "byRows sample_sort"
      "first_line sample_sort = 1" "cross_first sample_sort = 1" "sort_sheet sample_sort = 0"
    by (simp_all add: sample_sort_def line_count_def cross_count_def first_line_def cross_first_def)
  have block: "map (map fst) (read_block memory_engine sort_memory sample_sort) = [[[]], [js ''3''], [js ''9'']]"
    by (simp add: read_block_def shape upto.simps block_cell_def sort_memory_def empty_memory_def)
  have plain: "moved_content sample_env sample_sort a b (js ''9'') = Inr (js ''9'')"
    "moved_content sample_env sample_sort a b [] = Inr []" for a b
    by (simp_all add: moved_content_def isFormula_def js_simps EQUALS_def)
  have reads: "fst (read_block memory_engine sort_memory sample_sort ! 0 ! 0) = []"
    "fst (read_block memory_engine sort_memory sample_sort ! 2 ! 0) = js ''9''"
    using block by (simp_all add: read_block_def shape upto.simps block_cell_def sort_memory_def empty_memory_def)
  have "sort_writes sample_env sample_sort [2, 1, 0] (read_block memory_engine sort_memory sample_sort)
      = [((1, 1), Inr (js ''9'')), ((3, 1), Inr [])]"
    by (simp add: sort_writes_def shape upto.simps block_cell_def plain reads)
  moreover have "paste_styles memory_engine sample_sort order block = ret ()" for order block
    by (simp add: paste_styles_def Let_def)
  ultimately obtain summary m' where w: "sortRange sample_env memory_engine sample_sort sort_memory = (Inr summary, m')"
    using range by (simp add: sortRange_def sample_order Let_def seq_def and_then_def write_moved_def
        attempt_def ret_def)
  note c = sortRange_correct [OF memory_engine_laws sample_order w]
  have "texts m' 0 1 1 = js ''9''"
    using c [THEN conjunct1, rule_format, of 0 0]
    by (simp add: shape block_cell_def plain sort_memory_def)
  moreover have "texts m' 0 3 1 = []"
    using c [THEN conjunct1, rule_format, of 2 0]
    by (simp add: shape block_cell_def plain sort_memory_def empty_memory_def)
  ultimately show ?thesis using w by blast
qed

end
