(* ===== verification/SheetRead.thy ===== *)
theory SheetRead
  imports Engine
begin

text \<open>
  Bounded reads (\<open>packages/spreadsheet/src/read.ts\<close>) and the deterministic text projection
  (\<open>packages/spreadsheet/src/projection.ts\<close>).
\<close>

section \<open>Reads\<close>

record read_options =
  want_values :: "bool option"
  want_formulas :: bool
  want_types :: bool
  clamp :: bool
  read_max :: "int option"

record read_result =
  rr_sheet :: int
  rr_name :: jsstring
  rr_range :: selection
  rr_a1 :: jsstring
  rowCount :: int
  columnCount :: int
  rr_values :: "jsstring list list option"
  rr_formulas :: "jsstring list list option"
  rr_types :: "int list list option"
  truncated :: bool

text \<open>\<open>model.sheets()[sheet]?.name ?? `Sheet${sheet + 1}`\<close>.\<close>

definition sheetName :: "'m engine_model \<Rightarrow> 'm \<Rightarrow> int \<Rightarrow> jsstring" where
  "sheetName e m sheet =
     (if 0 \<le> sheet \<and> nat sheet < length (sheets e m) then sheet_name (sheets e m ! nat sheet)
      else js ''Sheet'' @ int_text (sheet + 1))"

definition read_cells :: "selection \<Rightarrow> (int \<Rightarrow> int \<Rightarrow> 'a) \<Rightarrow> 'a list list" where
  "read_cells rng f = map (\<lambda>r. map (f r) [c0 rng..c1 rng]) [r0 rng..r1 rng]"

definition default_read_options :: read_options where
  "default_read_options = \<lparr>want_values = None, want_formulas = False, want_types = False,
     clamp = False, read_max = None\<rparr>"

definition readRange ::
    "'m engine_model \<Rightarrow> 'm \<Rightarrow> int \<Rightarrow> selection \<Rightarrow> read_options \<Rightarrow> engine_error + read_result" where
  "readRange e m sheet rng opts =
     (let limit = (case read_max opts of None \<Rightarrow> maxCellsPerRead | Some n \<Rightarrow> n);
          count = selectionCellCount rng
      in if count > limit \<and> \<not> clamp opts then Inl (refusing_range rng TooLarge)
         else
           bindE (if clamp opts then clampRange rng limit else Inr (rng, False))
             (\<lambda>(bounded, cut).
               bindE (formatA1Range bounded) (\<lambda>a1.
                 let wantValues = (want_values opts \<noteq> Some False) in
                 Inr \<lparr>rr_sheet = sheet, rr_name = sheetName e m sheet, rr_range = bounded, rr_a1 = a1,
                   rowCount = r1 bounded - r0 bounded + 1, columnCount = c1 bounded - c0 bounded + 1,
                   rr_values = (if wantValues then Some (read_cells bounded (formattedValue e m sheet)) else None),
                   rr_formulas = (if want_formulas opts
                     then Some (read_cells bounded (cellContent e m sheet)) else None),
                   rr_types = (if want_types opts
                     then Some (read_cells bounded (cellType e m sheet)) else None),
                   truncated = cut\<rparr>)))"

definition usedRange :: "'m engine_model \<Rightarrow> 'm \<Rightarrow> int \<Rightarrow> selection option" where
  "usedRange e m sheet =
     (case dimensions e m sheet of
        (minRow, minColumn, maxRow, maxColumn) \<Rightarrow>
          let rng = \<lparr>r0 = minRow, c0 = minColumn, r1 = maxRow, c1 = maxColumn\<rparr> in
          if selectionCellCount rng \<noteq> 1 then Some rng
          else if cellContent e m sheet (r0 rng) (c0 rng) \<noteq> [] then Some rng else None)"

record sheet_description =
  sd_index :: int
  sd_name :: jsstring
  sd_hidden :: bool
  sd_color :: "jsstring option"
  sd_used :: "selection option"
  sd_usedA1 :: "jsstring option"
  sd_rowCount :: int
  sd_columnCount :: int
  sd_frozenRows :: int
  sd_frozenColumns :: int

definition tab_hidden :: "sheet_properties \<Rightarrow> bool" where
  "tab_hidden p \<longleftrightarrow> sheet_state p \<noteq> None \<and> sheet_state p \<noteq> Some ''visible''"

definition describe_sheet ::
    "'m engine_model \<Rightarrow> 'm \<Rightarrow> int \<times> sheet_properties \<Rightarrow> engine_error + sheet_description" where
  "describe_sheet e m = (\<lambda>(index, p).
     let used = usedRange e m index in
     bindE (case used of None \<Rightarrow> Inr None | Some u \<Rightarrow> bindE (formatA1Range u) (\<lambda>a. Inr (Some a)))
       (\<lambda>a1. Inr \<lparr>sd_index = index, sd_name = sheet_name p, sd_hidden = tab_hidden p,
          sd_color = sheet_color p, sd_used = used, sd_usedA1 = a1,
          sd_rowCount = (case used of None \<Rightarrow> 0 | Some u \<Rightarrow> r1 u - r0 u + 1),
          sd_columnCount = (case used of None \<Rightarrow> 0 | Some u \<Rightarrow> c1 u - c0 u + 1),
          sd_frozenRows = frozenRowsCount e m index,
          sd_frozenColumns = frozenColumnsCount e m index\<rparr>))"

definition describe ::
    "'m engine_model \<Rightarrow> 'm \<Rightarrow> engine_error + (engine_binding \<times> int \<times> sheet_description list)" where
  "describe e m =
     bindE (mapE (describe_sheet e m) (zip (map int [0..<length (sheets e m)]) (sheets e m)))
       (\<lambda>descriptions. Inr (binding e, int (length descriptions), descriptions))"

definition readHead ::
    "'m engine_model \<Rightarrow> 'm \<Rightarrow> int \<Rightarrow> int \<Rightarrow> read_options \<Rightarrow> engine_error + read_result option" where
  "readHead e m sheet limit opts =
     (case usedRange e m sheet of None \<Rightarrow> Inr None
      | Some used \<Rightarrow>
          bindE (readRange e m sheet (used\<lparr>r1 := min (r1 used) (r0 used + limit - 1)\<rparr>) (opts\<lparr>clamp := True\<rparr>))
            (\<lambda>r. Inr (Some r)))"

section \<open>Projection\<close>

record projection_options =
  maxChars :: nat
  maxRowsPerSheet :: int
  title :: jsstring

definition default_projection_options :: projection_options where
  "default_projection_options = \<lparr>maxChars = 2000000, maxRowsPerSheet = 50000, title = []\<rparr>"

definition is_break :: "code_unit \<Rightarrow> bool" where
  "is_break c \<longleftrightarrow> c = 9 \<or> c = 10 \<or> c = 13"

text \<open>\<open>replace(/[\t\r\n]+/g, ' ')\<close>: every run of breaks becomes one space.\<close>

fun escape_loop :: "bool \<Rightarrow> jsstring \<Rightarrow> jsstring" where
  "escape_loop inRun [] = []"
| "escape_loop inRun (c # s) =
     (if is_break c then (if inRun then escape_loop True s else 32 # escape_loop True s)
      else c # escape_loop False s)"

definition escapeCell :: "jsstring \<Rightarrow> jsstring" where
  "escapeCell s = escape_loop False s"

fun join_with :: "'a list \<Rightarrow> 'a list list \<Rightarrow> 'a list" where
  "join_with sep [] = []"
| "join_with sep [x] = x"
| "join_with sep (x # y # ys) = x @ sep @ join_with sep (y # ys)"

text \<open>The lines collected so far, their length with line ends, and the truncation flag.\<close>

record projected =
  out_lines :: "jsstring list"
  out_length :: nat
  out_truncated :: bool

text \<open>\<open>push\<close> answers whether the line was taken.\<close>

definition push :: "nat \<Rightarrow> jsstring \<Rightarrow> projected \<Rightarrow> bool \<times> projected" where
  "push limit line p =
     (if out_length p + length line + 1 > limit then (False, p\<lparr>out_truncated := True\<rparr>)
      else (True, p\<lparr>out_lines := out_lines p @ [line], out_length := out_length p + length line + 1\<rparr>))"

definition strip_empty :: "jsstring list \<Rightarrow> jsstring list" where
  "strip_empty cells = rev (dropWhile (\<lambda>c. c = []) (rev cells))"

definition row_cells :: "'m engine_model \<Rightarrow> 'm \<Rightarrow> int \<Rightarrow> selection \<Rightarrow> int \<Rightarrow> jsstring list" where
  "row_cells e m sheet used r = map (\<lambda>c. escapeCell (formattedValue e m sheet r c)) [c0 used..c1 used]"

fun project_rows ::
    "'m engine_model \<Rightarrow> 'm \<Rightarrow> nat \<Rightarrow> int \<Rightarrow> selection \<Rightarrow> int list \<Rightarrow> projected \<Rightarrow> projected" where
  "project_rows e m limit sheet used [] p = p"
| "project_rows e m limit sheet used (r # rs) p =
     (let cells = row_cells e m sheet used r in
      if \<not> list_ex (\<lambda>v. v \<noteq> []) cells then project_rows e m limit sheet used rs p
      else
        (case push limit (join_with [9] (strip_empty cells)) p of
           (False, p') \<Rightarrow> p'
         | (True, p') \<Rightarrow> project_rows e m limit sheet used rs p'))"

text \<open>One sheet.  The boolean is \<open>False\<close> when the loop over the sheets must stop.\<close>

definition project_one ::
    "'m engine_model \<Rightarrow> 'm \<Rightarrow> projection_options \<Rightarrow> int \<Rightarrow> sheet_properties \<Rightarrow> projected
      \<Rightarrow> engine_error + (bool \<times> projected)" where
  "project_one e m opts sheet p acc =
     (let limit = maxChars opts in
      case push limit (js ''## '' @ escapeCell (sheet_name p) @ (if tab_hidden p then js '' (hidden)'' else [])) acc of
        (False, acc1) \<Rightarrow> Inr (False, acc1)
      | (True, acc1) \<Rightarrow>
        (case usedRange e m sheet of
           None \<Rightarrow> Inr (True, snd (push limit [] (snd (push limit (js ''(empty)'') acc1))))
         | Some used \<Rightarrow>
             bindE (mapE columnIndexToLabel [c0 used..c1 used]) (\<lambda>labels.
               case push limit (join_with [9] labels) acc1 of
                 (False, acc2) \<Rightarrow> Inr (False, acc2)
               | (True, acc2) \<Rightarrow>
                 (let lastRow = min (r1 used) (r0 used + maxRowsPerSheet opts - 1);
                      acc3 = project_rows e m limit sheet used [r0 used..lastRow] acc2;
                      acc4 = (if lastRow < r1 used
                              then snd (push limit (js ''('' @ int_text (r1 used - lastRow)
                                     @ js '' more row(s) not shown)'') acc3)
                              else acc3)
                  in Inr (True, snd (push limit [] acc4))))))"

fun project_sheets ::
    "'m engine_model \<Rightarrow> 'm \<Rightarrow> projection_options \<Rightarrow> (int \<times> sheet_properties) list \<Rightarrow> projected
      \<Rightarrow> engine_error + projected" where
  "project_sheets e m opts [] acc = Inr acc"
| "project_sheets e m opts ((sheet, p) # rest) acc =
     (if out_truncated acc then Inr acc
      else bindE (project_one e m opts sheet p acc) (\<lambda>(continue, acc').
             if continue then project_sheets e m opts rest acc' else Inr acc'))"

definition projectWorkbook ::
    "'m engine_model \<Rightarrow> 'm \<Rightarrow> projection_options \<Rightarrow> engine_error + jsstring" where
  "projectWorkbook e m opts =
     (let start = \<lparr>out_lines = [], out_length = 0, out_truncated = False\<rparr>;
          titled = (if title opts \<noteq> []
            then snd (push (maxChars opts) [] (snd (push (maxChars opts) (js ''# '' @ escapeCell (title opts)) start)))
            else start)
      in bindE (project_sheets e m opts (zip (map int [0..<length (sheets e m)]) (sheets e m)) titled)
           (\<lambda>p. Inr (join_with [10]
              (strip_empty (out_lines p @ (if out_truncated p then [js ''(projection truncated)''] else []))))))"

text \<open>A view of the engine with one sheet, at every index.\<close>

definition single_sheet :: "'m engine_model \<Rightarrow> int \<Rightarrow> 'm engine_model" where
  "single_sheet e sheet = e\<lparr>
     sheets := (\<lambda>m. [if 0 \<le> sheet \<and> nat sheet < length (sheets e m) then sheets e m ! nat sheet
                     else \<lparr>sheet_name = sheetName e m sheet, sheet_state = None, sheet_color = None\<rparr>]),
     dimensions := (\<lambda>m s. dimensions e m sheet),
     cellContent := (\<lambda>m s r c. cellContent e m sheet r c),
     formattedValue := (\<lambda>m s r c. formattedValue e m sheet r c),
     cellType := (\<lambda>m s r c. cellType e m sheet r c)\<rparr>"

definition projectSheet ::
    "'m engine_model \<Rightarrow> 'm \<Rightarrow> int \<Rightarrow> projection_options \<Rightarrow> engine_error + jsstring" where
  "projectSheet e m sheet opts =
     (case usedRange e m sheet of
        None \<Rightarrow> Inr (js ''## '' @ escapeCell (sheetName e m sheet) @ [10] @ js ''(empty)'')
      | Some _ \<Rightarrow> projectWorkbook (single_sheet e sheet) m opts)"

section \<open>The projection is bounded and its cells cannot forge a boundary\<close>

lemma escape_loop_no_break: "c \<in> set (escape_loop inRun s) \<Longrightarrow> \<not> is_break c"
proof (induction inRun s rule: escape_loop.induct)
  case (2 inRun c' s)
  then show ?case by (auto simp: is_break_def split: if_splits)
qed simp

definition well_counted :: "nat \<Rightarrow> projected \<Rightarrow> bool" where
  "well_counted limit p \<longleftrightarrow>
     out_length p = sum_list (map (\<lambda>l. length l + 1) (out_lines p)) \<and> out_length p \<le> limit"

lemma push_counted: "well_counted limit p \<Longrightarrow> well_counted limit (snd (push limit line p))"
  by (auto simp: well_counted_def push_def)

lemma push_case: "push limit line p = (b, p') \<Longrightarrow> well_counted limit p \<Longrightarrow> well_counted limit p'"
  using push_counted by (metis snd_conv)

lemma project_rows_counted:
  "well_counted limit p \<Longrightarrow> well_counted limit (project_rows e m limit sheet used rs p)"
  by (induction rs arbitrary: p) (auto simp: Let_def dest: push_case split: prod.split bool.split)

lemma project_one_counted:
  assumes acc: "well_counted (maxChars opts) acc" and run: "project_one e m opts sheet p acc = Inr (b, acc')"
  shows "well_counted (maxChars opts) acc'"
proof -
  let ?head = "js ''## '' @ escapeCell (sheet_name p) @ (if tab_hidden p then js '' (hidden)'' else [])"
  obtain b1 acc1 where one: "push (maxChars opts) ?head acc = (b1, acc1)" by (cases "push (maxChars opts) ?head acc")
  note wc1 = push_case [OF one acc]
  show ?thesis
  proof (cases b1)
    case False
    then show ?thesis using run one wc1 by (simp add: project_one_def)
  next
    case True
    show ?thesis
    proof (cases "usedRange e m sheet")
      case None
      then have "acc' = snd (push (maxChars opts) [] (snd (push (maxChars opts) (js ''(empty)'') acc1)))"
        using run one \<open>b1\<close> by (simp add: project_one_def Let_def)
      then show ?thesis by (simp add: push_counted wc1)
    next
      case (Some used)
      then obtain labels where labels: "mapE columnIndexToLabel [c0 used..c1 used] = Inr labels"
        using run one \<open>b1\<close> by (auto simp: project_one_def Let_def)
      obtain b2 acc2 where two: "push (maxChars opts) (join_with [9] labels) acc1 = (b2, acc2)"
        by (cases "push (maxChars opts) (join_with [9] labels) acc1")
      note wc2 = push_case [OF two wc1]
      show ?thesis
      proof (cases b2)
        case False
        then show ?thesis using run one \<open>b1\<close> Some labels two wc2 by (simp add: project_one_def)
      next
        case True
        let ?last = "min (r1 used) (r0 used + maxRowsPerSheet opts - 1)"
        have "acc' = snd (push (maxChars opts) []
            (if ?last < r1 used
             then snd (push (maxChars opts) (js ''('' @ int_text (r1 used - ?last) @ js '' more row(s) not shown)'')
                    (project_rows e m (maxChars opts) sheet used [r0 used..?last] acc2))
             else project_rows e m (maxChars opts) sheet used [r0 used..?last] acc2))"
          using run one \<open>b1\<close> Some labels two True by (simp add: project_one_def Let_def)
        then show ?thesis by (simp add: push_counted project_rows_counted wc2)
      qed
    qed
  qed
qed

lemma project_sheets_counted:
  assumes "well_counted (maxChars opts) acc" "project_sheets e m opts ss acc = Inr acc'"
  shows "well_counted (maxChars opts) acc'"
  using assms
proof (induction ss arbitrary: acc)
  case Nil
  then show ?case by simp
next
  case (Cons sp ss)
  obtain sheet p where sp: "sp = (sheet, p)" by (cases sp)
  show ?case
  proof (cases "out_truncated acc")
    case True
    then show ?thesis using Cons.prems sp by simp
  next
    case False
    then obtain b acc1 where one: "project_one e m opts sheet p acc = Inr (b, acc1)"
      using Cons.prems(2) sp by auto
    have "well_counted (maxChars opts) acc1" by (rule project_one_counted [OF Cons.prems(1) one])
    then show ?thesis using Cons.IH Cons.prems(2) one False sp by (auto split: if_splits)
  qed
qed

lemma length_join: "ls \<noteq> [] \<Longrightarrow> length (join_with [x] ls) + 1 = sum_list (map (\<lambda>l. length l + 1) ls)"
proof (induction ls rule: induct_list012)
  case (3 a b ls)
  then have "length (join_with [x] (b # ls)) + 1 = sum_list (map (\<lambda>l. length l + 1) (b # ls))" by simp
  then show ?case by simp
qed simp_all

lemma sum_list_strip: "sum_list (map (\<lambda>l. length l + 1) (strip_empty ls)) \<le> sum_list (map (\<lambda>l. length l + 1) ls)"
proof -
  have "ls = strip_empty ls @ rev (takeWhile (\<lambda>c. c = []) (rev ls))"
    unfolding strip_empty_def by (metis rev_append rev_rev_ident takeWhile_dropWhile_id)
  then show ?thesis by (metis le_add1 map_append sum_list_append)
qed

text \<open>The projection of a workbook is bounded.  Whatever the workbook holds, the text
  \<open>projectWorkbook\<close> returns is at most the requested number of characters, plus the line
  that says it was truncated.\<close>

theorem projectWorkbook_bounded:
  assumes "projectWorkbook e m opts = Inr text"
  shows "length text \<le> maxChars opts + length ''(projection truncated)''"
proof -
  let ?start = "\<lparr>out_lines = [], out_length = 0, out_truncated = False\<rparr>"
  have start: "well_counted (maxChars opts) ?start" by (simp add: well_counted_def)
  then have titled: "well_counted (maxChars opts) (if title opts \<noteq> []
      then snd (push (maxChars opts) [] (snd (push (maxChars opts) (js ''# '' @ escapeCell (title opts)) ?start)))
      else ?start)" by (simp add: push_counted)
  obtain p where ps: "project_sheets e m opts (zip (map int [0..<length (sheets e m)]) (sheets e m))
      (if title opts \<noteq> []
       then snd (push (maxChars opts) [] (snd (push (maxChars opts) (js ''# '' @ escapeCell (title opts)) ?start)))
       else ?start) = Inr p"
    and t: "text = join_with [10] (strip_empty (out_lines p @
      (if out_truncated p then [js ''(projection truncated)''] else [])))"
    using assms by (auto simp: projectWorkbook_def Let_def)
  note p = t project_sheets_counted [OF titled ps]
  let ?all = "out_lines p @ (if out_truncated p then [js ''(projection truncated)''] else [])"
  have "sum_list (map (\<lambda>l. length l + 1) ?all) \<le> maxChars opts + length ''(projection truncated)'' + 1"
    using p(2) by (auto simp: well_counted_def)
  then have bound: "sum_list (map (\<lambda>l. length l + 1) (strip_empty ?all)) \<le>
      maxChars opts + length ''(projection truncated)'' + 1"
    using sum_list_strip [of ?all] by linarith
  show ?thesis
  proof (cases "strip_empty ?all = []")
    case True
    then show ?thesis using p(1) by simp
  next
    case False
    from length_join [OF this, of 10] bound show ?thesis unfolding p(1) by linarith
  qed
qed

theorem projectWorkbook_bounded_witness:
  "projectWorkbook memory_engine empty_memory default_projection_options =
     Inr (js ''## A'' @ [10] @ js ''(empty)'') \<and>
   length (js ''## A'' @ [10] @ js ''(empty)'') \<le> 2000000 + length ''(projection truncated)''"
proof -
  have "projectWorkbook memory_engine empty_memory default_projection_options =
     Inr (js ''## A'' @ [10] @ js ''(empty)'')"
    by (simp add: projectWorkbook_def default_projection_options_def empty_memory_def project_one_def
        usedRange_def selectionCellCount_def push_def escapeCell_def tab_hidden_def strip_empty_def
        is_break_def js_simps)
  then show ?thesis using projectWorkbook_bounded [of memory_engine empty_memory default_projection_options]
    by (simp add: default_projection_options_def)
qed

text \<open>A read never exceeds its cap and returns exactly the cells of its range.  When
  \<open>readRange\<close> returns, the bounded range has at most the requested number of cells and starts
  where the request did, it is the request itself unless the result says it was truncated,
  and each value row lists the formatted values of one row of it.\<close>

theorem readRange_correct:
  assumes "readRange e m sheet rng opts = Inr result" and "selection_ok rng"
    and "limit = (case read_max opts of None \<Rightarrow> maxCellsPerRead | Some n \<Rightarrow> n)" and "1 \<le> limit"
  shows "selectionCellCount (rr_range result) \<le> limit \<and>
    r0 (rr_range result) = r0 rng \<and> c0 (rr_range result) = c0 rng \<and>
    (truncated result \<or> rr_range result = rng) \<and>
    (\<forall>rows. rr_values result = Some rows \<longrightarrow>
       int (length rows) = rowCount result \<and>
       (\<forall>i j. 0 \<le> i \<and> i < rowCount result \<and> 0 \<le> j \<and> j < columnCount result \<longrightarrow>
          rows ! nat i ! nat j =
            formattedValue e m sheet (r0 (rr_range result) + i) (c0 (rr_range result) + j)))"
proof -
  obtain bounded cut where b: "(if clamp opts then clampRange rng limit else Inr (rng, False)) = Inr (bounded, cut)"
    and r: "rr_range result = bounded" "truncated result = cut" "rowCount result = r1 bounded - r0 bounded + 1"
      "columnCount result = c1 bounded - c0 bounded + 1"
      "\<forall>rows. rr_values result = Some rows \<longrightarrow> rows = read_cells bounded (formattedValue e m sheet)"
    and c: "selectionCellCount rng \<le> limit \<or> clamp opts"
    using assms(1,3) by (auto simp: readRange_def Let_def split: if_splits)
  have fits: "selection_ok bounded \<and> selectionCellCount bounded \<le> limit \<and> r0 bounded = r0 rng \<and>
      c0 bounded = c0 rng \<and> (cut \<or> bounded = rng)"
  proof (cases "clamp opts")
    case False
    then show "selection_ok bounded \<and> selectionCellCount bounded \<le> limit \<and> r0 bounded = r0 rng \<and>
      c0 bounded = c0 rng \<and> (cut \<or> bounded = rng)" using b c assms(2) by auto
  next
    case True
    then have cl: "clampRange rng limit = Inr (bounded, cut)" using b by simp
    moreover have "bounded = rng" if "\<not> cut"
      using cl that assms(2) by (auto simp: clampRange_def parse_selection_def Let_def split: if_splits)
    ultimately show "selection_ok bounded \<and> selectionCellCount bounded \<le> limit \<and> r0 bounded = r0 rng \<and>
      c0 bounded = c0 rng \<and> (cut \<or> bounded = rng)"
      using clampRange_spec [OF assms(2,4)] by auto
  qed
  then show ?thesis
    using r by (auto simp: read_cells_def selection_ok_def)
qed

theorem readRange_correct_witness:
  "\<exists>result. readRange memory_engine (empty_memory\<lparr>texts := (\<lambda>s r c. js ''v'')\<rparr>) 0
      \<lparr>r0 = 1, c0 = 1, r1 = 2, c1 = 1\<rparr> default_read_options = Inr result \<and>
    rr_values result = Some [[js ''v''], [js ''v'']] \<and> selectionCellCount (rr_range result) \<le> 10000"
proof -
  obtain result where r: "readRange memory_engine (empty_memory\<lparr>texts := (\<lambda>s r c. js ''v'')\<rparr>) 0
      \<lparr>r0 = 1, c0 = 1, r1 = 2, c1 = 1\<rparr> default_read_options = Inr result"
    "rr_values result = Some [[js ''v''], [js ''v'']]"
    by (simp add: readRange_def default_read_options_def selectionCellCount_def spreadsheet_limits
        formatA1Range_def cellA1_def columnIndexToLabel_def parse_selection_def selection_ok_def
        read_cells_def upto.simps)
  have "selection_ok \<lparr>r0 = 1, c0 = 1, r1 = 2, c1 = 1\<rparr>"
    by (simp add: selection_ok_def spreadsheet_limits)
  from readRange_correct [OF r(1) this refl] r show ?thesis
    by (simp add: default_read_options_def spreadsheet_limits)
qed

end
