(* ===== verification/SheetCsv.thy ===== *)
theory SheetCsv
  imports SheetWrite SheetRead
begin

text \<open>
  CSV in and out (\<open>packages/spreadsheet/src/csv.ts\<close>).
\<close>

definition QUOTE :: code_unit where "QUOTE = 34"
definition CR :: code_unit where "CR = 13"
definition LF :: code_unit where "LF = 10"
definition BOM :: code_unit where "BOM = 0xFEFF"
definition COMMA :: code_unit where "COMMA = 44"
definition SEMICOLON :: code_unit where "SEMICOLON = 59"
definition TAB :: code_unit where "TAB = 9"

lemmas csv_chars = QUOTE_def CR_def LF_def BOM_def COMMA_def SEMICOLON_def TAB_def

section \<open>Parsing\<close>

text \<open>The text before the first match of \<open>/\r?\n/\<close>.\<close>

fun first_line_of :: "jsstring \<Rightarrow> jsstring" where
  "first_line_of [] = []"
| "first_line_of (c # s) =
     (if c = LF then []
      else if c = CR \<and> starts_with s [LF] then []
      else c # first_line_of s)"

record delimiter_counts =
  commas :: nat
  semicolons :: nat
  tabs :: nat

definition count_delimiter :: "code_unit \<Rightarrow> delimiter_counts \<Rightarrow> delimiter_counts" where
  "count_delimiter c n =
     (if c = COMMA then n\<lparr>commas := commas n + 1\<rparr>
      else if c = SEMICOLON then n\<lparr>semicolons := semicolons n + 1\<rparr>
      else if c = TAB then n\<lparr>tabs := tabs n + 1\<rparr>
      else n)"

fun sniff_loop :: "jsstring \<Rightarrow> bool \<Rightarrow> delimiter_counts \<Rightarrow> delimiter_counts" where
  "sniff_loop [] inQuotes n = n"
| "sniff_loop [c] inQuotes n =
     (if c = QUOTE then n else if \<not> inQuotes then count_delimiter c n else n)"
| "sniff_loop (c # d # s) inQuotes n =
     (if c = QUOTE
      then (if inQuotes \<and> d = QUOTE then sniff_loop s inQuotes n else sniff_loop (d # s) (\<not> inQuotes) n)
      else sniff_loop (d # s) inQuotes (if \<not> inQuotes then count_delimiter c n else n))"

text \<open>The stable sort by descending count keeps the order comma, semicolon, tab among ties.\<close>

definition sniffDelimiter :: "jsstring \<Rightarrow> jsstring" where
  "sniffDelimiter s =
     (let n = sniff_loop (first_line_of s) False \<lparr>commas = 0, semicolons = 0, tabs = 0\<rparr>;
          best = max (commas n) (max (semicolons n) (tabs n))
      in if best = 0 then [COMMA]
         else if commas n = best then [COMMA]
         else if semicolons n = best then [SEMICOLON] else [TAB])"

fun csv_loop ::
    "jsstring \<Rightarrow> jsstring \<Rightarrow> jsstring list list \<Rightarrow> jsstring list \<Rightarrow> jsstring \<Rightarrow> bool \<Rightarrow> bool
      \<Rightarrow> jsstring list list" where
  "csv_loop delim [] rows row field inQuotes sawAnything =
     (if field \<noteq> [] \<or> length row > 0 \<or> sawAnything then rows @ [row @ [field]] else rows)"
| "csv_loop delim (c # s) rows row field inQuotes sawAnything =
     (if inQuotes
      then (if c = QUOTE
            then (case s of
                    d # s' \<Rightarrow> if d = QUOTE then csv_loop delim s' rows row (field @ [QUOTE]) True sawAnything
                              else csv_loop delim s rows row field False sawAnything
                  | [] \<Rightarrow> csv_loop delim s rows row field False sawAnything)
            else csv_loop delim s rows row (field @ [c]) True sawAnything)
      else if c = QUOTE \<and> field = [] then csv_loop delim s rows row field True True
      else if [c] = delim then csv_loop delim s rows (row @ [field]) [] False True
      else if c = CR
      then (case s of
              d # s' \<Rightarrow> if d = LF then csv_loop delim s' (rows @ [row @ [field]]) [] [] False False
                        else csv_loop delim s (rows @ [row @ [field]]) [] [] False False
            | [] \<Rightarrow> csv_loop delim s (rows @ [row @ [field]]) [] [] False False)
      else if c = LF then csv_loop delim s (rows @ [row @ [field]]) [] [] False False
      else csv_loop delim s rows row (field @ [c]) False True)"

definition parseCsv :: "jsstring \<Rightarrow> jsstring option \<Rightarrow> jsstring list list" where
  "parseCsv input delimiter =
     (let source = (if starts_with input [BOM] then drop 1 input else input);
          delim = (case delimiter of None \<Rightarrow> sniffDelimiter source | Some d \<Rightarrow> d)
      in csv_loop delim source [] [] [] False False)"

section \<open>Import\<close>

record import_input =
  imp_sheet :: int
  csv :: jsstring
  imp_delimiter :: "jsstring option"
  imp_anchor :: "(int \<times> int) option"
  asText :: bool

record import_result =
  imp_summary :: batch_summary
  imp_rowCount :: int
  imp_columnCount :: int
  imp_range :: "selection option"

definition import_value :: "bool \<Rightarrow> jsstring list \<Rightarrow> nat \<Rightarrow> jsstring" where
  "import_value text row c =
     (let v = (if c < length row then row ! c else []) in if text \<and> v \<noteq> [] then 39 # v else v)"

definition importCsv :: "'m engine_model \<Rightarrow> import_input \<Rightarrow> ('m, import_result) act" where
  "importCsv e input =
     (let rows = parseCsv (csv input) (imp_delimiter input);
          (row0, column0) = (case imp_anchor input of None \<Rightarrow> (1, 1) | Some a \<Rightarrow> a);
          height = length rows; width = widest rows
      in if height = 0 \<or> width = 0
         then ret \<lparr>imp_summary = summaryOf None [imp_sheet input] 0 [], imp_rowCount = 0,
                   imp_columnCount = 0, imp_range = None\<rparr>
         else
           (let count = int (height * width) in
            if count > maxCellsPerWrite then raise TooLarge
            else
              (let rng = \<lparr>r0 = row0, c0 = column0, r1 = row0 + int height - 1, c1 = column0 + int width - 1\<rparr>
               in seq (runPaused e (for_each (\<lambda>rc.
                     setUserInput e (imp_sheet input) (row0 + int (fst rc)) (column0 + int (snd rc))
                       (import_value (asText input) (rows ! fst rc) (snd rc)))
                     (grid_positions height width)))
                   (ret \<lparr>imp_summary = summaryOf None [imp_sheet input] count [rectangleOf (imp_sheet input) rng],
                         imp_rowCount = int height, imp_columnCount = int width, imp_range = Some rng\<rparr>))))"

section \<open>Export\<close>

fun double_quotes :: "jsstring \<Rightarrow> jsstring" where
  "double_quotes [] = []"
| "double_quotes (c # s) = (if c = QUOTE then QUOTE # QUOTE # double_quotes s else c # double_quotes s)"

definition quote :: "jsstring \<Rightarrow> jsstring \<Rightarrow> jsstring" where
  "quote field delimiter =
     (if list_ex (\<lambda>c. c = QUOTE \<or> c = CR \<or> c = LF) field \<or> js_includes field delimiter
      then [QUOTE] @ double_quotes field @ [QUOTE] else field)"

record export_options =
  exp_delimiter :: "jsstring option"
  exp_newline :: "jsstring option"
  exp_bom :: bool
  exp_range :: "selection option"

definition csv_text :: "jsstring \<Rightarrow> jsstring \<Rightarrow> jsstring list list \<Rightarrow> jsstring" where
  "csv_text delimiter newline rows =
     join_with newline (map (\<lambda>row. join_with delimiter (map (\<lambda>f. quote f delimiter) row)) rows)"

definition exportCsv :: "'m engine_model \<Rightarrow> 'm \<Rightarrow> int \<Rightarrow> export_options \<Rightarrow> jsstring" where
  "exportCsv e m sheet opts =
     (let delimiter = (case exp_delimiter opts of None \<Rightarrow> [COMMA] | Some d \<Rightarrow> d);
          newline = (case exp_newline opts of None \<Rightarrow> [LF] | Some n \<Rightarrow> n);
          prefix = (if exp_bom opts then [BOM] else [])
      in case (case exp_range opts of Some r \<Rightarrow> Some r | None \<Rightarrow> usedRange e m sheet) of
           None \<Rightarrow> prefix
         | Some bounds \<Rightarrow> prefix @ csv_text delimiter newline (read_cells bounds (formattedValue e m sheet)))"

section \<open>Parsing what was printed\<close>

lemma quote_plain:
  assumes "quote f [d] = f" "\<not> (list_ex (\<lambda>c. c = QUOTE \<or> c = CR \<or> c = LF) f \<or> js_includes f [d])"
  shows "\<forall>c\<in>set f. c \<noteq> QUOTE \<and> c \<noteq> CR \<and> c \<noteq> LF \<and> c \<noteq> d"
proof -
  have "js_includes f [d] \<longleftrightarrow> d \<in> set f" unfolding includes_iff by (auto simp: in_set_conv_decomp)
  then show ?thesis using assms(2) by (auto simp: list_ex_iff)
qed

text \<open>A field that needs no quotes is read character by character.\<close>

lemma read_plain:
  assumes "\<forall>c\<in>set f. c \<noteq> QUOTE \<and> c \<noteq> CR \<and> c \<noteq> LF \<and> c \<noteq> d"
  shows "csv_loop [d] (f @ rest) rows row field False saw =
    csv_loop [d] rest rows row (field @ f) False (saw \<or> f \<noteq> [])"
  using assms by (induction f arbitrary: field saw) auto

text \<open>Inside quotes, up to the closing one.\<close>

lemma read_quoted:
  assumes "\<not> starts_with rest [QUOTE]"
  shows "csv_loop [d] (double_quotes f @ QUOTE # rest) rows row field True saw =
    csv_loop [d] rest rows row (field @ f) False saw"
proof (induction f arbitrary: field)
  case Nil
  then show ?case using assms by (cases rest) (auto split: if_splits)
next
  case (Cons c f)
  then show ?case by (cases "double_quotes f @ QUOTE # rest") auto
qed

lemma read_field:
  assumes "\<not> starts_with rest [QUOTE]"
  shows "csv_loop [d] (quote f [d] @ rest) rows row [] False saw =
    csv_loop [d] rest rows row f False (saw \<or> quote f [d] \<noteq> [])"
proof (cases "list_ex (\<lambda>c. c = QUOTE \<or> c = CR \<or> c = LF) f \<or> js_includes f [d]")
  case True
  then show ?thesis using read_quoted [OF assms, of d f rows row "[]" True] by (simp add: quote_def)
next
  case False
  then have "quote f [d] = f" by (simp add: quote_def)
  then show ?thesis using read_plain [OF quote_plain [OF _ False], of rest rows row "[]" saw] by simp
qed

definition plain_delimiter :: "code_unit \<Rightarrow> bool" where
  "plain_delimiter d \<longleftrightarrow> d \<noteq> QUOTE \<and> d \<noteq> CR \<and> d \<noteq> LF"

definition line_end :: "jsstring \<Rightarrow> bool" where
  "line_end rest \<longleftrightarrow> rest = [] \<or> starts_with rest [LF] \<or> starts_with rest [CR]"

lemma line_end_not_quote: "line_end rest \<Longrightarrow> \<not> starts_with rest [QUOTE]"
  by (cases rest) (auto simp: line_end_def csv_chars)

text \<open>A whole line: all fields but the last are pushed, the last one is in hand.\<close>

lemma read_line:
  assumes "plain_delimiter d" "line_end rest" "fs \<noteq> []"
  shows "csv_loop [d] (join_with [d] (map (\<lambda>f. quote f [d]) fs) @ rest) rows row [] False saw =
    csv_loop [d] rest rows (row @ butlast fs) (last fs) False (saw \<or> length fs > 1 \<or> quote (last fs) [d] \<noteq> [])"
  using assms(3)
proof (induction fs arbitrary: row saw rule: induct_list012)
  case 1
  then show ?case by simp
next
  case (2 f)
  then show ?case using read_field [OF line_end_not_quote [OF assms(2)]] by simp
next
  case (3 f g fs)
  have "csv_loop [d] (quote f [d] @ [d] @ join_with [d] (map (\<lambda>f. quote f [d]) (g # fs)) @ rest) rows row [] False saw
      = csv_loop [d] ([d] @ join_with [d] (map (\<lambda>f. quote f [d]) (g # fs)) @ rest) rows row f False
          (saw \<or> quote f [d] \<noteq> [])"
    by (rule read_field) (use assms(1) in \<open>simp add: plain_delimiter_def\<close>)
  also have "\<dots> = csv_loop [d] (join_with [d] (map (\<lambda>f. quote f [d]) (g # fs)) @ rest) rows (row @ [f]) [] False True"
    using assms(1) by (simp add: plain_delimiter_def)
  finally show ?case using 3(2) [of "row @ [f]" True] by simp
qed

definition newline_text :: "jsstring \<Rightarrow> bool" where
  "newline_text nl \<longleftrightarrow> nl = [LF] \<or> nl = [CR, LF]"

lemma read_full_line:
  assumes "plain_delimiter d" "newline_text nl" "fs \<noteq> []"
  shows "csv_loop [d] (join_with [d] (map (\<lambda>f. quote f [d]) fs) @ nl @ rest) rows [] [] False False =
    csv_loop [d] rest (rows @ [fs]) [] [] False False"
proof -
  have "line_end (nl @ rest)" using assms(2) by (auto simp: newline_text_def line_end_def)
  from read_line [OF assms(1) this assms(3), of rows "[]" False] show ?thesis
    using assms by (auto simp: newline_text_def plain_delimiter_def csv_chars)
qed

lemma read_last_line:
  assumes "plain_delimiter d" "fs \<noteq> []" "fs \<noteq> [[]]"
  shows "csv_loop [d] (join_with [d] (map (\<lambda>f. quote f [d]) fs)) rows [] [] False False = rows @ [fs]"
proof -
  have "last fs \<noteq> [] \<or> butlast fs \<noteq> [] \<and> 1 < length fs" using assms(2,3) by (cases fs rule: rev_cases) auto
  then show ?thesis
    using read_line [OF assms(1) _ assms(2), of "[]" rows "[]" False] assms(2) by (auto simp: line_end_def)
qed

lemma read_rows:
  assumes "plain_delimiter d" "newline_text nl" "\<forall>row\<in>set rows. row \<noteq> []" "rows \<noteq> []" "last rows \<noteq> [[]]"
  shows "csv_loop [d] (csv_text [d] nl rows) acc [] [] False False = acc @ rows"
  using assms(3-)
proof (induction rows arbitrary: acc rule: induct_list012)
  case 1
  then show ?case by simp
next
  case (2 row)
  then show ?case using read_last_line [OF assms(1)] by (simp add: csv_text_def)
next
  case (3 row row' rows)
  then show ?case
    using read_full_line [OF assms(1,2), of row "csv_text [d] nl (row' # rows)" acc]
    by (simp add: csv_text_def)
qed

text \<open>C24: a sheet exported as CSV parses back to its values.  For a delimiter that is not a
  quote or a line end, either newline, and with or without the byte order mark,
  \<open>parseCsv\<close> of \<open>exportCsv\<close> gives the formatted values of the range, row by row, whatever
  quotes, delimiters and line ends they contain; the only exceptions are a last row that is
  one empty cell (it prints as nothing) and, without a mark, a text that itself begins with
  one.\<close>

theorem csv_roundtrip:
  fixes e :: "'m engine_model"
  assumes "plain_delimiter d" and "newline_text nl" and "r0 rng \<le> r1 rng" and "c0 rng \<le> c1 rng"
    and "rows = read_cells rng (formattedValue e m sheet)" and "last rows \<noteq> [[]]"
    and "bom \<or> \<not> starts_with (csv_text [d] nl rows) [BOM]"
  shows "parseCsv (exportCsv e m sheet \<lparr>exp_delimiter = Some [d], exp_newline = Some nl,
      exp_bom = bom, exp_range = Some rng\<rparr>) (Some [d]) = rows"
proof -
  have "rows \<noteq> []" "\<forall>row\<in>set rows. row \<noteq> []"
    using assms(3-5) by (auto simp: read_cells_def)
  from read_rows [OF assms(1,2) this(2,1) assms(6), of "[]"] show ?thesis
    using assms(5,7) by (auto simp: exportCsv_def parseCsv_def)
qed

definition csv_memory :: memory where
  "csv_memory = empty_memory\<lparr>texts := (\<lambda>s r c. if c = 1 then js ''a,b'' else if r = 1 then [QUOTE] else js ''x'')\<rparr>"

theorem csv_roundtrip_witness:
  "parseCsv (exportCsv memory_engine csv_memory 0 \<lparr>exp_delimiter = Some [COMMA], exp_newline = Some [LF],
      exp_bom = False, exp_range = Some \<lparr>r0 = 1, c0 = 1, r1 = 2, c1 = 2\<rparr>\<rparr>) (Some [COMMA]) =
    [[js ''a,b'', [QUOTE]], [js ''a,b'', js ''x'']]"
proof -
  have rows: "[[js ''a,b'', [QUOTE]], [js ''a,b'', js ''x'']] =
      read_cells \<lparr>r0 = 1, c0 = 1, r1 = 2, c1 = 2\<rparr> (formattedValue memory_engine csv_memory 0)"
    by (simp add: read_cells_def upto.simps csv_memory_def)
  have "\<not> starts_with (csv_text [COMMA] [LF] [[js ''a,b'', [QUOTE]], [js ''a,b'', js ''x'']]) [BOM]"
    by (simp add: csv_text_def quote_def js_simps csv_chars)
  then show ?thesis
    using csv_roundtrip [OF _ _ _ _ rows, of COMMA "[LF]" False]
    by (simp add: plain_delimiter_def newline_text_def csv_chars)
qed

end
