(* ===== verification/SheetFind.thy ===== *)
theory SheetFind
  imports SheetRead SheetWrite FormulaShift
begin

text \<open>
  Find and replace (\<open>packages/spreadsheet/src/find.ts\<close>).  The regular-expression engine and
  \<open>toLowerCase\<close> are parameters, held in a \<open>find_env\<close>; the patterns that decide which
  expressions are refused are written out.
\<close>

section \<open>Options\<close>

datatype find_scope = WholeWorkbook | WholeSheet int | InRange int selection

record find_options =
  query :: jsstring
  scope :: "find_scope option"
  matchCase :: bool
  wholeCell :: bool
  use_regex :: bool
  inFormulas :: bool
  find_limit :: "nat option"

text \<open>
  \<open>regex_test pattern wholeCell matchCase\<close> is the compiled expression, or nothing when the
  constructor throws; \<open>regex_replace\<close> is the global replacement.
\<close>

record find_env =
  regex_test :: "jsstring \<Rightarrow> bool \<Rightarrow> bool \<Rightarrow> (jsstring \<Rightarrow> bool) option"
  regex_replace :: "jsstring \<Rightarrow> bool \<Rightarrow> bool \<Rightarrow> jsstring \<Rightarrow> jsstring \<Rightarrow> jsstring"
  to_lower :: "jsstring \<Rightarrow> jsstring"
  find_lexer :: formula_tokenizer

definition FIND_MATCH_LIMIT :: nat where "FIND_MATCH_LIMIT = 200"

section \<open>Refused expressions\<close>

definition char_in :: "string \<Rightarrow> code_unit \<Rightarrow> bool" where
  "char_in cs c \<longleftrightarrow> c \<in> set (js cs)"

fun head_in :: "string \<Rightarrow> jsstring \<Rightarrow> bool" where
  "head_in cs [] = False"
| "head_in cs (c # s) = char_in cs c"

text \<open>A pattern matched somewhere: at one of the suffixes.\<close>

fun at_some_suffix :: "(jsstring \<Rightarrow> bool) \<Rightarrow> jsstring \<Rightarrow> bool" where
  "at_some_suffix P [] = P []"
| "at_some_suffix P (c # s) = (P (c # s) \<or> at_some_suffix P s)"

text \<open>\<open>\[1-9]\<close>: a back-reference.\<close>

definition backreference :: "jsstring \<Rightarrow> bool" where
  "backreference s = (head_in [CHR 0x5C] s \<and> head_in ''123456789'' (drop 1 s))"

text \<open>\<open>\(\?[=!<]\<close>: look-around.\<close>

definition lookaround :: "jsstring \<Rightarrow> bool" where
  "lookaround s = (head_in ''('' s \<and> head_in ''?'' (drop 1 s) \<and> head_in ''=!<'' (drop 2 s))"

text \<open>\<open>[*+?}]\s*[*+]\<close>.\<close>

definition double_quantifier :: "jsstring \<Rightarrow> bool" where
  "double_quantifier s = (head_in ''*+?}'' s \<and> head_in ''*+'' (dropWhile is_js_space (drop 1 s)))"

text \<open>\<open>\)[*+]\s*[*+?{]\<close>.\<close>

definition quantified_group :: "jsstring \<Rightarrow> bool" where
  "quantified_group s =
     (head_in '')'' s \<and> head_in ''*+'' (drop 1 s) \<and> head_in ''*+?{'' (dropWhile is_js_space (drop 2 s)))"

text \<open>\<open>\([^)]*[*+][^)]*\)[*+{]\<close>: the text up to the first closing bracket has a quantifier.\<close>

definition nested_quantifier :: "jsstring \<Rightarrow> bool" where
  "nested_quantifier s =
     (head_in ''('' s \<and>
      list_ex (char_in ''*+'') (takeWhile (\<lambda>c. \<not> char_in '')'' c) (drop 1 s)) \<and>
      head_in ''*+{'' (drop 1 (dropWhile (\<lambda>c. \<not> char_in '')'' c) (drop 1 s))))"

definition unsafe_regex :: "jsstring \<Rightarrow> bool" where
  "unsafe_regex q =
     list_ex (\<lambda>P. at_some_suffix P q)
       [backreference, lookaround, double_quantifier, quantified_group, nested_quantifier]"

definition compileQuery :: "find_env \<Rightarrow> find_options \<Rightarrow> engine_error + (jsstring \<Rightarrow> bool)" where
  "compileQuery env opts =
     (if query opts = [] then Inl BatchRejected
      else if length (query opts) > 1000 then Inl BatchRejected
      else if use_regex opts
      then (if unsafe_regex (query opts) then Inl UnsupportedFeature
            else (case regex_test env (query opts) (wholeCell opts) (matchCase opts) of
                    None \<Rightarrow> Inl BatchRejected | Some test \<Rightarrow> Inr test))
      else
        (let needle = (if matchCase opts then query opts else to_lower env (query opts))
         in Inr (\<lambda>text.
              let hay = (if matchCase opts then text else to_lower env text)
              in if wholeCell opts then hay = needle else js_includes hay needle)))"

section \<open>Find\<close>

record find_target =
  ft_sheet :: int
  ft_name :: jsstring
  ft_range :: selection

definition for_sheet :: "'m engine_model \<Rightarrow> 'm \<Rightarrow> int \<Rightarrow> selection option \<Rightarrow> find_target list" where
  "for_sheet e m sheet rng =
     (case (case rng of Some r \<Rightarrow> Some r | None \<Rightarrow> usedRange e m sheet) of
        None \<Rightarrow> []
      | Some bounds \<Rightarrow> [\<lparr>ft_sheet = sheet, ft_name = sheetName e m sheet, ft_range = bounds\<rparr>])"

fun scopeRanges :: "'m engine_model \<Rightarrow> 'm \<Rightarrow> find_scope \<Rightarrow> find_target list" where
  "scopeRanges e m (InRange sheet rng) = for_sheet e m sheet (Some rng)"
| "scopeRanges e m (WholeSheet sheet) = for_sheet e m sheet None"
| "scopeRanges e m WholeWorkbook =
     concat (map (\<lambda>index. for_sheet e m (int index) None) [0..<length (sheets e m)])"

record sheet_match =
  sm_sheet :: int
  sm_name :: jsstring
  sm_row :: int
  sm_column :: int
  sm_a1 :: jsstring
  sm_text :: jsstring

record find_result =
  matches :: "sheet_match list"
  fr_truncated :: bool
  scanned :: nat

text \<open>The cells the nested loops visit, in their order.\<close>

definition target_cells :: "find_target list \<Rightarrow> (find_target \<times> int \<times> int) list" where
  "target_cells targets = concat (map (\<lambda>t. map (Pair t) (cells_of (ft_range t))) targets)"

definition cell_text :: "'m engine_model \<Rightarrow> 'm \<Rightarrow> find_options \<Rightarrow> int \<Rightarrow> int \<Rightarrow> int \<Rightarrow> jsstring" where
  "cell_text e m opts sheet r c =
     (if inFormulas opts then cellContent e m sheet r c else formattedValue e m sheet r c)"

fun find_loop ::
    "'m engine_model \<Rightarrow> 'm \<Rightarrow> find_options \<Rightarrow> (jsstring \<Rightarrow> bool) \<Rightarrow> nat
      \<Rightarrow> (find_target \<times> int \<times> int) list \<Rightarrow> find_result \<Rightarrow> engine_error + find_result" where
  "find_loop e m opts test limit [] res = Inr res"
| "find_loop e m opts test limit ((t, r, c) # cells) res =
     (let res = res\<lparr>scanned := scanned res + 1\<rparr>;
          text = cell_text e m opts (ft_sheet t) r c
      in if text = [] \<or> \<not> test text then find_loop e m opts test limit cells res
         else if length (matches res) \<ge> limit then Inr (res\<lparr>fr_truncated := True\<rparr>)
         else
           bindE (cellA1 r c) (\<lambda>a1.
             find_loop e m opts test limit cells
               (res\<lparr>matches := matches res @
                  [\<lparr>sm_sheet = ft_sheet t, sm_name = ft_name t, sm_row = r, sm_column = c,
                    sm_a1 = a1, sm_text = text\<rparr>]\<rparr>)))"

definition findInWorkbook ::
    "find_env \<Rightarrow> 'm engine_model \<Rightarrow> 'm \<Rightarrow> find_options \<Rightarrow> engine_error + find_result" where
  "findInWorkbook env e m opts =
     bindE (compileQuery env opts) (\<lambda>test.
       find_loop e m opts test (case find_limit opts of None \<Rightarrow> FIND_MATCH_LIMIT | Some n \<Rightarrow> n)
         (target_cells (scopeRanges e m (case scope opts of None \<Rightarrow> WholeWorkbook | Some s \<Rightarrow> s)))
         \<lparr>matches = [], fr_truncated = False, scanned = 0\<rparr>)"

section \<open>Replace\<close>

text \<open>\<open>indexOf(needle, cursor)\<close>; \<open>None\<close> for \<open>-1\<close>.\<close>

fun index_of :: "jsstring \<Rightarrow> jsstring \<Rightarrow> nat option" where
  "index_of needle [] = (if needle = [] then Some 0 else None)"
| "index_of needle (c # s) =
     (if starts_with (c # s) needle then Some 0 else map_option Suc (index_of needle s))"

text \<open>\<open>text.split(query).join(replacement)\<close> for a query that is not empty.\<close>

function split_join :: "jsstring \<Rightarrow> jsstring \<Rightarrow> jsstring \<Rightarrow> jsstring" where
  "split_join q rep s =
     (if q = [] then s
      else (case index_of q s of None \<Rightarrow> s
            | Some at \<Rightarrow> take at s @ rep @ split_join q rep (drop (at + length q) s)))"
  by pat_completeness auto

lemma index_of_fits: "index_of q s = Some at \<Longrightarrow> at + length q \<le> length s"
proof (induction q s arbitrary: at rule: index_of.induct)
  case (1 needle)
  then show ?case by (auto split: if_splits)
next
  case (2 needle c s)
  show ?case
  proof (cases "starts_with (c # s) needle")
    case True
    then obtain t where "c # s = needle @ t" unfolding starts_with_iff by blast
    then have "length (c # s) = length needle + length t" by (metis length_append)
    then show ?thesis using 2(2) True by simp
  next
    case False
    then show ?thesis using 2 by auto
  qed
qed

termination split_join
proof (relation "measure (\<lambda>(q, rep, s). length s)")
  fix q rep s :: jsstring and x2
  assume "q \<noteq> []" "index_of q s = Some x2"
  then show "((q, rep, drop (x2 + length q) s), q, rep, s) \<in> measure (\<lambda>(q, rep, s). length s)"
    using index_of_fits [of q s x2] by (cases q) auto
qed simp

declare split_join.simps [simp del]

text \<open>
  The literal case-insensitive loop searches the lower-cased text and cuts the original one
  at the positions it finds; \<open>slice\<close> stops at the end of a text that is too short.
\<close>

function replace_loop :: "jsstring \<Rightarrow> jsstring \<Rightarrow> jsstring \<Rightarrow> jsstring \<Rightarrow> nat \<Rightarrow> jsstring \<Rightarrow> jsstring" where
  "replace_loop text hay needle rep cursor out =
     (if needle = [] then out @ drop cursor text
      else (case index_of needle (drop cursor hay) of None \<Rightarrow> out @ drop cursor text
            | Some offset \<Rightarrow>
                replace_loop text hay needle rep (cursor + offset + length needle)
                  (out @ js_slice cursor (cursor + offset) text @ rep)))"
  by pat_completeness auto

termination replace_loop
proof (relation "measure (\<lambda>(text, hay, needle, rep, cursor, out). length hay - cursor)")
  fix t hay needle rep :: jsstring and cursor out x2
  assume "needle \<noteq> []" "index_of needle (drop cursor hay) = Some x2"
  then show "((t, hay, needle, rep, cursor + x2 + length needle, out @ js_slice cursor (cursor + x2) t @ rep),
      t, hay, needle, rep, cursor, out)
    \<in> measure (\<lambda>(text, hay, needle, rep, cursor, out). length hay - cursor)"
    using index_of_fits [of needle "drop cursor hay" x2] by (cases needle) auto
qed simp

declare replace_loop.simps [simp del]

definition replaceText :: "find_env \<Rightarrow> find_options \<Rightarrow> jsstring \<Rightarrow> jsstring \<Rightarrow> jsstring" where
  "replaceText env opts rep text =
     (if use_regex opts then regex_replace env (query opts) (wholeCell opts) (matchCase opts) rep text
      else if wholeCell opts then rep
      else if matchCase opts then split_join (query opts) rep text
      else replace_loop text (to_lower env text) (to_lower env (query opts)) rep 0 [])"

record replaced_cell = sheet_match +
  cell_before :: jsstring
  cell_after :: jsstring

record refused_cell = sheet_match +
  refused_after :: jsstring

record replace_result =
  rep_summary :: batch_summary
  replaced :: "replaced_cell list"
  refused :: "refused_cell list"
  rep_truncated :: bool

text \<open>\<open>{ ...match, before, after }\<close> and \<open>{ ...match, after, reason }\<close>.\<close>

definition as_replaced :: "sheet_match \<Rightarrow> jsstring \<Rightarrow> jsstring \<Rightarrow> replaced_cell" where
  "as_replaced x old new = \<lparr>sm_sheet = sm_sheet x, sm_name = sm_name x, sm_row = sm_row x,
     sm_column = sm_column x, sm_a1 = sm_a1 x, sm_text = sm_text x, cell_before = old, cell_after = new\<rparr>"

definition as_refused :: "sheet_match \<Rightarrow> jsstring \<Rightarrow> refused_cell" where
  "as_refused x new = \<lparr>sm_sheet = sm_sheet x, sm_name = sm_name x, sm_row = sm_row x,
     sm_column = sm_column x, sm_a1 = sm_a1 x, sm_text = sm_text x, refused_after = new\<rparr>"

definition is_refused :: "find_env \<Rightarrow> find_options \<Rightarrow> jsstring \<Rightarrow> bool" where
  "is_refused env opts text \<longleftrightarrow>
     inFormulas opts \<and> isFormula text \<and> \<not> formulaParses (find_lexer env) text"

definition text_before :: "'m engine_model \<Rightarrow> 'm \<Rightarrow> find_options \<Rightarrow> sheet_match \<Rightarrow> jsstring" where
  "text_before e m opts x = cell_text e m opts (sm_sheet x) (sm_row x) (sm_column x)"

text \<open>One pass over the matches, into the replaced and the refused cells.\<close>

fun sort_matches ::
    "find_env \<Rightarrow> 'm engine_model \<Rightarrow> 'm \<Rightarrow> find_options \<Rightarrow> jsstring \<Rightarrow> sheet_match list
      \<Rightarrow> replaced_cell list \<times> refused_cell list" where
  "sort_matches env e m opts rep [] = ([], [])"
| "sort_matches env e m opts rep (x # xs) =
     (let old = text_before e m opts x;
          new = replaceText env opts rep old;
          (done_cells, left) = sort_matches env e m opts rep xs
      in if new = old then (done_cells, left)
         else if is_refused env opts new
         then (done_cells, as_refused x new # left)
         else (as_replaced x old new # done_cells, left))"

text \<open>The bounding rectangle of the replaced cells of each sheet, in order of first use.\<close>

definition grow :: "rectangle \<Rightarrow> int \<Rightarrow> int \<Rightarrow> rectangle" where
  "grow rect r c =
     rect\<lparr>r0 := min (r0 rect) r, c0 := min (c0 rect) c, r1 := max (r1 rect) r, c1 := max (c1 rect) c\<rparr>"

fun touch :: "int \<Rightarrow> int \<Rightarrow> int \<Rightarrow> (int \<times> rectangle) list \<Rightarrow> (int \<times> rectangle) list" where
  "touch sheet r c [] = [(sheet, rectangleOf sheet \<lparr>r0 = r, c0 = c, r1 = r, c1 = c\<rparr>)]"
| "touch sheet r c ((s, rect) # rest) =
     (if s = sheet then (s, grow rect r c) # rest else (s, rect) # touch sheet r c rest)"

definition touched_by :: "replaced_cell list \<Rightarrow> (int \<times> rectangle) list" where
  "touched_by cells = fold (\<lambda>x. touch (sm_sheet x) (sm_row x) (sm_column x)) cells []"

definition replaceInWorkbook ::
    "find_env \<Rightarrow> 'm engine_model \<Rightarrow> find_options \<Rightarrow> jsstring \<Rightarrow> ('m, replace_result) act" where
  "replaceInWorkbook env e opts rep m =
     (case findInWorkbook env e m opts of Inl x \<Rightarrow> (Inl x, m)
      | Inr found \<Rightarrow>
        (let (done_cells, left) = sort_matches env e m opts rep (matches found);
             rects = touched_by done_cells
         in seq (runPaused e (for_each (\<lambda>x.
                setUserInput e (sm_sheet x) (sm_row x) (sm_column x) (cell_after x)) done_cells))
              (ret \<lparr>rep_summary = summaryOf None (map fst rects) (int (length done_cells)) (map snd rects),
                    replaced = done_cells, refused = left, rep_truncated = fr_truncated found\<rparr>) m))"

section \<open>Find answers the first matches in order\<close>

definition found_text :: "'m engine_model \<Rightarrow> 'm \<Rightarrow> find_options \<Rightarrow> find_target \<times> int \<times> int \<Rightarrow> jsstring" where
  "found_text e m opts = (\<lambda>(t, r, c). cell_text e m opts (ft_sheet t) r c)"

definition is_match :: "'m engine_model \<Rightarrow> 'm \<Rightarrow> find_options \<Rightarrow> (jsstring \<Rightarrow> bool) \<Rightarrow> find_target \<times> int \<times> int \<Rightarrow> bool" where
  "is_match e m opts test x \<longleftrightarrow> found_text e m opts x \<noteq> [] \<and> test (found_text e m opts x)"

definition match_key :: "sheet_match \<Rightarrow> int \<times> int \<times> int \<times> jsstring" where
  "match_key x = (sm_sheet x, sm_row x, sm_column x, sm_text x)"

definition cell_key :: "'m engine_model \<Rightarrow> 'm \<Rightarrow> find_options \<Rightarrow> find_target \<times> int \<times> int \<Rightarrow> int \<times> int \<times> int \<times> jsstring" where
  "cell_key e m opts x = (ft_sheet (fst x), fst (snd x), snd (snd x), found_text e m opts x)"

lemma find_loop_matches:
  assumes "find_loop e m opts test limit cells res = Inr res'" "length (matches res) \<le> limit"
    "\<not> fr_truncated res"
  shows "map match_key (matches res') = map match_key (matches res) @
      map (cell_key e m opts) (take (limit - length (matches res)) (filter (is_match e m opts test) cells)) \<and>
    (fr_truncated res' \<longleftrightarrow> limit - length (matches res) < length (filter (is_match e m opts test) cells))"
  using assms
proof (induction cells arbitrary: res)
  case Nil
  then show ?case by simp
next
  case (Cons x cells)
  obtain t r c where x: "x = (t, r, c)" by (cases x)
  let ?res = "res\<lparr>scanned := scanned res + 1\<rparr>"
  let ?tx = "cell_text e m opts (ft_sheet t) r c"
  have tx: "found_text e m opts x = ?tx" by (simp add: found_text_def x)
  note p = Cons.prems
  show ?case
  proof (cases "is_match e m opts test x")
    case False
    then have "find_loop e m opts test limit cells ?res = Inr res'"
      using p(1) by (auto simp: x Let_def is_match_def tx [unfolded x])
    from Cons.IH [OF this] show ?thesis using p(2,3) False by simp
  next
    case True
    then have t: "\<not> (?tx = [] \<or> \<not> test ?tx)" by (simp add: is_match_def tx)
    show ?thesis
    proof (cases "length (matches res) \<ge> limit")
      case True
      then have "res' = ?res\<lparr>fr_truncated := True\<rparr>" using p(1) t by (simp add: x Let_def)
      then show ?thesis using True p(2) \<open>is_match e m opts test x\<close> by simp
    next
      case False
      then obtain a1 where loop: "find_loop e m opts test limit cells (?res\<lparr>matches := matches ?res @
          [\<lparr>sm_sheet = ft_sheet t, sm_name = ft_name t, sm_row = r, sm_column = c, sm_a1 = a1, sm_text = ?tx\<rparr>]\<rparr>)
          = Inr res'" using p(1) t by (auto simp: x Let_def)
      have n: "limit - length (matches res) = Suc (limit - Suc (length (matches res)))" using False by simp
      from Cons.IH [OF loop] show ?thesis
        using False p(3) \<open>is_match e m opts test x\<close> tx
        by (simp add: n) (simp add: match_key_def cell_key_def x)
    qed
  qed
qed

text \<open>C26: find answers the first matches, in reading order.  When \<open>findInWorkbook\<close> returns,
  its matches are the sheet, row, column and text of the first cells in scope (targets in
  order, each row by row) whose text is not empty and passes the compiled query, up to the
  limit, and the result says \<open>truncated\<close> exactly when more cells match than the limit.\<close>

theorem findInWorkbook_correct:
  assumes "findInWorkbook env e m opts = Inr result" and "compileQuery env opts = Inr test"
    and "limit = (case find_limit opts of None \<Rightarrow> FIND_MATCH_LIMIT | Some n \<Rightarrow> n)"
    and "hits = filter (is_match e m opts test)
           (target_cells (scopeRanges e m (case scope opts of None \<Rightarrow> WholeWorkbook | Some s \<Rightarrow> s)))"
  shows "map match_key (matches result) = map (cell_key e m opts) (take limit hits) \<and>
    (fr_truncated result \<longleftrightarrow> limit < length hits)"
  using find_loop_matches [of e m opts test limit "target_cells (scopeRanges e m
      (case scope opts of None \<Rightarrow> WholeWorkbook | Some s \<Rightarrow> s))"
      "\<lparr>matches = [], fr_truncated = False, scanned = 0\<rparr>" result] assms
  by (simp add: findInWorkbook_def)

definition sample_find_env :: find_env where
  "sample_find_env = \<lparr>regex_test = (\<lambda>p w c. None), regex_replace = (\<lambda>p w c rep t. t),
     to_lower = (\<lambda>s. s), find_lexer = (\<lambda>_. None)\<rparr>"

definition sample_find :: find_options where
  "sample_find = \<lparr>query = js ''x'', scope = Some (InRange 0 \<lparr>r0 = 1, c0 = 1, r1 = 1, c1 = 2\<rparr>),
     matchCase = True, wholeCell = False, use_regex = False, inFormulas = False, find_limit = Some 1\<rparr>"

definition find_memory :: memory where
  "find_memory = empty_memory\<lparr>texts := (\<lambda>s r c. js ''xy'')\<rparr>"

theorem findInWorkbook_correct_witness:
  "\<exists>result. findInWorkbook sample_find_env memory_engine find_memory sample_find = Inr result \<and>
     map match_key (matches result) = [(0, 1, 1, js ''xy'')] \<and> fr_truncated result"
proof -
  let ?test = "\<lambda>t. js_includes t (js ''x'')"
  have q: "compileQuery sample_find_env sample_find = Inr ?test"
    by (simp add: compileQuery_def sample_find_def sample_find_env_def js_simps)
  have cells: "target_cells (scopeRanges memory_engine find_memory
      (case scope sample_find of None \<Rightarrow> WholeWorkbook | Some s \<Rightarrow> s)) =
    [(\<lparr>ft_sheet = 0, ft_name = sheetName memory_engine find_memory 0,
       ft_range = \<lparr>r0 = 1, c0 = 1, r1 = 1, c1 = 2\<rparr>\<rparr>, r, c). (r, c) \<leftarrow> [(1, 1), (1, 2)]]"
    by (simp add: sample_find_def for_sheet_def target_cells_def cells_of_def upto.simps)
  have hit: "is_match memory_engine find_memory sample_find ?test (t, r, c)" for t r c
    by (simp add: is_match_def found_text_def cell_text_def sample_find_def find_memory_def js_simps)
  have key: "cell_key memory_engine find_memory sample_find (t, r, c) = (ft_sheet t, r, c, js ''xy'')" for t r c
    by (simp add: cell_key_def found_text_def cell_text_def sample_find_def find_memory_def)
  have limit: "find_limit sample_find = Some 1" by (simp add: sample_find_def)
  let ?t = "\<lparr>ft_sheet = 0, ft_name = sheetName memory_engine find_memory 0,
       ft_range = \<lparr>r0 = 1, c0 = 1, r1 = 1, c1 = 2\<rparr>\<rparr>"
  have hits: "filter (is_match memory_engine find_memory sample_find ?test)
      (target_cells (scopeRanges memory_engine find_memory
        (case scope sample_find of None \<Rightarrow> WholeWorkbook | Some s \<Rightarrow> s))) = [(?t, 1, 1), (?t, 1, 2)]"
    unfolding cells by (simp only: list.map concat.simps append.simps filter.simps hit if_True prod.case)
  obtain result where r: "findInWorkbook sample_find_env memory_engine find_memory sample_find = Inr result"
    by (simp add: findInWorkbook_def q cells)
      (simp add: sample_find_def find_memory_def cell_text_def js_simps cellA1_def columnIndexToLabel_def
        spreadsheet_limits)
  have "map match_key (matches result) = [(0, 1, 1, js ''xy'')] \<and> fr_truncated result"
    using findInWorkbook_correct [OF r q refl hits [symmetric]] unfolding limit by (simp add: key)
  with r show ?thesis by (intro exI [of _ result] conjI) simp_all
qed

section \<open>Replace leaves refused cells alone\<close>

lemma replace_writes: "paused_act (replaceInWorkbook env (recorded e) opts rep)"
proof -
  have "paused_act (seq (runPaused (recorded e) (for_each (\<lambda>x.
      setUserInput (recorded e) (sm_sheet x) (sm_row x) (sm_column x) (cell_after x)) cells)) (ret res))"
    for cells :: "replaced_cell list" and res :: replace_result
    by (intro paused_then_ret runPaused_disciplined writes)
  note p = this [unfolded paused_act_def, THEN spec]
  show ?thesis
    unfolding paused_act_def
  proof (intro allI)
    fix m
    show "case replaceInWorkbook env (recorded e) opts rep (m, []) of (r, (_, log)) \<Rightarrow> disciplined (\<not> isl r) log"
    proof (cases "findInWorkbook env (recorded e) (m, []) opts")
      case (Inl x)
      then show ?thesis by (simp add: replaceInWorkbook_def disciplined_def)
    next
      case (Inr found)
      obtain d l where "sort_matches env (recorded e) (m, []) opts rep (matches found) = (d, l)"
        by (cases "sort_matches env (recorded e) (m, []) opts rep (matches found)")
      then show ?thesis using Inr p by (simp add: replaceInWorkbook_def Let_def)
    qed
  qed
qed

text \<open>What the one pass over the matches makes of each: the text it would write, and whether
  it is left as it is, refused or replaced.\<close>

definition new_text :: "find_env \<Rightarrow> 'm engine_model \<Rightarrow> 'm \<Rightarrow> find_options \<Rightarrow> jsstring \<Rightarrow> sheet_match \<Rightarrow> jsstring" where
  "new_text env e m opts rep x = replaceText env opts rep (text_before e m opts x)"

definition is_changed :: "find_env \<Rightarrow> 'm engine_model \<Rightarrow> 'm \<Rightarrow> find_options \<Rightarrow> jsstring \<Rightarrow> sheet_match \<Rightarrow> bool" where
  "is_changed env e m opts rep x \<longleftrightarrow> new_text env e m opts rep x \<noteq> text_before e m opts x"

lemma sort_matches_correct:
  "sort_matches env e m opts rep xs =
     (map (\<lambda>x. as_replaced x (text_before e m opts x) (new_text env e m opts rep x))
        (filter (\<lambda>x. is_changed env e m opts rep x \<and> \<not> is_refused env opts (new_text env e m opts rep x)) xs),
      map (\<lambda>x. as_refused x (new_text env e m opts rep x))
        (filter (\<lambda>x. is_changed env e m opts rep x \<and> is_refused env opts (new_text env e m opts rep x)) xs))"
  by (induction xs) (auto simp: Let_def new_text_def is_changed_def)

text \<open>No cell is searched twice, so no two matches are at the same position.\<close>

definition cell_place :: "'z sheet_match_scheme \<Rightarrow> int \<times> int \<times> int" where
  "cell_place y = (sm_sheet y, sm_row y, sm_column y)"

lemma place_of_replaced: "cell_place (as_replaced x old new) = cell_place x"
  by (simp add: cell_place_def as_replaced_def)

lemma distinct_cells_of: "distinct (cells_of s)"
proof -
  have "sorted_wrt (\<lambda>(r, c) (r', c'). r < r' \<or> r = r' \<and> c < c') xs \<Longrightarrow> distinct xs" for xs :: "(int \<times> int) list"
    by (induction xs) auto
  then show ?thesis using cells_of_sorted by blast
qed

lemma for_sheet_targets: "for_sheet e m s rng = [] \<or> (\<exists>t. for_sheet e m s rng = [t] \<and> ft_sheet t = s)"
  by (auto simp: for_sheet_def split: option.splits)

lemma distinct_targets: "distinct (map ft_sheet (scopeRanges e m sc))"
proof -
  have one: "distinct (map ft_sheet (for_sheet e m s rng))" for s rng
    using for_sheet_targets [of e m s rng] by auto
  have "distinct (map ft_sheet (concat (map (\<lambda>i. for_sheet e m (int i) None) is)))"
    if "distinct is" for "is" :: "nat list"
    using that
  proof (induction "is")
    case Nil
    then show ?case by simp
  next
    case (Cons i "is")
    have "ft_sheet t \<in> int ` set is" if t: "t \<in> set (concat (map (\<lambda>i. for_sheet e m (int i) None) is))" for t
    proof -
      obtain j where j: "j \<in> set is" "t \<in> set (for_sheet e m (int j) None)" using t by auto
      then have "ft_sheet t = int j" using for_sheet_targets [of e m "int j" None] by auto
      then show ?thesis using j(1) by simp
    qed
    then have "int i \<notin> ft_sheet ` set (concat (map (\<lambda>i. for_sheet e m (int i) None) is))"
      using Cons.prems by force
    then show ?case using Cons for_sheet_targets [of e m "int i" None] by (auto simp: image_iff)
  qed
  then show ?thesis using one by (cases sc) (simp_all del: distinct_map)
qed

lemma distinct_target_cells:
  "distinct (map ft_sheet ts) \<Longrightarrow> distinct (map (\<lambda>(t, r, c). (ft_sheet t, r, c)) (target_cells ts))"
proof (induction ts)
  case Nil
  then show ?case by (simp add: target_cells_def)
next
  case (Cons t ts)
  have "distinct (map (\<lambda>(r, c). (ft_sheet t, r, c)) (cells_of (ft_range t)))"
    using distinct_cells_of by (simp add: distinct_map inj_on_def)
  moreover have "fst ` (\<lambda>(t, r, c). (ft_sheet t, r, c)) ` set (target_cells ts) \<subseteq> ft_sheet ` set ts"
    by (auto simp: target_cells_def)
  ultimately show ?case using Cons by (force simp: target_cells_def o_def case_prod_beta)
qed

lemma matches_distinct:
  assumes "findInWorkbook env e m opts = Inr found"
  shows "distinct (map cell_place (matches found))"
proof -
  let ?ts = "scopeRanges e m (case scope opts of None \<Rightarrow> WholeWorkbook | Some s \<Rightarrow> s)"
  let ?limit = "case find_limit opts of None \<Rightarrow> FIND_MATCH_LIMIT | Some n \<Rightarrow> n"
  let ?place = "\<lambda>(s, r, c, text :: jsstring). (s :: int, r :: int, c :: int)"
  obtain test where "find_loop e m opts test ?limit (target_cells ?ts)
      \<lparr>matches = [], fr_truncated = False, scanned = 0\<rparr> = Inr found"
    using assms by (auto simp: findInWorkbook_def split: sum.splits)
  from find_loop_matches [OF this]
  have keys: "map match_key (matches found) = map (cell_key e m opts)
      (take ?limit (filter (is_match e m opts test) (target_cells ?ts)))" (is "_ = map _ (take _ ?hits)")
    by simp
  have "map cell_place (matches found) = map ?place (map match_key (matches found))"
    by (simp add: cell_place_def match_key_def)
  also have "\<dots> = take ?limit (map (\<lambda>(t, r, c). (ft_sheet t, r, c)) ?hits)"
    unfolding keys by (auto simp: take_map cell_key_def)
  finally show ?thesis
    using distinct_map_filter [OF distinct_target_cells [OF distinct_targets]] by (metis distinct_take)
qed

text \<open>The writes of a batch over different cells: each cell named ends with the content
  written there, every other one keeps its own.\<close>

lemma replace_contents:
  fixes cells :: "replaced_cell list"
  assumes store: "content_store e norm" and differ: "distinct (map cell_place cells)"
    and run: "runPaused e (for_each (\<lambda>x. setUserInput e (sm_sheet x) (sm_row x) (sm_column x) (cell_after x)) cells) m
      = (Inr (), m')"
  shows "(\<forall>y\<in>set cells. cellContent e m' (sm_sheet y) (sm_row y) (sm_column y) = norm (cell_after y)) \<and>
    (\<forall>s r c. (s, r, c) \<notin> cell_place ` set cells \<longrightarrow> cellContent e m' s r c = cellContent e m s r c)"
proof -
  let ?w = "\<lambda>x :: replaced_cell. setUserInput e (sm_sheet x) (sm_row x) (sm_column x) (cell_after x)"
  from runPaused_content [OF store run] obtain m0 m1 where m: "cellContent e m0 = cellContent e m"
    "for_each ?w cells m0 = (Inr (), m1)" "cellContent e m' = cellContent e m1" by blast
  have "(\<forall>y\<in>set xs. cellContent e m1 (sm_sheet y) (sm_row y) (sm_column y) = norm (cell_after y)) \<and>
      (\<forall>s r c. (s, r, c) \<notin> cell_place ` set xs \<longrightarrow> cellContent e m1 s r c = cellContent e m0 s r c)"
    if "for_each ?w xs m0 = (Inr (), m1)" "distinct (map cell_place xs)" for xs m0 m1
    using that
  proof (induction xs arbitrary: m0)
    case Nil
    then show ?case by (simp add: ret_def)
  next
    case (Cons x xs)
    then obtain mx where mx: "?w x m0 = (Inr (), mx)" "for_each ?w xs mx = (Inr (), m1)" by (auto simp: seq_Inr)
    have "cellContent e mx = put (sm_sheet x) (sm_row x, sm_column x) (norm (cell_after x)) (cellContent e m0)"
      using store mx(1) unfolding content_store_def by blast
    moreover have "(sm_sheet x, sm_row x, sm_column x) \<notin> cell_place ` set xs"
      using Cons.prems(2) by (simp add: cell_place_def)
    ultimately show ?case using Cons.IH [OF mx(2)] Cons.prems(2) by (auto simp: put_apply cell_place_def)
  qed
  from this [OF m(2) differ] show ?thesis using m(1,3) by simp
qed

text \<open>C27: replace writes the new texts, and nothing else.  When \<open>replaceInWorkbook\<close> returns,
  every match is accounted for: in the order of the matches, those whose new text differs are
  reported replaced, with the text before and after, except those whose new text is an
  unparsable formula (asked when formulas are searched), which are reported refused.  Every
  replaced cell ends with its new text as its content, in the engine's spelling \<open>norm\<close>, and
  every other cell, a refused one in particular, has the content it had.\<close>

theorem replaceInWorkbook_correct:
  assumes "content_store e norm" and "replaceInWorkbook env e opts rep m = (Inr result, m')"
    and "findInWorkbook env e m opts = Inr found"
  shows "replaced result =
      map (\<lambda>x. as_replaced x (text_before e m opts x) (new_text env e m opts rep x))
        (filter (\<lambda>x. is_changed env e m opts rep x \<and> \<not> is_refused env opts (new_text env e m opts rep x))
          (matches found)) \<and>
    refused result =
      map (\<lambda>x. as_refused x (new_text env e m opts rep x))
        (filter (\<lambda>x. is_changed env e m opts rep x \<and> is_refused env opts (new_text env e m opts rep x))
          (matches found)) \<and>
    (\<forall>y\<in>set (replaced result).
      cellContent e m' (sm_sheet y) (sm_row y) (sm_column y) = norm (cell_after y)) \<and>
    (\<forall>s r c. (s, r, c) \<notin> cell_place ` set (replaced result) \<longrightarrow>
      cellContent e m' s r c = cellContent e m s r c)"
proof -
  have lists: "sort_matches env e m opts rep (matches found) = (replaced result, refused result)"
    and run: "runPaused e (for_each (\<lambda>x. setUserInput e (sm_sheet x) (sm_row x) (sm_column x) (cell_after x))
      (replaced result)) m = (Inr (), m')"
    using assms(2,3) by (auto simp: replaceInWorkbook_def Let_def seq_Inr ret_def split: prod.splits)
  note eqs = conjunct1 [OF lists [unfolded sort_matches_correct prod.inject], symmetric]
    conjunct2 [OF lists [unfolded sort_matches_correct prod.inject], symmetric]
  have "distinct (map cell_place (replaced result))"
    using distinct_map_filter [OF matches_distinct [OF assms(3)]]
    by (simp add: eqs o_def place_of_replaced)
  from replace_contents [OF assms(1) this run] eqs show ?thesis by blast
qed

theorem replaceInWorkbook_correct_witness:
  "\<exists>result m'. replaceInWorkbook sample_find_env memory_engine sample_find (js ''Q'') find_memory = (Inr result, m') \<and>
     map cell_after (replaced result) = [js ''Qy''] \<and> texts m' 0 1 1 = js ''Qy'' \<and> texts m' 0 1 2 = js ''xy''"
proof -
  have cells: "target_cells (scopeRanges memory_engine find_memory
      (case scope sample_find of None \<Rightarrow> WholeWorkbook | Some s \<Rightarrow> s)) =
    [(\<lparr>ft_sheet = 0, ft_name = sheetName memory_engine find_memory 0,
       ft_range = \<lparr>r0 = 1, c0 = 1, r1 = 1, c1 = 2\<rparr>\<rparr>, r, c). (r, c) \<leftarrow> [(1, 1), (1, 2)]]"
    by (simp add: sample_find_def for_sheet_def target_cells_def cells_of_def upto.simps)
  obtain found where f: "findInWorkbook sample_find_env memory_engine find_memory sample_find = Inr found"
    "map cell_place (matches found) = [(0, 1, 1)]"
    by (simp add: findInWorkbook_def compileQuery_def cells)
      (simp add: sample_find_def find_memory_def cell_text_def js_simps cellA1_def columnIndexToLabel_def
        spreadsheet_limits cell_place_def)
  obtain d l where dl: "sort_matches sample_find_env memory_engine find_memory sample_find (js ''Q'') (matches found)
      = (d, l)" by (cases "sort_matches sample_find_env memory_engine find_memory sample_find (js ''Q'') (matches found)")
  have total: "\<exists>m'. for_each (\<lambda>x. setUserInput memory_engine (sm_sheet x) (sm_row x) (sm_column x) (cell_after x)) xs m
      = (Inr (), m')" for xs m by (induction xs arbitrary: m) (simp_all add: ret_def seq_Inr)
  obtain result m' where r: "replaceInWorkbook sample_find_env memory_engine sample_find (js ''Q'') find_memory
      = (Inr result, m')"
    using total [of d find_memory] f(1) dl by (auto simp: replaceInWorkbook_def seq_def and_then_def ret_def Let_def)
  note c = replaceInWorkbook_correct [OF memory_engine_laws(1) r f(1)]
  obtain x where x: "matches found = [x]" "cell_place x = (0, 1, 1)" using f(2) by auto
  have old: "text_before memory_engine find_memory sample_find x = js ''xy''"
    by (simp add: text_before_def cell_text_def sample_find_def find_memory_def)
  have new: "new_text sample_find_env memory_engine find_memory sample_find (js ''Q'') x = js ''Qy''"
    by (simp add: new_text_def old replaceText_def)
      (simp add: sample_find_def split_join.simps js_simps)
  have one: "replaced result = [as_replaced x (js ''xy'') (js ''Qy'')]"
    using c x(1) old new by (simp add: is_changed_def is_refused_def sample_find_def js_simps)
  have place: "sm_sheet x = 0" "sm_row x = 1" "sm_column x = 1" using x(2) by (simp_all add: cell_place_def)
  have "texts m' 0 1 1 = js ''Qy''" "texts m' 0 1 2 = texts find_memory 0 1 2"
    using c place unfolding one by (auto simp: as_replaced_def cell_place_def)
  then show ?thesis using r one by (auto simp: find_memory_def as_replaced_def)
qed

text \<open>\<open>toLowerCase\<close> on the capital I with a dot, whose lower-case form is two code units.\<close>

definition lower_dotted :: "jsstring \<Rightarrow> jsstring" where
  "lower_dotted s = concat (map (\<lambda>c. if c = 0x130 then [0x69, 0x307] else [c]) s)"

text \<open>A case-insensitive literal replacement cuts the original text at positions found in
  its lower-cased form.  With a letter before the match whose lower-case form is longer, the
  cut is at the wrong position: in a dotted capital I followed by \<open>xyz\<close>, replacing \<open>x\<close> by
  \<open>Q\<close> keeps the \<open>x\<close> and eats the \<open>y\<close>.\<close>

theorem case_insensitive_replace_misaligned:
  "replaceText \<lparr>regex_test = (\<lambda>p w c. None), regex_replace = (\<lambda>p w c rep t. t),
      to_lower = lower_dotted, find_lexer = (\<lambda>_. None)\<rparr>
     (sample_find\<lparr>matchCase := False\<rparr>) (js ''Q'') (0x130 # js ''xyz'') = 0x130 # js ''xQz''"
  by (simp add: replaceText_def sample_find_def lower_dotted_def js_simps replace_loop.simps js_slice_def)

end
