(* ===== verification/SecretPrecedence.thy ===== *)
theory SecretPrecedence
  imports Prelude
begin

text \<open>
  One secret name resolved down the scope chain, with locks
  (\<open>packages/schemas/src/secret-precedence.ts\<close>): the chain of a viewer, the walk from the
  organisation down that stops at the first locked level, the annotation of a list of
  rows, and the write-side question which lock above a scope forbids a write; with
  \<open>findLockAboveScope\<close> of \<open>api/src/services/secret-vault-write.ts\<close>, which puts that question to
  the rows of every team and project the actor belongs to.

  The row type is the record \<open>secret\<close> with an arbitrary extension, as the source lets both
  callers pass wider rows.  A JavaScript \<open>Map\<close> keyed by scope is a partial function.
\<close>

section \<open>Rows and scopes\<close>

datatype secret_scope = OrganizationScope | TeamScope | ProjectScope | PersonalScope

definition SECRET_SCOPE_ORDER :: "secret_scope list" where
  "SECRET_SCOPE_ORDER = [OrganizationScope, TeamScope, ProjectScope, PersonalScope]"

datatype secret_status = Active | Revoked | Expired

record secret_context =
  ctx_user :: jsstring
  ctx_team :: jsstring
  ctx_project :: jsstring

record secret =
  locked :: bool
  secret_name :: jsstring
  reference :: jsstring
  scopeId :: jsstring
  scopeType :: secret_scope
  secret_status :: secret_status

record scope_ref =
  ref_reference :: jsstring
  ref_scope :: secret_scope

record secret_precedence =
  isEffective :: bool
  overriddenBy :: "scope_ref option"
  lockedBy :: "scope_ref option"

text \<open>\<open>SECRET_SCOPE_ORDER.indexOf(scope)\<close>.\<close>

fun scope_index :: "secret_scope \<Rightarrow> secret_scope list \<Rightarrow> int" where
  "scope_index s [] = -1"
| "scope_index s (x # xs) =
     (if x = s then 0 else (let i = scope_index s xs in if i = -1 then -1 else i + 1))"

definition scopeRank :: "secret_scope \<Rightarrow> int" where
  "scopeRank s = scope_index s SECRET_SCOPE_ORDER"

fun in_chain :: "secret_scope \<Rightarrow> jsstring \<Rightarrow> secret_context \<Rightarrow> bool" where
  "in_chain PersonalScope sid ctx = (sid = ctx_user ctx)"
| "in_chain TeamScope sid ctx = (sid = ctx_team ctx)"
| "in_chain ProjectScope sid ctx = (sid = ctx_project ctx)"
| "in_chain OrganizationScope sid ctx = True"

definition isInSecretChain :: "'a secret_scheme \<Rightarrow> secret_context \<Rightarrow> bool" where
  "isInSecretChain s ctx = in_chain (scopeType s) (scopeId s) ctx"

section \<open>Resolution\<close>

record 'r chain_resolution =
  winner :: "'r option"
  lockedAtScope :: "secret_scope option"

fun group_by_scope ::
    "jsstring \<Rightarrow> secret_context \<Rightarrow> 'a secret_scheme list \<Rightarrow> (secret_scope \<rightharpoonup> 'a secret_scheme)
      \<Rightarrow> (secret_scope \<rightharpoonup> 'a secret_scheme)" where
  "group_by_scope n ctx [] m = m"
| "group_by_scope n ctx (c # cs) m =
     (if secret_name c \<noteq> n then group_by_scope n ctx cs m
      else if secret_status c \<noteq> Active then group_by_scope n ctx cs m
      else if \<not> isInSecretChain c ctx then group_by_scope n ctx cs m
      else group_by_scope n ctx cs (if m (scopeType c) = None then m(scopeType c \<mapsto> c) else m))"

fun walk_chain ::
    "(secret_scope \<rightharpoonup> 'a secret_scheme) \<Rightarrow> secret_scope list \<Rightarrow> 'a secret_scheme option
      \<Rightarrow> 'a secret_scheme chain_resolution" where
  "walk_chain m [] w = \<lparr>winner = w, lockedAtScope = None\<rparr>"
| "walk_chain m (s # ss) w =
     (case m s of None \<Rightarrow> walk_chain m ss w
      | Some c \<Rightarrow> if locked c then \<lparr>winner = Some c, lockedAtScope = Some s\<rparr>
                  else walk_chain m ss (Some c))"

definition resolveSecretChain ::
    "jsstring \<Rightarrow> 'a secret_scheme list \<Rightarrow> secret_context \<Rightarrow> 'a secret_scheme chain_resolution" where
  "resolveSecretChain n candidates ctx =
     walk_chain (group_by_scope n ctx candidates Map.empty) SECRET_SCOPE_ORDER None"

section \<open>Annotation of a list of rows\<close>

definition ref_of :: "'a secret_scheme \<Rightarrow> scope_ref" where
  "ref_of w = \<lparr>ref_reference = reference w, ref_scope = scopeType w\<rparr>"

definition precedence_of ::
    "'a secret_scheme \<Rightarrow> 'a secret_scheme chain_resolution \<Rightarrow> secret_precedence" where
  "precedence_of s r =
     (case winner r of
        Some w \<Rightarrow>
          if reference w = reference s
          then \<lparr>isEffective = True, overriddenBy = None, lockedBy = None\<rparr>
          else (case lockedAtScope r of
                  Some at \<Rightarrow>
                    if scopeRank at < scopeRank (scopeType s)
                    then \<lparr>isEffective = False, overriddenBy = None,
                          lockedBy = Some \<lparr>ref_reference = reference w, ref_scope = at\<rparr>\<rparr>
                    else \<lparr>isEffective = False, overriddenBy = Some (ref_of w), lockedBy = None\<rparr>
                | None \<Rightarrow> \<lparr>isEffective = False, overriddenBy = Some (ref_of w), lockedBy = None\<rparr>)
      | None \<Rightarrow> \<lparr>isEffective = False, overriddenBy = None, lockedBy = None\<rparr>)"

text \<open>The rows in order, with the cache of resolutions by name that the loop fills.\<close>

fun annotate_rows ::
    "'a secret_scheme list \<Rightarrow> secret_context \<Rightarrow> (jsstring \<rightharpoonup> 'a secret_scheme chain_resolution)
      \<Rightarrow> 'a secret_scheme list \<Rightarrow> ('a secret_scheme \<times> secret_precedence) list" where
  "annotate_rows secrets ctx cache [] = []"
| "annotate_rows secrets ctx cache (s # rest) =
     (if secret_status s \<noteq> Active \<or> \<not> isInSecretChain s ctx
      then (s, \<lparr>isEffective = False, overriddenBy = None, lockedBy = None\<rparr>)
             # annotate_rows secrets ctx cache rest
      else (case cache (secret_name s) of
              Some r \<Rightarrow> (s, precedence_of s r) # annotate_rows secrets ctx cache rest
            | None \<Rightarrow>
                (let r = resolveSecretChain (secret_name s) secrets ctx
                 in (s, precedence_of s r)
                      # annotate_rows secrets ctx (cache(secret_name s \<mapsto> r)) rest)))"

definition computeSecretPrecedence ::
    "'a secret_scheme list \<Rightarrow> secret_context \<Rightarrow> ('a secret_scheme \<times> secret_precedence) list" where
  "computeSecretPrecedence secrets ctx = annotate_rows secrets ctx Map.empty secrets"

section \<open>The write side\<close>

fun broadest_lock ::
    "jsstring \<Rightarrow> int \<Rightarrow> 'a secret_scheme list \<Rightarrow> 'a secret_scheme option \<Rightarrow> 'a secret_scheme option" where
  "broadest_lock n rk [] best = best"
| "broadest_lock n rk (c # cs) best =
     (if \<not> locked c then broadest_lock n rk cs best
      else if secret_status c \<noteq> Active then broadest_lock n rk cs best
      else if secret_name c \<noteq> n then broadest_lock n rk cs best
      else if scopeRank (scopeType c) \<ge> rk then broadest_lock n rk cs best
      else (case best of
              None \<Rightarrow> broadest_lock n rk cs (Some c)
            | Some b \<Rightarrow> if scopeRank (scopeType c) < scopeRank (scopeType b)
                        then broadest_lock n rk cs (Some c) else broadest_lock n rk cs best))"

definition findSecretLockAbove ::
    "jsstring \<Rightarrow> secret_scope \<Rightarrow> 'a secret_scheme list \<Rightarrow> 'a secret_scheme option" where
  "findSecretLockAbove n scp candidates = broadest_lock n (scopeRank scp) candidates None"

text \<open>
  The check of a write.  The memberships of the actor (\<open>scopeIdsForActor\<close>, two queries) are
  arguments, and so are the rows of the organisation, in whatever order the store keeps them;
  the \<open>where\<close> clause of the query is the filter.
\<close>

fun candidate_scope :: "jsstring list \<Rightarrow> jsstring list \<Rightarrow> secret_scope \<Rightarrow> jsstring \<Rightarrow> bool" where
  "candidate_scope teamIds projectIds OrganizationScope sid = True"
| "candidate_scope teamIds projectIds TeamScope sid = (sid \<in> set teamIds)"
| "candidate_scope teamIds projectIds ProjectScope sid = (sid \<in> set projectIds)"
| "candidate_scope teamIds projectIds PersonalScope sid = False"

definition findLockAboveScope ::
    "jsstring list \<Rightarrow> jsstring list \<Rightarrow> jsstring \<Rightarrow> secret_scope \<Rightarrow> 'a secret_scheme list \<Rightarrow> scope_ref option" where
  "findLockAboveScope actorTeams actorProjects n scp stored =
     (if scp = OrganizationScope then None
      else
        (let (teamIds, projectIds) = (if scp = TeamScope then ([], []) else (actorTeams, actorProjects));
             rows = filter (\<lambda>c. locked c \<and> secret_name c = n \<and> secret_status c = Active \<and>
                      candidate_scope teamIds projectIds (scopeType c) (scopeId c)) stored
         in map_option ref_of (findSecretLockAbove n scp rows)))"

section \<open>What the loops compute\<close>

text \<open>The rows that take part for a name, and the first of them at a scope.\<close>

definition live :: "jsstring \<Rightarrow> secret_context \<Rightarrow> 'a secret_scheme \<Rightarrow> bool" where
  "live n ctx c \<longleftrightarrow> secret_name c = n \<and> secret_status c = Active \<and> isInSecretChain c ctx"

definition first_at ::
    "jsstring \<Rightarrow> secret_context \<Rightarrow> 'a secret_scheme list \<Rightarrow> secret_scope \<Rightarrow> 'a secret_scheme option" where
  "first_at n ctx cs s = List.find (\<lambda>c. live n ctx c \<and> scopeType c = s) cs"

lemma group_by_scope_first:
  "group_by_scope n ctx cs m s = (case m s of Some c \<Rightarrow> Some c | None \<Rightarrow> first_at n ctx cs s)"
proof (induction n ctx cs m rule: group_by_scope.induct)
  case (1 n ctx m)
  then show ?case by (simp add: first_at_def split: option.split)
next
  case (2 n ctx c cs m)
  then show ?case by (auto simp: first_at_def live_def split: option.split)
qed

lemma scopeRank_simps [simp]:
  "scopeRank OrganizationScope = 0" "scopeRank TeamScope = 1"
  "scopeRank ProjectScope = 2" "scopeRank PersonalScope = 3"
  by (simp_all add: scopeRank_def SECRET_SCOPE_ORDER_def Let_def)

lemma scopeRank_eq [simp]: "scopeRank s = scopeRank t \<longleftrightarrow> s = t"
  by (cases s; cases t) simp_all

lemma scopeRank_nonneg [simp]: "0 \<le> scopeRank s"
  by (cases s) simp_all

lemma resolve_walk:
  "resolveSecretChain n cs ctx = walk_chain (first_at n ctx cs) SECRET_SCOPE_ORDER None"
proof -
  have "group_by_scope n ctx cs Map.empty = first_at n ctx cs"
    by (simp add: fun_eq_iff group_by_scope_first)
  then show ?thesis by (simp add: resolveSecretChain_def)
qed

lemma first_at_SomeD:
  "first_at n ctx cs s = Some c \<Longrightarrow> c \<in> set cs \<and> live n ctx c \<and> scopeType c = s"
  unfolding first_at_def find_Some_iff by auto

lemma first_at_None: "first_at n ctx cs s = None \<longleftrightarrow> (\<forall>c\<in>set cs. live n ctx c \<longrightarrow> scopeType c \<noteq> s)"
  unfolding first_at_def find_None_iff by blast

lemma all_scopes:
  "(\<forall>t. P t) \<longleftrightarrow> P OrganizationScope \<and> P TeamScope \<and> P ProjectScope \<and> P PersonalScope"
  by (metis secret_scope.exhaust)

lemma ex_scopes:
  "(\<exists>t. P t) \<longleftrightarrow> P OrganizationScope \<or> P TeamScope \<or> P ProjectScope \<or> P PersonalScope"
  by (metis secret_scope.exhaust)

text \<open>The walk, case by case over the four scopes: the lock, and the winner.\<close>

lemma walk_locked:
  "lockedAtScope (walk_chain m SECRET_SCOPE_ORDER None) = Some s \<longleftrightarrow>
     (\<exists>c. m s = Some c \<and> locked c \<and> (\<forall>t d. m t = Some d \<and> locked d \<longrightarrow> scopeRank s \<le> scopeRank t))"
  by (cases s; cases "m OrganizationScope"; cases "m TeamScope"; cases "m ProjectScope";
      cases "m PersonalScope")
    (simp_all add: SECRET_SCOPE_ORDER_def all_scopes)

lemma walk_locked_winner:
  "lockedAtScope (walk_chain m SECRET_SCOPE_ORDER None) = Some s \<Longrightarrow>
     winner (walk_chain m SECRET_SCOPE_ORDER None) = m s"
  by (auto simp: SECRET_SCOPE_ORDER_def split: option.splits if_splits)

lemma walk_free_winner:
  assumes "lockedAtScope (walk_chain m SECRET_SCOPE_ORDER None) = None"
    and "winner (walk_chain m SECRET_SCOPE_ORDER None) = Some w"
  shows "\<exists>s. m s = Some w \<and> (\<forall>t. m t \<noteq> None \<longrightarrow> scopeRank t \<le> scopeRank s)"
  using assms
  by (cases "m OrganizationScope"; cases "m TeamScope"; cases "m ProjectScope"; cases "m PersonalScope")
    (simp_all add: SECRET_SCOPE_ORDER_def all_scopes ex_scopes split: if_splits)

lemma walk_None:
  "winner (walk_chain m SECRET_SCOPE_ORDER None) = None \<longleftrightarrow> (\<forall>s. m s = None)"
  by (cases "m OrganizationScope"; cases "m TeamScope"; cases "m ProjectScope"; cases "m PersonalScope")
    (simp_all add: SECRET_SCOPE_ORDER_def all_scopes)

text \<open>Rows below the lock do not change the walk.\<close>

lemma walk_below_lock:
  assumes "lockedAtScope (walk_chain m SECRET_SCOPE_ORDER None) = Some s"
    and "\<And>t. scopeRank t \<le> scopeRank s \<Longrightarrow> m' t = m t"
  shows "walk_chain m' SECRET_SCOPE_ORDER None = walk_chain m SECRET_SCOPE_ORDER None"
  using assms(1) assms(2) [of OrganizationScope] assms(2) [of TeamScope] assms(2) [of ProjectScope]
    assms(2) [of PersonalScope]
  by (cases s; cases "m OrganizationScope"; cases "m TeamScope"; cases "m ProjectScope";
      cases "m PersonalScope")
    (simp_all add: SECRET_SCOPE_ORDER_def split: if_splits)

text \<open>The cache never changes an answer.\<close>

definition annotation ::
    "'a secret_scheme list \<Rightarrow> secret_context \<Rightarrow> 'a secret_scheme \<Rightarrow> secret_precedence" where
  "annotation secrets ctx s =
     (if live (secret_name s) ctx s
      then precedence_of s (resolveSecretChain (secret_name s) secrets ctx)
      else \<lparr>isEffective = False, overriddenBy = None, lockedBy = None\<rparr>)"

lemma annotate_rows_cached:
  "(\<forall>n r. cache n = Some r \<longrightarrow> r = resolveSecretChain n secrets ctx) \<Longrightarrow>
     annotate_rows secrets ctx cache rows = map (\<lambda>s. (s, annotation secrets ctx s)) rows"
proof (induction rows arbitrary: cache)
  case Nil
  then show ?case by simp
next
  case (Cons s rest)
  have later: "annotate_rows secrets ctx (cache(secret_name s \<mapsto> resolveSecretChain (secret_name s) secrets ctx)) rest
      = map (\<lambda>s. (s, annotation secrets ctx s)) rest"
    using Cons.prems by (intro Cons.IH) simp
  show ?case
    using Cons.IH [OF Cons.prems] Cons.prems later
    by (auto simp: annotation_def live_def Let_def split: option.split)
qed

lemma computeSecretPrecedence_map:
  "computeSecretPrecedence secrets ctx = map (\<lambda>s. (s, annotation secrets ctx s)) secrets"
  by (simp add: computeSecretPrecedence_def annotate_rows_cached)

text \<open>The loop of the write side finds a broadest lock above the scope, if there is one.\<close>

definition locks :: "jsstring \<Rightarrow> int \<Rightarrow> 'a secret_scheme \<Rightarrow> bool" where
  "locks n rk c \<longleftrightarrow> locked c \<and> secret_status c = Active \<and> secret_name c = n \<and> scopeRank (scopeType c) < rk"

lemma broadest_lock_Cons:
  "broadest_lock n rk (c # cs) best = broadest_lock n rk cs
     (if locks n rk c \<and> (\<forall>b. best = Some b \<longrightarrow> scopeRank (scopeType c) < scopeRank (scopeType b))
      then Some c else best)"
  by (auto simp: locks_def split: option.split)

lemma broadest_lock_None:
  "broadest_lock n rk cs best = None \<longleftrightarrow> best = None \<and> (\<forall>c\<in>set cs. \<not> locks n rk c)"
  by (induction cs arbitrary: best) (auto simp: broadest_lock_Cons simp del: broadest_lock.simps(2))

lemma broadest_lock_Some:
  "broadest_lock n rk cs best = Some b \<Longrightarrow>
     (best = Some b \<or> b \<in> set cs \<and> locks n rk b) \<and>
     (\<forall>c\<in>set cs. locks n rk c \<longrightarrow> scopeRank (scopeType b) \<le> scopeRank (scopeType c)) \<and>
     (\<forall>a. best = Some a \<longrightarrow> scopeRank (scopeType b) \<le> scopeRank (scopeType a))"
proof (induction cs arbitrary: best)
  case Nil
  then show ?case by simp
next
  case (Cons c cs)
  from Cons.IH [OF Cons.prems [unfolded broadest_lock_Cons]] show ?case
    by (cases best) (auto split: if_splits)
qed

section \<open>Properties\<close>

text \<open>C38: The walk answers the secret in force: it reports a lock exactly at the broadest
  scope whose first live row is locked and then answers that row; without a lock it answers
  the first live row of the narrowest scope that has one, and it answers nothing exactly when
  no row of that name is live for the viewer.\<close>

theorem resolveSecretChain_correct:
  fixes cs :: "'a secret_scheme list"
  shows "(winner (resolveSecretChain n cs ctx) = None \<longleftrightarrow> (\<forall>c\<in>set cs. \<not> live n ctx c)) \<and>
    (\<forall>s. lockedAtScope (resolveSecretChain n cs ctx) = Some s \<longleftrightarrow>
       (\<exists>c. first_at n ctx cs s = Some c \<and> locked c \<and>
          (\<forall>t d. first_at n ctx cs t = Some d \<and> locked d \<longrightarrow> scopeRank s \<le> scopeRank t))) \<and>
    (\<forall>s. lockedAtScope (resolveSecretChain n cs ctx) = Some s \<longrightarrow> winner (resolveSecretChain n cs ctx) = first_at n ctx cs s) \<and>
    (\<forall>w. lockedAtScope (resolveSecretChain n cs ctx) = None \<and> winner (resolveSecretChain n cs ctx) = Some w \<longrightarrow>
       first_at n ctx cs (scopeType w) = Some w \<and>
       (\<forall>c\<in>set cs. live n ctx c \<longrightarrow> scopeRank (scopeType c) \<le> scopeRank (scopeType w)))"
proof (intro conjI allI impI)
  show "winner (resolveSecretChain n cs ctx) = None \<longleftrightarrow> (\<forall>c\<in>set cs. \<not> live n ctx c)"
    unfolding resolve_walk walk_None first_at_None by blast
  show "lockedAtScope (resolveSecretChain n cs ctx) = Some s \<longleftrightarrow>
       (\<exists>c. first_at n ctx cs s = Some c \<and> locked c \<and>
          (\<forall>t d. first_at n ctx cs t = Some d \<and> locked d \<longrightarrow> scopeRank s \<le> scopeRank t))" for s
    unfolding resolve_walk by (rule walk_locked)
  show "winner (resolveSecretChain n cs ctx) = first_at n ctx cs s" if "lockedAtScope (resolveSecretChain n cs ctx) = Some s" for s
    using that unfolding resolve_walk by (rule walk_locked_winner)
next
  fix w
  assume "lockedAtScope (resolveSecretChain n cs ctx) = None \<and> winner (resolveSecretChain n cs ctx) = Some w"
  then obtain s where s: "first_at n ctx cs s = Some w"
    and top: "\<forall>t. first_at n ctx cs t \<noteq> None \<longrightarrow> scopeRank t \<le> scopeRank s"
    using walk_free_winner unfolding resolve_walk by blast
  have "scopeType w = s" using first_at_SomeD [OF s] by simp
  then show "first_at n ctx cs (scopeType w) = Some w" using s by simp
  show "\<forall>c\<in>set cs. live n ctx c \<longrightarrow> scopeRank (scopeType c) \<le> scopeRank (scopeType w)"
    using top \<open>scopeType w = s\<close> first_at_None [of n ctx cs] by blast
qed

definition acme_token :: secret where
  "acme_token = \<lparr>locked = True, secret_name = js ''TOKEN'', reference = js ''r-org'',
     scopeId = js ''acme'', scopeType = OrganizationScope, secret_status = Active\<rparr>"

definition team_token :: secret where
  "team_token = \<lparr>locked = False, secret_name = js ''TOKEN'', reference = js ''r-team'',
     scopeId = js ''blue'', scopeType = TeamScope, secret_status = Active\<rparr>"

definition blue_team :: secret_context where
  "blue_team = \<lparr>ctx_user = js ''ann'', ctx_team = js ''blue'', ctx_project = js ''site''\<rparr>"

lemmas token_defs = acme_token_def team_token_def blue_team_def live_def isInSecretChain_def

lemma resolveSecretChain_correct_witness:
  "winner (resolveSecretChain (js ''TOKEN'') [team_token, acme_token] blue_team) = Some acme_token \<and>
   lockedAtScope (resolveSecretChain (js ''TOKEN'') [team_token, acme_token] blue_team) = Some OrganizationScope"
proof -
  note spec = resolveSecretChain_correct [where cs = "[team_token, acme_token]" and n = "js ''TOKEN''" and ctx = blue_team]
  have f: "first_at (js ''TOKEN'') blue_team [team_token, acme_token] OrganizationScope = Some acme_token"
    by (simp add: first_at_def token_defs)
  have "lockedAtScope (resolveSecretChain (js ''TOKEN'') [team_token, acme_token] blue_team) = Some OrganizationScope"
    by (rule spec [THEN conjunct2, THEN conjunct1, rule_format, THEN iffD2]) (intro exI conjI, rule f, simp_all add: acme_token_def)
  with spec [THEN conjunct2, THEN conjunct2, THEN conjunct1, rule_format] f show ?thesis by simp
qed

text \<open>Rows whose references are distinct, and at most one live row per name and scope: the
  unique keys of the \<open>Secret\<close> table.\<close>

definition unique_rows :: "secret_context \<Rightarrow> 'a secret_scheme list \<Rightarrow> bool" where
  "unique_rows ctx cs \<longleftrightarrow> distinct (map reference cs) \<and>
     (\<forall>c\<in>set cs. \<forall>d\<in>set cs. live (secret_name d) ctx c \<and> live (secret_name d) ctx d
        \<and> scopeType c = scopeType d \<longrightarrow> c = d)"

lemma unique_first_at:
  assumes "unique_rows ctx cs" "c \<in> set cs" "live n ctx c"
  shows "first_at n ctx cs (scopeType c) = Some c"
proof (cases "first_at n ctx cs (scopeType c)")
  case None
  then show ?thesis using assms first_at_None by blast
next
  case (Some d)
  from first_at_SomeD [OF this] have "d \<in> set cs" "live n ctx d" "scopeType d = scopeType c" by simp_all
  then show ?thesis using assms Some unfolding unique_rows_def live_def by auto
qed

lemma winner_live:
  "winner (resolveSecretChain n cs ctx) = Some w \<Longrightarrow> w \<in> set cs \<and> live n ctx w"
  using walk_free_winner [of "first_at n ctx cs" w] walk_locked_winner [of "first_at n ctx cs"]
    first_at_SomeD [of n ctx cs] unfolding resolve_walk
  by (cases "lockedAtScope (walk_chain (first_at n ctx cs) SECRET_SCOPE_ORDER None)") auto

lemma unique_reference:
  "unique_rows ctx cs \<Longrightarrow> c \<in> set cs \<Longrightarrow> d \<in> set cs \<Longrightarrow> reference c = reference d \<Longrightarrow> c = d"
  by (auto simp: unique_rows_def distinct_map inj_on_def)

lemma annotation_effective:
  assumes "unique_rows ctx cs" "s \<in> set cs"
  shows "isEffective (annotation cs ctx s) \<longleftrightarrow>
    live (secret_name s) ctx s \<and> winner (resolveSecretChain (secret_name s) cs ctx) = Some s"
  using winner_live [of "secret_name s" cs ctx] unique_reference [OF assms(1) _ assms(2)]
  by (auto simp: annotation_def precedence_of_def split: option.splits)

lemma live_has_winner:
  assumes "s \<in> set secrets" "live n ctx s"
  obtains w where "winner (resolveSecretChain n secrets ctx) = Some w"
proof -
  have "first_at n ctx secrets (scopeType s) \<noteq> None" using assms first_at_None by blast
  then have "winner (resolveSecretChain n secrets ctx) \<noteq> None" by (auto simp: resolve_walk walk_None)
  then show thesis using that by blast
qed

lemma annotation_one_mark:
  assumes "s \<in> set secrets" "live (secret_name s) ctx s"
  shows "of_bool (isEffective (annotation secrets ctx s))
    + of_bool (overriddenBy (annotation secrets ctx s) \<noteq> None)
    + of_bool (lockedBy (annotation secrets ctx s) \<noteq> None) = (1 :: nat)"
proof -
  obtain w where "winner (resolveSecretChain (secret_name s) secrets ctx) = Some w"
    using live_has_winner [OF assms] .
  with assms(2) show ?thesis
    by (simp add: annotation_def precedence_of_def split: option.split)
qed

text \<open>The annotation keeps every row in place and marks exactly one row of a name as
  effective when any row of that name is live for the viewer, and none otherwise; a row that
  is not live carries no mark, and no row is marked both overridden and locked, nor either
  one while effective.\<close>

theorem one_effective_secret:
  assumes "unique_rows ctx secrets"
  shows "map fst (computeSecretPrecedence secrets ctx) = secrets \<and>
    (\<forall>n. card {s. \<exists>p. (s, p) \<in> set (computeSecretPrecedence secrets ctx) \<and> secret_name s = n \<and> isEffective p}
       = (if \<exists>s\<in>set secrets. live n ctx s then 1 else 0)) \<and>
    (\<forall>(s, p)\<in>set (computeSecretPrecedence secrets ctx).
       (\<not> live (secret_name s) ctx s \<longrightarrow> \<not> isEffective p \<and> overriddenBy p = None \<and> lockedBy p = None) \<and>
       (live (secret_name s) ctx s \<longrightarrow>
          of_bool (isEffective p) + of_bool (overriddenBy p \<noteq> None) + of_bool (lockedBy p \<noteq> None) = (1 :: nat)))"
proof (intro conjI allI)
  show "map fst (computeSecretPrecedence secrets ctx) = secrets"
    by (simp add: computeSecretPrecedence_map comp_def)
next
  fix n
  define w where "w = winner (resolveSecretChain n secrets ctx)"
  have eff: "{s. \<exists>p. (s, p) \<in> set (computeSecretPrecedence secrets ctx) \<and> secret_name s = n \<and> isEffective p}
      = set_option w"
    using annotation_effective [OF assms] winner_live [of n secrets ctx]
    by (auto simp: computeSecretPrecedence_map w_def live_def)
  show "card {s. \<exists>p. (s, p) \<in> set (computeSecretPrecedence secrets ctx) \<and> secret_name s = n \<and> isEffective p}
       = (if \<exists>s\<in>set secrets. live n ctx s then 1 else 0)"
  proof (cases w)
    case None
    then have "\<forall>s. first_at n ctx secrets s = None" by (simp add: w_def resolve_walk walk_None)
    then show ?thesis unfolding eff using None first_at_None by fastforce
  next
    case (Some v)
    then show ?thesis unfolding eff using winner_live [of n secrets ctx v] by (auto simp: w_def)
  qed
next
  show "\<forall>(s, p)\<in>set (computeSecretPrecedence secrets ctx).
       (\<not> live (secret_name s) ctx s \<longrightarrow> \<not> isEffective p \<and> overriddenBy p = None \<and> lockedBy p = None) \<and>
       (live (secret_name s) ctx s \<longrightarrow>
          of_bool (isEffective p) + of_bool (overriddenBy p \<noteq> None) + of_bool (lockedBy p \<noteq> None) = (1 :: nat))"
    using annotation_one_mark [of _ secrets ctx]
    by (auto simp: computeSecretPrecedence_map annotation_def)
qed

lemma one_effective_secret_witness:
  "card {s. \<exists>p. (s, p) \<in> set (computeSecretPrecedence [team_token, acme_token] blue_team)
      \<and> secret_name s = js ''TOKEN'' \<and> isEffective p} = 1"
proof -
  have "unique_rows blue_team [team_token, acme_token]"
    by (simp add: unique_rows_def token_defs js_simps)
  from one_effective_secret [OF this] show ?thesis by (simp add: token_defs)
qed

text \<open>The lock the table shows is the broadest one the write-side loop finds among the rows of the
  viewer's own chain.\<close>

lemma shown_lock:
  assumes "unique_rows ctx secrets" "s \<in> set secrets" "live (secret_name s) ctx s"
  shows "lockedBy (annotation secrets ctx s) = map_option ref_of
      (findSecretLockAbove (secret_name s) (scopeType s) (filter (\<lambda>c. isInSecretChain c ctx) secrets))"
proof -
  let ?n = "secret_name s" and ?rk = "scopeRank (scopeType s)"
  let ?r = "resolveSecretChain ?n secrets ctx"
  let ?cs = "filter (\<lambda>c. isInSecretChain c ctx) secrets"
  have lock_live: "locks ?n ?rk c \<and> c \<in> set ?cs \<longleftrightarrow>
      c \<in> set secrets \<and> live ?n ctx c \<and> locked c \<and> scopeRank (scopeType c) < ?rk" for c
    by (auto simp: locks_def live_def)
  have "lockedBy (annotation secrets ctx s) = map_option ref_of (findSecretLockAbove ?n (scopeType s) ?cs)"
  proof (cases "findSecretLockAbove ?n (scopeType s) ?cs")
    case None
    have "\<not> scopeRank at < ?rk" if at: "lockedAtScope ?r = Some at" for at
    proof -
      obtain c where "first_at ?n ctx secrets at = Some c" "locked c"
        using at unfolding resolve_walk walk_locked by blast
      with None show ?thesis using first_at_SomeD lock_live
        unfolding findSecretLockAbove_def broadest_lock_None by metis
    qed
    then show ?thesis using None
      by (auto simp: annotation_def precedence_of_def split: option.split)
  next
    case (Some b)
    from broadest_lock_Some [OF Some [unfolded findSecretLockAbove_def]]
    have b: "b \<in> set secrets" "live ?n ctx b" "locked b" "scopeRank (scopeType b) < ?rk"
      and least: "\<forall>c\<in>set ?cs. locks ?n ?rk c \<longrightarrow> scopeRank (scopeType b) \<le> scopeRank (scopeType c)"
      using lock_live by auto
    have fb: "first_at ?n ctx secrets (scopeType b) = Some b"
      using unique_first_at [OF assms(1) b(1,2)] .
    have at: "lockedAtScope ?r = Some (scopeType b)"
      unfolding resolve_walk walk_locked
    proof (intro exI conjI allI impI)
      fix t d
      assume "first_at ?n ctx secrets t = Some d \<and> locked d"
      then have d: "d \<in> set secrets" "live ?n ctx d" "scopeType d = t" "locked d"
        using first_at_SomeD by blast+
      show "scopeRank (scopeType b) \<le> scopeRank t"
      proof (cases "scopeRank t < ?rk")
        case True
        then show ?thesis using least lock_live [of d] d by blast
      next
        case False
        then show ?thesis using b(4) by simp
      qed
    qed (use fb b in simp_all)
    have "winner ?r = Some b"
      using walk_locked_winner [OF at [unfolded resolve_walk]] fb by (simp add: resolve_walk)
    moreover have "reference b \<noteq> reference s"
      using unique_reference [OF assms(1) b(1) assms(2)] b(4) by auto
    ultimately show ?thesis using at b(4) assms(3) Some
      by (simp add: annotation_def precedence_of_def ref_of_def)
  qed
  then show ?thesis .
qed

text \<open>A lock that binds a write: an active locked row of the name, strictly above the scope, on the
  organisation or on a team or project of the actor.\<close>

definition binds :: "jsstring list \<Rightarrow> jsstring list \<Rightarrow> jsstring \<Rightarrow> secret_scope \<Rightarrow> 'a secret_scheme \<Rightarrow> bool" where
  "binds teams projects n scp c \<longleftrightarrow> secret_name c = n \<and> locked c \<and> secret_status c = Active \<and>
     scopeRank (scopeType c) < scopeRank scp \<and> candidate_scope teams projects (scopeType c) (scopeId c)"

lemma write_check:
  "findLockAboveScope teams projects n scp stored =
     map_option ref_of (findSecretLockAbove n scp (filter (binds teams projects n scp) stored))"
proof -
  have "broadest_lock n rk xs best = broadest_lock n rk (filter (locks n rk) xs) best"
    for rk and xs :: "'a secret_scheme list" and best
    by (induction xs arbitrary: best) (auto simp: broadest_lock_Cons simp del: broadest_lock.simps(2))
  then have only: "findSecretLockAbove n scp xs = findSecretLockAbove n scp (filter (locks n (scopeRank scp)) xs)"
    for xs :: "'a secret_scheme list" by (simp add: findSecretLockAbove_def)
  have none: "findSecretLockAbove n OrganizationScope xs = None" for xs :: "'a secret_scheme list"
    by (simp add: findSecretLockAbove_def broadest_lock_None locks_def not_less)
  have row: "locks n (scopeRank scp) c \<and> locked c \<and> secret_name c = n \<and> secret_status c = Active \<and>
      candidate_scope (if scp = TeamScope then [] else teams) (if scp = TeamScope then [] else projects)
        (scopeType c) (scopeId c) \<longleftrightarrow> locks n (scopeRank scp) c \<and> binds teams projects n scp c" for c :: "'a secret_scheme"
    by (cases scp; cases "scopeType c") (auto simp: locks_def binds_def)
  let ?sel = "\<lambda>c. locked c \<and> secret_name c = n \<and> secret_status c = Active \<and>
      candidate_scope (if scp = TeamScope then [] else teams) (if scp = TeamScope then [] else projects)
        (scopeType c) (scopeId c)"
  have "filter (locks n (scopeRank scp)) (filter ?sel stored)
      = filter (locks n (scopeRank scp)) (filter (binds teams projects n scp) stored)"
    unfolding filter_filter by (intro filter_cong refl) (use row in blast)
  then have "findSecretLockAbove n scp (filter ?sel stored)
      = findSecretLockAbove n scp (filter (binds teams projects n scp) stored)"
    using only [of "filter ?sel stored"] only [of "filter (binds teams projects n scp) stored"] by simp
  then show ?thesis using none
    by (cases "scp = TeamScope") (simp_all add: findLockAboveScope_def Let_def cong: filter_cong)
qed

lemma write_refused:
  assumes "findLockAboveScope teams projects n scp stored = Some r"
  shows "\<exists>c\<in>set stored. binds teams projects n scp c \<and> r = ref_of c \<and>
    (\<forall>d\<in>set stored. binds teams projects n scp d \<longrightarrow> scopeRank (scopeType c) \<le> scopeRank (scopeType d))"
proof -
  obtain c where c: "findSecretLockAbove n scp (filter (binds teams projects n scp) stored) = Some c" "r = ref_of c"
    using assms by (auto simp: write_check)
  have "locks n (scopeRank scp) d" if "binds teams projects n scp d" for d :: "'a secret_scheme"
    using that by (simp add: binds_def locks_def)
  then show ?thesis using broadest_lock_Some [OF c(1) [unfolded findSecretLockAbove_def]] c(2)
    by (intro bexI [of _ c]) auto
qed

lemma write_free:
  "findLockAboveScope teams projects n scp stored = None \<longleftrightarrow> (\<forall>c\<in>set stored. \<not> binds teams projects n scp c)"
  by (auto simp: write_check findSecretLockAbove_def broadest_lock_None binds_def locks_def)

text \<open>C40: What the table shows as locked, the write check refuses.  For a viewer who belongs to the
  team and the project the table is shown for, take a row of it that is live.  If it is shown as
  locked from above, a write of its name at its scope is refused, by a lock at least as broad as the
  one shown.  A write is refused exactly for an active locked row of the name strictly above the
  scope, on the organisation or on any team or project of the actor, and the broadest such row is
  named.  It is refused with no lock shown only when no such row is both in the table and in the
  viewer's own chain; and a lock of the organisation that is in the table is always shown.\<close>

theorem shown_locks_are_enforced:
  assumes "unique_rows ctx secrets" "set secrets \<subseteq> set stored" "s \<in> set secrets" "live (secret_name s) ctx s"
    and "ctx_team ctx \<in> set teams" "ctx_project ctx \<in> set projects"
  defines "refusal \<equiv> findLockAboveScope teams projects (secret_name s) (scopeType s) stored"
    and "bound \<equiv> binds teams projects (secret_name s) (scopeType s)"
  shows "\<exists>p. (s, p) \<in> set (computeSecretPrecedence secrets ctx) \<and>
    (\<forall>l. lockedBy p = Some l \<longrightarrow> (\<exists>r. refusal = Some r \<and> scopeRank (ref_scope r) \<le> scopeRank (ref_scope l))) \<and>
    (refusal = None \<longleftrightarrow> (\<forall>c\<in>set stored. \<not> bound c)) \<and>
    (\<forall>r. refusal = Some r \<longrightarrow> (\<exists>c\<in>set stored. bound c \<and> r = ref_of c \<and>
       (\<forall>d\<in>set stored. bound d \<longrightarrow> scopeRank (scopeType c) \<le> scopeRank (scopeType d)))) \<and>
    (lockedBy p = None \<longleftrightarrow> (\<forall>c\<in>set secrets. \<not> (bound c \<and> isInSecretChain c ctx))) \<and>
    (\<forall>c\<in>set secrets. bound c \<and> scopeType c = OrganizationScope \<longrightarrow> lockedBy p = Some (ref_of c))"
proof (intro exI [of _ "annotation secrets ctx s"] conjI)
  let ?n = "secret_name s" and ?rk = "scopeRank (scopeType s)"
  let ?cs = "filter (\<lambda>c. isInSecretChain c ctx) secrets"
  note shown = shown_lock [OF assms(1,3,4)]
  have chain: "bound c \<and> c \<in> set ?cs \<longleftrightarrow> locks ?n ?rk c \<and> c \<in> set ?cs" for c
    using assms(5,6) by (cases "scopeType c"; cases "scopeType s")
      (auto simp: bound_def binds_def locks_def isInSecretChain_def)
  have least: "\<exists>c\<in>set secrets. bound c \<and> isInSecretChain c ctx \<and> l = ref_of c \<and>
      (\<forall>d\<in>set secrets. bound d \<and> isInSecretChain d ctx \<longrightarrow> scopeRank (scopeType c) \<le> scopeRank (scopeType d))"
    if l: "lockedBy (annotation secrets ctx s) = Some l" for l
  proof -
    obtain c where c: "broadest_lock ?n ?rk ?cs None = Some c" "l = ref_of c"
      using l by (auto simp: shown findSecretLockAbove_def)
    from broadest_lock_Some [OF c(1)] have "c \<in> set ?cs" "locks ?n ?rk c"
      "\<And>d. d \<in> set ?cs \<Longrightarrow> locks ?n ?rk d \<Longrightarrow> scopeRank (scopeType c) \<le> scopeRank (scopeType d)" by auto
    then show ?thesis using chain c(2) by (intro bexI [of _ c]) auto
  qed
  show "(s, annotation secrets ctx s) \<in> set (computeSecretPrecedence secrets ctx)"
    using assms(3) by (simp add: computeSecretPrecedence_map)
  show free: "refusal = None \<longleftrightarrow> (\<forall>c\<in>set stored. \<not> bound c)" by (simp add: refusal_def bound_def write_free)
  show refused: "\<forall>r. refusal = Some r \<longrightarrow> (\<exists>c\<in>set stored. bound c \<and> r = ref_of c \<and>
       (\<forall>d\<in>set stored. bound d \<longrightarrow> scopeRank (scopeType c) \<le> scopeRank (scopeType d)))"
    unfolding refusal_def bound_def using write_refused by blast
  show "\<forall>l. lockedBy (annotation secrets ctx s) = Some l \<longrightarrow>
      (\<exists>r. refusal = Some r \<and> scopeRank (ref_scope r) \<le> scopeRank (ref_scope l))"
  proof (intro allI impI)
    fix l
    assume "lockedBy (annotation secrets ctx s) = Some l"
    then obtain c where c: "c \<in> set stored" "bound c" "l = ref_of c" using least assms(2) by blast
    then obtain r where r: "refusal = Some r" using free by (cases refusal) auto
    then show "\<exists>r. refusal = Some r \<and> scopeRank (ref_scope r) \<le> scopeRank (ref_scope l)"
      using refused c by (fastforce simp: ref_of_def)
  qed
  show hidden: "lockedBy (annotation secrets ctx s) = None \<longleftrightarrow> (\<forall>c\<in>set secrets. \<not> (bound c \<and> isInSecretChain c ctx))"
    using chain by (auto simp: shown findSecretLockAbove_def broadest_lock_None)
  show "\<forall>c\<in>set secrets. bound c \<and> scopeType c = OrganizationScope \<longrightarrow>
      lockedBy (annotation secrets ctx s) = Some (ref_of c)"
  proof (intro ballI impI)
    fix c
    assume c: "c \<in> set secrets" "bound c \<and> scopeType c = OrganizationScope"
    then have in_chain: "isInSecretChain c ctx" by (simp add: isInSecretChain_def)
    then obtain l where "lockedBy (annotation secrets ctx s) = Some l" using hidden c by blast
    then obtain b where b: "b \<in> set secrets" "bound b" "isInSecretChain b ctx" "l = ref_of b"
      "scopeRank (scopeType b) \<le> scopeRank (scopeType c)" using least c in_chain by blast
    have "scopeRank (scopeType b) = 0" using b(5) c(2) scopeRank_nonneg [of "scopeType b"] by simp
    then have "scopeType b = scopeType c" using c(2) by (cases "scopeType b") simp_all
    then have "b = c" using assms(1) b(1-3) c in_chain
      unfolding unique_rows_def live_def bound_def binds_def by metis
    then show "lockedBy (annotation secrets ctx s) = Some (ref_of c)"
      using \<open>lockedBy (annotation secrets ctx s) = Some l\<close> b(4) by simp
  qed
qed

text \<open>Ann stands in the teams blue and red.  With the organisation's lock her team row is shown as
  locked and a write is refused; with a lock of the team red only, her own row is shown as free and
  a write at her scope is refused all the same.\<close>

definition red_token :: secret where
  "red_token = \<lparr>locked = True, secret_name = js ''TOKEN'', reference = js ''r-red'',
     scopeId = js ''red'', scopeType = TeamScope, secret_status = Active\<rparr>"

definition own_token :: secret where
  "own_token = \<lparr>locked = False, secret_name = js ''TOKEN'', reference = js ''r-ann'',
     scopeId = js ''ann'', scopeType = PersonalScope, secret_status = Active\<rparr>"

lemma shown_locks_are_enforced_witness:
  "(\<exists>p. (team_token, p) \<in> set (computeSecretPrecedence [team_token, acme_token] blue_team) \<and>
      lockedBy p = Some (ref_of acme_token) \<and>
      findLockAboveScope [js ''blue''] [js ''site''] (js ''TOKEN'') TeamScope [team_token, acme_token] \<noteq> None) \<and>
   (\<exists>p. (own_token, p) \<in> set (computeSecretPrecedence [own_token, red_token] blue_team) \<and> lockedBy p = None \<and>
      findLockAboveScope [js ''blue'', js ''red''] [js ''site''] (js ''TOKEN'') PersonalScope
        [own_token, red_token] \<noteq> None)"
proof
  have u: "unique_rows blue_team [team_token, acme_token]"
    by (simp add: unique_rows_def token_defs js_simps)
  have u_in: "team_token \<in> set [team_token, acme_token]" "live (secret_name team_token) blue_team team_token"
    "ctx_team blue_team \<in> set [js ''blue'']" "ctx_project blue_team \<in> set [js ''site'']"
    by (simp_all add: token_defs)
  obtain p where p: "(team_token, p) \<in> set (computeSecretPrecedence [team_token, acme_token] blue_team)"
    "\<forall>c\<in>set [team_token, acme_token]. binds [js ''blue''] [js ''site''] (secret_name team_token) (scopeType team_token) c \<and>
      scopeType c = OrganizationScope \<longrightarrow> lockedBy p = Some (ref_of c)"
    "findLockAboveScope [js ''blue''] [js ''site''] (secret_name team_token) (scopeType team_token) [team_token, acme_token]
      = None \<longleftrightarrow> (\<forall>c\<in>set [team_token, acme_token].
        \<not> binds [js ''blue''] [js ''site''] (secret_name team_token) (scopeType team_token) c)"
    using shown_locks_are_enforced [OF u subset_refl, of team_token "[js ''blue'']" "[js ''site'']", OF u_in]
    by (elim exE conjE) (rule that, assumption+)
  have "binds [js ''blue''] [js ''site''] (secret_name team_token) (scopeType team_token) acme_token"
    by (simp add: binds_def team_token_def acme_token_def)
  with p show "\<exists>p. (team_token, p) \<in> set (computeSecretPrecedence [team_token, acme_token] blue_team) \<and>
      lockedBy p = Some (ref_of acme_token) \<and>
      findLockAboveScope [js ''blue''] [js ''site''] (js ''TOKEN'') TeamScope [team_token, acme_token] \<noteq> None"
    by (intro exI [of _ p]) (simp add: team_token_def acme_token_def)
  have v: "unique_rows blue_team [own_token, red_token]"
    by (simp add: unique_rows_def token_defs own_token_def red_token_def js_simps)
  have v_in: "own_token \<in> set [own_token, red_token]" "live (secret_name own_token) blue_team own_token"
    "ctx_team blue_team \<in> set [js ''blue'', js ''red'']" "ctx_project blue_team \<in> set [js ''site'']"
    by (simp_all add: token_defs own_token_def)
  obtain q where q: "(own_token, q) \<in> set (computeSecretPrecedence [own_token, red_token] blue_team)"
    "lockedBy q = None \<longleftrightarrow> (\<forall>c\<in>set [own_token, red_token].
      \<not> (binds [js ''blue'', js ''red''] [js ''site''] (secret_name own_token) (scopeType own_token) c \<and>
        isInSecretChain c blue_team))"
    "findLockAboveScope [js ''blue'', js ''red''] [js ''site''] (secret_name own_token) (scopeType own_token)
      [own_token, red_token] = None \<longleftrightarrow> (\<forall>c\<in>set [own_token, red_token].
        \<not> binds [js ''blue'', js ''red''] [js ''site''] (secret_name own_token) (scopeType own_token) c)"
    using shown_locks_are_enforced [OF v subset_refl, of own_token "[js ''blue'', js ''red'']" "[js ''site'']", OF v_in]
    by (elim exE conjE) (rule that, assumption+)
  have "binds [js ''blue'', js ''red''] [js ''site''] (secret_name own_token) (scopeType own_token) red_token"
    "\<not> isInSecretChain red_token blue_team" "\<not> locked own_token"
    by (simp_all add: binds_def own_token_def red_token_def isInSecretChain_def blue_team_def js_simps)
  with q show "\<exists>p. (own_token, p) \<in> set (computeSecretPrecedence [own_token, red_token] blue_team) \<and> lockedBy p = None \<and>
      findLockAboveScope [js ''blue'', js ''red''] [js ''site''] (js ''TOKEN'') PersonalScope
        [own_token, red_token] \<noteq> None"
    by (intro exI [of _ q]) (simp add: binds_def, simp add: own_token_def red_token_def)
qed

text \<open>A lock binds everything below it: whatever rows are added, removed or changed at
  scopes narrower than the locked one, the resolution of the name stays the same.\<close>

theorem lock_binds_below:
  assumes "lockedAtScope (resolveSecretChain n secrets ctx) = Some s"
    and "filter (\<lambda>c. scopeRank (scopeType c) \<le> scopeRank s) secrets'
      = filter (\<lambda>c. scopeRank (scopeType c) \<le> scopeRank s) secrets"
  shows "resolveSecretChain n secrets' ctx = resolveSecretChain n secrets ctx"
proof -
  have keep: "first_at n ctx cs t = first_at n ctx (filter (\<lambda>c. scopeRank (scopeType c) \<le> scopeRank s) cs) t"
    if "scopeRank t \<le> scopeRank s" for t and cs :: "'a secret_scheme list"
    using that by (induction cs) (auto simp: first_at_def)
  show ?thesis unfolding resolve_walk
    using assms(1) [unfolded resolve_walk]
  proof (rule walk_below_lock)
    show "first_at n ctx secrets' t = first_at n ctx secrets t" if "scopeRank t \<le> scopeRank s" for t
      using keep [OF that] assms(2) by metis
  qed
qed

lemma lock_binds_below_witness:
  "resolveSecretChain (js ''TOKEN'') [team_token, acme_token] blue_team
     = resolveSecretChain (js ''TOKEN'') [acme_token] blue_team"
  by (rule lock_binds_below [where s = OrganizationScope])
    (simp_all add: resolve_walk walk_locked all_scopes first_at_def token_defs)

end
