(* ===== verification/Json.thy ===== *)
theory Json
  imports Prelude
begin

text \<open>
  JSON values as the program handles them, with \<open>JSON.stringify\<close> and \<open>JSON.parse\<close>.

  A number is represented by its own text (what \<open>String(n)\<close> answers, which determines a
  finite number); reading a number token answers the text of the number it denotes, and that
  conversion \<open>num\<close> is an argument.  The members of an object are listed in their
  enumeration order.  \<open>json_text\<close> is \<open>JSON.stringify(v)\<close>, \<open>json_pretty\<close> the same with an
  indent of two, \<open>json_parse\<close> is \<open>JSON.parse\<close> with \<open>None\<close> for a \<open>SyntaxError\<close>.  Parsing
  reads back every value that was written, so two values with one text are equal.
\<close>

datatype json = JNull | JBool bool | JNum jsstring | JStr jsstring | JArr "json list"
  | JObj "(jsstring \<times> json) list"

section \<open>Writing\<close>

definition hex_digit :: "nat \<Rightarrow> code_unit" where
  "hex_digit d = (if d < 10 then word_of_nat (48 + d) else word_of_nat (87 + d))"

definition u_escape :: "code_unit \<Rightarrow> jsstring" where
  "u_escape c = [92, 117, hex_digit (unat c div 4096 mod 16), hex_digit (unat c div 256 mod 16),
     hex_digit (unat c div 16 mod 16), hex_digit (unat c mod 16)]"

text \<open>One code unit that is not part of a surrogate pair.\<close>

definition quote_unit :: "code_unit \<Rightarrow> jsstring" where
  "quote_unit c =
     (if c = 8 then [92, 98] else if c = 9 then [92, 116] else if c = 10 then [92, 110]
      else if c = 12 then [92, 102] else if c = 13 then [92, 114]
      else if c = 34 then [92, 34] else if c = 92 then [92, 92]
      else if c < 32 \<or> high_surrogate c \<or> low_surrogate c then u_escape c else [c])"

fun quote_units :: "jsstring \<Rightarrow> jsstring" where
  "quote_units [] = []"
| "quote_units (c # s) =
     (case s of d # rest \<Rightarrow>
        if high_surrogate c \<and> low_surrogate d then c # d # quote_units rest
        else quote_unit c @ quote_units s
      | [] \<Rightarrow> quote_unit c)"

definition json_quote :: "jsstring \<Rightarrow> jsstring" where
  "json_quote s = [34] @ quote_units s @ [34]"

fun join_with :: "'a list \<Rightarrow> 'a list list \<Rightarrow> 'a list" where
  "join_with d [] = []"
| "join_with d [x] = x"
| "join_with d (x # xs) = x @ d @ join_with d xs"

definition member_text :: "jsstring \<times> jsstring \<Rightarrow> jsstring" where
  "member_text = (\<lambda>(k, t). json_quote k @ 58 # t)"

primrec json_text :: "json \<Rightarrow> jsstring" where
  "json_text JNull = js ''null''"
| "json_text (JBool b) = (if b then js ''true'' else js ''false'')"
| "json_text (JNum t) = t"
| "json_text (JStr s) = json_quote s"
| "json_text (JArr xs) = [91] @ join_with [44] (map json_text xs) @ [93]"
| "json_text (JObj es) = [123] @ join_with [44] (map member_text (map (map_prod (\<lambda>k. k) json_text) es)) @ [125]"

text \<open>The indented form, \<open>JSON.stringify(v, null, 2)\<close>, at a depth of \<open>n\<close> spaces.\<close>

definition spaces :: "nat \<Rightarrow> jsstring" where
  "spaces n = replicate n 32"

definition pretty_block :: "nat \<Rightarrow> code_unit \<Rightarrow> code_unit \<Rightarrow> jsstring list \<Rightarrow> jsstring" where
  "pretty_block n open_c close_c parts =
     (if parts = [] then [open_c, close_c]
      else [open_c, 10] @ spaces (n + 2) @ join_with ([44, 10] @ spaces (n + 2)) parts
        @ [10] @ spaces n @ [close_c])"

primrec pretty_at :: "json \<Rightarrow> nat \<Rightarrow> jsstring" where
  "pretty_at JNull = (\<lambda>n. js ''null'')"
| "pretty_at (JBool b) = (\<lambda>n. if b then js ''true'' else js ''false'')"
| "pretty_at (JNum t) = (\<lambda>n. t)"
| "pretty_at (JStr s) = (\<lambda>n. json_quote s)"
| "pretty_at (JArr xs) = (\<lambda>n. pretty_block n 91 93 (map (\<lambda>f. f (n + 2)) (map pretty_at xs)))"
| "pretty_at (JObj es) = (\<lambda>n. pretty_block n 123 125
     (map (\<lambda>(k, f). json_quote k @ [58, 32] @ f (n + 2)) (map (map_prod (\<lambda>k. k) pretty_at) es)))"

definition json_pretty :: "json \<Rightarrow> jsstring" where
  "json_pretty v = pretty_at v 0"

section \<open>Reading\<close>

definition hex_value :: "code_unit \<Rightarrow> nat option" where
  "hex_value c =
     (if 48 \<le> c \<and> c \<le> 57 then Some (unat c - 48)
      else if 65 \<le> c \<and> c \<le> 70 then Some (unat c - 55)
      else if 97 \<le> c \<and> c \<le> 102 then Some (unat c - 87)
      else None)"

definition hex4 :: "code_unit \<Rightarrow> code_unit \<Rightarrow> code_unit \<Rightarrow> code_unit \<Rightarrow> code_unit option" where
  "hex4 a b c d =
     (case (hex_value a, hex_value b, hex_value c, hex_value d) of
        (Some w, Some x, Some y, Some z) \<Rightarrow> Some (word_of_nat (w * 4096 + x * 256 + y * 16 + z))
      | _ \<Rightarrow> None)"

definition simple_escape :: "code_unit \<Rightarrow> code_unit option" where
  "simple_escape c =
     (if c = 34 then Some 34 else if c = 92 then Some 92 else if c = 47 then Some 47
      else if c = 98 then Some 8 else if c = 102 then Some 12 else if c = 110 then Some 10
      else if c = 114 then Some 13 else if c = 116 then Some 9 else None)"

definition cons_unit :: "code_unit \<Rightarrow> (jsstring \<times> jsstring) option \<Rightarrow> (jsstring \<times> jsstring) option" where
  "cons_unit c = map_option (\<lambda>(s, r). (c # s, r))"

text \<open>The rest of a string after its opening quote: its units, and what follows it.\<close>

fun parse_chars :: "jsstring \<Rightarrow> (jsstring \<times> jsstring) option" where
  "parse_chars [] = None"
| "parse_chars (c # s) =
     (if c = 34 then Some ([], s)
      else if c = 92 then
        (case s of [] \<Rightarrow> None
         | e # s1 \<Rightarrow>
             if e = 117 then
               (case s1 of h1 # h2 # h3 # h4 # s2 \<Rightarrow>
                  (case hex4 h1 h2 h3 h4 of None \<Rightarrow> None | Some u \<Rightarrow> cons_unit u (parse_chars s2))
                | _ \<Rightarrow> None)
             else (case simple_escape e of None \<Rightarrow> None | Some u \<Rightarrow> cons_unit u (parse_chars s1)))
      else if c < 32 then None
      else cons_unit c (parse_chars s))"

definition is_json_space :: "code_unit \<Rightarrow> bool" where
  "is_json_space c \<longleftrightarrow> c = 32 \<or> c = 9 \<or> c = 10 \<or> c = 13"

definition skip_space :: "jsstring \<Rightarrow> jsstring" where
  "skip_space = dropWhile is_json_space"

text \<open>The longest number token at the front: sign, integer part, fraction, exponent.\<close>

definition take_digits :: "jsstring \<Rightarrow> (jsstring \<times> jsstring) option" where
  "take_digits s = (case takeWhile is_digit s of [] \<Rightarrow> None | ds \<Rightarrow> Some (ds, dropWhile is_digit s))"

definition number_sign :: "jsstring \<Rightarrow> jsstring \<times> jsstring" where
  "number_sign s = (case s of c # r \<Rightarrow> if c = 45 then ([45], r) else ([], s) | [] \<Rightarrow> ([], s))"

definition number_int :: "jsstring \<Rightarrow> (jsstring \<times> jsstring) option" where
  "number_int s = (case s of c # r \<Rightarrow> if c = 48 then Some ([48], r) else take_digits s | [] \<Rightarrow> None)"

definition number_fraction :: "jsstring \<Rightarrow> jsstring \<times> jsstring" where
  "number_fraction s =
     (case s of c # r \<Rightarrow>
        if c = 46 then (case take_digits r of None \<Rightarrow> ([], s) | Some (ds, r') \<Rightarrow> (46 # ds, r')) else ([], s)
      | [] \<Rightarrow> ([], s))"

definition number_exponent :: "jsstring \<Rightarrow> jsstring \<times> jsstring" where
  "number_exponent s =
     (case s of c # r \<Rightarrow>
        if c = 69 \<or> c = 101 then
          (let (sg, r1) = (case r of d # r' \<Rightarrow> if d = 43 \<or> d = 45 then ([d], r') else ([], r) | [] \<Rightarrow> ([], r))
           in (case take_digits r1 of None \<Rightarrow> ([], s) | Some (ds, r') \<Rightarrow> ([c] @ sg @ ds, r')))
        else ([], s)
      | [] \<Rightarrow> ([], s))"

definition number_token :: "jsstring \<Rightarrow> (jsstring \<times> jsstring) option" where
  "number_token s =
     (let (sg, r) = number_sign s in
      case number_int r of None \<Rightarrow> None
      | Some (ds, r1) \<Rightarrow>
          (let (fr, r2) = number_fraction r1; (ex, r3) = number_exponent r2
           in Some (sg @ ds @ fr @ ex, r3)))"

text \<open>Setting a member keeps the place of a key that is already there.\<close>

fun set_member :: "jsstring \<Rightarrow> 'v \<Rightarrow> (jsstring \<times> 'v) list \<Rightarrow> (jsstring \<times> 'v) list" where
  "set_member k v [] = [(k, v)]"
| "set_member k v ((k', v') # es) =
     (if k = k' then (k', v) # es else (k', v') # set_member k v es)"

definition literal :: "jsstring \<Rightarrow> jsstring \<Rightarrow> json \<Rightarrow> (json \<times> jsstring) option" where
  "literal word s v = (if starts_with s word then Some (v, drop (length word) s) else None)"

text \<open>
  Recursive descent.  The number bounds the depth of nested calls; twice the length of the
  text is enough, since two nested calls consume at least one code unit.
\<close>

fun parse_value :: "(jsstring \<Rightarrow> jsstring) \<Rightarrow> nat \<Rightarrow> jsstring \<Rightarrow> (json \<times> jsstring) option"
  and parse_items :: "(jsstring \<Rightarrow> jsstring) \<Rightarrow> nat \<Rightarrow> json list \<Rightarrow> jsstring \<Rightarrow> (json \<times> jsstring) option"
  and parse_members ::
    "(jsstring \<Rightarrow> jsstring) \<Rightarrow> nat \<Rightarrow> (jsstring \<times> json) list \<Rightarrow> jsstring \<Rightarrow> (json \<times> jsstring) option" where
  "parse_value num 0 s = None"
| "parse_value num (Suc f) s =
     (case skip_space s of [] \<Rightarrow> None
      | c # r \<Rightarrow>
          if c = 34 then map_option (map_prod JStr (\<lambda>r. r)) (parse_chars r)
          else if c = 91 then
            (case skip_space r of d # r' \<Rightarrow> if d = 93 then Some (JArr [], r') else parse_items num f [] r
             | [] \<Rightarrow> None)
          else if c = 123 then
            (case skip_space r of d # r' \<Rightarrow> if d = 125 then Some (JObj [], r') else parse_members num f [] r
             | [] \<Rightarrow> None)
          else if c = 110 then literal (js ''null'') (c # r) JNull
          else if c = 116 then literal (js ''true'') (c # r) (JBool True)
          else if c = 102 then literal (js ''false'') (c # r) (JBool False)
          else map_option (map_prod (\<lambda>t. JNum (num t)) (\<lambda>r. r)) (number_token (c # r)))"
| "parse_items num 0 xs s = None"
| "parse_items num (Suc f) xs s =
     (case parse_value num f s of None \<Rightarrow> None
      | Some (v, r) \<Rightarrow>
          (case skip_space r of [] \<Rightarrow> None
           | c # r' \<Rightarrow>
               if c = 93 then Some (JArr (xs @ [v]), r')
               else if c = 44 then parse_items num f (xs @ [v]) r' else None))"
| "parse_members num 0 es s = None"
| "parse_members num (Suc f) es s =
     (case skip_space s of [] \<Rightarrow> None
      | q # r0 \<Rightarrow>
          if q \<noteq> 34 then None
          else (case parse_chars r0 of None \<Rightarrow> None
                | Some (k, r1) \<Rightarrow>
                    (case skip_space r1 of [] \<Rightarrow> None
                     | c # r2 \<Rightarrow>
                         if c \<noteq> 58 then None
                         else (case parse_value num f r2 of None \<Rightarrow> None
                               | Some (v, r3) \<Rightarrow>
                                   (case skip_space r3 of [] \<Rightarrow> None
                                    | d # r4 \<Rightarrow>
                                        if d = 125 then Some (JObj (set_member k v es), r4)
                                        else if d = 44 then parse_members num f (set_member k v es) r4
                                        else None)))))"

definition json_parse :: "(jsstring \<Rightarrow> jsstring) \<Rightarrow> jsstring \<Rightarrow> json option" where
  "json_parse num s =
     (case parse_value num (2 * length s + 2) s of None \<Rightarrow> None
      | Some (v, r) \<Rightarrow> if skip_space r = [] then Some v else None)"

section \<open>Reading what was written\<close>

lemma hex_value_digit:
  assumes "d < 16"
  shows "hex_value (hex_digit d) = Some d"
proof -
  have "d = 0 \<or> d = 1 \<or> d = 2 \<or> d = 3 \<or> d = 4 \<or> d = 5 \<or> d = 6 \<or> d = 7 \<or> d = 8 \<or> d = 9 \<or>
    d = 10 \<or> d = 11 \<or> d = 12 \<or> d = 13 \<or> d = 14 \<or> d = 15"
    using assms by arith
  then show ?thesis by (elim disjE) (simp_all add: hex_value_def hex_digit_def)
qed

lemma hex_digits_value:
  assumes "n < 65536"
  shows "(n div 4096 mod 16) * 4096 + (n div 256 mod 16) * 256 + (n div 16 mod 16) * 16 + n mod 16 = (n :: nat)"
proof -
  define a b c where "a = n div 16" and "b = a div 16" and "c = b div 16"
  have "n = a * 16 + n mod 16" "a = b * 16 + a mod 16" "b = c * 16 + b mod 16"
    by (simp_all add: a_def b_def c_def)
  moreover have d: "n div 256 = b" "n div 4096 = c" "n div 16 = a"
    by (simp_all add: a_def b_def c_def flip: div_mult2_eq)
  moreover have m: "c mod 16 = c" using assms by (simp add: a_def b_def c_def flip: div_mult2_eq)
  ultimately show ?thesis unfolding d m by linarith
qed

lemma hex4_escape:
  "hex4 (hex_digit (unat c div 4096 mod 16)) (hex_digit (unat c div 256 mod 16))
     (hex_digit (unat c div 16 mod 16)) (hex_digit (unat c mod 16)) = Some c"
proof -
  have v: "hex_value (hex_digit (k mod 16)) = Some (k mod 16)" for k
    by (simp add: hex_value_digit)
  have "unat c < 65536" using unsigned_less [of c] by simp
  then show ?thesis unfolding hex4_def v
    by (simp only: prod.case option.case hex_digits_value) simp
qed

lemma parse_chars_unit: "parse_chars (quote_unit c @ r) = cons_unit c (parse_chars r)"
  by (simp add: quote_unit_def u_escape_def simple_escape_def hex4_escape)

lemma parse_chars_plain:
  "32 \<le> c \<Longrightarrow> c \<noteq> 34 \<Longrightarrow> c \<noteq> 92 \<Longrightarrow> parse_chars (c # r) = cons_unit c (parse_chars r)"
  by (simp add: linorder_not_less [symmetric])

lemma surrogate_plain:
  "high_surrogate c \<or> low_surrogate c \<Longrightarrow> 32 \<le> c \<and> c \<noteq> 34 \<and> c \<noteq> 92"
  by (auto simp: high_surrogate_def low_surrogate_def intro: order_trans [rotated])

lemma quote_units_unit:
  "(case s of [] \<Rightarrow> True | d # _ \<Rightarrow> \<not> (high_surrogate c \<and> low_surrogate d)) \<Longrightarrow>
     quote_units (c # s) = quote_unit c @ quote_units s"
  by (cases s) auto

lemma parse_chars_quoted: "parse_chars (quote_units s @ 34 # r) = Some (s, r)"
proof (induction s rule: quote_units.induct)
  case 1
  then show ?case by simp
next
  case (2 c s)
  show ?case
  proof (cases s)
    case Nil
    then show ?thesis by (simp add: parse_chars_unit cons_unit_def)
  next
    case (Cons d rest)
    show ?thesis
    proof (cases "high_surrogate c \<and> low_surrogate d")
      case True
      then have "parse_chars (c # d # quote_units rest @ 34 # r)
          = cons_unit c (cons_unit d (parse_chars (quote_units rest @ 34 # r)))"
        using surrogate_plain [of c] surrogate_plain [of d]
        by (simp add: parse_chars_plain del: parse_chars.simps)
      then show ?thesis using "2.IH"(1) Cons True by (simp add: cons_unit_def)
    next
      case False
      then have q: "quote_units (c # s) = quote_unit c @ quote_units s"
        using Cons by (intro quote_units_unit) simp
      show ?thesis using "2.IH"(2) [OF Cons False]
        by (simp only: q append_assoc parse_chars_unit) (simp add: cons_unit_def Cons)
    qed
  qed
qed

text \<open>What may follow a number token without extending it.\<close>

definition stops :: "jsstring \<Rightarrow> bool" where
  "stops r \<longleftrightarrow> (case r of [] \<Rightarrow> True
     | c # _ \<Rightarrow> \<not> is_digit c \<and> c \<noteq> 46 \<and> c \<noteq> 69 \<and> c \<noteq> 101 \<and> c \<noteq> 43 \<and> c \<noteq> 45)"

definition with_rest :: "jsstring \<Rightarrow> jsstring \<times> jsstring \<Rightarrow> jsstring \<times> jsstring" where
  "with_rest r = map_prod (\<lambda>t. t) (\<lambda>u. u @ r)"

lemma stops_digits [simp]: "stops r \<Longrightarrow> takeWhile is_digit r = [] \<and> dropWhile is_digit r = r"
  by (cases r) (simp_all add: stops_def)

lemma digits_append:
  "stops r \<Longrightarrow> takeWhile is_digit (t @ r) = takeWhile is_digit t \<and>
    dropWhile is_digit (t @ r) = dropWhile is_digit t @ r"
  by (induction t) simp_all

lemma take_digits_append:
  "stops r \<Longrightarrow> take_digits (t @ r) = map_option (with_rest r) (take_digits t)"
  by (simp add: take_digits_def digits_append with_rest_def split: list.split)

lemma number_token_append:
  assumes "stops r" "number_token t = Some (t', u)" "t \<noteq> []"
  shows "number_token (t @ r) = Some (t', u @ r)"
proof -
  have sign: "number_sign (t @ r) = with_rest r (number_sign t)"
    using assms(3) by (cases t) (simp_all add: number_sign_def with_rest_def)
  have int: "number_int (v @ r) = map_option (with_rest r) (number_int v)" for v
  proof (cases v)
    case Nil
    show ?thesis using assms(1) Nil take_digits_append [OF assms(1), of "[]"]
      by (cases r) (auto simp: number_int_def take_digits_def stops_def is_digit_def)
  next
    case (Cons c w)
    then show ?thesis using take_digits_append [OF assms(1), of v]
      by (simp add: number_int_def with_rest_def)
  qed
  have fraction: "number_fraction (v @ r) = with_rest r (number_fraction v)" for v
  proof (cases v)
    case Nil
    then show ?thesis using assms(1) by (cases r) (simp_all add: number_fraction_def with_rest_def stops_def)
  next
    case (Cons c w)
    then show ?thesis using take_digits_append [OF assms(1), of w]
      by (simp add: number_fraction_def with_rest_def split: option.split)
  qed
  have exponent: "number_exponent (v @ r) = with_rest r (number_exponent v)" for v
  proof (cases v)
    case Nil
    then show ?thesis using assms(1) by (cases r) (simp_all add: number_exponent_def with_rest_def stops_def)
  next
    case (Cons c w)
    show ?thesis
    proof (cases w)
      case Nil
      then show ?thesis using assms(1) Cons take_digits_append [OF assms(1), of "[]"]
        by (cases r) (auto simp: number_exponent_def with_rest_def stops_def take_digits_def)
    next
      case (Cons d w')
      then show ?thesis using \<open>v = c # w\<close> take_digits_append [OF assms(1), of w]
          take_digits_append [OF assms(1), of w']
        by (simp add: number_exponent_def with_rest_def split: option.split)
    qed
  qed
  show ?thesis using assms(2) unfolding number_token_def sign
    by (simp add: with_rest_def Let_def int fraction exponent split: prod.splits option.splits)
qed

lemma number_token_head:
  "number_token t = Some p \<Longrightarrow> \<exists>c u. t = c # u \<and> (c = 45 \<or> is_digit c)"
  by (cases t) (auto simp: number_token_def number_sign_def number_int_def take_digits_def is_digit_def
      split: if_splits option.splits list.splits)

text \<open>The values that exist: numbers carry their own text, and keys are distinct.\<close>

primrec wf_json :: "(jsstring \<Rightarrow> jsstring) \<Rightarrow> json \<Rightarrow> bool" where
  "wf_json num JNull = True"
| "wf_json num (JBool b) = True"
| "wf_json num (JNum t) = (number_token t = Some (t, []) \<and> num t = t)"
| "wf_json num (JStr s) = True"
| "wf_json num (JArr xs) = list_all (\<lambda>b. b) (map (wf_json num) xs)"
| "wf_json num (JObj es) =
     (distinct (map fst es) \<and> list_all snd (map (map_prod (\<lambda>k. k) (wf_json num)) es))"

lemma number_digit_plain:
  "is_digit c \<Longrightarrow> \<not> is_json_space c \<and> c \<notin> {34, 91, 93, 102, 110, 116, 123, 125}"
  by (auto simp: is_digit_def is_json_space_def)

lemma json_text_head:
  assumes "wf_json num v"
  obtains c u where "json_text v = c # u" "\<not> is_json_space c" "c \<noteq> 93"
proof (cases v)
  case (JNum t)
  then obtain c u where "t = c # u" "c = 45 \<or> is_digit c" using assms number_token_head by force
  then show ?thesis using that JNum number_digit_plain [of c] by (auto simp: is_json_space_def)
next
  case (JBool b)
  then show ?thesis using that by (cases b) (simp_all add: js_simps is_json_space_def)
qed (use that in \<open>simp_all add: js_simps json_quote_def is_json_space_def\<close>)

lemma skip_space_text: "wf_json num v \<Longrightarrow> skip_space (json_text v @ r) = json_text v @ r"
  by (rule json_text_head [of num v]) (simp_all add: skip_space_def)

lemma skip_space_mark [simp]:
  "skip_space (93 # r) = 93 # r" "skip_space (44 # r) = 44 # r" "skip_space (125 # r) = 125 # r"
  "skip_space (58 # r) = 58 # r" "skip_space (34 # r) = 34 # r"
  by (simp_all add: skip_space_def is_json_space_def)

lemma stops_mark [simp]: "stops []" "stops (93 # r)" "stops (44 # r)" "stops (125 # r)"
  by (simp_all add: stops_def is_digit_def)

definition reads_back :: "(jsstring \<Rightarrow> jsstring) \<Rightarrow> json \<Rightarrow> bool" where
  "reads_back num v \<longleftrightarrow> (\<forall>f r. stops r \<longrightarrow> 2 * length (json_text v) \<le> f \<longrightarrow>
     parse_value num f (json_text v @ r) = Some (v, r))"

lemma parse_items_text:
  assumes "xs \<noteq> []" "\<forall>v\<in>set xs. reads_back num v"
    "2 * length (join_with [44] (map json_text xs)) + 1 \<le> f"
  shows "parse_items num f acc (join_with [44] (map json_text xs) @ 93 # r) = Some (JArr (acc @ xs), r)"
  using assms
proof (induction xs arbitrary: acc f)
  case (Cons x xs)
  then obtain f' where f: "f = Suc f'" by (cases f) simp_all
  show ?case
  proof (cases xs)
    case Nil
    then show ?thesis using Cons.prems f by (simp add: reads_back_def)
  next
    case (Cons y ys)
    have "parse_value num f' (json_text x @ 44 # join_with [44] (map json_text xs) @ 93 # r)
        = Some (x, 44 # join_with [44] (map json_text xs) @ 93 # r)"
      using Cons.prems f Cons by (simp add: reads_back_def)
    moreover have "parse_items num f' (acc @ [x]) (join_with [44] (map json_text xs) @ 93 # r)
        = Some (JArr ((acc @ [x]) @ xs), r)"
      using Cons.prems f Cons by (intro Cons.IH) simp_all
    ultimately show ?thesis using f Cons by simp
  qed
qed simp

lemma set_member_new: "k \<notin> fst ` set es \<Longrightarrow> set_member k v es = es @ [(k, v)]"
  by (induction k v es rule: set_member.induct) auto

definition member_json :: "jsstring \<times> json \<Rightarrow> jsstring" where
  "member_json e = json_quote (fst e) @ 58 # json_text (snd e)"

lemma json_text_members: "json_text (JObj es) = [123] @ join_with [44] (map member_json es) @ [125]"
proof -
  have "map member_text (map (map_prod (\<lambda>k. k) json_text) es) = map member_json es"
    by (auto simp: member_text_def member_json_def)
  then show ?thesis by (simp only: json_text.simps)
qed

lemma parse_members_text:
  assumes "es \<noteq> []" "\<forall>e\<in>set es. reads_back num (snd e)" "distinct (map fst (acc @ es))"
    "2 * length (join_with [44] (map member_json es)) + 1 \<le> f"
  shows "parse_members num f acc (join_with [44] (map member_json es) @ 125 # r) = Some (JObj (acc @ es), r)"
  using assms
proof (induction es arbitrary: acc f)
  case (Cons e es)
  obtain k v where e: "e = (k, v)" by fastforce
  from Cons.prems obtain f' where f: "f = Suc f'" by (cases f) simp_all
  have new: "set_member k v acc = acc @ [(k, v)]"
    using Cons.prems(3) e by (intro set_member_new) auto
  show ?case
  proof (cases es)
    case Nil
    then show ?thesis using Cons.prems f e new
      by (simp add: reads_back_def member_json_def json_quote_def parse_chars_quoted)
  next
    case (Cons e' es')
    have "parse_value num f' (json_text v @ 44 # join_with [44] (map member_json es) @ 125 # r)
        = Some (v, 44 # join_with [44] (map member_json es) @ 125 # r)"
      using Cons.prems f Cons e by (simp add: reads_back_def member_json_def)
    moreover have "parse_members num f' (acc @ [(k, v)]) (join_with [44] (map member_json es) @ 125 # r)
        = Some (JObj ((acc @ [(k, v)]) @ es), r)"
      using Cons.prems f Cons e by (intro Cons.IH) simp_all
    ultimately show ?thesis using f Cons e new
      by (simp add: member_json_def [of "(k, v)"] json_quote_def parse_chars_quoted)
  qed
qed simp

lemma wf_json_reads_back: "wf_json num v \<Longrightarrow> reads_back num v"
  unfolding reads_back_def
proof (induction v)
  case (JNum t)
  show ?case
  proof (intro allI impI)
    fix f r
    assume r: "stops r" and f: "2 * length (json_text (JNum t)) \<le> f"
    obtain c u where t: "t = c # u" "c = 45 \<or> is_digit c"
      using JNum number_token_head [of t] by auto
    obtain f' where f': "f = Suc f'" using f t by (cases f) simp_all
    have "number_token (t @ r) = Some (t, r)"
      using number_token_append [OF r, of t t "[]"] JNum t by simp
    then show "parse_value num f (json_text (JNum t) @ r) = Some (JNum t, r)"
      using f' t number_digit_plain [of c] skip_space_text [OF JNum, of r] JNum by auto
  qed
next
  case (JStr s)
  show ?case
  proof (intro allI impI)
    fix f r
    assume f: "2 * length (json_text (JStr s)) \<le> f"
    then obtain f' where f': "f = Suc f'" by (cases f) (simp_all add: json_quote_def)
    then show "parse_value num f (json_text (JStr s) @ r) = Some (JStr s, r)"
      by (simp add: json_quote_def parse_chars_quoted)
  qed
next
  case (JArr xs)
  show ?case
  proof (intro allI impI)
    fix f r
    assume f: "2 * length (json_text (JArr xs)) \<le> f"
    then obtain f' where f': "f = Suc f'" by (cases f) simp_all
    show "parse_value num f (json_text (JArr xs) @ r) = Some (JArr xs, r)"
    proof (cases xs)
      case Nil
      then show ?thesis using f' by (simp add: skip_space_def is_json_space_def)
    next
      case (Cons y ys)
      have "\<forall>v\<in>set xs. reads_back num v"
        using JArr by (auto simp: reads_back_def list_all_iff)
      then have "parse_items num f' [] (join_with [44] (map json_text xs) @ 93 # r) = Some (JArr ([] @ xs), r)"
        using Cons f f' by (intro parse_items_text) simp_all
      moreover have "wf_json num y" using JArr.prems Cons by simp
      then obtain c u where "json_text y = c # u" "\<not> is_json_space c" "c \<noteq> 93"
        by (rule json_text_head)
      then have "\<exists>c u. join_with [44] (map json_text xs) = c # u \<and> \<not> is_json_space c \<and> c \<noteq> 93"
        using Cons by (cases ys) simp_all
      ultimately show ?thesis using f' by (auto simp: skip_space_def is_json_space_def)
    qed
  qed
next
  case (JObj es)
  show ?case
  proof (intro allI impI)
    fix f r
    assume f: "2 * length (json_text (JObj es)) \<le> f"
    then obtain f' where f': "f = Suc f'" by (cases f) (simp_all add: json_text_members)
    show "parse_value num f (json_text (JObj es) @ r) = Some (JObj es, r)"
    proof (cases es)
      case Nil
      then show ?thesis using f' by (simp add: skip_space_def is_json_space_def)
    next
      case (Cons e es')
      have "\<forall>e\<in>set es. reads_back num (snd e)"
        using JObj by (fastforce simp: reads_back_def list_all_iff snds.simps)
      then have "parse_members num f' [] (join_with [44] (map member_json es) @ 125 # r) = Some (JObj ([] @ es), r)"
        using Cons f f' JObj.prems by (intro parse_members_text) (simp_all add: json_text_members del: json_text.simps(6))
      moreover have "\<exists>u. join_with [44] (map member_json es) = 34 # u"
        using Cons by (cases es') (simp_all add: member_json_def json_quote_def)
      ultimately show ?thesis using f'
        by (auto simp: skip_space_def is_json_space_def json_text_members simp del: json_text.simps(6))
    qed
  qed
next
  case JNull
  show ?case
  proof (intro allI impI)
    fix f r
    assume "2 * length (json_text JNull) \<le> f"
    then obtain f' where "f = Suc f'" by (cases f) simp_all
    then show "parse_value num f (json_text JNull @ r) = Some (JNull, r)"
      by (simp add: js_simps literal_def skip_space_def is_json_space_def)
  qed
next
  case (JBool b)
  show ?case
  proof (intro allI impI)
    fix f r
    assume "2 * length (json_text (JBool b)) \<le> f"
    then obtain f' where "f = Suc f'" by (cases f) (auto simp: js_simps split: if_splits)
    then show "parse_value num f (json_text (JBool b) @ r) = Some (JBool b, r)"
      by (cases b) (simp_all add: js_simps literal_def skip_space_def is_json_space_def)
  qed
qed

text \<open>\<open>JSON.parse(JSON.stringify(v))\<close> is \<open>v\<close>, and so a text determines its value.\<close>

lemma json_parse_text: "wf_json num v \<Longrightarrow> json_parse num (json_text v) = Some v"
proof -
  assume "wf_json num v"
  from wf_json_reads_back [OF this]
  have "parse_value num (2 * length (json_text v) + 2) (json_text v @ []) = Some (v, [])"
    unfolding reads_back_def by (blast intro: stops_mark le_add1)
  then show ?thesis by (simp add: json_parse_def skip_space_def)
qed

lemma json_text_inject:
  "wf_json num v \<Longrightarrow> wf_json num w \<Longrightarrow> json_text v = json_text w \<longleftrightarrow> v = w"
  using json_parse_text by (metis option.inject)

end
