(* ===== verification/ToolLoop.thy ===== *)
theory ToolLoop
  imports Json
begin

text \<open>
  Loop detection of an agent run, decided before a tool call is dispatched
  (\<open>worker/src/run/tool-loop-detection.ts\<close>).

  The counts are the checkpointed state of a run: a JavaScript \<open>Map\<close> from keys to numbers,
  here a partial function.  The keys are the strings the code builds.  Arguments are JSON
  values; \<open>num\<close> is the conversion of number tokens that \<open>JSON.parse\<close> uses.
\<close>

section \<open>Names, thresholds and keys\<close>

definition CODING_OBSERVATION_TOOL_NAMES :: "jsstring list" where
  "CODING_OBSERVATION_TOOL_NAMES = [js ''coding_session_list'', js ''terminal_session_read'',
     js ''coding_session_review'', js ''coding_session_wait'']"

definition WATCH_TOOL_NAMES :: "jsstring list" where
  "WATCH_TOOL_NAMES = [js ''coding_session_wait'']"

definition OBSERVATION_TOOL_NAMES :: "jsstring list" where
  "OBSERVATION_TOOL_NAMES = js ''executor_mcp_tools'' # CODING_OBSERVATION_TOOL_NAMES"

datatype watch_state = EndTurn | NeedsModel | Watching

record watch_report =
  progressed :: bool
  wr_state :: watch_state

definition LOOP_DETECTION_THRESHOLD :: int where "LOOP_DETECTION_THRESHOLD = 3"
definition OBSERVATION_LOOP_THRESHOLD :: int where "OBSERVATION_LOOP_THRESHOLD = 4"
definition WATCH_STALL_THRESHOLD :: int where "WATCH_STALL_THRESHOLD = 3"

definition REPEAT_KEY_PREFIX :: jsstring where "REPEAT_KEY_PREFIX = js ''#repeat:''"
definition TERMINAL_KEY_PREFIX :: jsstring where "TERMINAL_KEY_PREFIX = js ''#terminal:''"
definition OBSERVE_KEY_PREFIX :: jsstring where "OBSERVE_KEY_PREFIX = js ''#observe:''"
definition SETTLED_KEY_PREFIX :: jsstring where "SETTLED_KEY_PREFIX = js ''#settled:''"
definition ENDED_KEY_PREFIX :: jsstring where "ENDED_KEY_PREFIX = js ''#ended:''"

definition RESTORED_KEY_PREFIXES :: "jsstring list" where
  "RESTORED_KEY_PREFIXES = [REPEAT_KEY_PREFIX, TERMINAL_KEY_PREFIX, OBSERVE_KEY_PREFIX,
     SETTLED_KEY_PREFIX, ENDED_KEY_PREFIX]"

section \<open>Verdicts\<close>

text \<open>
  The refusals and the one nudge that is not a refusal.  Their texts are constants of the
  code; a verdict is compared only by the nudge it carries.
\<close>

datatype loop_verdict = REPEATED_CALL | REPEATED_OBSERVATION | REPEATED_CODING_OBSERVATION
  | WAIT_NEEDS_YOU | WAIT_AFTER_TURN_ENDED

datatype nudge = REPEATED_CALL_NUDGE | REPEATED_OBSERVATION_NUDGE | CODING_NO_PROGRESS_NUDGE
  | CODING_REPEATED_LOOK_NUDGE | CODING_WAIT_NEEDS_YOU_NUDGE | CODING_WAIT_END_TURN_NUDGE

fun verdict_nudge :: "loop_verdict \<Rightarrow> nudge" where
  "verdict_nudge REPEATED_CALL = REPEATED_CALL_NUDGE"
| "verdict_nudge REPEATED_OBSERVATION = REPEATED_OBSERVATION_NUDGE"
| "verdict_nudge REPEATED_CODING_OBSERVATION = CODING_REPEATED_LOOK_NUDGE"
| "verdict_nudge WAIT_NEEDS_YOU = CODING_WAIT_NEEDS_YOU_NUDGE"
| "verdict_nudge WAIT_AFTER_TURN_ENDED = CODING_WAIT_END_TURN_NUDGE"

definition strongerNudge :: "nudge option \<Rightarrow> loop_verdict + nudge \<Rightarrow> nudge" where
  "strongerNudge current v =
     (let n = (case v of Inl verdict \<Rightarrow> verdict_nudge verdict | Inr n \<Rightarrow> n)
      in if current = Some REPEATED_CALL_NUDGE then REPEATED_CALL_NUDGE else n)"

section \<open>Keys of a call\<close>

text \<open>The session a wait names; \<open>None\<close> is \<open>undefined\<close>.\<close>

definition sessionId_of :: "json \<Rightarrow> json option" where
  "sessionId_of v = (case v of JObj es \<Rightarrow> map_of es (js ''sessionId'') | _ \<Rightarrow> None)"

definition sessionOf :: "(jsstring \<Rightarrow> jsstring) \<Rightarrow> json \<Rightarrow> json option" where
  "sessionOf num args =
     (case args of
        JStr s \<Rightarrow>
          if starts_with (js_trim s) [123] then
            (case json_parse num (js_trim s) of None \<Rightarrow> None | Some v \<Rightarrow> sessionId_of v)
          else None
      | v \<Rightarrow> sessionId_of v)"

definition session_json :: "(jsstring \<Rightarrow> jsstring) \<Rightarrow> json \<Rightarrow> json" where
  "session_json num args = (case sessionOf num args of None \<Rightarrow> JNull | Some v \<Rightarrow> v)"

definition watchKeyOf :: "(jsstring \<Rightarrow> jsstring) \<Rightarrow> jsstring \<Rightarrow> jsstring \<Rightarrow> json \<Rightarrow> jsstring" where
  "watchKeyOf num prefix tool args = prefix @ tool @ [58] @ json_text (session_json num args)"

definition streakKeyOf :: "(jsstring \<Rightarrow> jsstring) \<Rightarrow> jsstring \<Rightarrow> json \<Rightarrow> jsstring" where
  "streakKeyOf num tool args =
     (if tool \<in> set WATCH_TOOL_NAMES then watchKeyOf num OBSERVE_KEY_PREFIX tool args
      else OBSERVE_KEY_PREFIX @ tool @ [58] @ json_text args)"

definition settledKeyOf :: "(jsstring \<Rightarrow> jsstring) \<Rightarrow> jsstring \<Rightarrow> json \<Rightarrow> jsstring" where
  "settledKeyOf num tool args = watchKeyOf num SETTLED_KEY_PREFIX tool args"

definition endedKeyOf :: "jsstring \<Rightarrow> jsstring" where
  "endedKeyOf tool = ENDED_KEY_PREFIX @ tool"

section \<open>Counting a call\<close>

type_synonym counts = "jsstring \<rightharpoonup> int"

definition count_of :: "counts \<Rightarrow> jsstring \<Rightarrow> int" where
  "count_of m k = (case m k of None \<Rightarrow> 0 | Some n \<Rightarrow> n)"

definition delete_keys :: "(jsstring \<Rightarrow> bool) \<Rightarrow> counts \<Rightarrow> counts" where
  "delete_keys P m = (\<lambda>k. if P k then None else m k)"

definition countToolCall ::
    "(jsstring \<Rightarrow> jsstring) \<Rightarrow> counts \<Rightarrow> jsstring \<Rightarrow> json \<Rightarrow> loop_verdict option \<times> counts" where
  "countToolCall num m tool args =
     (let signature = tool @ [58] @ json_text args;
          streakKey = streakKeyOf num tool args;
          streak = count_of m streakKey + 1;
          observation = tool \<in> set OBSERVATION_TOOL_NAMES;
          m = delete_keys (\<lambda>k. starts_with k OBSERVE_KEY_PREFIX
                 \<or> \<not> observation \<and> starts_with k SETTLED_KEY_PREFIX) m
      in if tool \<in> set WATCH_TOOL_NAMES then
           (let m = m(streakKey \<mapsto> streak)
            in (if m (endedKeyOf tool) \<noteq> None then Some WAIT_AFTER_TURN_ENDED
                else if m (settledKeyOf num tool args) \<noteq> None then Some WAIT_NEEDS_YOU else None, m))
         else if observation then
           (if streak < OBSERVATION_LOOP_THRESHOLD then None
            else if tool \<in> set CODING_OBSERVATION_TOOL_NAMES then Some REPEATED_CODING_OBSERVATION
            else Some REPEATED_OBSERVATION, m(streakKey \<mapsto> streak))
         else if tool = js ''terminal_session_write'' then
           (let sessionPrefix = TERMINAL_KEY_PREFIX @ json_text (session_json num args) @ [58];
                key = sessionPrefix @ json_text args;
                count = count_of m key + 1;
                m = delete_keys (\<lambda>k. starts_with k sessionPrefix) m
            in (if count \<ge> LOOP_DETECTION_THRESHOLD then Some REPEATED_CALL else None, m(key \<mapsto> count)))
         else
           (let repeatKey = REPEAT_KEY_PREFIX @ signature;
                count = count_of m repeatKey + 1
            in (if count \<ge> LOOP_DETECTION_THRESHOLD then Some REPEATED_CALL else None,
                m(repeatKey \<mapsto> count))))"

text \<open>A watch tool's own report, after it ran.\<close>

definition noteWatchProgress ::
    "(jsstring \<Rightarrow> jsstring) \<Rightarrow> counts \<Rightarrow> jsstring \<Rightarrow> json \<Rightarrow> watch_report \<Rightarrow> nudge option \<times> counts" where
  "noteWatchProgress num m tool args report =
     (if tool \<notin> set WATCH_TOOL_NAMES then (None, m)
      else
        (let m = (if wr_state report = EndTurn then m(endedKeyOf tool \<mapsto> 1) else m);
             streakKey = streakKeyOf num tool args
         in case m streakKey of
              None \<Rightarrow> (None, m)
            | Some streak \<Rightarrow>
                if wr_state report = EndTurn then (None, m)
                else if wr_state report = NeedsModel
                then (None, m(settledKeyOf num tool args \<mapsto> 1, streakKey \<mapsto> 0))
                else (if \<not> progressed report \<and> streak \<ge> WATCH_STALL_THRESHOLD
                      then Some CODING_NO_PROGRESS_NUDGE else None,
                      if progressed report \<or> streak \<ge> WATCH_STALL_THRESHOLD
                      then m(streakKey \<mapsto> 0) else m)))"

section \<open>Restoring a checkpoint\<close>

text \<open>\<open>rest.slice(0, rest.indexOf(':'))\<close>; without a colon the slice ends at \<open>-1\<close>.\<close>

definition before_colon :: "jsstring \<Rightarrow> jsstring" where
  "before_colon s = (if 58 \<in> set s then takeWhile (\<lambda>c. c \<noteq> 58) s else butlast s)"

definition restoredKeyOf :: "(jsstring \<Rightarrow> jsstring) \<Rightarrow> jsstring \<Rightarrow> jsstring" where
  "restoredKeyOf num key =
     (case List.find (starts_with key) [SETTLED_KEY_PREFIX, OBSERVE_KEY_PREFIX] of
        None \<Rightarrow> key
      | Some prefix \<Rightarrow>
          (let rest = drop (length prefix) key; tool = before_colon rest
           in if tool \<notin> set WATCH_TOOL_NAMES then key
              else (case json_parse num (drop (length tool + 1) rest) of
                      Some (JObj es) \<Rightarrow> watchKeyOf num prefix tool (JObj es)
                    | _ \<Rightarrow> key)))"

text \<open>The saved counts are the own entries of an object, or \<open>undefined\<close>.\<close>

definition restoreLoopCounts :: "(jsstring \<Rightarrow> jsstring) \<Rightarrow> (jsstring \<times> int) list option \<Rightarrow> counts" where
  "restoreLoopCounts num saved =
     fold (\<lambda>(k, n) m. m(restoredKeyOf num k \<mapsto> n))
       (filter (\<lambda>(k, n). \<exists>p\<in>set RESTORED_KEY_PREFIXES. starts_with k p)
         (case saved of None \<Rightarrow> [] | Some es \<Rightarrow> es))
       Map.empty"

section \<open>What a history decides\<close>

text \<open>
  The specification the counts implement.  A history lists the calls of a run and the reports
  of its waits, the latest first.  Each verdict is stated over the history alone.
\<close>

datatype loop_event = Called jsstring json | Reported jsstring json watch_report

fun loop_step :: "(jsstring \<Rightarrow> jsstring) \<Rightarrow> loop_event \<Rightarrow> counts \<Rightarrow> counts" where
  "loop_step num (Called t a) m = snd (countToolCall num m t a)"
| "loop_step num (Reported t a r) m = snd (noteWatchProgress num m t a r)"

definition counts_after :: "(jsstring \<Rightarrow> jsstring) \<Rightarrow> loop_event list \<Rightarrow> counts" where
  "counts_after num h = foldr (loop_step num) h Map.empty"

fun calls :: "loop_event list \<Rightarrow> (jsstring \<times> json) list" where
  "calls [] = []"
| "calls (Called t a # h) = (t, a) # calls h"
| "calls (Reported t a r # h) = calls h"

text \<open>Identical calls in the whole run, and in a row just before now.\<close>

definition repeats :: "loop_event list \<Rightarrow> jsstring \<Rightarrow> json \<Rightarrow> nat" where
  "repeats h t a = length (filter ((=) (t, a)) (calls h))"

definition streak :: "loop_event list \<Rightarrow> jsstring \<Rightarrow> json \<Rightarrow> nat" where
  "streak h t a = length (takeWhile ((=) (t, a)) (calls h))"

text \<open>Identical terminal writes since the last different write to the same session.\<close>

definition writes_to :: "(jsstring \<Rightarrow> jsstring) \<Rightarrow> json \<Rightarrow> loop_event list \<Rightarrow> json list" where
  "writes_to num s h = map snd (filter (\<lambda>(t, a). t = js ''terminal_session_write'' \<and> session_json num a = s) (calls h))"

definition write_streak :: "(jsstring \<Rightarrow> jsstring) \<Rightarrow> loop_event list \<Rightarrow> json \<Rightarrow> nat" where
  "write_streak num h a = length (takeWhile ((=) a) (writes_to num (session_json num a) h))"

text \<open>The turn was reported over; and the last answer of a session still stands.\<close>

definition ended :: "loop_event list \<Rightarrow> bool" where
  "ended h = list_ex (\<lambda>e. case e of Reported t a r \<Rightarrow> t \<in> set WATCH_TOOL_NAMES \<and> wr_state r = EndTurn
     | Called t a \<Rightarrow> False) h"

definition latest_wait_on :: "(jsstring \<Rightarrow> jsstring) \<Rightarrow> json \<Rightarrow> loop_event list \<Rightarrow> bool" where
  "latest_wait_on num s h = (case calls h of (t, a) # _ \<Rightarrow> t \<in> set WATCH_TOOL_NAMES \<and> session_json num a = s
     | [] \<Rightarrow> False)"

fun settled :: "(jsstring \<Rightarrow> jsstring) \<Rightarrow> json \<Rightarrow> loop_event list \<Rightarrow> bool" where
  "settled num s [] = False"
| "settled num s (Called t a # h) = (t \<in> set OBSERVATION_TOOL_NAMES \<and> settled num s h)"
| "settled num s (Reported t a r # h) =
     (settled num s h \<or> t \<in> set WATCH_TOOL_NAMES \<and> wr_state r = NeedsModel \<and> session_json num a = s
        \<and> latest_wait_on num s h)"

definition refusal :: "(jsstring \<Rightarrow> jsstring) \<Rightarrow> loop_event list \<Rightarrow> jsstring \<Rightarrow> json \<Rightarrow> loop_verdict option" where
  "refusal num h t a =
     (if t \<in> set WATCH_TOOL_NAMES then
        (if ended h then Some WAIT_AFTER_TURN_ENDED
         else if settled num (session_json num a) h then Some WAIT_NEEDS_YOU else None)
      else if t \<in> set OBSERVATION_TOOL_NAMES then
        (if streak h t a < 3 then None
         else if t \<in> set CODING_OBSERVATION_TOOL_NAMES then Some REPEATED_CODING_OBSERVATION
         else Some REPEATED_OBSERVATION)
      else if t = js ''terminal_session_write'' then
        (if write_streak num h a < 2 then None else Some REPEATED_CALL)
      else if repeats h t a < 2 then None else Some REPEATED_CALL)"

text \<open>
  A call that can be told apart by its key: a tool name without a colon, and arguments and a
  session that are JSON values.
\<close>

definition wf_call :: "(jsstring \<Rightarrow> jsstring) \<Rightarrow> jsstring \<Rightarrow> json \<Rightarrow> bool" where
  "wf_call num t a \<longleftrightarrow> 58 \<notin> set t \<and> wf_json num a \<and> wf_json num (session_json num a)"

fun wf_event :: "(jsstring \<Rightarrow> jsstring) \<Rightarrow> loop_event \<Rightarrow> bool" where
  "wf_event num (Called t a) = wf_call num t a"
| "wf_event num (Reported t a r) = wf_call num t a"

section \<open>Keys are told apart\<close>

lemma stops_colon [simp]: "stops (58 # r)"
  by (simp add: stops_def is_digit_def)

lemma json_text_colon:
  assumes "wf_json num v" "wf_json num w"
  shows "json_text v @ 58 # r = json_text w @ 58 # t \<longleftrightarrow> v = w \<and> r = t"
proof
  assume eq: "json_text v @ 58 # r = json_text w @ 58 # t"
  let ?f = "2 * (length (json_text v) + length (json_text w))"
  have "parse_value num ?f (json_text v @ 58 # r) = Some (v, 58 # r)"
    using wf_json_reads_back [OF assms(1)] by (simp add: reads_back_def)
  moreover have "parse_value num ?f (json_text w @ 58 # t) = Some (w, 58 # t)"
    using wf_json_reads_back [OF assms(2)] by (simp add: reads_back_def)
  ultimately show "v = w \<and> r = t" using eq by simp
qed simp

lemma tool_colon:
  "58 \<notin> set t \<Longrightarrow> 58 \<notin> set t' \<Longrightarrow> t @ 58 # x = t' @ 58 # x' \<longleftrightarrow> t = t' \<and> x = x'"
  by (induction t arbitrary: t') (case_tac t'; auto)+

lemma signature_eq:
  "wf_call num t a \<Longrightarrow> wf_call num t' a' \<Longrightarrow>
     t @ 58 # json_text a = t' @ 58 # json_text a' \<longleftrightarrow> t = t' \<and> a = a'"
  by (auto simp: wf_call_def tool_colon json_text_inject)

lemma watch_key_eq:
  "wf_call num t a \<Longrightarrow> wf_call num t' a' \<Longrightarrow>
     t @ 58 # json_text (session_json num a) = t' @ 58 # json_text (session_json num a')
       \<longleftrightarrow> t = t' \<and> session_json num a = session_json num a'"
  by (auto simp: wf_call_def tool_colon json_text_inject)

lemma terminal_key_eq:
  "wf_call num t a \<Longrightarrow> wf_call num t' a' \<Longrightarrow>
     json_text (session_json num a) @ 58 # json_text a = json_text (session_json num a') @ 58 # json_text a'
       \<longleftrightarrow> a = a'"
  by (auto simp: wf_call_def json_text_colon json_text_inject)

lemma terminal_prefix:
  "wf_call num t a \<Longrightarrow> wf_call num t' a' \<Longrightarrow>
     starts_with (json_text (session_json num a) @ 58 # r) (json_text (session_json num a') @ [58])
       \<longleftrightarrow> session_json num a = session_json num a'"
  by (auto simp: wf_call_def starts_with_iff json_text_colon)

text \<open>The prefixes differ in their second character.\<close>

lemmas prefix_defs = REPEAT_KEY_PREFIX_def TERMINAL_KEY_PREFIX_def OBSERVE_KEY_PREFIX_def
  SETTLED_KEY_PREFIX_def ENDED_KEY_PREFIX_def

lemmas key_defs = streakKeyOf_def settledKeyOf_def endedKeyOf_def watchKeyOf_def prefix_defs

lemma starts_with_self [simp]: "starts_with (p @ s) p" "starts_with (p @ s) (p @ q) = starts_with s q"
  by (auto simp: starts_with_iff)

lemma tool_kinds:
  "t \<in> set WATCH_TOOL_NAMES \<Longrightarrow> t \<in> set OBSERVATION_TOOL_NAMES"
  "t \<in> set WATCH_TOOL_NAMES \<Longrightarrow> t' \<in> set WATCH_TOOL_NAMES \<Longrightarrow> t = t'"
  "js ''terminal_session_write'' \<notin> set OBSERVATION_TOOL_NAMES"
  by (simp_all add: WATCH_TOOL_NAMES_def OBSERVATION_TOOL_NAMES_def CODING_OBSERVATION_TOOL_NAMES_def js_simps)

section \<open>The counts implement the history\<close>

definition repeatKeyOf :: "jsstring \<Rightarrow> json \<Rightarrow> jsstring" where
  "repeatKeyOf t a = REPEAT_KEY_PREFIX @ t @ 58 # json_text a"

definition terminalKeyOf :: "(jsstring \<Rightarrow> jsstring) \<Rightarrow> json \<Rightarrow> jsstring" where
  "terminalKeyOf num a = TERMINAL_KEY_PREFIX @ json_text (session_json num a) @ 58 # json_text a"

lemmas call_defs = countToolCall_def Let_def delete_keys_def count_of_def
lemmas note_defs = noteWatchProgress_def Let_def count_of_def

definition ordinary :: "jsstring \<Rightarrow> bool" where
  "ordinary t \<longleftrightarrow> t \<notin> set OBSERVATION_TOOL_NAMES \<and> t \<noteq> js ''terminal_session_write''"

lemma repeat_after_call:
  assumes "wf_call num t a" "wf_call num t' a'" "ordinary t'"
  shows "count_of (snd (countToolCall num m t a)) (repeatKeyOf t' a')
    = count_of m (repeatKeyOf t' a') + (if (t', a') = (t, a) then 1 else 0)"
  using assms(3) signature_eq [OF assms(1,2)] tool_kinds(1) [of t]
  by (auto simp: call_defs key_defs repeatKeyOf_def js_simps ordinary_def)

lemma observe_after_call:
  assumes "wf_call num t a" "wf_call num t' a'" "t' \<in> set OBSERVATION_TOOL_NAMES"
  shows "snd (countToolCall num m t a) (streakKeyOf num t' a') =
    (if t \<in> set OBSERVATION_TOOL_NAMES \<and> streakKeyOf num t' a' = streakKeyOf num t a
     then Some (count_of m (streakKeyOf num t a) + 1) else None)"
proof -
  have pre: "starts_with (streakKeyOf num t' a') OBSERVE_KEY_PREFIX"
    by (simp add: streakKeyOf_def watchKeyOf_def)
  then have n: "streakKeyOf num t' a' \<noteq> REPEAT_KEY_PREFIX @ x" "streakKeyOf num t' a' \<noteq> TERMINAL_KEY_PREFIX @ x" for x
    by (auto simp: prefix_defs js_simps)
  show ?thesis
    by (cases "t \<in> set OBSERVATION_TOOL_NAMES") (use pre n tool_kinds(1) [of t] in \<open>auto simp: call_defs\<close>)
qed

lemma terminalKeyOf_apart:
  "\<not> starts_with (terminalKeyOf num a) OBSERVE_KEY_PREFIX"
  "\<not> starts_with (terminalKeyOf num a) SETTLED_KEY_PREFIX"
  "terminalKeyOf num a \<noteq> OBSERVE_KEY_PREFIX @ x"
  "terminalKeyOf num a \<noteq> REPEAT_KEY_PREFIX @ x"
  by (simp_all add: terminalKeyOf_def prefix_defs js_simps)

lemma terminal_call_counts:
  "snd (countToolCall num m (js ''terminal_session_write'') a) k =
    (if k = terminalKeyOf num a then
       Some ((if starts_with k OBSERVE_KEY_PREFIX \<or> starts_with k SETTLED_KEY_PREFIX then 0 else count_of m k) + 1)
     else if starts_with k OBSERVE_KEY_PREFIX \<or> starts_with k SETTLED_KEY_PREFIX
       \<or> starts_with k (TERMINAL_KEY_PREFIX @ json_text (session_json num a) @ [58]) then None else m k)"
  using tool_kinds(1,3)
  by (auto simp: countToolCall_def Let_def delete_keys_def terminalKeyOf_def count_of_def)

lemma terminal_after_call:
  assumes "wf_call num t a" "wf_call num (js ''terminal_session_write'') a'"
  shows "count_of (snd (countToolCall num m t a)) (terminalKeyOf num a') =
    (if t = js ''terminal_session_write'' \<and> session_json num a = session_json num a'
     then (if a = a' then count_of m (terminalKeyOf num a') + 1 else 0)
     else count_of m (terminalKeyOf num a'))"
proof (cases "t = js ''terminal_session_write''")
  case True
  have eq: "terminalKeyOf num a' = terminalKeyOf num a \<longleftrightarrow> a = a'"
    using terminal_key_eq [OF assms] by (auto simp: terminalKeyOf_def)
  have pre: "starts_with (terminalKeyOf num a') (TERMINAL_KEY_PREFIX @ json_text (session_json num a) @ [58])
      \<longleftrightarrow> session_json num a = session_json num a'"
    using terminal_prefix [OF assms(2,1)] by (auto simp: terminalKeyOf_def)
  show ?thesis using True pre
    by (cases "a = a'"; cases "session_json num a = session_json num a'")
      (simp_all add: count_of_def terminal_call_counts terminalKeyOf_apart eq)
next
  case False
  then show ?thesis using terminalKeyOf_apart [of num a']
    by (simp add: call_defs streakKeyOf_def watchKeyOf_def)
qed

lemma settled_after_call:
  assumes "wf_call num t a" "wf_call num t' a'" "t' \<in> set WATCH_TOOL_NAMES"
  shows "snd (countToolCall num m t a) (settledKeyOf num t' a') =
    (if t \<in> set OBSERVATION_TOOL_NAMES then m (settledKeyOf num t' a') else None)"
  using tool_kinds(1) [of t] by (auto simp: call_defs key_defs js_simps)

lemma ended_after_call:
  "snd (countToolCall num m t a) (endedKeyOf t') = m (endedKeyOf t')"
  by (auto simp: call_defs key_defs js_simps)

text \<open>A report touches only the keys of the wait it is about.\<close>

lemma report_apart:
  "count_of (snd (noteWatchProgress num m t a r)) (repeatKeyOf t' a') = count_of m (repeatKeyOf t' a')"
  "count_of (snd (noteWatchProgress num m t a r)) (terminalKeyOf num a') = count_of m (terminalKeyOf num a')"
  by (auto simp: note_defs key_defs repeatKeyOf_def terminalKeyOf_def js_simps split: option.split)

lemma report_observe:
  assumes "wf_call num t a" "wf_call num t' a'"
  shows "t' \<notin> set WATCH_TOOL_NAMES \<Longrightarrow>
      snd (noteWatchProgress num m t a r) (streakKeyOf num t' a') = m (streakKeyOf num t' a')"
    and "snd (noteWatchProgress num m t a r) (streakKeyOf num t' a') = None \<longleftrightarrow> m (streakKeyOf num t' a') = None"
  using assms
  by (auto simp: note_defs key_defs js_simps wf_call_def tool_colon split: option.split)

lemma report_settled:
  assumes "wf_call num t a" "wf_call num t' a'" "t' \<in> set WATCH_TOOL_NAMES"
  shows "snd (noteWatchProgress num m t a r) (settledKeyOf num t' a') \<noteq> None \<longleftrightarrow>
    m (settledKeyOf num t' a') \<noteq> None \<or> t = t' \<and> wr_state r = NeedsModel \<and>
      session_json num a = session_json num a' \<and> m (streakKeyOf num t a) \<noteq> None"
  using assms tool_kinds(2) [of t t']
  by (auto simp: note_defs key_defs js_simps wf_call_def tool_colon json_text_inject split: option.split)

lemma report_ended:
  assumes "t' \<in> set WATCH_TOOL_NAMES"
  shows "snd (noteWatchProgress num m t a r) (endedKeyOf t') \<noteq> None \<longleftrightarrow>
    m (endedKeyOf t') \<noteq> None \<or> t \<in> set WATCH_TOOL_NAMES \<and> wr_state r = EndTurn"
  using assms tool_kinds(2) [of t t']
  by (auto simp: note_defs key_defs js_simps split: option.split)

text \<open>The refinement relation between the counts and the history.\<close>

definition counts_track :: "(jsstring \<Rightarrow> jsstring) \<Rightarrow> loop_event list \<Rightarrow> counts \<Rightarrow> bool" where
  "counts_track num h m \<longleftrightarrow>
     (\<forall>t a. wf_call num t a \<and> ordinary t \<longrightarrow> count_of m (repeatKeyOf t a) = int (repeats h t a)) \<and>
     (\<forall>t a. wf_call num t a \<and> t \<in> set OBSERVATION_TOOL_NAMES \<and> t \<notin> set WATCH_TOOL_NAMES \<longrightarrow>
        count_of m (streakKeyOf num t a) = int (streak h t a)) \<and>
     (\<forall>t a. wf_call num t a \<and> t \<in> set WATCH_TOOL_NAMES \<longrightarrow>
        (m (streakKeyOf num t a) \<noteq> None \<longleftrightarrow> latest_wait_on num (session_json num a) h)) \<and>
     (\<forall>a. wf_call num (js ''terminal_session_write'') a \<longrightarrow>
        count_of m (terminalKeyOf num a) = int (write_streak num h a)) \<and>
     (\<forall>t a. wf_call num t a \<and> t \<in> set WATCH_TOOL_NAMES \<longrightarrow>
        (m (settledKeyOf num t a) \<noteq> None \<longleftrightarrow> settled num (session_json num a) h)) \<and>
     (\<forall>t. t \<in> set WATCH_TOOL_NAMES \<longrightarrow> (m (endedKeyOf t) \<noteq> None \<longleftrightarrow> ended h))"

lemma observe_key_eq:
  assumes "wf_call num t a" "wf_call num t' a'" "t' \<notin> set WATCH_TOOL_NAMES"
  shows "streakKeyOf num t' a' = streakKeyOf num t a \<longleftrightarrow> t' = t \<and> a' = a"
  using assms signature_eq [OF assms(2,1)] by (auto simp: streakKeyOf_def watchKeyOf_def wf_call_def tool_colon)

lemma wait_key_eq:
  assumes "wf_call num t a" "wf_call num t' a'" "t' \<in> set WATCH_TOOL_NAMES"
  shows "streakKeyOf num t' a' = streakKeyOf num t a \<longleftrightarrow>
    t \<in> set WATCH_TOOL_NAMES \<and> session_json num a = session_json num a'"
  using assms watch_key_eq [OF assms(2,1)] tool_kinds(2) [OF assms(3), of t]
  by (auto simp: streakKeyOf_def watchKeyOf_def wf_call_def tool_colon)

lemma call_tracks:
  assumes "counts_track num h m" "wf_call num t a"
  shows "counts_track num (Called t a # h) (snd (countToolCall num m t a))"
  unfolding counts_track_def
proof (intro conjI allI impI)
  fix t' a'
  assume "wf_call num t' a' \<and> ordinary t'"
  then show "count_of (snd (countToolCall num m t a)) (repeatKeyOf t' a') = int (repeats (Called t a # h) t' a')"
    using assms by (simp add: repeat_after_call counts_track_def repeats_def)
next
  fix t' a'
  assume o: "wf_call num t' a' \<and> t' \<in> set OBSERVATION_TOOL_NAMES \<and> t' \<notin> set WATCH_TOOL_NAMES"
  then show "count_of (snd (countToolCall num m t a)) (streakKeyOf num t' a') = int (streak (Called t a # h) t' a')"
    using assms observe_key_eq [OF assms(2), of t' a']
    by (auto simp: count_of_def [of "snd (countToolCall num m t a)"] observe_after_call counts_track_def streak_def)
next
  fix t' a'
  assume o: "wf_call num t' a' \<and> t' \<in> set WATCH_TOOL_NAMES"
  then show "snd (countToolCall num m t a) (streakKeyOf num t' a') \<noteq> None \<longleftrightarrow>
      latest_wait_on num (session_json num a') (Called t a # h)"
    using assms(2) wait_key_eq [OF assms(2), of t' a'] tool_kinds(1)
    by (auto simp: observe_after_call latest_wait_on_def)
next
  fix a'
  assume w: "wf_call num (js ''terminal_session_write'') a'"
  then show "count_of (snd (countToolCall num m t a)) (terminalKeyOf num a') = int (write_streak num (Called t a # h) a')"
    using assms by (auto simp: terminal_after_call counts_track_def write_streak_def writes_to_def)
next
  fix t' a'
  assume "wf_call num t' a' \<and> t' \<in> set WATCH_TOOL_NAMES"
  then show "snd (countToolCall num m t a) (settledKeyOf num t' a') \<noteq> None \<longleftrightarrow>
      settled num (session_json num a') (Called t a # h)"
    using assms by (auto simp: settled_after_call counts_track_def)
next
  fix t'
  assume "t' \<in> set WATCH_TOOL_NAMES"
  then show "snd (countToolCall num m t a) (endedKeyOf t') \<noteq> None \<longleftrightarrow> ended (Called t a # h)"
    using assms(1) by (simp add: ended_after_call counts_track_def ended_def)
qed

lemma report_tracks:
  assumes "counts_track num h m" "wf_call num t a"
  shows "counts_track num (Reported t a r # h) (snd (noteWatchProgress num m t a r))"
  unfolding counts_track_def
proof (intro conjI allI impI)
  fix t' a'
  assume o: "wf_call num t' a' \<and> t' \<in> set OBSERVATION_TOOL_NAMES \<and> t' \<notin> set WATCH_TOOL_NAMES"
  then show "count_of (snd (noteWatchProgress num m t a r)) (streakKeyOf num t' a') = int (streak (Reported t a r # h) t' a')"
    using assms report_observe(1) [OF assms(2), of t' a' m r]
    by (simp add: count_of_def counts_track_def streak_def)
next
  fix t' a'
  assume "wf_call num t' a' \<and> t' \<in> set WATCH_TOOL_NAMES"
  then show "snd (noteWatchProgress num m t a r) (streakKeyOf num t' a') \<noteq> None \<longleftrightarrow>
      latest_wait_on num (session_json num a') (Reported t a r # h)"
    using assms report_observe(2) [OF assms(2), of t' a' m r]
    by (simp add: counts_track_def latest_wait_on_def)
next
  fix t' a'
  assume o: "wf_call num t' a' \<and> t' \<in> set WATCH_TOOL_NAMES"
  then have "t \<in> set WATCH_TOOL_NAMES \<longleftrightarrow> t = t'" using tool_kinds(2) by blast
  moreover have "t = t' \<Longrightarrow> m (streakKeyOf num t a) \<noteq> None \<longleftrightarrow> latest_wait_on num (session_json num a) h"
    using assms o unfolding counts_track_def by blast
  moreover have "m (settledKeyOf num t' a') \<noteq> None \<longleftrightarrow> settled num (session_json num a') h"
    using assms(1) o unfolding counts_track_def by blast
  ultimately show "snd (noteWatchProgress num m t a r) (settledKeyOf num t' a') \<noteq> None \<longleftrightarrow>
      settled num (session_json num a') (Reported t a r # h)"
    using report_settled [OF assms(2), of t' a' m r] o
    by (cases "t = t'"; cases "session_json num a = session_json num a'") simp_all
next
  fix t'
  assume "t' \<in> set WATCH_TOOL_NAMES"
  then show "snd (noteWatchProgress num m t a r) (endedKeyOf t') \<noteq> None \<longleftrightarrow> ended (Reported t a r # h)"
    using assms(1) report_ended [of t' num m t a r] by (auto simp: counts_track_def ended_def)
qed (use assms(1) in \<open>simp_all add: report_apart counts_track_def repeats_def write_streak_def writes_to_def\<close>)

lemma counts_after_track:
  "\<forall>e\<in>set h. wf_event num e \<Longrightarrow> counts_track num h (counts_after num h)"
proof (induction h)
  case Nil
  show ?case
    by (simp add: counts_track_def counts_after_def count_of_def repeats_def streak_def write_streak_def
        writes_to_def latest_wait_on_def ended_def)
next
  case (Cons e h)
  then show ?case
    by (cases e) (simp_all add: counts_after_def call_tracks report_tracks)
qed

section \<open>Properties\<close>

text \<open>C32: The counts decide exactly what the history says.  After any sequence of calls and
  wait reports, an ordinary call is refused exactly when the same call was already made twice
  in the run; an observation exactly when the three calls just before it were the same; a
  terminal write exactly when the two writes to its session before it were the same; a wait
  exactly when the turn was reported over, or the last answer of its session asked the model
  to act and no acting call followed.\<close>

theorem countToolCall_refines_history:
  assumes "\<forall>e\<in>set h. wf_event num e" "wf_call num t a"
  shows "fst (countToolCall num (counts_after num h) t a) = refusal num h t a"
proof -
  note track = counts_after_track [OF assms(1), unfolded counts_track_def]
  let ?m = "counts_after num h"
  consider (watch) "t \<in> set WATCH_TOOL_NAMES"
    | (observe) "t \<in> set OBSERVATION_TOOL_NAMES" "t \<notin> set WATCH_TOOL_NAMES"
    | (terminal) "t = js ''terminal_session_write''"
    | (ordinary) "ordinary t" unfolding ordinary_def by blast
  then show ?thesis
  proof cases
    case watch
    have "?m (settledKeyOf num t a) \<noteq> None \<longleftrightarrow> settled num (session_json num a) h"
      "?m (endedKeyOf t) \<noteq> None \<longleftrightarrow> ended h"
      using track watch assms(2) by blast+
    moreover have "(snd (countToolCall num ?m t a)) (endedKeyOf t) = ?m (endedKeyOf t)"
      "(snd (countToolCall num ?m t a)) (settledKeyOf num t a) = ?m (settledKeyOf num t a)"
      using settled_after_call [OF assms(2,2) watch] tool_kinds(1) [OF watch]
      by (simp_all add: ended_after_call)
    ultimately show ?thesis using watch
      by (simp add: countToolCall_def Let_def refusal_def)
  next
    case observe
    then have "count_of ?m (streakKeyOf num t a) = int (streak h t a)" using track assms(2) by blast
    then show ?thesis using observe
      by (simp add: countToolCall_def Let_def refusal_def OBSERVATION_LOOP_THRESHOLD_def)
  next
    case terminal
    then have "count_of ?m (terminalKeyOf num a) = int (write_streak num h a)" using track assms(2) by blast
    moreover have "delete_keys (\<lambda>k. starts_with k OBSERVE_KEY_PREFIX \<or> starts_with k SETTLED_KEY_PREFIX) ?m
        (terminalKeyOf num a) = ?m (terminalKeyOf num a)"
      by (simp add: delete_keys_def terminalKeyOf_apart)
    ultimately show ?thesis using terminal tool_kinds(1) [of t] tool_kinds(3)
      by (auto simp: countToolCall_def Let_def refusal_def LOOP_DETECTION_THRESHOLD_def terminalKeyOf_def count_of_def)
  next
    case ordinary
    then have "count_of ?m (repeatKeyOf t a) = int (repeats h t a)" using track assms(2) by blast
    moreover have "delete_keys (\<lambda>k. starts_with k OBSERVE_KEY_PREFIX \<or> starts_with k SETTLED_KEY_PREFIX) ?m
        (repeatKeyOf t a) = ?m (repeatKeyOf t a)"
      by (simp add: delete_keys_def repeatKeyOf_def prefix_defs js_simps)
    ultimately show ?thesis using ordinary tool_kinds(1) [of t]
      by (auto simp: ordinary_def countToolCall_def Let_def refusal_def LOOP_DETECTION_THRESHOLD_def
          repeatKeyOf_def count_of_def)
  qed
qed

definition lookup_call :: json where
  "lookup_call = JObj [(js ''query'', JStr (js ''status''))]"

definition wait_call :: json where
  "wait_call = JObj [(js ''sessionId'', JStr (js ''s1''))]"

lemmas sample_calls = lookup_call_def wait_call_def wf_call_def session_json_def sessionOf_def sessionId_of_def
  js_simps WATCH_TOOL_NAMES_def OBSERVATION_TOOL_NAMES_def CODING_OBSERVATION_TOOL_NAMES_def

lemma countToolCall_refines_history_witness:
  "fst (countToolCall id (counts_after id
      [Called (js ''web_search'') lookup_call, Called (js ''coding_session_wait'') wait_call,
       Called (js ''web_search'') lookup_call]) (js ''web_search'') lookup_call) = Some REPEATED_CALL"
  by (subst countToolCall_refines_history)
    (simp_all add: sample_calls refusal_def repeats_def)

text \<open>Arguments that arrive as the text of an object name the same session.\<close>

lemma js_trim_ends:
  assumes "\<not> is_js_space c" "\<not> is_js_space d"
  shows "js_trim (c # s @ [d]) = c # s @ [d]"
  using assms by (simp add: js_trim_def)

lemma double_encoded:
  assumes "wf_json num (JObj es)"
  shows "session_json num (JStr (json_text (JObj es))) = session_json num (JObj es)"
proof -
  obtain x where x: "json_text (JObj es) = 123 # x @ [125]" by simp
  have "js_trim (json_text (JObj es)) = json_text (JObj es)"
    unfolding x by (rule js_trim_ends) (simp_all add: is_js_space_def)
  moreover have "starts_with (json_text (JObj es)) [123]" by simp
  ultimately show ?thesis
    using json_parse_text [OF assms] by (simp add: session_json_def sessionOf_def del: json_text.simps)
qed

text \<open>A wait while its session works: no refusal, and the streak in the counts.\<close>

fun watch_session ::
    "(jsstring \<Rightarrow> jsstring) \<Rightarrow> counts \<Rightarrow> jsstring \<Rightarrow> (json \<times> bool) list \<Rightarrow> (loop_verdict option \<times> nudge option) list" where
  "watch_session num m t [] = []"
| "watch_session num m t ((a, p) # rest) =
     (let (v, m1) = countToolCall num m t a;
          (n, m2) = noteWatchProgress num m1 t a \<lparr>progressed = p, wr_state = Watching\<rparr>
      in (v, n) # watch_session num m2 t rest)"

text \<open>Which waits of a row end in a nudge, given how many stalled just before.\<close>

fun stalls :: "int \<Rightarrow> bool list \<Rightarrow> bool list" where
  "stalls k [] = []"
| "stalls k (p # ps) =
     (if p then False # stalls 0 ps
      else if k + 1 \<ge> 3 then True # stalls 0 ps
      else False # stalls (k + 1) ps)"

lemma wait_then_report:
  assumes "t \<in> set WATCH_TOOL_NAMES" "m (endedKeyOf t) = None" "m (settledKeyOf num t a) = None"
    and c: "countToolCall num m t a = (v, m1)"
    and r: "noteWatchProgress num m1 t a \<lparr>progressed = p, wr_state = Watching\<rparr> = (n, m2)"
  shows "v = None \<and> m2 (endedKeyOf t) = None \<and> m2 (settledKeyOf num t a) = None \<and>
    n = (if \<not> p \<and> count_of m (streakKeyOf num t a) + 1 \<ge> 3 then Some CODING_NO_PROGRESS_NUDGE else None) \<and>
    count_of m2 (streakKeyOf num t a) =
      (if p \<or> count_of m (streakKeyOf num t a) + 1 \<ge> 3 then 0 else count_of m (streakKeyOf num t a) + 1)"
proof -
  have t: "t \<in> set OBSERVATION_TOOL_NAMES" using assms(1) by (rule tool_kinds)
  have m1: "m1 (endedKeyOf t) = None" "m1 (settledKeyOf num t a) = None" "v = None"
      "m1 (streakKeyOf num t a) = Some (count_of m (streakKeyOf num t a) + 1)"
    using c assms(1-3) t by (auto simp: countToolCall_def Let_def delete_keys_def key_defs js_simps split: if_splits)
  have "endedKeyOf t \<noteq> streakKeyOf num t a" "settledKeyOf num t a \<noteq> streakKeyOf num t a"
    by (simp_all add: key_defs js_simps)
  then show ?thesis using r assms(1) m1
    by (auto simp: noteWatchProgress_def Let_def count_of_def WATCH_STALL_THRESHOLD_def split: if_splits)
qed

text \<open>While a coding session works, no wait on it is refused however often it is repeated
  or however its arguments are written, and a nudge is given exactly at every third wait in a
  row that saw no progress since the last progress or nudge.\<close>

theorem working_waits_are_never_refused:
  assumes "t \<in> set WATCH_TOOL_NAMES" "\<forall>(a, p)\<in>set ws. session_json num a = s"
    and "m (endedKeyOf t) = None" "m (watchKeyOf num SETTLED_KEY_PREFIX t a0) = None" "session_json num a0 = s"
  shows "map fst (watch_session num m t ws) = map (\<lambda>_. None) ws \<and>
    map (\<lambda>r. snd r \<noteq> None) (watch_session num m t ws)
      = stalls (count_of m (watchKeyOf num OBSERVE_KEY_PREFIX t a0)) (map snd ws)"
  using assms
proof (induction ws arbitrary: m)
  case Nil
  then show ?case by simp
next
  case (Cons w ws)
  obtain a p where w: "w = (a, p)" by fastforce
  have key: "settledKeyOf num t a = watchKeyOf num SETTLED_KEY_PREFIX t a0"
    "streakKeyOf num t a = watchKeyOf num OBSERVE_KEY_PREFIX t a0"
    using Cons.prems w by (simp_all add: settledKeyOf_def streakKeyOf_def watchKeyOf_def)
  obtain v m1 where c: "countToolCall num m t a = (v, m1)" by fastforce
  obtain n m2 where r: "noteWatchProgress num m1 t a \<lparr>progressed = p, wr_state = Watching\<rparr> = (n, m2)" by fastforce
  note step = wait_then_report [OF Cons.prems(1) _ _ c r, unfolded key, OF Cons.prems(3,4)]
  from Cons.IH [OF Cons.prems(1) _ _ _ Cons.prems(5), of m2] Cons.prems(2) step
  show ?case by (simp add: w c r)
qed

lemma working_waits_are_never_refused_witness:
  "map (\<lambda>r. snd r \<noteq> None) (watch_session id Map.empty (js ''coding_session_wait'')
      [(wait_call, False), (wait_call, False), (JStr (json_text wait_call), False), (wait_call, False)])
     = [False, False, True, False]"
proof -
  have "session_json id (JStr (json_text wait_call)) = session_json id wait_call"
    unfolding wait_call_def by (rule double_encoded) simp
  then show ?thesis
    using working_waits_are_never_refused [of "js ''coding_session_wait''"
      "[(wait_call, False), (wait_call, False), (JStr (json_text wait_call), False), (wait_call, False)]"
      id "session_json id wait_call" Map.empty wait_call]
    by (simp add: WATCH_TOOL_NAMES_def count_of_def)
qed

section \<open>Resuming a run\<close>

text \<open>The keys a run can hold; a wait's session is not itself an object.\<close>

definition known_key :: "(jsstring \<Rightarrow> jsstring) \<Rightarrow> jsstring \<Rightarrow> bool" where
  "known_key num k \<longleftrightarrow> (\<exists>t a. wf_call num t a \<and>
     (t \<in> set WATCH_TOOL_NAMES \<longrightarrow> (\<forall>es. session_json num a \<noteq> JObj es)) \<and>
     (k = repeatKeyOf t a \<or> k = terminalKeyOf num a \<or> k = streakKeyOf num t a
       \<or> t \<in> set WATCH_TOOL_NAMES \<and> k = settledKeyOf num t a \<or> k = endedKeyOf t))"

fun plain_session :: "(jsstring \<Rightarrow> jsstring) \<Rightarrow> loop_event \<Rightarrow> bool" where
  "plain_session num (Called t a) = (t \<in> set WATCH_TOOL_NAMES \<longrightarrow> (\<forall>es. session_json num a \<noteq> JObj es))"
| "plain_session num (Reported t a r) = (t \<in> set WATCH_TOOL_NAMES \<longrightarrow> (\<forall>es. session_json num a \<noteq> JObj es))"

lemma before_colon_name: "58 \<notin> set t \<Longrightarrow> before_colon (t @ 58 # x) = t"
  by (simp add: before_colon_def takeWhile_append)

lemma starts_with_table:
  "starts_with (repeatKeyOf t a) SETTLED_KEY_PREFIX = False" "starts_with (repeatKeyOf t a) OBSERVE_KEY_PREFIX = False"
  "starts_with (endedKeyOf t) SETTLED_KEY_PREFIX = False" "starts_with (endedKeyOf t) OBSERVE_KEY_PREFIX = False"
  "starts_with (OBSERVE_KEY_PREFIX @ x) SETTLED_KEY_PREFIX = False"
  by (simp_all add: repeatKeyOf_def endedKeyOf_def prefix_defs js_simps)

lemma restored_named:
  assumes "58 \<notin> set t" "p = SETTLED_KEY_PREFIX \<or> p = OBSERVE_KEY_PREFIX"
  shows "restoredKeyOf num (p @ t @ 58 # x) =
    (if t \<notin> set WATCH_TOOL_NAMES then p @ t @ 58 # x
     else (case json_parse num x of Some (JObj es) \<Rightarrow> watchKeyOf num p t (JObj es) | _ \<Rightarrow> p @ t @ 58 # x))"
proof -
  have "List.find (starts_with (p @ t @ 58 # x)) [SETTLED_KEY_PREFIX, OBSERVE_KEY_PREFIX] = Some p"
    using assms(2) by (auto simp: starts_with_table)
  then show ?thesis by (simp add: restoredKeyOf_def before_colon_name [OF assms(1)] Let_def split: option.split json.split)
qed

lemma known_key_restored:
  assumes "known_key num k"
  shows "restoredKeyOf num k = k \<and> (\<exists>p\<in>set RESTORED_KEY_PREFIXES. starts_with k p)"
proof -
  obtain t a where c: "58 \<notin> set t" "wf_json num (session_json num a)"
    and plain: "t \<in> set WATCH_TOOL_NAMES \<Longrightarrow> \<forall>es. session_json num a \<noteq> JObj es"
    and k: "k = repeatKeyOf t a \<or> k = terminalKeyOf num a \<or> k = streakKeyOf num t a
       \<or> t \<in> set WATCH_TOOL_NAMES \<and> k = settledKeyOf num t a \<or> k = endedKeyOf t"
    using assms unfolding known_key_def wf_call_def by blast
  have watch: "restoredKeyOf num (p @ t @ 58 # json_text (session_json num a)) = p @ t @ 58 # json_text (session_json num a)"
    if "t \<in> set WATCH_TOOL_NAMES" "p = SETTLED_KEY_PREFIX \<or> p = OBSERVE_KEY_PREFIX" for p
    using plain [OF that(1)]
    by (simp add: restored_named [OF c(1) that(2)] json_parse_text [OF c(2)] split: json.split)
  have look: "restoredKeyOf num (OBSERVE_KEY_PREFIX @ t @ 58 # x) = OBSERVE_KEY_PREFIX @ t @ 58 # x"
    if "t \<notin> set WATCH_TOOL_NAMES" for x
    using that by (simp add: restored_named [OF c(1)])
  have plain_key: "restoredKeyOf num k' = k'"
    if "starts_with k' SETTLED_KEY_PREFIX = False" "starts_with k' OBSERVE_KEY_PREFIX = False" for k'
    using that by (simp add: restoredKeyOf_def)
  have "restoredKeyOf num k = k"
    using k
  proof (elim disjE conjE)
    assume "k = streakKeyOf num t a"
    then show ?thesis using watch look
      by (cases "t \<in> set WATCH_TOOL_NAMES") (simp_all add: streakKeyOf_def watchKeyOf_def)
  next
    assume "t \<in> set WATCH_TOOL_NAMES" "k = settledKeyOf num t a"
    then show ?thesis using watch by (simp add: settledKeyOf_def watchKeyOf_def)
  qed (simp_all add: plain_key starts_with_table terminalKeyOf_apart)
  moreover have "\<exists>p\<in>set RESTORED_KEY_PREFIXES. starts_with k p"
    using k by (auto simp: RESTORED_KEY_PREFIXES_def repeatKeyOf_def terminalKeyOf_def streakKeyOf_def
        settledKeyOf_def endedKeyOf_def watchKeyOf_def)
  ultimately show ?thesis by blast
qed

lemma call_keys:
  "snd (countToolCall num m t a) k \<noteq> None \<Longrightarrow>
     m k \<noteq> None \<or> k = repeatKeyOf t a \<or> k = terminalKeyOf num a \<or> k = streakKeyOf num t a"
  by (auto simp: countToolCall_def Let_def delete_keys_def repeatKeyOf_def terminalKeyOf_def split: if_splits)

lemma report_keys:
  "snd (noteWatchProgress num m t a r) k \<noteq> None \<Longrightarrow>
     m k \<noteq> None \<or> t \<in> set WATCH_TOOL_NAMES \<and>
       (k = settledKeyOf num t a \<or> k = streakKeyOf num t a \<or> k = endedKeyOf t)"
  by (auto simp: noteWatchProgress_def Let_def split: if_splits option.splits)

lemma counts_known:
  "\<forall>e\<in>set h. wf_event num e \<and> plain_session num e \<Longrightarrow> counts_after num h k \<noteq> None \<Longrightarrow> known_key num k"
proof (induction h)
  case Nil
  then show ?case by (simp add: counts_after_def)
next
  case (Cons e h)
  show ?case
  proof (cases e)
    case (Called t a)
    then have "snd (countToolCall num (counts_after num h) t a) k \<noteq> None"
      using Cons.prems(2) by (simp add: counts_after_def)
    from call_keys [OF this] show ?thesis
      using Cons Called unfolding known_key_def by auto
  next
    case (Reported t a r)
    then have "snd (noteWatchProgress num (counts_after num h) t a r) k \<noteq> None"
      using Cons.prems(2) by (simp add: counts_after_def)
    from report_keys [OF this] show ?thesis
      using Cons Reported unfolding known_key_def by auto
  qed
qed

lemma fold_entries:
  "distinct (map fst es) \<Longrightarrow> \<forall>(k, n)\<in>set es. f k = k \<Longrightarrow>
     fold (\<lambda>(k, n) m. m(f k \<mapsto> n)) es m = m ++ map_of es"
proof (induction es arbitrary: m)
  case (Cons e es)
  obtain k n where e: "e = (k, n)" by fastforce
  have "map_of es k = None" using Cons.prems(1) e by (simp add: map_of_eq_None_iff)
  then show ?case using Cons.IH [of "m(k \<mapsto> n)"] Cons.prems e
    by (auto simp: map_add_def fun_eq_iff split: option.split)
qed simp

text \<open>A checkpoint loses nothing: the counts of a run, saved as entries and restored, are
  the same counts, so a resumed run refuses exactly what the run itself would have refused
  (for waits whose session is not written as an object).\<close>

theorem restore_keeps_counts:
  assumes "\<forall>e\<in>set h. wf_event num e \<and> plain_session num e"
    and "distinct (map fst saved)" "map_of saved = counts_after num h"
  shows "restoreLoopCounts num (Some saved) = counts_after num h"
proof -
  have known: "known_key num k" if "(k, n) \<in> set saved" for k n
    using counts_known [OF assms(1), of k] assms(3) that
    by (metis map_of_eq_None_iff image_eqI fst_conv)
  have "filter (\<lambda>(k, n). \<exists>p\<in>set RESTORED_KEY_PREFIXES. starts_with k p) saved = saved"
    using known known_key_restored by (fastforce intro: filter_True)
  moreover have "fold (\<lambda>(k, n) m. m(restoredKeyOf num k \<mapsto> n)) saved Map.empty = Map.empty ++ map_of saved"
    using assms(2) known known_key_restored by (intro fold_entries) blast+
  ultimately show ?thesis using assms(3) by (simp add: restoreLoopCounts_def)
qed

lemma restore_keeps_counts_witness:
  "restoreLoopCounts id (Some [(repeatKeyOf (js ''web_search'') lookup_call, 1)]) (repeatKeyOf (js ''web_search'') lookup_call)
     = Some 1"
proof -
  let ?k = "repeatKeyOf (js ''web_search'') lookup_call"
  have "counts_after id [Called (js ''web_search'') lookup_call] = [?k \<mapsto> 1]"
    by (auto simp: counts_after_def call_defs key_defs repeatKeyOf_def sample_calls)
  then show ?thesis
    using restore_keeps_counts [of "[Called (js ''web_search'') lookup_call]" id "[(?k, 1)]"]
    by (simp add: sample_calls)
qed

end
