(* ===== verification/ToolPolicy.thy ===== *)
theory ToolPolicy
  imports Json
begin

text \<open>
  Which builtin tools a run may call and which of them the model sees
  (\<open>worker/src/run/tool-policy.ts\<close>, \<open>worker/src/run/builtin-toolset-deferred.ts\<close>): the
  per-call authorization with its reasons, the set of tools a run is offered, and the
  deferred view that shows some tools in full and the others as stubs.

  A tool definition keeps the fields these two files read; an absent optional flag is
  \<open>False\<close>.  A \<open>ReadonlySet\<close> option that may be absent is a set option.  The inline limit
  read from the environment is an argument.
\<close>

section \<open>Definitions, policies and options\<close>

record tool_definition =
  td_id :: jsstring
  td_summary :: jsstring
  td_description :: jsstring
  td_parameters :: json
  personalAssistantOnly :: bool
  identityDelegatedOnly :: bool
  projectDelegatedOnly :: bool
  projectOperator :: bool
  requiresLiveRequester :: bool
  requiresExplicitGrant :: bool

type_synonym tool_policy = "(jsstring \<rightharpoonup> bool) option"

datatype agent_kind = PersonalAssistant | SharedAgent

datatype denial_reason = AgentPolicyDenied | GlobalAgentHandoffDenied | LiveRequesterRequired
  | ParentAgentSubtaskDenied | PersonalAssistantOnlyTool | ToolNotGranted | UnknownTool

datatype authorization = Allowed | Denied denial_reason

record auth_options =
  projectDelegatedToolIds :: "jsstring set option"
  identityToolIds :: "jsstring set option"
  projectOperatorToolIds :: "jsstring set option"
  liveRequester :: "bool option"
  agentSystemSlug :: "jsstring option"

definition no_options :: auth_options where
  "no_options = \<lparr>projectDelegatedToolIds = None, identityToolIds = None, projectOperatorToolIds = None,
     liveRequester = None, agentSystemSlug = None\<rparr>"

text \<open>\<open>set?.has(id)\<close> taken as a condition, and the truth value of an optional string.\<close>

definition opt_has :: "'a set option \<Rightarrow> 'a \<Rightarrow> bool" where
  "opt_has s x = (case s of None \<Rightarrow> False | Some A \<Rightarrow> x \<in> A)"

definition truthy :: "jsstring option \<Rightarrow> bool" where
  "truthy s = (case s of None \<Rightarrow> False | Some t \<Rightarrow> t \<noteq> [])"

definition AGENT_HANDOFF_TOOL_ID :: jsstring where
  "AGENT_HANDOFF_TOOL_ID = js ''agent_handoff''"

definition SUBTASK_CHILD_DENIED_TOOL_IDS :: "jsstring list" where
  "SUBTASK_CHILD_DENIED_TOOL_IDS = [js ''spawn_subtask'', AGENT_HANDOFF_TOOL_ID]"

definition PA_PRESENCE_PRIVATE_READ_TOOL_IDS :: "jsstring list" where
  "PA_PRESENCE_PRIVATE_READ_TOOL_IDS =
     [js ''attachment_list'', js ''attachment_read'', js ''authored_message_search'',
      js ''kb_comments_list'', js ''kb_list'', js ''kb_page_diff'', js ''kb_page_read'',
      js ''kb_search'', js ''message_search'', js ''message_edit'', js ''message_delete'',
      js ''react'', js ''send_message'', js ''team_search'']"

definition isPersonalAssistantPresenceRun :: "agent_kind \<Rightarrow> jsstring option \<Rightarrow> jsstring option \<Rightarrow> bool" where
  "isPersonalAssistantPresenceRun kind principalUserId channel_type \<longleftrightarrow>
     channel_type \<noteq> Some (js ''personal_assistant'') \<and> (kind = PersonalAssistant \<or> principalUserId \<noteq> None)"

definition isWithheldFromPersonalAssistantPresence :: "tool_definition \<Rightarrow> bool" where
  "isWithheldFromPersonalAssistantPresence tool \<longleftrightarrow>
     personalAssistantOnly tool \<or> td_id tool \<in> set PA_PRESENCE_PRIVATE_READ_TOOL_IDS"

definition policy_says :: "tool_policy \<Rightarrow> jsstring \<Rightarrow> bool \<Rightarrow> bool" where
  "policy_says policy tid b = (case policy of None \<Rightarrow> False | Some p \<Rightarrow> p tid = Some b)"

definition hasPolicyDeny :: "tool_policy \<Rightarrow> jsstring \<Rightarrow> bool" where
  "hasPolicyDeny policy tid = policy_says policy tid False"

section \<open>Authorization of one call\<close>

definition authorizeToolCall ::
    "jsstring \<Rightarrow> jsstring set \<Rightarrow> tool_definition list \<Rightarrow> tool_policy \<Rightarrow> jsstring option
      \<Rightarrow> agent_kind \<Rightarrow> auth_options \<Rightarrow> authorization" where
  "authorizeToolCall tid enabled defs policy parent kind opts =
     (case List.find (\<lambda>t. td_id t = tid) defs of
        None \<Rightarrow> Denied UnknownTool
      | Some d \<Rightarrow>
          if hasPolicyDeny policy tid then Denied AgentPolicyDenied
          else
            (let operatorAdmitted = (projectOperator d \<and> opt_has (projectOperatorToolIds opts) tid)
             in if personalAssistantOnly d
                   \<and> \<not> (kind = PersonalAssistant \<and> \<not> identityDelegatedOnly d)
                   \<and> \<not> opt_has (identityToolIds opts) tid
                   \<and> \<not> (projectDelegatedOnly d \<and> opt_has (projectDelegatedToolIds opts) tid)
                   \<and> \<not> operatorAdmitted
                then Denied PersonalAssistantOnlyTool
                else if requiresLiveRequester d \<and> liveRequester opts \<noteq> Some True
                then Denied LiveRequesterRequired
                else if requiresExplicitGrant d \<and> \<not> policy_says policy tid True \<and> \<not> operatorAdmitted
                then Denied ToolNotGranted
                else if truthy parent \<and> tid \<in> set SUBTASK_CHILD_DENIED_TOOL_IDS
                then Denied ParentAgentSubtaskDenied
                else if tid = AGENT_HANDOFF_TOOL_ID \<and> truthy (agentSystemSlug opts)
                then Denied GlobalAgentHandoffDenied
                else if tid \<notin> enabled then Denied ToolNotGranted
                else Allowed))"

section \<open>The deferred view\<close>

record tool_descriptor =
  toolName :: jsstring
  d_description :: jsstring
  inputSchema :: json

definition BUILTIN_TOOL_SPEC_NAME :: jsstring where
  "BUILTIN_TOOL_SPEC_NAME = js ''tool_spec''"

definition BUILTIN_HOT_TOOL_IDS :: "jsstring list" where
  "BUILTIN_HOT_TOOL_IDS = [js ''react'', js ''web_search'', js ''web_fetch'', js ''team_search'',
     js ''message_search'', js ''people_search'', js ''channel_find'', js ''nessie_link'',
     js ''delegate'', js ''kb_document_compose'', js ''kb_document_edit'']"

definition BUILTIN_PROMOTED_SCHEMA_BUDGET_CHARS :: nat where
  "BUILTIN_PROMOTED_SCHEMA_BUDGET_CHARS = 24000"

definition BUILTIN_STUB_INPUT_SCHEMA :: json where
  "BUILTIN_STUB_INPUT_SCHEMA = JObj
     [(js ''type'', JStr (js ''object'')), (js ''additionalProperties'', JBool True),
      (js ''description'', JStr (js ''Call tool_spec first for the exact argument schema.''))]"

definition TOOL_SPEC_DESCRIPTOR :: tool_descriptor where
  "TOOL_SPEC_DESCRIPTOR = \<lparr>toolName = BUILTIN_TOOL_SPEC_NAME,
     d_description = js ''Return the full descriptions and exact argument schemas for tools available in this run. ''
       @ js ''This lookup does not change the available tool list.'',
     inputSchema = JObj
       [(js ''type'', JStr (js ''object'')),
        (js ''properties'', JObj [(js ''names'', JObj
           [(js ''type'', JStr (js ''array'')),
            (js ''items'', JObj [(js ''type'', JStr (js ''string''))]),
            (js ''description'', JStr (js ''Exact tool names from the current tool list to inspect.''))])]),
        (js ''required'', JArr [JStr (js ''names'')]),
        (js ''additionalProperties'', JBool False)]\<rparr>"

definition fullDescriptor :: "tool_definition \<Rightarrow> tool_descriptor" where
  "fullDescriptor t = \<lparr>toolName = td_id t, d_description = td_description t, inputSchema = td_parameters t\<rparr>"

definition stubDescriptor :: "tool_definition \<Rightarrow> tool_descriptor" where
  "stubDescriptor t = \<lparr>toolName = td_id t, d_description = td_summary t, inputSchema = BUILTIN_STUB_INPUT_SCHEMA\<rparr>"

definition descriptor_json :: "tool_descriptor \<Rightarrow> json" where
  "descriptor_json d = JObj [(js ''toolName'', JStr (toolName d)),
     (js ''description'', JStr (d_description d)), (js ''inputSchema'', inputSchema d)]"

definition descriptor_cost :: "tool_definition \<Rightarrow> nat" where
  "descriptor_cost t = length (json_text (descriptor_json (fullDescriptor t)))"

text \<open>A \<open>Map\<close> built from entries: the last entry of a key is the one it holds.\<close>

definition map_of_last :: "('k \<times> 'v) list \<Rightarrow> 'k \<rightharpoonup> 'v" where
  "map_of_last es = map_of (rev es)"

record toolset_promotion =
  promotedIds :: "jsstring list option"
  promotedSchemaBudgetChars :: "nat option"

fun promote_loop ::
    "(jsstring \<rightharpoonup> tool_definition) \<Rightarrow> nat \<Rightarrow> jsstring list \<Rightarrow> nat \<Rightarrow> jsstring list \<Rightarrow> jsstring list" where
  "promote_loop byId budget [] spent promoted = promoted"
| "promote_loop byId budget (i # ids) spent promoted =
     (case byId i of None \<Rightarrow> promote_loop byId budget ids spent promoted
      | Some tool \<Rightarrow>
          if i \<in> set BUILTIN_HOT_TOOL_IDS \<or> i \<in> set promoted then promote_loop byId budget ids spent promoted
          else if spent + descriptor_cost tool > budget then promote_loop byId budget ids spent promoted
          else promote_loop byId budget ids (spent + descriptor_cost tool) (promoted @ [i]))"

definition promotedWithinBudget :: "tool_definition list \<Rightarrow> toolset_promotion \<Rightarrow> jsstring list" where
  "promotedWithinBudget defs promotion =
     promote_loop (map_of_last (map (\<lambda>t. (td_id t, t)) defs))
       (case promotedSchemaBudgetChars promotion of None \<Rightarrow> BUILTIN_PROMOTED_SCHEMA_BUDGET_CHARS | Some b \<Rightarrow> b)
       (case promotedIds promotion of None \<Rightarrow> [] | Some ids \<Rightarrow> ids) 0 []"

record toolset_view =
  descriptors :: "tool_descriptor list"
  stubbedIds :: "jsstring set"
  toolSpecEnabled :: bool

definition buildBuiltinToolsetView ::
    "tool_definition list \<Rightarrow> int \<Rightarrow> toolset_promotion \<Rightarrow> toolset_view" where
  "buildBuiltinToolsetView defs inlineToolLimit promotion =
     (if int (length defs) \<le> inlineToolLimit
      then \<lparr>descriptors = map fullDescriptor defs, stubbedIds = {}, toolSpecEnabled = False\<rparr>
      else
        (let promoted = promotedWithinBudget defs promotion;
             stubbed = set (map td_id (filter (\<lambda>t. td_id t \<notin> set BUILTIN_HOT_TOOL_IDS
                             \<and> td_id t \<notin> set promoted) defs));
             enabled = (stubbed \<noteq> {})
         in \<lparr>descriptors = map (\<lambda>t. if td_id t \<in> stubbed then stubDescriptor t else fullDescriptor t) defs
               @ (if enabled then [TOOL_SPEC_DESCRIPTOR] else []),
             stubbedIds = stubbed, toolSpecEnabled = enabled\<rparr>))"

section \<open>Looking up schemas\<close>

record tool_result =
  inputSummary :: jsstring
  result_output :: jsstring
  result_success :: bool
  invalidArguments :: bool

fun requested_names :: "json \<Rightarrow> jsstring list" where
  "requested_names (JObj es) =
     (case map_of es (js ''names'') of
        Some (JArr xs) \<Rightarrow> List.map_filter (\<lambda>x. case x of JStr s \<Rightarrow> Some s | _ \<Rightarrow> None) xs
      | _ \<Rightarrow> [])"
| "requested_names _ = []"

text \<open>\<open>ns.name\<close> means \<open>name\<close> when only that is known; a leading dot is not a separator.\<close>

definition resolveName :: "(jsstring \<rightharpoonup> tool_descriptor) \<Rightarrow> jsstring \<Rightarrow> jsstring" where
  "resolveName byName n =
     (if byName n \<noteq> None then n
      else (let sep = length (takeWhile (\<lambda>c. c \<noteq> 46) n);
                bare = (if 46 \<in> set n \<and> sep > 0 then drop (sep + 1) n else n)
            in if byName bare \<noteq> None then bare else n))"

definition spec_entry :: "tool_descriptor \<Rightarrow> json" where
  "spec_entry d = JObj [(js ''name'', JStr (toolName d)), (js ''description'', JStr (d_description d)),
     (js ''inputSchema'', inputSchema d)]"

definition spec_answer :: "(jsstring \<rightharpoonup> tool_descriptor) \<Rightarrow> jsstring list \<Rightarrow> jsstring list \<times> tool_descriptor list \<times> jsstring list" where
  "spec_answer byName requested =
     (let resolved = map (resolveName byName) requested
      in (resolved, List.map_filter byName resolved, filter (\<lambda>n. byName n = None) resolved))"

definition executeToolSpec :: "json \<Rightarrow> tool_definition list \<Rightarrow> tool_descriptor list \<Rightarrow> tool_result" where
  "executeToolSpec args allowedDefinitions availableDescriptors =
     (let requested = requested_names args;
          byName = map_of_last (map (\<lambda>d. (toolName d, d)) availableDescriptors
                     @ map (\<lambda>t. (td_id t, fullDescriptor t)) allowedDefinitions);
          (resolved, tools, unknownNames) = spec_answer byName requested
      in \<lparr>inputSummary = js ''names='' @ nat_text (length requested),
          result_output = json_pretty (JObj ((js ''tools'', JArr (map spec_entry tools)) #
            (if unknownNames = [] then []
             else [(js ''unknownNames'', JArr (map JStr unknownNames)),
                   (js ''message'', JStr (js ''Unknown or unavailable tool name(s). Use exact names from the current tool list.''))]))),
          result_success = True, invalidArguments = False\<rparr>)"

definition appendStubbedBuiltinSchema ::
    "jsstring \<Rightarrow> tool_result \<Rightarrow> jsstring set \<Rightarrow> tool_definition list \<Rightarrow> tool_result" where
  "appendStubbedBuiltinSchema tool result stubbed defs =
     (if result_success result \<or> \<not> invalidArguments result \<or> tool \<notin> stubbed then result
      else (case List.find (\<lambda>t. td_id t = tool) defs of
              None \<Rightarrow> result
            | Some d \<Rightarrow> result\<lparr>result_output := result_output result @ [10, 10] @ js ''Exact argument schema for ''
                @ tool @ [58, 10] @ json_pretty (td_parameters d)\<rparr>))"

section \<open>The tools of a run\<close>

record resolve_options = auth_options +
  inlineToolLimit :: "int option"
  isPersonalAssistantPresence :: bool
  withheldToolIds :: "jsstring set option"

text \<open>The options the per-call gate is given: the absent ones stay absent, a false
  \<open>liveRequester\<close> and an empty slug are left out.\<close>

definition gate_options :: "resolve_options \<Rightarrow> auth_options" where
  "gate_options o' = \<lparr>projectDelegatedToolIds = projectDelegatedToolIds o',
     identityToolIds = identityToolIds o', projectOperatorToolIds = projectOperatorToolIds o',
     liveRequester = (if liveRequester o' = Some True then Some True else None),
     agentSystemSlug = (if truthy (agentSystemSlug o') then agentSystemSlug o' else None)\<rparr>"

record resolved_toolset =
  allowedIds :: "jsstring set"
  view :: toolset_view

definition tool_allowed ::
    "jsstring set \<Rightarrow> tool_definition list \<Rightarrow> tool_policy \<Rightarrow> jsstring option \<Rightarrow> agent_kind
      \<Rightarrow> resolve_options \<Rightarrow> tool_definition \<Rightarrow> bool" where
  "tool_allowed enabled defs policy parent kind opts tool \<longleftrightarrow>
     \<not> opt_has (withheldToolIds opts) (td_id tool) \<and>
     \<not> (isPersonalAssistantPresence opts \<and> isWithheldFromPersonalAssistantPresence tool) \<and>
     authorizeToolCall (td_id tool) enabled defs policy parent kind (gate_options opts) = Allowed"

definition resolveAgentTools ::
    "int \<Rightarrow> jsstring set \<Rightarrow> tool_definition list \<Rightarrow> tool_policy \<Rightarrow> jsstring option \<Rightarrow> agent_kind
      \<Rightarrow> resolve_options \<Rightarrow> resolved_toolset" where
  "resolveAgentTools env_limit enabled defs policy parent kind opts =
     (let ids = set (map td_id (filter (tool_allowed enabled defs policy parent kind opts) defs));
          allowedDefinitions = filter (\<lambda>t. td_id t \<in> ids) defs;
          lent = projectDelegatedToolIds opts;
          operator = projectOperatorToolIds opts;
          promoted = map td_id
            (filter (\<lambda>t. opt_has lent (td_id t)) allowedDefinitions
             @ filter (\<lambda>t. \<not> opt_has lent (td_id t)
                 \<and> (policy_says policy (td_id t) True \<or> opt_has operator (td_id t))) allowedDefinitions)
      in \<lparr>allowedIds = ids,
          view = buildBuiltinToolsetView allowedDefinitions
            (case inlineToolLimit opts of None \<Rightarrow> env_limit | Some n \<Rightarrow> n)
            \<lparr>promotedIds = Some promoted, promotedSchemaBudgetChars = None\<rparr>\<rparr>)"

section \<open>What the view shows\<close>

lemma view_descriptors:
  "descriptors (buildBuiltinToolsetView defs limit promotion) =
     map (\<lambda>t. if td_id t \<in> stubbedIds (buildBuiltinToolsetView defs limit promotion)
              then stubDescriptor t else fullDescriptor t) defs
     @ (if toolSpecEnabled (buildBuiltinToolsetView defs limit promotion) then [TOOL_SPEC_DESCRIPTOR] else [])"
  by (auto simp: buildBuiltinToolsetView_def Let_def)

lemma view_stubs:
  "stubbedIds (buildBuiltinToolsetView defs limit promotion) =
     (if int (length defs) \<le> limit then {}
      else {i \<in> td_id ` set defs. i \<notin> set BUILTIN_HOT_TOOL_IDS \<and> i \<notin> set (promotedWithinBudget defs promotion)})"
  by (auto simp: buildBuiltinToolsetView_def Let_def)

lemma view_tool_spec:
  "toolSpecEnabled (buildBuiltinToolsetView defs limit promotion) \<longleftrightarrow>
     stubbedIds (buildBuiltinToolsetView defs limit promotion) \<noteq> {}"
  by (simp add: buildBuiltinToolsetView_def Let_def)

lemma map_of_last_own:
  "distinct (map td_id defs) \<Longrightarrow>
     map_of_last (map (\<lambda>t. (td_id t, t)) defs) i = Some t \<longleftrightarrow> t \<in> set defs \<and> td_id t = i"
  unfolding map_of_last_def
  by (subst map_of_eq_Some_iff) (auto simp: comp_def simp flip: rev_map)

text \<open>The greedy walk: what it takes fits, and what it leaves behind would not have.\<close>

definition promoted_cost :: "(jsstring \<rightharpoonup> tool_definition) \<Rightarrow> jsstring list \<Rightarrow> nat" where
  "promoted_cost byId p = sum_list (map (\<lambda>i. descriptor_cost (the (byId i))) p)"

lemma promote_loop_spec:
  assumes "spent = promoted_cost byId p" "spent \<le> budget" "distinct p"
    "\<forall>i\<in>set p. byId i \<noteq> None \<and> i \<notin> set BUILTIN_HOT_TOOL_IDS"
    and "r = promote_loop byId budget ids spent p"
  shows "promoted_cost byId p \<le> promoted_cost byId r \<and> promoted_cost byId r \<le> budget \<and> distinct r \<and>
    set p \<subseteq> set r \<and> set r \<subseteq> set p \<union> set ids \<and>
    (\<forall>i\<in>set r. byId i \<noteq> None \<and> i \<notin> set BUILTIN_HOT_TOOL_IDS) \<and>
    (\<forall>i\<in>set ids. \<forall>t. byId i = Some t \<and> i \<notin> set BUILTIN_HOT_TOOL_IDS \<and> i \<notin> set r \<longrightarrow>
       budget < promoted_cost byId r + descriptor_cost t)"
  using assms
proof (induction byId budget ids spent p rule: promote_loop.induct)
  case (1 byId budget spent p)
  then show ?case by simp
next
  case (2 byId budget i ids spent p)
  show ?case
  proof (cases "byId i")
    case None
    then have "r = promote_loop byId budget ids spent p" using "2.prems"(5) by simp
    from "2.IH"(1) [OF None "2.prems"(1-4) this] show ?thesis using None by auto
  next
    case (Some tool)
    consider (skip) "i \<in> set BUILTIN_HOT_TOOL_IDS \<or> i \<in> set p"
      | (big) "\<not> (i \<in> set BUILTIN_HOT_TOOL_IDS \<or> i \<in> set p)" "spent + descriptor_cost tool > budget"
      | (take) "\<not> (i \<in> set BUILTIN_HOT_TOOL_IDS \<or> i \<in> set p)" "\<not> spent + descriptor_cost tool > budget"
      by blast
    then show ?thesis
    proof cases
      case skip
      then have "r = promote_loop byId budget ids spent p" using "2.prems"(5) Some by simp
      from "2.IH"(2) [OF Some skip "2.prems"(1-4) this] show ?thesis using skip by auto
    next
      case big
      then have "r = promote_loop byId budget ids spent p" using "2.prems"(5) Some by simp
      from "2.IH"(3) [OF Some big "2.prems"(1-4) this] show ?thesis using big Some "2.prems"(1) by auto
    next
      case take
      then have r: "r = promote_loop byId budget ids (spent + descriptor_cost tool) (p @ [i])"
        using "2.prems"(5) Some by simp
      have c: "spent + descriptor_cost tool = promoted_cost byId (p @ [i])"
        using "2.prems"(1) Some by (simp add: promoted_cost_def)
      have p: "spent + descriptor_cost tool \<le> budget" "distinct (p @ [i])"
        "\<forall>j\<in>set (p @ [i]). byId j \<noteq> None \<and> j \<notin> set BUILTIN_HOT_TOOL_IDS"
        using take Some "2.prems"(3,4) by simp_all
      have "promoted_cost byId p \<le> promoted_cost byId (p @ [i])" using c "2.prems"(1) by simp
      with "2.IH"(4) [OF Some take c p r] show ?thesis by (auto dest: order_trans)
    qed
  qed
qed

section \<open>Properties\<close>

lemma find_own_id:
  "distinct (map td_id defs) \<Longrightarrow> t \<in> set defs \<Longrightarrow> List.find (\<lambda>x. td_id x = td_id t) defs = Some t"
  by (induction defs) auto

lemma gate_selectors:
  "projectDelegatedToolIds (gate_options o') = projectDelegatedToolIds o'"
  "identityToolIds (gate_options o') = identityToolIds o'"
  "projectOperatorToolIds (gate_options o') = projectOperatorToolIds o'"
  "liveRequester (gate_options o') = Some True \<longleftrightarrow> liveRequester o' = Some True"
  "truthy (agentSystemSlug (gate_options o')) \<longleftrightarrow> truthy (agentSystemSlug o')"
  by (simp_all add: gate_options_def truthy_def)

lemma authorize_gate_options:
  "authorizeToolCall tid enabled defs policy parent kind (gate_options opts)
     = authorizeToolCall tid enabled defs policy parent kind (auth_options.truncate opts)"
proof (cases "List.find (\<lambda>t. td_id t = tid) defs")
  case (Some d)
  have t: "projectDelegatedToolIds (auth_options.truncate opts) = projectDelegatedToolIds opts"
    "identityToolIds (auth_options.truncate opts) = identityToolIds opts"
    "projectOperatorToolIds (auth_options.truncate opts) = projectOperatorToolIds opts"
    "liveRequester (auth_options.truncate opts) = liveRequester opts"
    "agentSystemSlug (auth_options.truncate opts) = agentSystemSlug opts"
    by (simp_all add: auth_options.defs)
  show ?thesis unfolding authorizeToolCall_def Some option.case Let_def gate_selectors t ..
qed (simp add: authorizeToolCall_def)

text \<open>C39: Exactly the calls that pass every gate are allowed.  A call is allowed when its tool
  is defined, enabled and not denied by the agent's policy; is not one that would start a
  sub-agent again, nor the handoff of a global agent; runs for a live person if it is standing
  work; if it needs a grant, has it from the policy or as a project operator's verb; and, if it
  acts as the user, is called by the Personal Assistant (unless the tool was moved to a
  specialist) or was lent to the run by name - to its identity, to its project turn or to its
  operator grant - whatever the policy says.\<close>

theorem authorized_calls_are_bounded:
  "authorizeToolCall tid enabled defs policy parent kind opts = Allowed \<longleftrightarrow>
   (\<exists>d. List.find (\<lambda>t. td_id t = tid) defs = Some d \<and> tid \<in> enabled \<and> \<not> policy_says policy tid False \<and>
    (truthy parent \<longrightarrow> tid \<notin> {js ''spawn_subtask'', js ''agent_handoff''}) \<and>
    (truthy (agentSystemSlug opts) \<longrightarrow> tid \<noteq> js ''agent_handoff'') \<and>
    (requiresLiveRequester d \<longrightarrow> liveRequester opts = Some True) \<and>
    (requiresExplicitGrant d \<longrightarrow> policy_says policy tid True
       \<or> projectOperator d \<and> opt_has (projectOperatorToolIds opts) tid) \<and>
    (personalAssistantOnly d \<longrightarrow> kind = PersonalAssistant \<and> \<not> identityDelegatedOnly d
       \<or> opt_has (identityToolIds opts) tid \<or> projectDelegatedOnly d \<and> opt_has (projectDelegatedToolIds opts) tid
       \<or> projectOperator d \<and> opt_has (projectOperatorToolIds opts) tid))"
proof (cases "List.find (\<lambda>t. td_id t = tid) defs")
  case None
  then show ?thesis by (simp add: authorizeToolCall_def)
next
  case (Some d)
  have ids: "tid \<in> set SUBTASK_CHILD_DENIED_TOOL_IDS \<longleftrightarrow> tid \<in> {js ''spawn_subtask'', js ''agent_handoff''}"
    "AGENT_HANDOFF_TOOL_ID = js ''agent_handoff''"
    by (simp_all add: SUBTASK_CHILD_DENIED_TOOL_IDS_def AGENT_HANDOFF_TOOL_ID_def)
  show ?thesis unfolding authorizeToolCall_def Some option.case Let_def hasPolicyDeny_def ids option.inject
    by (simp split: if_split_asm) blast
qed

definition board_tool :: tool_definition where
  "board_tool = \<lparr>td_id = js ''ticket_board'', td_summary = js ''Board'', td_description = js ''Manage a board.'',
     td_parameters = JObj [], personalAssistantOnly = True, identityDelegatedOnly = False,
     projectDelegatedOnly = True, projectOperator = False, requiresLiveRequester = False,
     requiresExplicitGrant = False\<rparr>"

text \<open>The board tool lent to a shared agent is allowed, not lent it is not, and a Personal
  Assistant may call it with nothing lent.\<close>

lemma authorized_calls_are_bounded_witness:
  "authorizeToolCall (js ''ticket_board'') {js ''ticket_board''} [board_tool] None None SharedAgent
     (no_options\<lparr>projectDelegatedToolIds := Some {js ''ticket_board''}\<rparr>) = Allowed \<and>
   authorizeToolCall (js ''ticket_board'') {js ''ticket_board''} [board_tool] None None SharedAgent no_options \<noteq> Allowed \<and>
   authorizeToolCall (js ''ticket_board'') {js ''ticket_board''} [board_tool] None None PersonalAssistant no_options = Allowed"
  unfolding authorized_calls_are_bounded
  by (simp add: board_tool_def policy_says_def opt_has_def no_options_def truthy_def js_simps)

text \<open>The model is shown exactly the tools it may call: the descriptors of a run list, in
  definition order and each once, the tools the per-call gate allows under the same options
  and the run does not withhold, as a stub or in full; nothing is stubbed when they fit the
  inline limit, the stubs are among the allowed tools and never hot, and the schema lookup is
  offered exactly when there is a stub.\<close>

theorem resolveAgentTools_offers_allowed:
  fixes defs :: "tool_definition list" and limit :: int and enabled :: "jsstring set"
    and policy :: tool_policy and parent :: "jsstring option" and kind :: agent_kind
    and opts :: resolve_options
  assumes "distinct (map td_id defs)"
  defines "r \<equiv> resolveAgentTools limit enabled defs policy parent kind opts"
    and "offered \<equiv> filter (\<lambda>t. authorizeToolCall (td_id t) enabled defs policy parent kind (auth_options.truncate opts) = Allowed
        \<and> \<not> opt_has (withheldToolIds opts) (td_id t)
        \<and> \<not> (isPersonalAssistantPresence opts \<and> isWithheldFromPersonalAssistantPresence t)) defs"
  shows "allowedIds r = td_id ` set offered \<and>
    descriptors (view r) = map (\<lambda>t. if td_id t \<in> stubbedIds (view r) then stubDescriptor t else fullDescriptor t) offered
      @ (if toolSpecEnabled (view r) then [TOOL_SPEC_DESCRIPTOR] else []) \<and>
    stubbedIds (view r) \<subseteq> allowedIds r - set BUILTIN_HOT_TOOL_IDS \<and>
    (toolSpecEnabled (view r) \<longleftrightarrow> stubbedIds (view r) \<noteq> {}) \<and>
    (int (length offered) \<le> (case inlineToolLimit opts of None \<Rightarrow> limit | Some n \<Rightarrow> n) \<longrightarrow> stubbedIds (view r) = {})"
proof -
  have allowed: "tool_allowed enabled defs policy parent kind opts t \<longleftrightarrow> t \<in> set offered" if "t \<in> set defs" for t
    using that by (auto simp: offered_def tool_allowed_def authorize_gate_options)
  have ids: "allowedIds r = td_id ` set offered"
    using allowed by (auto simp: r_def resolveAgentTools_def Let_def offered_def)
  have "filter (\<lambda>t. td_id t \<in> td_id ` set offered) defs = offered"
    using assms(1) unfolding offered_def
    by (intro filter_cong [OF refl, THEN trans [OF _ refl]]) (auto simp: distinct_map inj_on_def)
  then obtain prom where v: "view r = buildBuiltinToolsetView offered
      (case inlineToolLimit opts of None \<Rightarrow> limit | Some n \<Rightarrow> n) prom"
    using ids by (simp add: r_def resolveAgentTools_def Let_def)
  show ?thesis unfolding v
    by (intro conjI ids view_descriptors view_tool_spec) (auto simp: ids view_stubs)
qed

definition sample_options :: resolve_options where
  "sample_options = \<lparr>projectDelegatedToolIds = Some {js ''ticket_board''}, identityToolIds = None,
     projectOperatorToolIds = None, liveRequester = None, agentSystemSlug = None,
     inlineToolLimit = Some 5, isPersonalAssistantPresence = False, withheldToolIds = None\<rparr>"

lemma resolveAgentTools_offers_allowed_witness:
  "descriptors (view (resolveAgentTools 20 {js ''ticket_board''} [board_tool] None None SharedAgent sample_options))
     = [fullDescriptor board_tool]"
proof -
  have a: "authorizeToolCall (td_id board_tool) {js ''ticket_board''} [board_tool] None None SharedAgent
      (auth_options.truncate sample_options) = Allowed"
    by (simp add: authorizeToolCall_def board_tool_def hasPolicyDeny_def policy_says_def opt_has_def
        sample_options_def auth_options.defs truthy_def AGENT_HANDOFF_TOOL_ID_def js_simps)
  have w: "\<not> opt_has (withheldToolIds sample_options) (td_id board_tool)"
    "\<not> isPersonalAssistantPresence sample_options" "inlineToolLimit sample_options = Some 5"
    by (simp_all add: sample_options_def opt_has_def)
  show ?thesis
    using resolveAgentTools_offers_allowed [where defs = "[board_tool]" and enabled = "{js ''ticket_board''}"
      and policy = None and parent = None and kind = SharedAgent and opts = sample_options and limit = 20] a w
    by simp
qed

lemma promoted_cost_extra:
  assumes "distinct (map td_id defs)" "distinct p" "set p \<subseteq> td_id ` set defs"
  shows "promoted_cost (map_of_last (map (\<lambda>t. (td_id t, t)) defs)) p
    = sum_list (map descriptor_cost (filter (\<lambda>t. td_id t \<in> set p) defs))"
proof -
  let ?byId = "map_of_last (map (\<lambda>t. (td_id t, t)) defs)"
  let ?extra = "filter (\<lambda>t. td_id t \<in> set p) defs"
  have own: "the (?byId (td_id t)) = t" if "t \<in> set defs" for t
    using map_of_last_own [OF assms(1), of "td_id t" t] that by simp
  have "promoted_cost ?byId p = (\<Sum>i\<in>set p. descriptor_cost (the (?byId i)))"
    unfolding promoted_cost_def using assms(2) by (rule sum_list_distinct_conv_sum_set)
  also have "set p = td_id ` set ?extra" using assms(3) by auto
  also have "(\<Sum>i\<in>td_id ` set ?extra. descriptor_cost (the (?byId i))) = (\<Sum>t\<in>set ?extra. descriptor_cost t)"
    using assms(1) own by (subst sum.reindex) (auto simp: distinct_map inj_on_def)
  also have "\<dots> = sum_list (map descriptor_cost ?extra)"
    using assms(1) by (subst sum_list_distinct_conv_sum_set) (simp_all add: distinct_map)
  finally show ?thesis .
qed

text \<open>The schemas a run's grants add to the hot set never exceed the promotion budget,
  however many tools were granted, and none of that room is wasted: a granted tool that stays
  a stub would not have fitted beside the promoted ones.\<close>

theorem promoted_schemas_bounded:
  fixes defs :: "tool_definition list" and limit :: int and ids :: "jsstring list" and budget :: nat
  assumes "distinct (map td_id defs)" "limit < int (length defs)"
  defines "v \<equiv> buildBuiltinToolsetView defs limit
      \<lparr>promotedIds = Some ids, promotedSchemaBudgetChars = Some budget\<rparr>"
    and "extra \<equiv> \<lambda>v. filter (\<lambda>t. td_id t \<notin> set BUILTIN_HOT_TOOL_IDS \<and> td_id t \<notin> stubbedIds v) defs"
  shows "td_id ` set (extra v) \<subseteq> set ids \<and> sum_list (map descriptor_cost (extra v)) \<le> budget \<and>
    (\<forall>t\<in>set defs. td_id t \<in> set ids \<and> td_id t \<in> stubbedIds v \<longrightarrow>
       budget < sum_list (map descriptor_cost (extra v)) + descriptor_cost t)"
proof -
  let ?byId = "map_of_last (map (\<lambda>t. (td_id t, t)) defs)"
  define p where "p = promote_loop ?byId budget ids 0 []"
  have spec: "promoted_cost ?byId p \<le> budget" "distinct p" "set p \<subseteq> set ids"
      "\<forall>i\<in>set p. ?byId i \<noteq> None \<and> i \<notin> set BUILTIN_HOT_TOOL_IDS"
      "\<forall>i\<in>set ids. \<forall>t. ?byId i = Some t \<and> i \<notin> set BUILTIN_HOT_TOOL_IDS \<and> i \<notin> set p \<longrightarrow>
         budget < promoted_cost ?byId p + descriptor_cost t"
    using promote_loop_spec [of 0 ?byId "[]" budget p ids] by (simp_all add: p_def promoted_cost_def)
  have own: "set p \<subseteq> td_id ` set defs"
  proof
    fix i
    assume "i \<in> set p"
    then obtain t where "?byId i = Some t" using spec(4) by blast
    then show "i \<in> td_id ` set defs" using map_of_last_own [OF assms(1), of i t] by blast
  qed
  have stubs: "stubbedIds v = {i \<in> td_id ` set defs. i \<notin> set BUILTIN_HOT_TOOL_IDS \<and> i \<notin> set p}"
    using assms(2) by (auto simp: v_def view_stubs promotedWithinBudget_def p_def)
  have e: "extra v = filter (\<lambda>t. td_id t \<in> set p) defs"
    using spec(4) by (auto simp: extra_def stubs intro: filter_cong)
  have cost: "promoted_cost ?byId p = sum_list (map descriptor_cost (extra v))"
    unfolding e by (rule promoted_cost_extra [OF assms(1) spec(2) own])
  show ?thesis
    using spec(1) [unfolded cost] spec(3) spec(5) [unfolded cost] map_of_last_own [OF assms(1)]
    by (auto simp: stubs e)
qed

lemma promoted_schemas_bounded_witness:
  "sum_list (map descriptor_cost (filter (\<lambda>t. td_id t \<notin> set BUILTIN_HOT_TOOL_IDS \<and>
     td_id t \<notin> stubbedIds (buildBuiltinToolsetView [board_tool] 0
       \<lparr>promotedIds = Some [js ''ticket_board''], promotedSchemaBudgetChars = Some 1000\<rparr>)) [board_tool])) \<le> 1000"
  using promoted_schemas_bounded [where defs = "[board_tool]" and limit = 0 and ids = "[js ''ticket_board'']"
    and budget = 1000] by simp

text \<open>A schema lookup answers every requested name: it is described or reported unknown.\<close>

lemma spec_answer_complete:
  "spec_answer byName requested = (resolved, tools, unknown) \<Longrightarrow>
     length resolved = length requested \<and> length tools + length unknown = length requested"
  by (induction requested arbitrary: resolved tools unknown)
    (auto simp: spec_answer_def Let_def map_filter_simps split: option.splits)

end
