(* ===== verification/RunBudget.thy ===== *)
theory RunBudget
  imports Prelude Complex_Main
begin

text \<open>
  The spend envelope of an agent run (\<open>worker/src/run/loop-budget.ts\<close>), the budget a run
  gets (\<open>worker/src/run/run-budget.ts\<close>) and the admission of one model call
  (\<open>worker/src/run/output-admission.ts\<close>).

  Counts, tokens, cents and milliseconds are integers.  The fractions 0.8 and 0.9, the
  cache-read weight and reported prices are exact rationals; the code computes the same
  products in double precision.  \<open>to_number\<close> stands for the reading of a number from an
  environment variable, \<open>upper\<close> for the upper-casing of a currency code.
\<close>

section \<open>Limits and usage\<close>

record budget_limits =
  maxIterations :: int
  maxToolCalls :: int
  maxWallclockMs :: int
  maxTokens :: "int option"
  maxCostCents :: "int option"
  toolTimeoutMs :: "int option"

datatype exhaustion = CostReason | IterationsReason | LoopDetectedReason | OrgBudgetBlockedReason
  | TokensReason | ToolCallsReason | WallclockReason

definition BUDGET_HEADROOM_FRACTION :: rat where "BUDGET_HEADROOM_FRACTION = 9 / 10"
definition WIND_DOWN_FRACTION :: rat where "WIND_DOWN_FRACTION = 8 / 10"
definition DEFAULT_CACHE_READ_WEIGHT :: rat where "DEFAULT_CACHE_READ_WEIGHT = 25 / 100"

record invocation_usage =
  inputTokens :: "int option"
  outputTokens :: "int option"
  usageCacheRead :: "int option"
  totalTokens :: "int option"

record reported_cost =
  amount :: rat
  currency :: jsstring

record invocation =
  inv_usage :: invocation_usage
  providerReportedCost :: "reported_cost option"

record spend_totals =
  cacheReadTokens :: int
  effectiveTokensUsed :: int
  totalCostCents :: int
  totalTokensUsed :: int

definition ZERO_SPEND :: spend_totals where
  "ZERO_SPEND = \<lparr>cacheReadTokens = 0, effectiveTokensUsed = 0, totalCostCents = 0, totalTokensUsed = 0\<rparr>"

section \<open>Metering\<close>

definition or_zero :: "int option \<Rightarrow> int" where
  "or_zero n = (case n of None \<Rightarrow> 0 | Some i \<Rightarrow> i)"

text \<open>\<open>Math.round\<close>: halves go up.\<close>

definition math_round :: "rat \<Rightarrow> int" where
  "math_round x = \<lfloor>x + 1 / 2\<rfloor>"

definition meterInvocationTokens :: "invocation_usage \<Rightarrow> rat \<Rightarrow> int" where
  "meterInvocationTokens usage weight =
     (if inputTokens usage = None \<and> outputTokens usage = None then or_zero (totalTokens usage)
      else or_zero (inputTokens usage) + or_zero (outputTokens usage)
        + math_round (weight * of_int (or_zero (usageCacheRead usage))))"

definition usdCostCents :: "(jsstring \<Rightarrow> jsstring) \<Rightarrow> invocation \<Rightarrow> int" where
  "usdCostCents upper invc =
     (case providerReportedCost invc of None \<Rightarrow> 0
      | Some cost \<Rightarrow> if upper (currency cost) \<noteq> js ''USD'' then 0 else math_round (amount cost * 100))"

definition meter_step :: "(jsstring \<Rightarrow> jsstring) \<Rightarrow> rat \<Rightarrow> spend_totals \<Rightarrow> invocation \<Rightarrow> spend_totals" where
  "meter_step upper weight totals invc =
     \<lparr>cacheReadTokens = cacheReadTokens totals + or_zero (usageCacheRead (inv_usage invc)),
      effectiveTokensUsed = effectiveTokensUsed totals + meterInvocationTokens (inv_usage invc) weight,
      totalCostCents = totalCostCents totals + usdCostCents upper invc,
      totalTokensUsed = totalTokensUsed totals + or_zero (totalTokens (inv_usage invc))\<rparr>"

definition meterSpend :: "(jsstring \<Rightarrow> jsstring) \<Rightarrow> invocation list \<Rightarrow> rat \<Rightarrow> spend_totals" where
  "meterSpend upper invocations weight = foldl (meter_step upper weight) ZERO_SPEND invocations"

section \<open>Verdicts\<close>

record budget_usage =
  u_effectiveTokens :: int
  elapsedMs :: int
  iterations :: int
  toolCallsUsed :: int
  u_costCents :: int

definition reserveOne :: "int \<Rightarrow> int" where
  "reserveOne limit = max 1 (limit - 1)"

definition windDownAt :: "int \<Rightarrow> int" where
  "windDownAt limit = max 1 (limit - 2)"

definition over_share :: "rat \<Rightarrow> int \<Rightarrow> int option \<Rightarrow> bool" where
  "over_share share used limit =
     (case limit of None \<Rightarrow> False | Some l \<Rightarrow> l > 0 \<and> of_int used \<ge> of_int l * share)"

definition overWindDownFraction :: "int \<Rightarrow> int option \<Rightarrow> bool" where
  "overWindDownFraction = over_share WIND_DOWN_FRACTION"

definition overFraction :: "int \<Rightarrow> int option \<Rightarrow> bool" where
  "overFraction = over_share BUDGET_HEADROOM_FRACTION"

definition shouldWindDown :: "budget_limits \<Rightarrow> budget_usage \<Rightarrow> bool" where
  "shouldWindDown budget usage \<longleftrightarrow>
     of_int (elapsedMs usage) \<ge> of_int (maxWallclockMs budget) * WIND_DOWN_FRACTION
     \<or> iterations usage \<ge> windDownAt (maxIterations budget)
     \<or> toolCallsUsed usage \<ge> windDownAt (maxToolCalls budget)
     \<or> overWindDownFraction (u_effectiveTokens usage) (maxTokens budget)
     \<or> overWindDownFraction (u_costCents usage) (maxCostCents budget)"

definition stopBeforeIteration :: "budget_limits \<Rightarrow> budget_usage \<Rightarrow> exhaustion option" where
  "stopBeforeIteration budget usage =
     (if of_int (elapsedMs usage) \<ge> of_int (maxWallclockMs budget) * BUDGET_HEADROOM_FRACTION then Some WallclockReason
      else if iterations usage \<ge> reserveOne (maxIterations budget) then Some IterationsReason
      else None)"

definition stopBeforeInference :: "budget_limits \<Rightarrow> int \<Rightarrow> int \<Rightarrow> int option \<Rightarrow> exhaustion option" where
  "stopBeforeInference budget effectiveTokens projectedCallTokens projectedOutputTokens =
     (case maxTokens budget of None \<Rightarrow> None
      | Some limit \<Rightarrow>
          if limit \<le> 0 then None
          else if effectiveTokens + projectedCallTokens + or_zero projectedOutputTokens > limit
          then Some TokensReason else None)"

definition stopAfterInference :: "budget_limits \<Rightarrow> budget_usage \<Rightarrow> exhaustion option" where
  "stopAfterInference budget usage =
     (if overFraction (u_effectiveTokens usage) (maxTokens budget) then Some TokensReason
      else if overFraction (u_costCents usage) (maxCostCents budget) then Some CostReason
      else None)"

definition stopAfterToolBatch :: "budget_limits \<Rightarrow> budget_usage \<Rightarrow> exhaustion option" where
  "stopAfterToolBatch budget usage =
     (if toolCallsUsed usage \<ge> reserveOne (maxToolCalls budget) then Some ToolCallsReason
      else if of_int (elapsedMs usage) \<ge> of_int (maxWallclockMs budget) * BUDGET_HEADROOM_FRACTION then Some WallclockReason
      else None)"

section \<open>Admission of a call\<close>

record output_admission =
  compactionTargetTokens :: "int option"
  projectedInputTokens :: int
  requestedOutputTokens :: "int option"
  requiresCompaction :: bool

text \<open>The arguments: the room of the context plan, its target, what the run has used, the two
  optional limits, the size of the transcript and of the tool schemas.\<close>

definition resolveOutputAdmission ::
    "int \<Rightarrow> int \<Rightarrow> int \<Rightarrow> int option \<Rightarrow> int option \<Rightarrow> int \<Rightarrow> int \<Rightarrow> output_admission" where
  "resolveOutputAdmission availableTokens targetTokens effectiveTokens maxOutputTokens maxRunTokens
       transcriptTokens toolSchemaTokens =
     (let projectedInput = transcriptTokens + toolSchemaTokens;
          remainingRun = map_option (\<lambda>m. max 0 (m - effectiveTokens - projectedInput)) maxRunTokens;
          remainingAfterSchemas = map_option (\<lambda>m. max 0 (m - effectiveTokens - toolSchemaTokens)) maxRunTokens;
          desired = map_option (\<lambda>m. min m (case remainingRun of None \<Rightarrow> m | Some r \<Rightarrow> r)) maxOutputTokens;
          contextOutput = max 0 (availableTokens - transcriptTokens);
          canRecover = (desired = Some 0 \<and> (case remainingAfterSchemas of None \<Rightarrow> False | Some r \<Rightarrow> r > 0)
            \<and> transcriptTokens > 0)
      in \<lparr>compactionTargetTokens =
            (if canRecover then map_option (\<lambda>r. min targetTokens (r div 2)) remainingAfterSchemas else None),
          projectedInputTokens = projectedInput,
          requestedOutputTokens = map_option (\<lambda>d. min d contextOutput) desired,
          requiresCompaction = (canRecover \<or> (case desired of None \<Rightarrow> False | Some d \<Rightarrow> d > contextOutput))\<rparr>)"

section \<open>The budget of a run\<close>

record run_limits =
  rl_cost :: "int option"
  rl_iterations :: "int option"
  rl_tokens :: "int option"
  rl_toolCalls :: "int option"
  rl_wallclock :: "int option"

record limit_values =
  lv_cost :: int
  lv_iterations :: int
  lv_tokens :: int
  lv_toolCalls :: int
  lv_wallclock :: int

definition RUN_BACKSTOP_DEFAULTS :: limit_values where
  "RUN_BACKSTOP_DEFAULTS = \<lparr>lv_cost = 2000, lv_iterations = 1000, lv_tokens = 500000,
     lv_toolCalls = 2000, lv_wallclock = 2700000\<rparr>"

definition TICKET_WORK_RUN_CEILING :: limit_values where
  "TICKET_WORK_RUN_CEILING = \<lparr>lv_cost = 500, lv_iterations = 200, lv_tokens = 300000,
     lv_toolCalls = 300, lv_wallclock = 1200000\<rparr>"

definition TOOL_TIMEOUT_MS :: int where "TOOL_TIMEOUT_MS = 75000"

type_synonym env = "jsstring \<rightharpoonup> jsstring"

definition whole :: "rat \<Rightarrow> int option" where
  "whole x = (if of_int \<lfloor>x\<rfloor> = x then Some \<lfloor>x\<rfloor> else None)"

definition int_from :: "int \<Rightarrow> (jsstring \<Rightarrow> rat option) \<Rightarrow> jsstring option \<Rightarrow> int \<Rightarrow> int" where
  "int_from least to_number raw fallback =
     (case raw of None \<Rightarrow> fallback
      | Some s \<Rightarrow> (case Option.bind (to_number s) whole of
          None \<Rightarrow> fallback | Some v \<Rightarrow> if v \<ge> least then v else fallback))"

definition positiveInt :: "(jsstring \<Rightarrow> rat option) \<Rightarrow> jsstring option \<Rightarrow> int \<Rightarrow> int" where
  "positiveInt = int_from 1"

definition nonNegativeInt :: "(jsstring \<Rightarrow> rat option) \<Rightarrow> jsstring option \<Rightarrow> int \<Rightarrow> int" where
  "nonNegativeInt = int_from 0"

definition resolveRunBackstop :: "(jsstring \<Rightarrow> rat option) \<Rightarrow> env \<Rightarrow> limit_values" where
  "resolveRunBackstop to_number e =
     \<lparr>lv_cost = positiveInt to_number (e (js ''NESSIE_RUN_BACKSTOP_MAX_COST_CENTS'')) (lv_cost RUN_BACKSTOP_DEFAULTS),
      lv_iterations = positiveInt to_number (e (js ''NESSIE_RUN_BACKSTOP_MAX_ITERATIONS'')) (lv_iterations RUN_BACKSTOP_DEFAULTS),
      lv_tokens = positiveInt to_number (e (js ''NESSIE_RUN_BACKSTOP_MAX_TOKENS'')) (lv_tokens RUN_BACKSTOP_DEFAULTS),
      lv_toolCalls = positiveInt to_number (e (js ''NESSIE_RUN_BACKSTOP_MAX_TOOL_CALLS'')) (lv_toolCalls RUN_BACKSTOP_DEFAULTS),
      lv_wallclock = positiveInt to_number (e (js ''NESSIE_RUN_BACKSTOP_MAX_WALLCLOCK_MS'')) (lv_wallclock RUN_BACKSTOP_DEFAULTS)\<rparr>"

definition clamp :: "int \<Rightarrow> int option \<Rightarrow> int" where
  "clamp v cap = (case cap of None \<Rightarrow> v | Some m \<Rightarrow> min v m)"

definition or_else :: "'a option \<Rightarrow> 'a \<Rightarrow> 'a" where
  "or_else x d = (case x of None \<Rightarrow> d | Some a \<Rightarrow> a)"

definition resolveEffectiveRunBudget ::
    "(jsstring \<Rightarrow> rat option) \<Rightarrow> jsstring \<Rightarrow> run_limits option \<Rightarrow> env \<Rightarrow> jsstring option \<Rightarrow> budget_limits" where
  "resolveEffectiveRunBudget to_number ticket_purpose limits e purpose =
     (let backstop = resolveRunBackstop to_number e;
          ceiling = (if purpose = Some ticket_purpose then Some TICKET_WORK_RUN_CEILING else None);
          pick = (\<lambda>own back most. clamp (or_else (Option.bind limits own) (back backstop)) (map_option most ceiling))
      in \<lparr>maxIterations = pick rl_iterations lv_iterations lv_iterations,
          maxToolCalls = pick rl_toolCalls lv_toolCalls lv_toolCalls,
          maxWallclockMs = pick rl_wallclock lv_wallclock lv_wallclock,
          maxTokens = Some (pick rl_tokens lv_tokens lv_tokens),
          maxCostCents = Some (pick rl_cost lv_cost lv_cost),
          toolTimeoutMs = Some TOOL_TIMEOUT_MS\<rparr>)"

text \<open>A run job's budget reads the purpose of its action context.\<close>

definition resolveRunJobBudget ::
    "(jsstring \<Rightarrow> rat option) \<Rightarrow> jsstring \<Rightarrow> env \<Rightarrow> run_limits option \<Rightarrow> jsstring option \<Rightarrow> budget_limits" where
  "resolveRunJobBudget to_number ticket_purpose process_env limits purpose =
     resolveEffectiveRunBudget to_number ticket_purpose limits process_env purpose"

definition DELEGATE_BUDGET :: budget_limits where
  "DELEGATE_BUDGET = \<lparr>maxIterations = 6, maxToolCalls = 10, maxWallclockMs = 90000, maxTokens = Some 30000,
     maxCostCents = Some 100, toolTimeoutMs = Some 25000\<rparr>"

definition DEFAULT_AUTO_CONTINUATIONS :: int where "DEFAULT_AUTO_CONTINUATIONS = 2"

definition DEFAULT_MAX_DELEGATES_PER_RUN :: int where "DEFAULT_MAX_DELEGATES_PER_RUN = 16"

definition resolveMaxDelegatesPerRun :: "(jsstring \<Rightarrow> rat option) \<Rightarrow> env \<Rightarrow> int" where
  "resolveMaxDelegatesPerRun to_number e =
     nonNegativeInt to_number (e (js ''NESSIE_MAX_DELEGATES_PER_RUN'')) DEFAULT_MAX_DELEGATES_PER_RUN"

definition resolveAutoContinuations :: "(jsstring \<Rightarrow> rat option) \<Rightarrow> env \<Rightarrow> int" where
  "resolveAutoContinuations to_number e =
     nonNegativeInt to_number (e (js ''NESSIE_RUN_AUTO_CONTINUATIONS'')) DEFAULT_AUTO_CONTINUATIONS"

text \<open>The cap on sub-agents: how many were started, and whether the run winds down.\<close>

record delegate_gate =
  dg_used :: int
  windingDown :: bool

definition createDelegateGate :: delegate_gate where
  "createDelegateGate = \<lparr>dg_used = 0, windingDown = False\<rparr>"

definition closeForWindDown :: "delegate_gate \<Rightarrow> delegate_gate" where
  "closeForWindDown g = g\<lparr>windingDown := True\<rparr>"

definition tryAcquire :: "int \<Rightarrow> delegate_gate \<Rightarrow> bool \<times> delegate_gate" where
  "tryAcquire cap g = (if windingDown g \<or> dg_used g \<ge> cap then (False, g) else (True, g\<lparr>dg_used := dg_used g + 1\<rparr>))"

text \<open>The price of a cache read relative to fresh input.\<close>

definition clampWeight :: "rat \<Rightarrow> rat" where
  "clampWeight v = min 1 (max 0 v)"

definition resolveCacheReadWeightFromEnv :: "(jsstring \<Rightarrow> rat option) \<Rightarrow> env \<Rightarrow> rat" where
  "resolveCacheReadWeightFromEnv to_number e =
     (case map_option js_trim (e (js ''NESSIE_CACHE_READ_WEIGHT'')) of
        None \<Rightarrow> DEFAULT_CACHE_READ_WEIGHT
      | Some raw \<Rightarrow>
          if raw = [] then DEFAULT_CACHE_READ_WEIGHT
          else (case to_number raw of None \<Rightarrow> DEFAULT_CACHE_READ_WEIGHT
                | Some v \<Rightarrow> if v \<ge> 0 \<and> v \<le> 1 then v else DEFAULT_CACHE_READ_WEIGHT))"

text \<open>The answer of the pricing lookup: \<open>Inl\<close> when it raised, no row, or a row with its two
  optional rates.\<close>

definition resolveCacheReadWeight ::
    "(jsstring \<Rightarrow> rat option) \<Rightarrow> env \<Rightarrow> jsstring option \<Rightarrow> jsstring option
      \<Rightarrow> unit + (rat option \<times> rat option) option \<Rightarrow> rat" where
  "resolveCacheReadWeight to_number e model provider lookup =
     (let fallback = resolveCacheReadWeightFromEnv to_number e
      in if model = None \<or> model = Some [] \<or> provider = None \<or> provider = Some [] then fallback
         else (case lookup of
                 Inr (Some (Some cacheRead, Some fresh)) \<Rightarrow>
                   if fresh > 0 then clampWeight (cacheRead / fresh) else fallback
               | _ \<Rightarrow> fallback))"

section \<open>Metering is a sum\<close>

definition add_spend :: "spend_totals \<Rightarrow> spend_totals \<Rightarrow> spend_totals" where
  "add_spend a b = \<lparr>cacheReadTokens = cacheReadTokens a + cacheReadTokens b,
     effectiveTokensUsed = effectiveTokensUsed a + effectiveTokensUsed b,
     totalCostCents = totalCostCents a + totalCostCents b,
     totalTokensUsed = totalTokensUsed a + totalTokensUsed b\<rparr>"

lemma add_spend_zero: "add_spend t ZERO_SPEND = t" "add_spend ZERO_SPEND t = t"
  by (simp_all add: add_spend_def ZERO_SPEND_def)

lemma add_spend_assoc: "add_spend (add_spend a b) c = add_spend a (add_spend b c)"
  by (simp add: add_spend_def)

lemma meter_step_add: "meter_step upper w (add_spend t u) i = add_spend t (meter_step upper w u i)"
  by (simp add: meter_step_def add_spend_def)

lemma foldl_meter: "foldl (meter_step upper w) (add_spend t u) xs = add_spend t (foldl (meter_step upper w) u xs)"
  by (induction xs arbitrary: u) (simp_all add: meter_step_add)

lemma meterSpend_append:
  "meterSpend upper (xs @ ys) w = add_spend (meterSpend upper xs w) (meterSpend upper ys w)"
  using foldl_meter [of upper w "foldl (meter_step upper w) ZERO_SPEND xs" ZERO_SPEND ys]
  by (simp add: meterSpend_def add_spend_zero)

section \<open>Properties\<close>

text \<open>The calls of a run: each is projected, checked before it is sent, and metered after.\<close>

fun guarded_calls ::
    "(jsstring \<Rightarrow> jsstring) \<Rightarrow> rat \<Rightarrow> budget_limits \<Rightarrow> invocation list \<Rightarrow> (int \<times> int option \<times> invocation list) list
      \<Rightarrow> invocation list" where
  "guarded_calls upper w budget spent [] = spent"
| "guarded_calls upper w budget spent ((p, out, new) # calls) =
     (case stopBeforeInference budget (effectiveTokensUsed (meterSpend upper spent w)) p out of
        Some reason \<Rightarrow> spent
      | None \<Rightarrow> guarded_calls upper w budget (spent @ new) calls)"

text \<open>The token limit of a run is never crossed: when no call meters more than was
  projected for it, a run whose calls are checked before they are sent stays within its full
  limit, whatever it is asked to do.\<close>

theorem guarded_calls_within_limit:
  assumes "maxTokens budget = Some limit" "0 < limit"
    and "effectiveTokensUsed (meterSpend upper spent w) \<le> limit"
    and "\<forall>(p, out, new)\<in>set calls. effectiveTokensUsed (meterSpend upper new w) \<le> p + or_zero out"
  shows "effectiveTokensUsed (meterSpend upper (guarded_calls upper w budget spent calls) w) \<le> limit"
  using assms(3,4)
proof (induction calls arbitrary: spent)
  case Nil
  then show ?case by simp
next
  case (Cons c calls)
  obtain p out new where c: "c = (p, out, new)" by (cases c) auto
  show ?case
  proof (cases "stopBeforeInference budget (effectiveTokensUsed (meterSpend upper spent w)) p out")
    case None
    then have "effectiveTokensUsed (meterSpend upper spent w) + p + or_zero out \<le> limit"
      using assms(1,2) by (simp add: stopBeforeInference_def split: if_splits)
    then have "effectiveTokensUsed (meterSpend upper (spent @ new) w) \<le> limit"
      using Cons.prems(2) c by (simp add: meterSpend_append add_spend_def)
    then show ?thesis using Cons.IH [of "spent @ new"] Cons.prems(2) c None by simp
  next
    case (Some r)
    then show ?thesis using Cons.prems(1) c by simp
  qed
qed

definition tiny_budget :: budget_limits where
  "tiny_budget = \<lparr>maxIterations = 5, maxToolCalls = 5, maxWallclockMs = 1000, maxTokens = Some 100,
     maxCostCents = None, toolTimeoutMs = None\<rparr>"

definition call_of :: "int \<Rightarrow> invocation" where
  "call_of n = \<lparr>inv_usage = \<lparr>inputTokens = None, outputTokens = None, usageCacheRead = None, totalTokens = Some n\<rparr>,
     providerReportedCost = None\<rparr>"

lemma guarded_calls_within_limit_witness:
  "effectiveTokensUsed (meterSpend id (guarded_calls id 0 tiny_budget [] [(40, Some 20, [call_of 55]), (30, Some 20, [call_of 50])]) 0) \<le> 100"
  by (rule guarded_calls_within_limit [where limit = 100])
    (simp_all add: tiny_budget_def meterSpend_def meter_step_def ZERO_SPEND_def call_of_def
      meterInvocationTokens_def or_zero_def)

text \<open>A run is told to wind down before it is stopped: in every dimension, whatever usage
  stops a run also winds it down; a limit of three or more units keeps one unit in hand, at
  which the run winds down and is not stopped yet.  A limit of one or two keeps none: the
  first unit that winds the run down stops it as well.\<close>

theorem wind_down_before_stop:
  assumes "0 \<le> maxWallclockMs budget" "0 \<le> elapsedMs usage"
  shows "(stopBeforeIteration budget usage \<noteq> None \<or> stopAfterInference budget usage \<noteq> None
      \<or> stopAfterToolBatch budget usage \<noteq> None \<longrightarrow> shouldWindDown budget usage) \<and>
    (\<forall>limit::int. 3 \<le> limit \<longrightarrow> windDownAt limit + 1 = reserveOne limit \<and> reserveOne limit < limit) \<and>
    (\<forall>limit::int. limit \<le> 2 \<longrightarrow> windDownAt limit = 1 \<and> reserveOne limit = 1)"
proof (intro conjI impI allI)
  have share: "of_int l * WIND_DOWN_FRACTION \<le> of_int l * BUDGET_HEADROOM_FRACTION" if "0 \<le> l" for l
    using that by (intro mult_left_mono) (simp_all add: WIND_DOWN_FRACTION_def BUDGET_HEADROOM_FRACTION_def)
  have over: "over_share WIND_DOWN_FRACTION u l" if "over_share BUDGET_HEADROOM_FRACTION u l" for u l
    using that share by (cases l) (auto simp: over_share_def intro: order_trans [OF share])
  have wall: "of_int (elapsedMs usage) \<ge> of_int (maxWallclockMs budget) * WIND_DOWN_FRACTION"
    if "of_int (elapsedMs usage) \<ge> of_int (maxWallclockMs budget) * BUDGET_HEADROOM_FRACTION"
    using that share [OF assms(1)] by linarith
  assume "stopBeforeIteration budget usage \<noteq> None \<or> stopAfterInference budget usage \<noteq> None
      \<or> stopAfterToolBatch budget usage \<noteq> None"
  then show "shouldWindDown budget usage"
    using over wall
    by (auto simp: stopBeforeIteration_def stopAfterInference_def stopAfterToolBatch_def shouldWindDown_def
        overFraction_def overWindDownFraction_def reserveOne_def windDownAt_def split: if_splits)
qed (auto simp: windDownAt_def reserveOne_def)

lemma wind_down_before_stop_witness:
  "shouldWindDown tiny_budget \<lparr>u_effectiveTokens = 95, elapsedMs = 10, iterations = 1, toolCallsUsed = 1, u_costCents = 0\<rparr>"
  using wind_down_before_stop [of tiny_budget
    "\<lparr>u_effectiveTokens = 95, elapsedMs = 10, iterations = 1, toolCallsUsed = 1, u_costCents = 0\<rparr>"]
  by (simp add: tiny_budget_def stopAfterInference_def overFraction_def over_share_def BUDGET_HEADROOM_FRACTION_def)

text \<open>An admitted call fits: when the admission leaves at least one output token, the call
  with that allowance passes the check before inference, asks for no more than the caller
  and the context allow, and a compaction target never exceeds half of what the run can
  still spend after the tool schemas.\<close>

theorem admitted_call_fits:
  fixes available target used transcript schemas :: int
  assumes "maxTokens budget = maxRun" "requestedOutputTokens adm = Some n" "1 \<le> n"
    and "adm = resolveOutputAdmission available target used maxOut maxRun transcript schemas"
  shows "stopBeforeInference budget used (projectedInputTokens adm) (Some n) = None \<and>
    (\<forall>m. maxOut = Some m \<longrightarrow> n \<le> m) \<and> transcript + n \<le> available \<and>
    (\<forall>c m. compactionTargetTokens adm = Some c \<and> maxRun = Some m \<longrightarrow> 2 * c \<le> max 0 (m - used - schemas) \<and> c \<le> target)"
proof (intro conjI allI impI)
  note a = assms(2) [unfolded assms(4) resolveOutputAdmission_def Let_def, simplified]
  show "stopBeforeInference budget used (projectedInputTokens adm) (Some n) = None"
    using a assms(1,3)
    by (cases maxRun) (auto simp: assms(4) resolveOutputAdmission_def stopBeforeInference_def Let_def or_zero_def)
  show "n \<le> m" if "maxOut = Some m" for m
    using a that by auto
  show "transcript + n \<le> available" using a assms(3) by auto
next
  fix c m
  assume "compactionTargetTokens adm = Some c \<and> maxRun = Some m"
  then show "2 * c \<le> max 0 (m - used - schemas)" "c \<le> target"
    by (auto simp: assms(4) resolveOutputAdmission_def Let_def split: if_splits)
qed

lemma admitted_call_fits_witness:
  "stopBeforeInference tiny_budget 40 30 (Some 20) = None"
  using admitted_call_fits [of tiny_budget "Some 100" "resolveOutputAdmission 1000 800 40 (Some 20) (Some 100) 25 5"
    20 1000 800 40 "Some 20" 25 5]
  by (simp add: tiny_budget_def resolveOutputAdmission_def Let_def)

section \<open>Caps of a run\<close>

text \<open>A ticket-work run is clamped to its ceiling in every dimension, whatever its agent's own
  limits and the environment say; and every other run takes its agent's limits as they are.\<close>

lemma ticket_work_clamped:
  fixes limits :: "run_limits option"
  assumes "b = resolveEffectiveRunBudget to_number purpose limits e (Some purpose)"
  shows "maxIterations b \<le> 200 \<and> maxToolCalls b \<le> 300 \<and> maxWallclockMs b \<le> 1200000 \<and>
    (\<exists>t\<le>300000. maxTokens b = Some t) \<and> (\<exists>c\<le>500. maxCostCents b = Some c)"
  by (simp add: assms resolveEffectiveRunBudget_def Let_def clamp_def TICKET_WORK_RUN_CEILING_def)

lemma agent_limits_apply:
  assumes "purpose \<noteq> Some ticket" "rl_tokens l = Some t" "rl_iterations l = Some i"
  shows "maxTokens (resolveEffectiveRunBudget to_number ticket (Some l) e purpose) = Some t \<and>
    maxIterations (resolveEffectiveRunBudget to_number ticket (Some l) e purpose) = i"
  using assms by (simp add: resolveEffectiveRunBudget_def Let_def clamp_def or_else_def)

text \<open>The backstop is positive in every dimension, whatever the environment holds.\<close>

lemma int_from_at_least: "least \<le> fallback \<Longrightarrow> least \<le> int_from least to_number raw fallback"
  by (auto simp: int_from_def split: option.splits bind_splits)

lemma backstop_positive:
  "0 < lv_cost (resolveRunBackstop to_number e) \<and> 0 < lv_iterations (resolveRunBackstop to_number e) \<and>
   0 < lv_tokens (resolveRunBackstop to_number e) \<and> 0 < lv_toolCalls (resolveRunBackstop to_number e) \<and>
   0 < lv_wallclock (resolveRunBackstop to_number e)"
proof -
  have "0 < positiveInt to_number raw fallback" if "0 < fallback" for raw fallback
    using int_from_at_least [of 1 fallback to_number raw] that by (simp add: positiveInt_def)
  then show ?thesis by (simp add: resolveRunBackstop_def RUN_BACKSTOP_DEFAULTS_def)
qed

text \<open>Over any sequence of requests and wind-downs, no more sub-agents start than the cap, and
  none after the wind-down.\<close>

fun gate_run :: "int \<Rightarrow> delegate_gate \<Rightarrow> bool list \<Rightarrow> bool list" where
  "gate_run cap g [] = []"
| "gate_run cap g (True # ops) = (let (ok, g') = tryAcquire cap g in ok # gate_run cap g' ops)"
| "gate_run cap g (False # ops) = gate_run cap (closeForWindDown g) ops"

lemma gate_closed: "windingDown g \<Longrightarrow> True \<notin> set (gate_run cap g ops)"
  by (induction cap g ops rule: gate_run.induct) (auto simp: tryAcquire_def closeForWindDown_def)

lemma gate_capped:
  "dg_used g \<le> cap \<Longrightarrow> dg_used g + int (length (filter id (gate_run cap g ops))) \<le> cap"
proof (induction ops arbitrary: g)
  case (Cons op ops)
  show ?case
  proof (cases op)
    case True
    then show ?thesis
      using Cons.IH [of g] Cons.IH [of "g\<lparr>dg_used := dg_used g + 1\<rparr>"] Cons.prems
      by (cases "windingDown g \<or> dg_used g \<ge> cap") (auto simp: tryAcquire_def)
  next
    case False
    then show ?thesis using Cons.IH [of "closeForWindDown g"] Cons.prems by (simp add: closeForWindDown_def)
  qed
qed simp

text \<open>The cache-read weight stays between 0 and 1.\<close>

lemma cache_weight_bounded:
  "0 \<le> resolveCacheReadWeight to_number e model provider lookup \<and>
   resolveCacheReadWeight to_number e model provider lookup \<le> 1"
proof -
  have "0 \<le> resolveCacheReadWeightFromEnv to_number e \<and> resolveCacheReadWeightFromEnv to_number e \<le> 1"
    by (auto simp: resolveCacheReadWeightFromEnv_def DEFAULT_CACHE_READ_WEIGHT_def split: option.split)
  then show ?thesis
    by (auto simp: resolveCacheReadWeight_def Let_def clampWeight_def split: sum.split option.split)
qed

end
