(* ===== verification/LineDiff.thy ===== *)
theory LineDiff
  imports Prelude "HOL-Library.Sublist"
begin

text \<open>
  Line diffs (\<open>packages/schemas/src/line-diff.ts\<close>): texts as lines, the diff of two lists of
  lines with its head and tail trimmed, the longest-common-subsequence table for a small
  middle, Myers' greedy algorithm for a large one, and the unified-diff hunks with their
  character bound.

  Lines are strings of code units; the diff itself only compares them, so it is polymorphic.
  The tables are functions of their indexes; an index the code reads outside of a table
  answers what the code's fallback answers.
\<close>

section \<open>Texts as lines\<close>

definition BLOCK_TAGS :: "jsstring list" where
  "BLOCK_TAGS = map js [''p'', ''div'', ''br'', ''li'', ''ul'', ''ol'', ''h1'', ''h2'', ''h3'', ''h4'',
     ''h5'', ''h6'', ''blockquote'', ''pre'', ''tr'', ''table'', ''section'', ''article'', ''hr'']"

definition HTML_ENTITIES :: "(jsstring \<times> jsstring) list" where
  "HTML_ENTITIES = [(js ''&nbsp;'', [32]), (js ''&amp;'', [38]), (js ''&lt;'', [60]), (js ''&gt;'', [62]),
     (js ''&quot;'', [34]), (js ''&#39;'', [39])]"

definition is_tag_char :: "code_unit \<Rightarrow> bool" where
  "is_tag_char c \<longleftrightarrow> 48 \<le> c \<and> c \<le> 57 \<or> 65 \<le> c \<and> c \<le> 90 \<or> 97 \<le> c \<and> c \<le> 122"

definition ascii_lower :: "code_unit \<Rightarrow> code_unit" where
  "ascii_lower c = (if 65 \<le> c \<and> c \<le> 90 then c + 32 else c)"

text \<open>
  A match of \<open></?([a-zA-Z0-9]+)[^>]*>\<close> at the front: the tag name and what follows.  The name
  takes every letter and digit there is; the rest of the tag runs to the first \<open>>\<close>.
\<close>

definition match_tag :: "jsstring \<Rightarrow> (jsstring \<times> jsstring) option" where
  "match_tag s =
     (case s of [] \<Rightarrow> None
      | c # r \<Rightarrow>
          if c \<noteq> 60 then None
          else (let r1 = (case r of d # r' \<Rightarrow> if d = 47 then r' else r | [] \<Rightarrow> r);
                    name = takeWhile is_tag_char r1;
                    rest = dropWhile (\<lambda>x. x \<noteq> 62) (dropWhile is_tag_char r1)
                in if name = [] then None
                   else (case rest of [] \<Rightarrow> None | _ # after \<Rightarrow> Some (name, after))))"

lemma match_tag_shorter: "match_tag s = Some (n, r) \<Longrightarrow> length r < length s"
proof -
  assume m: "match_tag s = Some (n, r)"
  have w: "length (dropWhile P xs) \<le> length xs" for P :: "code_unit \<Rightarrow> bool" and xs
    by (rule length_dropWhile_le)
  obtain c t where s: "s = c # t" using m by (cases s) (auto simp: match_tag_def)
  define r1 where "r1 = (case t of d # r' \<Rightarrow> if d = 47 then r' else t | [] \<Rightarrow> t)"
  have l: "length r1 \<le> length t" by (auto simp: r1_def split: list.split)
  obtain x where "dropWhile (\<lambda>x. x \<noteq> 62) (dropWhile is_tag_char r1) = x # r"
    using m s by (auto simp: match_tag_def Let_def r1_def split: if_splits list.splits)
  then have "Suc (length r) \<le> length r1"
    using w [of "\<lambda>x. x \<noteq> 62" "dropWhile is_tag_char r1"] w [of is_tag_char r1] by simp
  then show ?thesis using l s by simp
qed

function break_tags :: "jsstring \<Rightarrow> jsstring" where
  "break_tags s =
     (case match_tag s of
        Some (n, r) \<Rightarrow> (if map ascii_lower n \<in> set BLOCK_TAGS then [10] else []) @ break_tags r
      | None \<Rightarrow> (case s of [] \<Rightarrow> [] | c # t \<Rightarrow> c # break_tags t))"
  by pat_completeness auto
termination
  by (relation "measure length") (auto dest: match_tag_shorter)

definition match_entity :: "jsstring \<Rightarrow> (jsstring \<times> jsstring) option" where
  "match_entity s = List.find (\<lambda>(e, v). starts_with s e) HTML_ENTITIES"

function decode_entities :: "jsstring \<Rightarrow> jsstring" where
  "decode_entities s =
     (case match_entity s of
        Some (e, v) \<Rightarrow> v @ decode_entities (drop (length e) s)
      | None \<Rightarrow> (case s of [] \<Rightarrow> [] | c # t \<Rightarrow> c # decode_entities t))"
  by pat_completeness auto
termination
  by (relation "measure length")
    (auto simp: match_entity_def HTML_ENTITIES_def js_simps split: if_splits dest!: starts_with_iff [THEN iffD1])

definition htmlToLines :: "jsstring option \<Rightarrow> jsstring list" where
  "htmlToLines html =
     (case html of None \<Rightarrow> []
      | Some h \<Rightarrow> if h = [] then []
          else filter (\<lambda>l. length l > 0) (map js_trim (split_on 10 (decode_entities (break_tags h)))))"

fun normalize_breaks :: "jsstring \<Rightarrow> jsstring" where
  "normalize_breaks [] = []"
| "normalize_breaks (c # s) =
     (if c = 13 then (case s of d # r \<Rightarrow> if d = 10 then 10 # normalize_breaks r else 10 # normalize_breaks s
                      | [] \<Rightarrow> [10])
      else c # normalize_breaks s)"

definition trim_end :: "jsstring \<Rightarrow> jsstring" where
  "trim_end s = rev (dropWhile is_js_space (rev s))"

definition textToLines :: "jsstring option \<Rightarrow> jsstring list" where
  "textToLines t =
     (case t of None \<Rightarrow> []
      | Some s \<Rightarrow> if s = [] then [] else map trim_end (split_on 10 (normalize_breaks s)))"

section \<open>The diff\<close>

datatype 'a diff_op = Equal (op_text: 'a) | Add (op_text: 'a) | Remove (op_text: 'a)

definition MAX_DIFF_CELLS :: nat where "MAX_DIFF_CELLS = 4000000"
definition MAX_MYERS_EDITS :: nat where "MAX_MYERS_EDITS = 2000"

text \<open>One row of the table from the row below it, right to left; the last cell is 0.\<close>

fun lcs_row :: "'a \<Rightarrow> 'a list \<Rightarrow> nat list \<Rightarrow> nat list" where
  "lcs_row x [] next_row = [0]"
| "lcs_row x (y # ys) next_row =
     (let row = lcs_row x ys (tl next_row)
      in (if x = y then hd (tl next_row) + 1 else max (hd next_row) (hd row)) # row)"

fun lcs_table :: "'a list \<Rightarrow> 'a list \<Rightarrow> nat list list" where
  "lcs_table [] ys = [replicate (length ys + 1) 0]"
| "lcs_table (x # xs) ys = (let below = lcs_table xs ys in lcs_row x ys (hd below) # below)"

definition length_at :: "nat list list \<Rightarrow> nat \<Rightarrow> nat \<Rightarrow> nat" where
  "length_at table i j = (if i < length table \<and> j < length (table ! i) then table ! i ! j else 0)"

text \<open>The walk: \<open>i\<close> and \<open>j\<close> lines are behind it.\<close>

fun lcs_walk :: "nat list list \<Rightarrow> nat \<Rightarrow> nat \<Rightarrow> 'a list \<Rightarrow> 'a list \<Rightarrow> 'a diff_op list" where
  "lcs_walk table i j (x # xs) (y # ys) =
     (if x = y then Equal x # lcs_walk table (i + 1) (j + 1) xs ys
      else if length_at table (i + 1) j \<ge> length_at table i (j + 1)
      then Remove x # lcs_walk table (i + 1) j xs (y # ys)
      else Add y # lcs_walk table i (j + 1) (x # xs) ys)"
| "lcs_walk table i j xs [] = map Remove xs"
| "lcs_walk table i j [] ys = map Add ys"

definition lcsLineDiff :: "'a list \<Rightarrow> 'a list \<Rightarrow> 'a diff_op list" where
  "lcsLineDiff old new = lcs_walk (lcs_table old new) 0 0 old new"

text \<open>
  Myers' search.  The frontier array, indexed by diagonal, starts at zero; the code's offset
  keeps every index it uses inside the array, so the array is a function on diagonals.  The
  walk along equal lines stays on one diagonal, \<open>y = x - k\<close>.
\<close>

function snake :: "'a list \<Rightarrow> 'a list \<Rightarrow> int \<Rightarrow> int \<Rightarrow> int" where
  "snake a b k x =
     (if x < int (length a) \<and> x - k < int (length b) \<and> a ! nat x = b ! nat (x - k)
      then snake a b k (x + 1) else x)"
  by pat_completeness auto
termination
  by (relation "measure (\<lambda>(a, b, k, x). nat (int (length a) - x))") auto

declare snake.simps [simp del]

definition goes_down :: "nat \<Rightarrow> int \<Rightarrow> (int \<Rightarrow> int) \<Rightarrow> bool" where
  "goes_down d k v \<longleftrightarrow> k = - int d \<or> k \<noteq> int d \<and> v (k - 1) < v (k + 1)"

definition furthest :: "'a list \<Rightarrow> 'a list \<Rightarrow> nat \<Rightarrow> int \<Rightarrow> (int \<Rightarrow> int) \<Rightarrow> int" where
  "furthest a b d k v = snake a b k (if goes_down d k v then v (k + 1) else v (k - 1) + 1)"

fun myers_row :: "'a list \<Rightarrow> 'a list \<Rightarrow> nat \<Rightarrow> int list \<Rightarrow> (int \<Rightarrow> int) \<Rightarrow> (int \<Rightarrow> int) option" where
  "myers_row a b d [] v = Some v"
| "myers_row a b d (k # ks) v =
     (let x = furthest a b d k v
      in if x \<ge> int (length a) \<and> x - k \<ge> int (length b) then None
         else myers_row a b d ks (v(k := x)))"

definition diagonals :: "nat \<Rightarrow> int list" where
  "diagonals d = map (\<lambda>i. 2 * int i - int d) [0..<Suc d]"

definition frontier_slice :: "nat \<Rightarrow> (int \<Rightarrow> int) \<Rightarrow> int \<Rightarrow> int" where
  "frontier_slice d v = (\<lambda>k. if - int d \<le> k \<and> k \<le> int d then v k else 0)"

text \<open>The walk back.  The operations are kept latest first, which is their final order.\<close>

function back_diagonal :: "'a list \<Rightarrow> int \<Rightarrow> int \<Rightarrow> int \<Rightarrow> int \<Rightarrow> 'a diff_op list \<Rightarrow> int \<times> int \<times> 'a diff_op list" where
  "back_diagonal a px py x y ops =
     (if x > px \<and> y > py then back_diagonal a px py (x - 1) (y - 1) (Equal (a ! nat (x - 1)) # ops)
      else (x, y, ops))"
  by pat_completeness auto
termination
  by (relation "measure (\<lambda>(a, px, py, x, y, ops). nat (x - px))") auto

declare back_diagonal.simps [simp del]

fun path_back ::
    "'a list \<Rightarrow> 'a list \<Rightarrow> (int \<Rightarrow> int) list \<Rightarrow> nat \<Rightarrow> int \<Rightarrow> int \<Rightarrow> 'a diff_op list \<Rightarrow> 'a diff_op list" where
  "path_back a b trace 0 x y ops = (case back_diagonal a 0 0 x y ops of (x, y, ops) \<Rightarrow> ops)"
| "path_back a b trace (Suc d) x y ops =
     (let v = trace ! Suc d;
          k = x - y;
          down = goes_down (Suc d) k v;
          previousK = (if down then k + 1 else k - 1);
          previousX = v previousK;
          previousY = previousX - previousK
      in case back_diagonal a previousX previousY x y ops of
           (x, y, ops) \<Rightarrow>
             if down then path_back a b trace d x (y - 1) (Add (b ! nat (y - 1)) # ops)
             else path_back a b trace d (x - 1) y (Remove (a ! nat (x - 1)) # ops))"

definition myersPath :: "'a list \<Rightarrow> 'a list \<Rightarrow> (int \<Rightarrow> int) list \<Rightarrow> nat \<Rightarrow> 'a diff_op list" where
  "myersPath a b trace edits = path_back a b trace edits (int (length a)) (int (length b)) []"

fun myers_loop ::
    "'a list \<Rightarrow> 'a list \<Rightarrow> (int \<Rightarrow> int) \<Rightarrow> (int \<Rightarrow> int) list \<Rightarrow> nat list \<Rightarrow> 'a diff_op list option" where
  "myers_loop a b v trace [] = None"
| "myers_loop a b v trace (d # ds) =
     (let trace = trace @ [frontier_slice d v]
      in case myers_row a b d (diagonals d) v of
           None \<Rightarrow> Some (myersPath a b trace d)
         | Some v' \<Rightarrow> myers_loop a b v' trace ds)"

definition myersLineDiff :: "'a list \<Rightarrow> 'a list \<Rightarrow> 'a diff_op list option" where
  "myersLineDiff a b = myers_loop a b (\<lambda>_. 0) [] [0..<Suc (min (length a + length b) MAX_MYERS_EDITS)]"

text \<open>The common head, then the common tail of what is left.\<close>

fun common_prefix :: "'a list \<Rightarrow> 'a list \<Rightarrow> nat" where
  "common_prefix (x # xs) (y # ys) = (if x = y then Suc (common_prefix xs ys) else 0)"
| "common_prefix _ _ = 0"

definition computeLineDiff :: "'a list \<Rightarrow> 'a list \<Rightarrow> 'a diff_op list" where
  "computeLineDiff old new =
     (let head = common_prefix old new;
          tail = common_prefix (rev (drop head old)) (rev (drop head new));
          oldMiddle = js_slice head (length old - tail) old;
          newMiddle = js_slice head (length new - tail) new;
          middle = (if length oldMiddle * length newMiddle \<le> MAX_DIFF_CELLS then lcsLineDiff oldMiddle newMiddle
                    else (case myersLineDiff oldMiddle newMiddle of
                            Some ops \<Rightarrow> ops
                          | None \<Rightarrow> map Remove oldMiddle @ map Add newMiddle))
      in map Equal (take head old) @ middle @ map Equal (drop (length old - tail) old))"

section \<open>What a diff says\<close>

text \<open>The old and the new text of a diff.\<close>

fun old_of :: "'a diff_op list \<Rightarrow> 'a list" where
  "old_of [] = []"
| "old_of (Equal x # ops) = x # old_of ops"
| "old_of (Remove x # ops) = x # old_of ops"
| "old_of (Add x # ops) = old_of ops"

fun new_of :: "'a diff_op list \<Rightarrow> 'a list" where
  "new_of [] = []"
| "new_of (Equal x # ops) = x # new_of ops"
| "new_of (Add x # ops) = x # new_of ops"
| "new_of (Remove x # ops) = new_of ops"

fun kept :: "'a diff_op list \<Rightarrow> nat" where
  "kept [] = 0"
| "kept (Equal x # ops) = Suc (kept ops)"
| "kept (_ # ops) = kept ops"

definition diffs :: "'a list \<Rightarrow> 'a list \<Rightarrow> 'a diff_op list \<Rightarrow> bool" where
  "diffs old new ops \<longleftrightarrow> old_of ops = old \<and> new_of ops = new"

lemma projections_append [simp]:
  "old_of (p @ q) = old_of p @ old_of q" "new_of (p @ q) = new_of p @ new_of q" "kept (p @ q) = kept p + kept q"
  by (induction p rule: old_of.induct; simp)+

lemma projections_map [simp]:
  "old_of (map Equal xs) = xs" "new_of (map Equal xs) = xs" "kept (map Equal xs) = length xs"
  "old_of (map Remove xs) = xs" "new_of (map Remove xs) = []" "kept (map Remove xs) = 0"
  "old_of (map Add xs) = []" "new_of (map Add xs) = xs" "kept (map Add xs) = 0"
  by (induction xs; simp)+

lemma diffs_append: "diffs a b p \<Longrightarrow> diffs c d q \<Longrightarrow> diffs (a @ c) (b @ d) (p @ q)"
  by (simp add: diffs_def)

section \<open>The table walk is a longest common subsequence\<close>

lemma lcs_walk_diffs: "diffs xs ys (lcs_walk table i j xs ys)"
  by (induction table i j xs ys rule: lcs_walk.induct) (auto simp: diffs_def)

text \<open>The length of a longest common subsequence.\<close>

fun lcs_length :: "'a list \<Rightarrow> 'a list \<Rightarrow> nat" where
  "lcs_length (x # xs) (y # ys) =
     (if x = y then Suc (lcs_length xs ys) else max (lcs_length xs (y # ys)) (lcs_length (x # xs) ys))"
| "lcs_length _ _ = 0"

lemma lcs_length_Nil [simp]: "lcs_length xs [] = 0"
  by (cases xs) simp_all

lemma lcs_length_bound: "subseq zs xs \<Longrightarrow> subseq zs ys \<Longrightarrow> length zs \<le> lcs_length xs ys"
proof (induction xs ys arbitrary: zs rule: lcs_length.induct)
  case (1 x xs y ys)
  show ?case
  proof (cases zs)
    case Nil
    then show ?thesis by simp
  next
    case (Cons z zs')
    show ?thesis
    proof (cases "x = y")
      case True
      then have "subseq zs' xs" "subseq zs' ys"
        using "1.prems" Cons by (auto split: if_splits dest: subseq_Cons')
      then show ?thesis using "1.IH"(1) [OF True] True Cons by simp
    next
      case False
      then have "subseq zs xs \<and> subseq zs (y # ys) \<or> subseq zs (x # xs) \<and> subseq zs ys"
        using "1.prems" Cons by (auto split: if_splits)
      then show ?thesis using "1.IH"(2,3) False by force
    qed
  qed
qed simp_all

lemma map_upt_two: "map f [0..<Suc (Suc n)] = f 0 # map (\<lambda>i. f (Suc i)) [0..<Suc n]"
  by (rule map_upt_Suc)

lemma lcs_row_spec:
  assumes "next_row = map (\<lambda>j. lcs_length xs (drop j ys)) [0..<Suc (length ys)]"
  shows "lcs_row x ys next_row = map (\<lambda>j. lcs_length (x # xs) (drop j ys)) [0..<Suc (length ys)]"
  using assms
proof (induction ys arbitrary: next_row)
  case (Cons y ys)
  have next_row: "next_row = lcs_length xs (y # ys) # map (\<lambda>j. lcs_length xs (drop j ys)) [0..<Suc (length ys)]"
    unfolding Cons.prems by (simp add: map_upt_Suc del: upt_Suc)
  have row: "lcs_row x ys (tl next_row) = map (\<lambda>j. lcs_length (x # xs) (drop j ys)) [0..<Suc (length ys)]"
    using next_row by (intro Cons.IH) simp
  have hds: "hd (map f [0..<Suc (length ys)]) = f 0" for f :: "nat \<Rightarrow> nat"
    by (simp add: map_upt_Suc del: upt_Suc)
  show ?case
    using row next_row by (simp add: hds Let_def map_upt_two del: upt_Suc)
qed simp

lemma lcs_table_spec:
  "lcs_table xs ys = map (\<lambda>i. map (\<lambda>j. lcs_length (drop i xs) (drop j ys)) [0..<Suc (length ys)]) [0..<Suc (length xs)]"
proof (induction xs)
  case Nil
  show ?case by (simp add: map_replicate_const del: upt_Suc)
next
  case (Cons x xs)
  have h: "hd (lcs_table xs ys) = map (\<lambda>j. lcs_length xs (drop j ys)) [0..<Suc (length ys)]"
    unfolding Cons.IH by (simp add: map_upt_Suc [of _ "length xs"] del: upt_Suc)
  show ?case
    by (simp add: Let_def lcs_row_spec [OF h] map_upt_two del: upt_Suc) (simp add: Cons.IH del: upt_Suc)
qed

lemma length_at_spec:
  "i \<le> length xs \<Longrightarrow> j \<le> length ys \<Longrightarrow> length_at (lcs_table xs ys) i j = lcs_length (drop i xs) (drop j ys)"
  unfolding lcs_table_spec length_at_def by (simp del: upt_Suc add: nth_append)

lemma drop_cons: "drop i xs = y # ys \<Longrightarrow> drop (i + 1) xs = ys \<and> i + 1 \<le> length xs"
  by (cases "i < length xs") (simp_all add: Cons_nth_drop_Suc [symmetric])

lemma lcs_walk_kept:
  assumes "drop i old = xs" "drop j new = ys" "i \<le> length old" "j \<le> length new"
  shows "kept (lcs_walk (lcs_table old new) i j xs ys) = lcs_length xs ys"
  using assms
proof (induction "lcs_table old new" i j xs ys rule: lcs_walk.induct)
  case (1 i j x xs y ys)
  note o = drop_cons [OF "1.prems"(1)] drop_cons [OF "1.prems"(2)]
  have "length_at (lcs_table old new) (i + 1) j = lcs_length xs (y # ys)"
    "length_at (lcs_table old new) i (j + 1) = lcs_length (x # xs) ys"
    using o "1.prems" by (simp_all add: length_at_spec)
  then show ?case
    using "1.hyps" o "1.prems" by (auto simp: max_def)
qed (simp_all split: list.splits)

lemma lcsLineDiff_kept: "kept (lcsLineDiff old new) = lcs_length old new"
  unfolding lcsLineDiff_def by (rule lcs_walk_kept) simp_all

section \<open>Myers' search\<close>

lemma snake_facts:
  "x \<le> snake a b k x \<and>
   (snake a b k x = x \<or> snake a b k x \<le> int (length a) \<and> snake a b k x - k \<le> int (length b)) \<and>
   (\<forall>i. x \<le> i \<and> i < snake a b k x \<longrightarrow>
      i < int (length a) \<and> i - k < int (length b) \<and> a ! nat i = b ! nat (i - k))"
proof (induction a b k x rule: snake.induct)
  case (1 a b k x)
  show ?case
  proof (cases "x < int (length a) \<and> x - k < int (length b) \<and> a ! nat x = b ! nat (x - k)")
    case True
    from "1.IH" [OF True] True show ?thesis
      by (subst (1 2 3 4 5) snake.simps) (auto, metis add1_zle_eq order_le_less)
  next
    case False
    then show ?thesis by (subst (1 2 3 4 5) snake.simps) auto
  qed
qed

text \<open>The frontier when edit \<open>d\<close> starts.\<close>

fun frontier_at :: "'a list \<Rightarrow> 'a list \<Rightarrow> nat \<Rightarrow> int \<Rightarrow> int" where
  "frontier_at a b 0 = (\<lambda>_. 0)"
| "frontier_at a b (Suc d) =
     (\<lambda>k. if k \<in> set (diagonals d) then furthest a b d k (frontier_at a b d) else frontier_at a b d k)"

lemma set_diagonals: "k \<in> set (diagonals d) \<longleftrightarrow> - int d \<le> k \<and> k \<le> int d \<and> even (k + int d)"
proof
  assume "- int d \<le> k \<and> k \<le> int d \<and> even (k + int d)"
  moreover from this obtain j where "k + int d = 2 * j" using evenE by blast
  ultimately have j: "k + int d = 2 * j" "0 \<le> j" "j \<le> int d" by linarith+
  then have "k = 2 * int (nat j) - int d" "nat j \<in> {0..<Suc d}" by auto
  then show "k \<in> set (diagonals d)" unfolding diagonals_def set_map set_upt by (rule image_eqI)
qed (auto simp: diagonals_def simp del: upt_Suc)

definition reaches_end :: "'a list \<Rightarrow> 'a list \<Rightarrow> int \<Rightarrow> int \<Rightarrow> bool" where
  "reaches_end a b k x \<longleftrightarrow> x \<ge> int (length a) \<and> x - k \<ge> int (length b)"

lemma furthest_cong: "v (k - 1) = w (k - 1) \<Longrightarrow> v (k + 1) = w (k + 1) \<Longrightarrow> furthest a b d k v = furthest a b d k w"
  by (simp add: furthest_def goes_down_def)

lemma myers_row_spec:
  assumes "\<forall>k\<in>set ks. even (k + int d)" "\<forall>k. odd (k + int d) \<longrightarrow> w k = v k"
  shows "myers_row a b d ks w =
    (if \<exists>k\<in>set ks. reaches_end a b k (furthest a b d k v) then None
     else Some (\<lambda>k. if k \<in> set ks then furthest a b d k v else w k))"
  using assms
proof (induction ks arbitrary: w)
  case (Cons k ks)
  have "odd (k - 1 + int d)" "odd (k + 1 + int d)" using Cons.prems(1) by auto
  then have f: "furthest a b d k w = furthest a b d k v"
    using Cons.prems(2) by (intro furthest_cong) blast+
  show ?case
  proof (cases "reaches_end a b k (furthest a b d k v)")
    case True
    then show ?thesis by (simp add: f Let_def reaches_end_def)
  next
    case False
    have "\<forall>k'. odd (k' + int d) \<longrightarrow> (w(k := furthest a b d k v)) k' = v k'"
      using Cons.prems by auto
    then have ih: "myers_row a b d ks (w(k := furthest a b d k v)) =
        (if \<exists>k\<in>set ks. reaches_end a b k (furthest a b d k v) then None
         else Some (\<lambda>k'. if k' \<in> set ks then furthest a b d k' v else (w(k := furthest a b d k v)) k'))"
      using Cons.prems(1) by (intro Cons.IH) simp_all
    have "(\<lambda>k'. if k' \<in> set ks then furthest a b d k' v else (w(k := furthest a b d k v)) k')
        = (\<lambda>k'. if k' \<in> set (k # ks) then furthest a b d k' v else w k')"
      by (auto simp: fun_eq_iff)
    moreover have "myers_row a b d (k # ks) w = myers_row a b d ks (w(k := furthest a b d k v))"
      using False by (auto simp: f Let_def reaches_end_def)
    ultimately show ?thesis using ih False by simp
  qed
qed simp

lemma diagonal_row:
  "myers_row a b d (diagonals d) (frontier_at a b d) =
    (if \<exists>k\<in>set (diagonals d). reaches_end a b k (frontier_at a b (Suc d) k) then None
     else Some (frontier_at a b (Suc d)))"
  using myers_row_spec [of "diagonals d" d "frontier_at a b d" "frontier_at a b d" a b]
  by (auto simp: set_diagonals fun_eq_iff)

lemma myers_loop_spec:
  assumes "myers_loop a b (frontier_at a b d0) (map (\<lambda>d. frontier_slice d (frontier_at a b d)) [0..<d0]) [d0..<N] = Some ops"
  shows "\<exists>d. d0 \<le> d \<and> (\<exists>k\<in>set (diagonals d). reaches_end a b k (frontier_at a b (Suc d) k)) \<and>
    (\<forall>d'. d0 \<le> d' \<and> d' < d \<longrightarrow> (\<forall>k\<in>set (diagonals d'). \<not> reaches_end a b k (frontier_at a b (Suc d') k))) \<and>
    ops = myersPath a b (map (\<lambda>d. frontier_slice d (frontier_at a b d)) [0..<Suc d]) d"
  using assms
proof (induction "N - d0" arbitrary: d0)
  case 0
  then show ?case by simp
next
  case (Suc m)
  then have u: "[d0..<N] = d0 # [Suc d0..<N]" by (simp add: upt_conv_Cons)
  have t: "map f [0..<d0] @ [f d0] = map f [0..<Suc d0]" for f :: "nat \<Rightarrow> int \<Rightarrow> int" by simp
  show ?case
  proof (cases "\<exists>k\<in>set (diagonals d0). reaches_end a b k (frontier_at a b (Suc d0) k)")
    case True
    then show ?thesis using Suc.prems
      by (intro exI [of _ d0]) (auto simp: u Let_def t diagonal_row simp del: frontier_at.simps)
  next
    case False
    then have "myers_loop a b (frontier_at a b (Suc d0))
        (map (\<lambda>d. frontier_slice d (frontier_at a b d)) [0..<Suc d0]) [Suc d0..<N] = Some ops"
      using Suc.prems by (simp add: u Let_def diagonal_row del: frontier_at.simps)
    then obtain d where d: "Suc d0 \<le> d" "\<exists>k\<in>set (diagonals d). reaches_end a b k (frontier_at a b (Suc d) k)"
        "\<forall>d'. Suc d0 \<le> d' \<and> d' < d \<longrightarrow> (\<forall>k\<in>set (diagonals d'). \<not> reaches_end a b k (frontier_at a b (Suc d') k))"
        "ops = myersPath a b (map (\<lambda>d. frontier_slice d (frontier_at a b d)) [0..<Suc d]) d"
      using Suc.hyps by (metis Suc_diff_Suc diff_Suc_1 zero_less_Suc zero_less_diff)
    have "\<forall>d'. d0 \<le> d' \<and> d' < d \<longrightarrow> (\<forall>k\<in>set (diagonals d'). \<not> reaches_end a b k (frontier_at a b (Suc d') k))"
      using d(3) False by (metis Suc_leI order_le_less)
    then show ?thesis using d by (intro exI [of _ d]) auto
  qed
qed

lemma diagonal_neighbours:
  "k \<in> set (diagonals (Suc d)) \<Longrightarrow> k \<noteq> int (Suc d) \<Longrightarrow> k + 1 \<in> set (diagonals d)"
  "k \<in> set (diagonals (Suc d)) \<Longrightarrow> k \<noteq> - int (Suc d) \<Longrightarrow> k - 1 \<in> set (diagonals d)"
  "k \<in> set (diagonals d) \<Longrightarrow> k + 1 \<in> set (diagonals (Suc d)) \<and> k - 1 \<in> set (diagonals (Suc d))"
  "k \<in> set (diagonals d) \<Longrightarrow> k < int d \<Longrightarrow> k + 2 \<in> set (diagonals d)"
  "k \<in> set (diagonals d) \<Longrightarrow> - int d < k \<Longrightarrow> k - 2 \<in> set (diagonals d)"
  unfolding set_diagonals by presburger+

text \<open>Each diagonal of a row goes at least as far as its neighbours of the row before.\<close>

lemma next_row_furthest:
  "k \<in> set (diagonals (Suc d)) \<Longrightarrow>
     frontier_at a b (Suc (Suc d)) k = furthest a b (Suc d) k (frontier_at a b (Suc d))"
  by (simp only: frontier_at.simps(2) [of a b "Suc d"] if_True)

lemma furthest_beyond:
  assumes "j \<in> set (diagonals d)"
  shows "frontier_at a b (Suc d) j \<le> frontier_at a b (Suc (Suc d)) (j - 1)"
    and "frontier_at a b (Suc d) j + 1 \<le> frontier_at a b (Suc (Suc d)) (j + 1)"
proof -
  let ?W = "frontier_at a b (Suc d)"
  let ?s = "\<lambda>k. if goes_down (Suc d) k ?W then ?W (k + 1) else ?W (k - 1) + 1"
  have x: "?s k \<le> frontier_at a b (Suc (Suc d)) k" if "k \<in> set (diagonals (Suc d))" for k
    using that snake_facts [of "?s k" a b k] by (simp only: next_row_furthest furthest_def)
  have j: "j \<noteq> int (Suc d) + 1" "j \<noteq> - int (Suc d) - 1" "- int d \<le> j" "j \<le> int d"
    using assms by (simp_all add: set_diagonals)
  have "?W j \<le> ?s (j - 1)" using j by (simp add: goes_down_def del: frontier_at.simps)
  then show "?W j \<le> frontier_at a b (Suc (Suc d)) (j - 1)"
    using x [of "j - 1"] diagonal_neighbours(3) [OF assms] by linarith
  have "?W j + 1 \<le> ?s (j + 1)" using j by (simp add: goes_down_def del: frontier_at.simps)
  then show "?W j + 1 \<le> frontier_at a b (Suc (Suc d)) (j + 1)"
    using x [of "j + 1"] diagonal_neighbours(3) [OF assms] by linarith
qed

text \<open>
  A path never leaves the two texts unless its neighbour on the inside is at least as far:
  this is what makes the first diagonal that reaches both ends the one of the corner.
\<close>

definition row_ok :: "'a list \<Rightarrow> 'a list \<Rightarrow> nat \<Rightarrow> bool" where
  "row_ok a b d \<longleftrightarrow> (\<forall>k\<in>set (diagonals d). let x = frontier_at a b (Suc d) k in
     0 \<le> x \<and> 0 \<le> x - k \<and>
     (x - k > int (length b) \<longrightarrow> k < int d \<and> x + 1 \<le> frontier_at a b (Suc d) (k + 2)) \<and>
     (x > int (length a) \<longrightarrow> - int d < k \<and> x - 1 \<le> frontier_at a b (Suc d) (k - 2)))"

lemma row_okD:
  assumes "row_ok a b d" "k \<in> set (diagonals d)"
  shows "0 \<le> frontier_at a b (Suc d) k" "0 \<le> frontier_at a b (Suc d) k - k"
    "frontier_at a b (Suc d) k - k > int (length b) \<Longrightarrow>
       k < int d \<and> frontier_at a b (Suc d) k + 1 \<le> frontier_at a b (Suc d) (k + 2)"
    "frontier_at a b (Suc d) k > int (length a) \<Longrightarrow>
       - int d < k \<and> frontier_at a b (Suc d) k - 1 \<le> frontier_at a b (Suc d) (k - 2)"
  using assms unfolding row_ok_def Let_def by blast+

text \<open>The step to a diagonal of the next row, down or to the right.\<close>

lemma row_step:
  assumes "k \<in> set (diagonals (Suc d))"
  obtains (down) "goes_down (Suc d) k (frontier_at a b (Suc d))" "k + 1 \<in> set (diagonals d)"
      "frontier_at a b (Suc (Suc d)) k = snake a b k (frontier_at a b (Suc d) (k + 1))"
    | (right) "\<not> goes_down (Suc d) k (frontier_at a b (Suc d))" "k - 1 \<in> set (diagonals d)"
      "frontier_at a b (Suc (Suc d)) k = snake a b k (frontier_at a b (Suc d) (k - 1) + 1)"
proof -
  note x = next_row_furthest [OF assms, of a b]
  have "goes_down (Suc d) k (frontier_at a b (Suc d)) \<Longrightarrow> k + 1 \<in> set (diagonals d)"
    "\<not> goes_down (Suc d) k (frontier_at a b (Suc d)) \<Longrightarrow> k - 1 \<in> set (diagonals d)"
    using diagonal_neighbours(1,2) [OF assms] by (auto simp: goes_down_def simp del: frontier_at.simps)
  then show thesis using down right x unfolding furthest_def by (cases "goes_down (Suc d) k (frontier_at a b (Suc d))") auto
qed

lemma row_ok_first: "row_ok a b 0"
proof -
  have "set (diagonals 0) = {0}" by (simp add: diagonals_def)
  moreover have "frontier_at a b (Suc 0) 0 = snake a b 0 0"
    by (simp add: furthest_def goes_down_def diagonals_def)
  ultimately show ?thesis
    using snake_facts [of 0 a b 0] by (auto simp: row_ok_def Let_def simp del: frontier_at.simps)
qed

lemma row_ok_next:
  assumes "row_ok a b d"
  shows "row_ok a b (Suc d)"
  unfolding row_ok_def Let_def
proof (intro ballI)
  fix k
  assume k: "k \<in> set (diagonals (Suc d))"
  let ?x = "frontier_at a b (Suc (Suc d)) k" and ?W = "frontier_at a b (Suc d)"
  let ?X = "frontier_at a b (Suc (Suc d))"
  from k show "0 \<le> ?x \<and> 0 \<le> ?x - k \<and>
     (?x - k > int (length b) \<longrightarrow> k < int (Suc d) \<and> ?x + 1 \<le> ?X (k + 2)) \<and>
     (?x > int (length a) \<longrightarrow> - int (Suc d) < k \<and> ?x - 1 \<le> ?X (k - 2))"
  proof (cases rule: row_step [where a = a and b = b])
    case down
    note w = row_okD [OF assms down(2)]
    note f = snake_facts [where a = a and b = b and k = k and x = "?W (k + 1)", folded down(3)]
    have r: "?W (k + 1) + 1 \<le> ?X (k + 2)"
      using furthest_beyond(2) [OF down(2), of a b] by (simp add: add.assoc del: frontier_at.simps)
    have l: "?x - 1 \<le> ?X (k - 2) \<and> - int (Suc d) < k" if "?x > int (length a)"
    proof -
      have e: "?x = ?W (k + 1)" using f that by auto
      from w(4) that have i: "- int d < k + 1" "?W (k + 1) - 1 \<le> ?W (k + 1 - 2)" unfolding e by blast+
      moreover have "k + 1 - 2 = k - 1" by simp
      moreover have "?W (k - 1) \<le> ?X (k - 1 - 1)"
        using furthest_beyond(1) [OF diagonal_neighbours(5) [OF down(2) i(1)], of a b] by (simp del: frontier_at.simps)
      ultimately show ?thesis unfolding e by (simp del: frontier_at.simps)
    qed
    have "k < int (Suc d)" using down(2) by (simp add: set_diagonals)
    then show ?thesis using f r l w(1,2) by (auto simp del: frontier_at.simps)
  next
    case right
    note w = row_okD [OF assms right(2)]
    note f = snake_facts [where a = a and b = b and k = k and x = "?W (k - 1) + 1", folded right(3)]
    have l: "?W (k - 1) \<le> ?X (k - 2)"
      using furthest_beyond(1) [OF right(2), of a b] by (simp del: frontier_at.simps)
    have r: "?x + 1 \<le> ?X (k + 2) \<and> k < int (Suc d)" if "?x - k > int (length b)"
    proof -
      have e: "?x = ?W (k - 1) + 1" using f that by auto
      from w(3) that have i: "k - 1 < int d" "?W (k - 1) + 1 \<le> ?W (k - 1 + 2)" unfolding e by simp_all
      moreover have "k - 1 + 2 = k + 1" by simp
      moreover have "?W (k + 1) + 1 \<le> ?X (k + 1 + 1)"
        using furthest_beyond(2) [OF diagonal_neighbours(4) [OF right(2) i(1)], of a b]
        by (simp add: add.commute del: frontier_at.simps)
      ultimately show ?thesis unfolding e by (simp add: add.assoc del: frontier_at.simps)
    qed
    have "- int (Suc d) < k" using right(2) by (simp add: set_diagonals)
    then show ?thesis using f r l w(1,2) by (auto simp del: frontier_at.simps)
  qed
qed

lemma rows_ok: "row_ok a b d"
  by (induction d) (simp_all add: row_ok_first row_ok_next)

lemma first_end_is_corner:
  assumes k: "k \<in> set (diagonals d)" and fin: "reaches_end a b k (frontier_at a b (Suc d) k)"
    and first: "\<forall>d'<d. \<forall>k\<in>set (diagonals d'). \<not> reaches_end a b k (frontier_at a b (Suc d') k)"
  shows "frontier_at a b (Suc d) k = int (length a) \<and> frontier_at a b (Suc d) k - k = int (length b)"
proof (cases d)
  case 0
  then have "k = 0" using k by (simp add: set_diagonals)
  then have "frontier_at a b (Suc d) k = snake a b 0 0"
    using 0 k by (simp add: furthest_def goes_down_def)
  then show ?thesis using fin snake_facts [of 0 a b 0] \<open>k = 0\<close> by (auto simp: reaches_end_def)
next
  case (Suc d')
  let ?x = "frontier_at a b (Suc (Suc d')) k" and ?W = "frontier_at a b (Suc d')"
  have not_before: "\<not> reaches_end a b j (?W j)" if "j \<in> set (diagonals d')" for j
    using first Suc that by blast
  from k [unfolded Suc] show ?thesis unfolding Suc
  proof (cases rule: row_step [where a = a and b = b])
    case down
    note w = row_okD [OF rows_ok [of a b d'] down(2)]
    note f = snake_facts [where a = a and b = b and k = k and x = "?W (k + 1)", folded down(3)]
    have "?x = ?W (k + 1) \<Longrightarrow> ?W (k + 1) \<le> int (length a)"
    proof (rule ccontr)
      assume e: "?x = ?W (k + 1)" and "\<not> ?W (k + 1) \<le> int (length a)"
      then have i: "- int d' < k + 1" "?W (k + 1) - 1 \<le> ?W (k + 1 - 2)" using w(4) by simp_all
      moreover have "k + 1 - 2 = k - 1" by simp
      ultimately have "reaches_end a b (k - 1) (?W (k - 1))"
        using fin e \<open>\<not> ?W (k + 1) \<le> int (length a)\<close> unfolding Suc reaches_end_def by simp
      then show False using not_before diagonal_neighbours(5) [OF down(2) i(1)] \<open>k + 1 - 2 = k - 1\<close> by metis
    qed
    then show "?x = int (length a) \<and> ?x - k = int (length b)"
      using f fin not_before [OF down(2)] unfolding Suc reaches_end_def by linarith
  next
    case right
    note w = row_okD [OF rows_ok [of a b d'] right(2)]
    note f = snake_facts [where a = a and b = b and k = k and x = "?W (k - 1) + 1", folded right(3)]
    have "?x = ?W (k - 1) + 1 \<Longrightarrow> ?W (k - 1) - (k - 1) \<le> int (length b)"
    proof (rule ccontr)
      assume e: "?x = ?W (k - 1) + 1" and "\<not> ?W (k - 1) - (k - 1) \<le> int (length b)"
      then have i: "k - 1 < int d'" "?W (k - 1) + 1 \<le> ?W (k - 1 + 2)" using w(3) by simp_all
      moreover have "k - 1 + 2 = k + 1" by simp
      ultimately have "reaches_end a b (k + 1) (?W (k + 1))"
        using fin e \<open>\<not> ?W (k - 1) - (k - 1) \<le> int (length b)\<close> unfolding Suc reaches_end_def by simp
      then show False using not_before diagonal_neighbours(4) [OF right(2) i(1)] \<open>k - 1 + 2 = k + 1\<close> by metis
    qed
    then show "?x = int (length a) \<and> ?x - k = int (length b)"
      using f fin not_before [OF right(2)] unfolding Suc reaches_end_def by linarith
  qed
qed

section \<open>The walk back\<close>

text \<open>Back along a diagonal of equal lines, to its start.\<close>

lemma back_diagonal_spec:
  assumes "px \<le> s" "py \<le> s - k" "s = px \<or> s - k = py" "0 \<le> s" "s \<le> x" "x \<le> int (length a)"
  shows "back_diagonal a px py x (x - k) ops
    = (s, s - k, map Equal (take (nat (x - s)) (drop (nat s) a)) @ ops)"
  using assms
proof (induction "nat (x - s)" arbitrary: x ops)
  case 0
  then show ?case by (subst back_diagonal.simps) auto
next
  case (Suc n)
  then have x: "s \<le> x - 1" "x > px" "x - k > py" by auto
  have seg: "take (nat (x - s)) (drop (nat s) a)
      = take (nat (x - 1 - s)) (drop (nat s) a) @ [a ! nat (x - 1)]"
  proof -
    have "nat (x - s) = Suc (nat (x - 1 - s))" "nat s + nat (x - 1 - s) = nat (x - 1)"
      "nat (x - 1 - s) < length a - nat s"
      using x Suc.prems by linarith+
    then show ?thesis by (simp add: take_Suc_conv_app_nth)
  qed
  have "back_diagonal a px py x (x - k) ops
      = back_diagonal a px py (x - 1) (x - 1 - k) (Equal (a ! nat (x - 1)) # ops)"
    using x by (subst back_diagonal.simps) (simp add: algebra_simps)
  also have "\<dots> = (s, s - k, map Equal (take (nat (x - 1 - s)) (drop (nat s) a)) @ Equal (a ! nat (x - 1)) # ops)"
    using Suc x by (intro Suc.hyps(1)) auto
  finally show ?case unfolding seg by simp
qed

lemma equal_segment:
  assumes "0 \<le> s" "0 \<le> s - k" "s \<le> x" "x \<le> int (length a)" "x - k \<le> int (length b)"
    and "\<forall>i. s \<le> i \<and> i < x \<longrightarrow> a ! nat i = b ! nat (i - k)"
  shows "take (nat (x - k)) b = take (nat (s - k)) b @ take (nat (x - s)) (drop (nat s) a)"
    and "take (nat x) a = take (nat s) a @ take (nat (x - s)) (drop (nat s) a)"
proof -
  have n: "nat x = nat s + nat (x - s)" "nat (x - k) = nat (s - k) + nat (x - s)"
    using assms(1-3) by linarith+
  show "take (nat x) a = take (nat s) a @ take (nat (x - s)) (drop (nat s) a)"
    unfolding n(1) by (rule take_add)
  have "take (nat (x - s)) (drop (nat (s - k)) b) = take (nat (x - s)) (drop (nat s) a)"
  proof (rule nth_equalityI)
    show "length (take (nat (x - s)) (drop (nat (s - k)) b)) = length (take (nat (x - s)) (drop (nat s) a))"
      using assms(1-5) by auto
    fix j
    assume "j < length (take (nat (x - s)) (drop (nat (s - k)) b))"
    then have j: "int j < x - s" using assms(3) by auto
    have "nat (s + int j) = nat s + j" "nat (s + int j - k) = nat (s - k) + j"
      using assms(1,2) by linarith+
    then have "a ! (nat s + j) = b ! (nat (s - k) + j)"
      using assms(6) [rule_format, of "s + int j"] j by simp
    then show "take (nat (x - s)) (drop (nat (s - k)) b) ! j = take (nat (x - s)) (drop (nat s) a) ! j"
      using j assms(1-5) by simp
  qed
  then show "take (nat (x - k)) b = take (nat (s - k)) b @ take (nat (x - s)) (drop (nat s) a)"
    unfolding n(2) by (simp add: take_add)
qed

lemma goes_down_slice:
  assumes "k \<in> set (diagonals (Suc d))"
  shows "goes_down (Suc d) k (frontier_slice (Suc d) v) = goes_down (Suc d) k v"
    and "goes_down (Suc d) k v \<Longrightarrow> frontier_slice (Suc d) v (k + 1) = v (k + 1)"
    and "\<not> goes_down (Suc d) k v \<Longrightarrow> frontier_slice (Suc d) v (k - 1) = v (k - 1)"
  using assms by (auto simp: goes_down_def frontier_slice_def set_diagonals)

lemma path_back_spec:
  assumes trace: "\<forall>i\<le>D. trace ! i = frontier_slice i (frontier_at a b i)"
  shows "d \<le> D \<Longrightarrow> k \<in> set (diagonals d) \<Longrightarrow> x = frontier_at a b (Suc d) k \<Longrightarrow> x \<le> int (length a)
      \<Longrightarrow> x - k \<le> int (length b) \<Longrightarrow>
    \<exists>pre. path_back a b trace d x (x - k) ops = pre @ ops \<and> diffs (take (nat x) a) (take (nat (x - k)) b) pre"
proof (induction d arbitrary: k x ops)
  case 0
  then have k: "k = 0" by (simp add: set_diagonals)
  have x: "x = snake a b 0 0" using 0 k by (simp add: furthest_def goes_down_def)
  note f = snake_facts [of 0 a b 0, folded x]
  have "back_diagonal a 0 0 x (x - 0) ops = (0, 0 - 0, map Equal (take (nat (x - 0)) (drop (nat 0) a)) @ ops)"
    using f 0 by (intro back_diagonal_spec) auto
  moreover have "take (nat (x - 0)) b = take (nat (0 - 0)) b @ take (nat (x - 0)) (drop (nat 0) a)"
    using f 0 k by (intro equal_segment) auto
  ultimately show ?case using k by (simp add: diffs_def)
next
  case (Suc d)
  let ?W = "frontier_at a b (Suc d)"
  have t: "trace ! Suc d = frontier_slice (Suc d) ?W" using trace Suc.prems(1) by simp
  note slice = goes_down_slice [OF Suc.prems(2), of ?W]
  have tk: "x - (x - k) = k" by simp
  show ?case using Suc.prems(2)
  proof (cases rule: row_step [where a = a and b = b])
    case down
    let ?s = "?W (k + 1)"
    note w = row_okD [OF rows_ok [of a b d] down(2)]
    note f = snake_facts [where a = a and b = b and k = k and x = "?s", folded down(3), folded Suc.prems(3)]
    have walk: "back_diagonal a ?s (?s - (k + 1)) x (x - k) ops
        = (?s, ?s - k, map Equal (take (nat (x - ?s)) (drop (nat ?s) a)) @ ops)"
      using f w Suc.prems(4) by (intro back_diagonal_spec) auto
    note seg = equal_segment [of ?s k x a b]
    have y: "?s - k - 1 = ?s - (k + 1)" by simp
    obtain pre where pre: "path_back a b trace d ?s (?s - (k + 1))
          (Add (b ! nat (?s - (k + 1))) # map Equal (take (nat (x - ?s)) (drop (nat ?s) a)) @ ops)
        = pre @ (Add (b ! nat (?s - (k + 1))) # map Equal (take (nat (x - ?s)) (drop (nat ?s) a)) @ ops)"
      "diffs (take (nat ?s) a) (take (nat (?s - (k + 1))) b) pre"
      using Suc.IH [of "k + 1" ?s] down(2) Suc.prems f by auto
    have "nat (?s - k) = Suc (nat (?s - (k + 1)))" "nat (?s - (k + 1)) < length b"
      using w(2) f Suc.prems(5) by linarith+
    then have b: "take (nat (?s - k)) b = take (nat (?s - (k + 1))) b @ [b ! nat (?s - (k + 1))]"
      by (simp add: take_Suc_conv_app_nth)
    have "path_back a b trace (Suc d) x (x - k) ops
        = (pre @ [Add (b ! nat (?s - (k + 1)))] @ map Equal (take (nat (x - ?s)) (drop (nat ?s) a))) @ ops"
      using pre(1) down(1) by (simp add: t tk Let_def slice walk y del: frontier_at.simps)
    moreover have "diffs (take (nat x) a) (take (nat (x - k)) b)
        (pre @ [Add (b ! nat (?s - (k + 1)))] @ map Equal (take (nat (x - ?s)) (drop (nat ?s) a)))"
      using pre(2) seg f w Suc.prems(4,5) b by (simp add: diffs_def)
    ultimately show ?thesis by blast
  next
    case right
    let ?p = "?W (k - 1)" and ?s = "?W (k - 1) + 1"
    note w = row_okD [OF rows_ok [of a b d] right(2)]
    note f = snake_facts [where a = a and b = b and k = k and x = "?s", folded right(3), folded Suc.prems(3)]
    have walk: "back_diagonal a ?p (?p - (k - 1)) x (x - k) ops
        = (?s, ?s - k, map Equal (take (nat (x - ?s)) (drop (nat ?s) a)) @ ops)"
      using f w Suc.prems(4) by (intro back_diagonal_spec) auto
    note seg = equal_segment [of ?s k x a b]
    have y: "?s - k = ?p - (k - 1)" by simp
    have seg': "take (nat (x - k)) b = take (nat (?p - (k - 1))) b @ take (nat (x - ?s)) (drop (nat ?s) a)"
      "take (nat x) a = take (nat ?s) a @ take (nat (x - ?s)) (drop (nat ?s) a)"
      using seg f w Suc.prems(4,5) unfolding y [symmetric] by auto
    obtain pre where pre: "path_back a b trace d ?p (?p - (k - 1))
          (Remove (a ! nat ?p) # map Equal (take (nat (x - ?s)) (drop (nat ?s) a)) @ ops)
        = pre @ (Remove (a ! nat ?p) # map Equal (take (nat (x - ?s)) (drop (nat ?s) a)) @ ops)"
      "diffs (take (nat ?p) a) (take (nat (?p - (k - 1))) b) pre"
      using Suc.IH [of "k - 1" ?p] right(2) Suc.prems f by auto
    have "nat ?s = Suc (nat ?p)" "nat ?p < length a"
      using w(1) f Suc.prems(4) by linarith+
    then have a: "take (nat ?s) a = take (nat ?p) a @ [a ! nat ?p]"
      by (simp add: take_Suc_conv_app_nth)
    have "path_back a b trace (Suc d) x (x - k) ops
        = (pre @ [Remove (a ! nat ?p)] @ map Equal (take (nat (x - ?s)) (drop (nat ?s) a))) @ ops"
      using pre(1) right(1) by (simp add: t tk Let_def slice walk [unfolded y] del: frontier_at.simps)
    moreover have "diffs (take (nat x) a) (take (nat (x - k)) b)
        (pre @ [Remove (a ! nat ?p)] @ map Equal (take (nat (x - ?s)) (drop (nat ?s) a)))"
      using pre(2) seg' a by (simp add: diffs_def del: frontier_at.simps)
    ultimately show ?thesis by blast
  qed
qed

lemma myersLineDiff_diffs:
  assumes "myersLineDiff a b = Some ops"
  shows "diffs a b ops"
proof -
  let ?trace = "\<lambda>d. map (\<lambda>d. frontier_slice d (frontier_at a b d)) [0..<Suc d]"
  have start: "myers_loop a b (frontier_at a b 0) (map (\<lambda>d. frontier_slice d (frontier_at a b d)) [0..<0])
      [0..<Suc (min (length a + length b) MAX_MYERS_EDITS)] = Some ops"
    using assms by (simp add: myersLineDiff_def del: upt_Suc)
  obtain d k where k: "k \<in> set (diagonals d)" "reaches_end a b k (frontier_at a b (Suc d) k)"
      and first: "\<forall>d'<d. \<forall>k\<in>set (diagonals d'). \<not> reaches_end a b k (frontier_at a b (Suc d') k)"
      and ops: "ops = myersPath a b (?trace d) d"
    using myers_loop_spec [OF start] by (auto simp del: frontier_at.simps upt_Suc)
  note corner = first_end_is_corner [OF k first]
  have nth: "\<forall>i\<le>d. ?trace d ! i = frontier_slice i (frontier_at a b i)"
    by (auto simp: nth_append less_Suc_eq simp del: frontier_at.simps)
  obtain pre where "path_back a b (?trace d) d (frontier_at a b (Suc d) k) (frontier_at a b (Suc d) k - k) [] = pre @ []"
      "diffs (take (nat (frontier_at a b (Suc d) k)) a) (take (nat (frontier_at a b (Suc d) k - k)) b) pre"
    using path_back_spec [OF nth order_refl k(1) refl, of "[]"] corner by auto
  moreover have "int (length a) - k = int (length b)" using corner by simp
  ultimately show ?thesis using corner ops by (simp add: myersPath_def del: frontier_at.simps upt_Suc)
qed

section \<open>Trimming\<close>

lemma common_prefix_take:
  "common_prefix xs ys \<le> length xs \<and> common_prefix xs ys \<le> length ys \<and>
   take (common_prefix xs ys) xs = take (common_prefix xs ys) ys"
  by (induction xs ys rule: common_prefix.induct) auto

lemma common_suffix:
  assumes "t = common_prefix (rev xs) (rev ys)"
  shows "t \<le> length xs \<and> t \<le> length ys \<and> drop (length xs - t) xs = drop (length ys - t) ys"
proof -
  note c = common_prefix_take [of "rev xs" "rev ys", folded assms]
  then have "rev (take t (rev xs)) = rev (take t (rev ys))" by simp
  then have "drop (length xs - t) xs = drop (length ys - t) ys"
    by (simp only: rev_take rev_rev_ident length_rev)
  then show ?thesis using c by simp
qed

text \<open>How the head and the tail split the two lists.\<close>

lemma trim_splits:
  fixes old new :: "'a list"
  defines "h \<equiv> common_prefix old new"
  defines "t \<equiv> common_prefix (rev (drop h old)) (rev (drop h new))"
  shows "\<exists>p s. take h old = p \<and> drop (length old - t) old = s \<and>
    old = p @ js_slice h (length old - t) old @ s \<and> new = p @ js_slice h (length new - t) new @ s"
proof -
  note p = common_prefix_take [of old new, folded h_def]
  note t = common_suffix [OF t_def [THEN meta_eq_to_obj_eq]]
  have split: "xs = take h xs @ js_slice h (length xs - t) xs @ drop (length xs - t) xs"
    if "h \<le> length xs" "t \<le> length (drop h xs)" for xs :: "'a list"
  proof -
    have "h \<le> length xs - t" using that by simp
    then have "js_slice h (length xs - t) xs @ drop (length xs - t) xs = drop h xs"
      by (rule js_slice_append_drop)
    then show ?thesis by simp
  qed
  have tails: "drop (length xs - t) xs = drop (length (drop h xs) - t) (drop h xs)"
    if "h \<le> length xs" "t \<le> length (drop h xs)" for xs :: "'a list"
  proof -
    have "length xs - t = length (drop h xs) - t + h" using that by simp
    then show ?thesis by simp
  qed
  have "drop (length old - t) old = drop (length new - t) new"
    using tails [of old] tails [of new] t p by simp
  then show ?thesis using split [of old] split [of new] t p by metis
qed

lemma lcs_length_prefix: "lcs_length (p @ xs) (p @ ys) = length p + lcs_length xs ys"
  by (induction p) simp_all

lemma lcs_length_attained: "\<exists>zs. subseq zs xs \<and> subseq zs ys \<and> length zs = lcs_length xs ys"
proof (induction xs ys rule: lcs_length.induct)
  case (1 x xs y ys)
  show ?case
  proof (cases "x = y")
    case True
    with "1.IH"(1) obtain zs where "subseq zs xs" "subseq zs ys" "length zs = lcs_length xs ys" by blast
    then show ?thesis using True by (intro exI [of _ "x # zs"]) simp
  next
    case False
    with "1.IH"(2,3) obtain u v where "subseq u xs" "subseq u (y # ys)" "length u = lcs_length xs (y # ys)"
      "subseq v (x # xs)" "subseq v ys" "length v = lcs_length (x # xs) ys" by blast
    then show ?thesis using False by (auto simp: max_def)
  qed
qed auto

lemma lcs_length_suffix: "lcs_length (xs @ s) (ys @ s) = lcs_length xs ys + length s"
proof (rule antisym)
  obtain zs where zs: "subseq zs (xs @ s)" "subseq zs (ys @ s)" "length zs = lcs_length (xs @ s) (ys @ s)"
    using lcs_length_attained by blast
  obtain u u' where u: "zs = u @ u'" "subseq u xs" "subseq u' s" using zs(1) by (rule subseq_appendE)
  obtain v v' where v: "zs = v @ v'" "subseq v ys" "subseq v' s" using zs(2) by (rule subseq_appendE)
  have "length u' \<le> length s" "length v' \<le> length s"
    using u(3) v(3) by (simp_all add: list_emb_length)
  moreover have "length u \<le> lcs_length xs ys \<or> length v \<le> lcs_length xs ys"
  proof (cases "length u \<le> length v")
    case True
    then have "subseq u v" using u(1) v(1) by (metis prefixI prefix_imp_subseq prefix_length_prefix)
    then have "subseq u ys" using v(2) by (rule subseq_order.trans)
    then show ?thesis using u(2) lcs_length_bound by blast
  next
    case False
    then have "subseq v u" using u(1) v(1) by (metis nat_le_linear prefixI prefix_imp_subseq prefix_length_prefix)
    then have "subseq v xs" using u(2) by (rule subseq_order.trans)
    then show ?thesis using v(2) lcs_length_bound by blast
  qed
  ultimately show "lcs_length (xs @ s) (ys @ s) \<le> lcs_length xs ys + length s"
    using zs(3) u(1) v(1) by (metis add_le_mono length_append)
next
  obtain zs where "subseq zs xs" "subseq zs ys" "length zs = lcs_length xs ys"
    using lcs_length_attained by blast
  then show "lcs_length xs ys + length s \<le> lcs_length (xs @ s) (ys @ s)"
    using lcs_length_bound [of "zs @ s" "xs @ s" "ys @ s"] by (simp add: list_emb_append_mono)
qed

section \<open>Properties of the diff\<close>

definition middle_diff :: "'a list \<Rightarrow> 'a list \<Rightarrow> 'a diff_op list" where
  "middle_diff old new =
     (if length old * length new \<le> MAX_DIFF_CELLS then lcsLineDiff old new
      else (case myersLineDiff old new of Some ops \<Rightarrow> ops | None \<Rightarrow> map Remove old @ map Add new))"

lemma middle_diff_diffs: "diffs old new (middle_diff old new)"
  unfolding middle_diff_def lcsLineDiff_def
  using lcs_walk_diffs [of old new] myersLineDiff_diffs [of old new]
  by (auto simp: diffs_def split: option.split)

lemma computeLineDiff_parts:
  obtains p s o' n' where "old = p @ o' @ s" "new = p @ n' @ s"
    "computeLineDiff old new = map Equal p @ middle_diff o' n' @ map Equal s"
proof -
  define h where "h = common_prefix old new"
  define t where "t = common_prefix (rev (drop h old)) (rev (drop h new))"
  obtain p s where ps: "take h old = p" "drop (length old - t) old = s"
      "old = p @ js_slice h (length old - t) old @ s" "new = p @ js_slice h (length new - t) new @ s"
    using trim_splits [of old new] unfolding h_def t_def by blast
  have "computeLineDiff old new = map Equal p @
      middle_diff (js_slice h (length old - t) old) (js_slice h (length new - t) new) @ map Equal s"
    unfolding computeLineDiff_def middle_diff_def Let_def h_def [symmetric] t_def [symmetric] ps(1,2) ..
  then show thesis using that ps(3,4) by blast
qed

text \<open>C31: A line diff is exact: leaving out the added lines gives back the old text and leaving
  out the removed lines gives the new text, for every pair of texts, whether the middle is
  diffed by the table, by Myers' search or by the fallback.\<close>

theorem computeLineDiff_exact:
  "old_of (computeLineDiff old new) = old \<and> new_of (computeLineDiff old new) = new"
proof -
  obtain p s o' n' where parts: "old = p @ o' @ s" "new = p @ n' @ s"
    "computeLineDiff old new = map Equal p @ middle_diff o' n' @ map Equal s"
    by (rule computeLineDiff_parts)
  then show ?thesis using middle_diff_diffs [of o' n'] by (simp add: diffs_def)
qed

lemma diffs_kept: "diffs old new ops \<Longrightarrow> kept ops \<le> lcs_length old new"
proof -
  assume "diffs old new ops"
  moreover have "\<exists>zs. subseq zs (old_of ops) \<and> subseq zs (new_of ops) \<and> length zs = kept ops"
  proof (induction ops rule: old_of.induct)
    case (2 x ops)
    then obtain zs where "subseq zs (old_of ops)" "subseq zs (new_of ops)" "length zs = kept ops" by blast
    then show ?case by (intro exI [of _ "x # zs"]) simp
  qed auto
  ultimately show ?thesis using lcs_length_bound unfolding diffs_def by metis
qed

text \<open>C30: While the table is small enough to build, a line diff is minimal: no diff between
  the two texts keeps more lines, trimming the common head and tail included.\<close>

theorem computeLineDiff_minimal:
  assumes "length old * length new \<le> MAX_DIFF_CELLS"
    and "old_of ops = old" "new_of ops = new"
  shows "kept ops \<le> kept (computeLineDiff old new)"
proof -
  obtain p s o' n' where parts: "old = p @ o' @ s" "new = p @ n' @ s"
    "computeLineDiff old new = map Equal p @ middle_diff o' n' @ map Equal s"
    by (rule computeLineDiff_parts)
  have "length o' * length n' \<le> length old * length new"
    using parts by (intro mult_le_mono) simp_all
  then have "kept (middle_diff o' n') = lcs_length o' n'"
    using assms(1) by (simp add: middle_diff_def lcsLineDiff_kept)
  then have "kept (computeLineDiff old new) = lcs_length old new"
    using parts lcs_length_suffix [of o' s n'] by (simp add: lcs_length_prefix)
  then show ?thesis using diffs_kept [of old new ops] assms(2,3) by (simp add: diffs_def)
qed

lemma computeLineDiff_minimal_witness:
  "kept [Remove (1::nat), Equal 2, Equal 3, Add 4] \<le> kept (computeLineDiff [1, 2, 3 :: nat] [2, 3, 4])"
  by (rule computeLineDiff_minimal) (simp_all add: MAX_DIFF_CELLS_def)

section \<open>Hunks\<close>

text \<open>One hunk: where it starts in the old and the new text, and its operations.\<close>

record 'a hunk =
  oldStart :: nat
  newStart :: nat
  hunk_ops :: "'a diff_op list"

fun is_equal :: "'a diff_op \<Rightarrow> bool" where
  "is_equal (Equal _) = True"
| "is_equal _ = False"

fun is_add :: "'a diff_op \<Rightarrow> bool" where
  "is_add (Add _) = True"
| "is_add _ = False"

fun is_remove :: "'a diff_op \<Rightarrow> bool" where
  "is_remove (Remove _) = True"
| "is_remove _ = False"

record 'a hunk_state =
  finished :: "'a hunk list"
  current :: "'a hunk option"
  trailingEqual :: nat
  oldLine :: nat
  newLine :: nat

definition emit_hunk :: "'a hunk_state \<Rightarrow> 'a hunk list" where
  "emit_hunk st = finished st @ (case current st of None \<Rightarrow> [] | Some h \<Rightarrow> [h])"

definition push_op :: "'a diff_op \<Rightarrow> 'a hunk \<Rightarrow> 'a hunk" where
  "push_op op h = h\<lparr>hunk_ops := hunk_ops h @ [op]\<rparr>"

text \<open>One operation; \<open>seen\<close> lists the operations before it and \<open>rest\<close> those after it.  The
  current hunk is the last one of the code's list.\<close>

definition hunk_step ::
    "nat \<Rightarrow> 'a diff_op list \<Rightarrow> 'a diff_op \<Rightarrow> 'a diff_op list \<Rightarrow> 'a hunk_state \<Rightarrow> 'a hunk_state" where
  "hunk_step context seen op rest st =
     (let st' =
        (if \<not> is_equal op then
           (case current st of
              None \<Rightarrow>
                (let lead = drop (length seen - context) seen
                 in st\<lparr>current := Some (push_op op
                      \<lparr>oldStart = oldLine st - length lead, newStart = newLine st - length lead, hunk_ops = lead\<rparr>),
                      trailingEqual := 0\<rparr>)
            | Some h \<Rightarrow> st\<lparr>current := Some (push_op op h), trailingEqual := 0\<rparr>)
         else
           (case current st of
              None \<Rightarrow> st
            | Some h \<Rightarrow>
                if trailingEqual st < context
                   \<or> list_ex (\<lambda>o'. \<not> is_equal o') (take (context * 2 - trailingEqual st) rest)
                then st\<lparr>current := Some (push_op op h), trailingEqual := trailingEqual st + 1\<rparr>
                else st\<lparr>finished := finished st @ [h], current := None, trailingEqual := 0\<rparr>))
      in st'\<lparr>oldLine := (if is_add op then oldLine st' else oldLine st' + 1),
             newLine := (if is_remove op then newLine st' else newLine st' + 1)\<rparr>)"

fun hunk_loop :: "nat \<Rightarrow> 'a diff_op list \<Rightarrow> 'a diff_op list \<Rightarrow> 'a hunk_state \<Rightarrow> 'a hunk_state" where
  "hunk_loop context seen [] st = st"
| "hunk_loop context seen (op # rest) st = hunk_loop context (seen @ [op]) rest (hunk_step context seen op rest st)"

definition hunks_of :: "nat \<Rightarrow> 'a diff_op list \<Rightarrow> 'a hunk list" where
  "hunks_of context ops = emit_hunk (hunk_loop context [] ops
     \<lparr>finished = [], current = None, trailingEqual = 0, oldLine = 1, newLine = 1\<rparr>)"

section \<open>Rendering\<close>

record diff_hunks =
  dh_text :: jsstring
  dh_added :: nat
  dh_removed :: nat
  dh_truncated :: bool

fun op_prefix :: "'a diff_op \<Rightarrow> code_unit" where
  "op_prefix (Equal _) = 32"
| "op_prefix (Add _) = 43"
| "op_prefix (Remove _) = 45"

definition commonPrefixLength :: "jsstring \<Rightarrow> jsstring \<Rightarrow> nat" where
  "commonPrefixLength = common_prefix"

definition clipLine :: "jsstring \<Rightarrow> nat \<Rightarrow> nat \<Rightarrow> jsstring" where
  "clipLine t focus most =
     (if length t \<le> most then t
      else (let start = min (focus - most div 4) (length t - most); stop = start + most
            in (if start > 0 then [91, 0x2026, 32] @ nat_text start @ js '' characters] '' else [])
               @ js_slice start stop t
               @ (if stop < length t then js '' ['' @ nat_text (length t - stop) @ js '' more characters '' @ [0x2026, 93]
                  else [])))"

text \<open>The focus of each operation of one changed run: the removed and the added line of the
  same rank are a pair.\<close>

fun run_focus :: "jsstring list \<Rightarrow> jsstring list \<Rightarrow> nat \<Rightarrow> nat \<Rightarrow> jsstring diff_op list \<Rightarrow> nat list" where
  "run_focus rem add i j [] = []"
| "run_focus rem add i j (Remove t # ops) =
     (if i < min (length rem) (length add) then commonPrefixLength (rem ! i) (add ! i) else 0)
       # run_focus rem add (i + 1) j ops"
| "run_focus rem add i j (op # ops) =
     (if j < min (length rem) (length add) then commonPrefixLength (rem ! j) (add ! j) else 0)
       # run_focus rem add i (j + 1) ops"

function clipFocus :: "jsstring diff_op list \<Rightarrow> nat list" where
  "clipFocus [] = []"
| "clipFocus (op # ops) =
     (if is_equal op then 0 # clipFocus ops
      else (let run = takeWhile (\<lambda>o'. \<not> is_equal o') (op # ops)
            in run_focus (map op_text (filter is_remove run)) (map op_text (filter (\<lambda>o'. \<not> is_remove o') run)) 0 0 run
               @ clipFocus (dropWhile (\<lambda>o'. \<not> is_equal o') (op # ops))))"
  by pat_completeness auto
termination
  by (relation "measure length") (auto simp: less_Suc_eq_le length_dropWhile_le)

definition hunk_lines :: "nat \<Rightarrow> jsstring hunk \<Rightarrow> jsstring list" where
  "hunk_lines maxLineChars h =
     (js ''@@ -'' @ nat_text (oldStart h) @ [44] @ nat_text (length (filter (\<lambda>o'. \<not> is_add o') (hunk_ops h)))
        @ js '' +'' @ nat_text (newStart h) @ [44] @ nat_text (length (filter (\<lambda>o'. \<not> is_remove o') (hunk_ops h)))
        @ js '' @@'')
     # map (\<lambda>(op, focus). op_prefix op # clipLine (op_text op) focus maxLineChars)
         (zip (hunk_ops h) (clipFocus (hunk_ops h)))"

text \<open>Whole lines while they fit; the flag says one did not.\<close>

fun fit_lines :: "nat \<Rightarrow> jsstring list \<Rightarrow> jsstring list \<times> nat \<Rightarrow> (jsstring list \<times> nat) \<times> bool" where
  "fit_lines maxChars [] (ls, len) = ((ls, len), False)"
| "fit_lines maxChars (l # later) (ls, len) =
     (if len + length l + 1 > maxChars then ((ls, len), True)
      else fit_lines maxChars later (ls @ [l], len + length l + 1))"

fun fit_hunks :: "nat \<Rightarrow> nat \<Rightarrow> jsstring hunk list \<Rightarrow> jsstring list \<times> nat \<Rightarrow> (jsstring list \<times> nat) \<times> bool" where
  "fit_hunks maxChars maxLine [] acc = (acc, False)"
| "fit_hunks maxChars maxLine (h # hs) acc =
     (let (acc', truncated) = fit_lines maxChars (hunk_lines maxLine h) acc
      in if truncated then (acc', True) else fit_hunks maxChars maxLine hs acc')"

fun join_lines :: "jsstring list \<Rightarrow> jsstring" where
  "join_lines [] = []"
| "join_lines [l] = l"
| "join_lines (l # ls) = l @ 10 # join_lines ls"

definition renderLineDiffHunks ::
    "jsstring diff_op list \<Rightarrow> nat option \<Rightarrow> nat \<Rightarrow> nat option \<Rightarrow> diff_hunks" where
  "renderLineDiffHunks ops contextOpt maxChars maxLineOpt =
     (let context = (case contextOpt of None \<Rightarrow> 2 | Some c \<Rightarrow> c);
          maxLine = (case maxLineOpt of None \<Rightarrow> max 200 (maxChars div 4) | Some m \<Rightarrow> m);
          ((ls, len), truncated) = fit_hunks maxChars maxLine (hunks_of context ops) ([], 0)
      in \<lparr>dh_text = join_lines ls, dh_added = length (filter is_add ops),
          dh_removed = length (filter is_remove ops), dh_truncated = truncated\<rparr>)"

section \<open>Properties of the hunks\<close>

text \<open>Hunks lie in a diff: gaps of unchanged lines around them, and each hunk starts at the
  line numbers reached there.\<close>

fun laid_out :: "nat \<Rightarrow> nat \<Rightarrow> 'a hunk list \<Rightarrow> 'a diff_op list \<Rightarrow> bool" where
  "laid_out i j [] ops = list_all is_equal ops"
| "laid_out i j (h # hs) ops = (\<exists>gap tail. ops = gap @ hunk_ops h @ tail \<and> list_all is_equal gap \<and>
     oldStart h = i + length (old_of gap) \<and> newStart h = j + length (new_of gap) \<and>
     laid_out (oldStart h + length (old_of (hunk_ops h))) (newStart h + length (new_of (hunk_ops h))) hs tail)"

lemma laid_out_append:
  "laid_out i j hs p \<Longrightarrow> list_all is_equal gap \<Longrightarrow> laid_out i j hs (p @ gap)"
proof (induction i j hs p rule: laid_out.induct)
  case (2 i j h hs ops)
  then obtain g t where "ops = g @ hunk_ops h @ t" "list_all is_equal g"
    "oldStart h = i + length (old_of g)" "newStart h = j + length (new_of g)"
    "laid_out (oldStart h + length (old_of (hunk_ops h))) (newStart h + length (new_of (hunk_ops h))) hs t"
    by auto
  with "2.IH" "2.prems"(2) show ?case
    by simp (rule exI [of _ g], rule exI [of _ "t @ gap"], simp)
qed simp

lemma laid_out_snoc:
  "laid_out i j hs p \<Longrightarrow> oldStart h = i + length (old_of p) \<Longrightarrow> newStart h = j + length (new_of p) \<Longrightarrow>
     laid_out i j (hs @ [h]) (p @ hunk_ops h)"
proof (induction i j hs p rule: laid_out.induct)
  case (1 i j ops)
  then show ?case by simp (rule exI [of _ ops], rule exI [of _ "[]"], simp)
next
  case (2 i j h0 hs ops)
  then obtain g t where "ops = g @ hunk_ops h0 @ t" "list_all is_equal g"
    "oldStart h0 = i + length (old_of g)" "newStart h0 = j + length (new_of g)"
    "laid_out (oldStart h0 + length (old_of (hunk_ops h0))) (newStart h0 + length (new_of (hunk_ops h0))) hs t"
    by auto
  with "2.IH" "2.prems"(2,3) show ?case
    by simp (rule exI [of _ g], rule exI [of _ "t @ hunk_ops h"], simp add: add.assoc)
qed

lemma equal_lengths: "list_all is_equal g \<Longrightarrow> length (old_of g) = length g \<and> length (new_of g) = length g"
  by (induction g rule: old_of.induct) simp_all

definition hunk_inv :: "nat \<Rightarrow> 'a diff_op list \<Rightarrow> 'a diff_op list \<Rightarrow> 'a hunk_state \<Rightarrow> bool" where
  "hunk_inv c seen rest st \<longleftrightarrow>
     oldLine st = 1 + length (old_of seen) \<and> newLine st = 1 + length (new_of seen) \<and>
     (case current st of
        None \<Rightarrow> \<exists>p g. seen = p @ g \<and> list_all is_equal g \<and> laid_out 1 1 (finished st) p \<and>
          (p = [] \<or> list_all is_equal (take (c - length g) rest))
      | Some h \<Rightarrow> (\<exists>p. seen = p @ hunk_ops h \<and> laid_out 1 1 (finished st) p \<and>
            oldStart h = 1 + length (old_of p) \<and> newStart h = 1 + length (new_of p)) \<and>
          (trailingEqual st \<le> c \<or> \<not> list_all is_equal (take (Suc (c * 2 - trailingEqual st)) rest)))"

lemma op_lines:
  "length (old_of [op]) = (if is_add op then 0 else 1)" "length (new_of [op]) = (if is_remove op then 0 else 1)"
  by (cases op; simp)+

lemma not_list_all_equal: "list_ex (\<lambda>o'. \<not> is_equal o') xs \<longleftrightarrow> \<not> list_all is_equal xs"
  by (simp add: list_ex_iff list_all_iff)

text \<open>A hunk opens at a change: its lead lies in the gap before it.\<close>

lemma hunk_lead:
  assumes "seen = p @ g" "list_all is_equal g" "laid_out 1 1 hs p"
    "p = [] \<or> list_all is_equal (take (c - length g) (op # rest))" "\<not> is_equal op"
  obtains p' where "seen = p' @ drop (length seen - c) seen" "laid_out 1 1 hs p'"
    "list_all is_equal (drop (length seen - c) seen)"
proof (cases "c \<le> length g")
  case True
  have d: "drop (length seen - c) seen = drop (length g - c) g" using True assms(1) by simp
  have "laid_out 1 1 hs (p @ take (length g - c) g)"
    using laid_out_append [OF assms(3)] assms(2) by (simp add: list_all_iff) (meson in_set_takeD)
  moreover have "seen = (p @ take (length g - c) g) @ drop (length g - c) g" using assms(1) by simp
  moreover have "list_all is_equal (drop (length g - c) g)"
    using assms(2) by (simp add: list_all_iff) (meson in_set_dropD)
  ultimately show ?thesis using that d by metis
next
  case False
  then have "take (c - length g) (op # rest) = op # take (c - length g - 1) rest"
    by (cases "c - length g") simp_all
  then have p: "p = []" using assms(4,5) by auto
  have "laid_out 1 1 hs ([] @ take (length seen - c) seen)"
    using laid_out_append [of 1 1 hs "[]"] assms(1-3) p by (simp add: list_all_iff) (meson in_set_takeD)
  moreover have "list_all is_equal (drop (length seen - c) seen)"
    using assms(1,2) p by (simp add: list_all_iff) (meson in_set_dropD)
  ultimately show ?thesis using that by (metis append_Nil append_take_drop_id)
qed

lemma old_new_nonequal:
  "\<not> is_equal op \<Longrightarrow> laid_out i j hs p \<Longrightarrow> hunk_ops h = lead @ [op] \<Longrightarrow> list_all is_equal lead \<Longrightarrow>
     oldStart h = i + length (old_of p) \<Longrightarrow> newStart h = j + length (new_of p) \<Longrightarrow>
     laid_out i j (hs @ [h]) (p @ lead @ [op])"
  using laid_out_snoc [of i j hs p h] by simp

text \<open>One step keeps the invariant, case by case.\<close>

lemma hunk_step_lines:
  "oldLine (hunk_step c seen op rest st) = oldLine st + length (old_of [op]) \<and>
   newLine (hunk_step c seen op rest st) = newLine st + length (new_of [op])"
  by (simp add: hunk_step_def op_lines Let_def split: option.splits)

lemma hunk_step_open:
  assumes inv: "hunk_inv c seen (op # rest) st" and op: "\<not> is_equal op" and none: "current st = None"
  shows "hunk_inv c (seen @ [op]) rest (hunk_step c seen op rest st)"
proof -
  obtain p g where pg: "seen = p @ g" "list_all is_equal g" "laid_out 1 1 (finished st) p"
    "p = [] \<or> list_all is_equal (take (c - length g) (op # rest))"
    using inv none unfolding hunk_inv_def by auto
  define lead where "lead = drop (length seen - c) seen"
  obtain p' where p': "seen = p' @ lead" "laid_out 1 1 (finished st) p'" "list_all is_equal lead"
    using hunk_lead [OF pg op] unfolding lead_def by metis
  have lines: "oldLine st = 1 + length (old_of p') + length lead" "newLine st = 1 + length (new_of p') + length lead"
    using inv p' equal_lengths [OF p'(3)] unfolding hunk_inv_def by simp_all
  have "finished (hunk_step c seen op rest st) = finished st"
    "current (hunk_step c seen op rest st) = Some \<lparr>oldStart = 1 + length (old_of p'),
       newStart = 1 + length (new_of p'), hunk_ops = lead @ [op]\<rparr>"
    "trailingEqual (hunk_step c seen op rest st) = 0"
    using op none lines by (simp_all add: hunk_step_def push_op_def Let_def flip: lead_def)
  with p' inv hunk_step_lines [of c seen op rest st] show ?thesis unfolding hunk_inv_def by simp
qed

lemma hunk_step_extend:
  assumes inv: "hunk_inv c seen (op # rest) st" and some: "current st = Some h"
    and c: "current (hunk_step c seen op rest st) = Some (push_op op h)"
    and f: "finished (hunk_step c seen op rest st) = finished st"
    and t: "trailingEqual (hunk_step c seen op rest st) \<le> c \<or>
      \<not> list_all is_equal (take (Suc (c * 2 - trailingEqual (hunk_step c seen op rest st))) rest)"
  shows "hunk_inv c (seen @ [op]) rest (hunk_step c seen op rest st)"
  using assms hunk_step_lines [of c seen op rest st] unfolding hunk_inv_def by (auto simp: push_op_def)

lemma hunk_step_close:
  assumes inv: "hunk_inv c seen (op # rest) st" and some: "current st = Some h" and op: "is_equal op"
    and t: "\<not> trailingEqual st < c" and e: "list_all is_equal (take (c * 2 - trailingEqual st) rest)"
  shows "hunk_inv c (seen @ [op]) rest (hunk_step c seen op rest st)"
proof -
  have "trailingEqual st \<le> c" using inv some op e unfolding hunk_inv_def by simp
  then have te: "trailingEqual st = c" using t by simp
  have r: "list_all is_equal (take (c - 1) rest)"
    using e te by (simp add: list_all_iff) (meson diff_le_self in_mono set_take_subset_set_take)
  obtain p where p: "seen = p @ hunk_ops h" "laid_out 1 1 (finished st) p"
      "oldStart h = 1 + length (old_of p)" "newStart h = 1 + length (new_of p)"
    using inv some unfolding hunk_inv_def by auto
  have l: "laid_out 1 1 (finished st @ [h]) seen"
    using laid_out_snoc [OF p(2,3,4)] p(1) by simp
  have s: "finished (hunk_step c seen op rest st) = finished st @ [h]" "current (hunk_step c seen op rest st) = None"
    using some op t e by (simp_all add: hunk_step_def not_list_all_equal Let_def)
  have "seen @ [op] = seen @ [op]" "list_all is_equal [op]" using op by simp_all
  then have "\<exists>p g. seen @ [op] = p @ g \<and> list_all is_equal g \<and> laid_out 1 1 (finished st @ [h]) p \<and>
      (p = [] \<or> list_all is_equal (take (c - length g) rest))"
    using l r by (intro exI [of _ seen] exI [of _ "[op]"]) simp
  with s inv hunk_step_lines [of c seen op rest st] show ?thesis unfolding hunk_inv_def by simp
qed

lemma hunk_step_idle:
  assumes inv: "hunk_inv c seen (op # rest) st" and none: "current st = None" and op: "is_equal op"
  shows "hunk_inv c (seen @ [op]) rest (hunk_step c seen op rest st)"
proof -
  obtain p g where pg: "seen = p @ g" "list_all is_equal g" "laid_out 1 1 (finished st) p"
    "p = [] \<or> list_all is_equal (take (c - length g) (op # rest))"
    using inv none unfolding hunk_inv_def by auto
  have t: "take (c - length (g @ [op])) rest = drop 1 (take (c - length g) (op # rest))"
    by (cases "c - length g") (simp_all add: diff_Suc)
  have "p = [] \<or> list_all is_equal (take (c - length (g @ [op])) rest)"
    using pg(4) unfolding t by (auto simp: list_all_iff dest: in_set_dropD)
  then have "\<exists>p g. seen @ [op] = p @ g \<and> list_all is_equal g \<and> laid_out 1 1 (finished st) p \<and>
      (p = [] \<or> list_all is_equal (take (c - length g) rest))"
    using pg op by (intro exI [of _ p] exI [of _ "g @ [op]"]) simp
  moreover have "finished (hunk_step c seen op rest st) = finished st" "current (hunk_step c seen op rest st) = None"
    using none op by (simp_all add: hunk_step_def Let_def)
  ultimately show ?thesis using inv hunk_step_lines [of c seen op rest st] unfolding hunk_inv_def by simp
qed

lemma hunk_step_inv:
  assumes inv: "hunk_inv c seen (op # rest) st"
  shows "hunk_inv c (seen @ [op]) rest (hunk_step c seen op rest st)"
proof (cases "current st")
  case None
  then show ?thesis using hunk_step_open [OF inv] hunk_step_idle [OF inv] by (cases "is_equal op") simp_all
next
  case (Some h)
  let ?t = "trailingEqual st"
  consider (change) "\<not> is_equal op" | (keep) "is_equal op" "?t < c \<or> \<not> list_all is_equal (take (c * 2 - ?t) rest)"
    | (close) "is_equal op" "\<not> ?t < c" "list_all is_equal (take (c * 2 - ?t) rest)" by blast
  then show ?thesis
  proof cases
    case change
    then show ?thesis using hunk_step_extend [OF inv Some] Some by (simp add: hunk_step_def Let_def)
  next
    case keep
    then have "Suc ?t \<le> c \<or> \<not> list_all is_equal (take (Suc (c * 2 - Suc ?t)) rest)"
      by (cases "c * 2 - ?t") (auto simp: Suc_le_eq diff_Suc)
    then show ?thesis using hunk_step_extend [OF inv Some] Some keep
      by (simp add: hunk_step_def not_list_all_equal Let_def)
  next
    case close
    then show ?thesis by (rule hunk_step_close [OF inv Some])
  qed
qed

lemma hunk_loop_inv:
  "hunk_inv c seen ops st \<Longrightarrow> hunk_inv c (seen @ ops) [] (hunk_loop c seen ops st)"
proof (induction ops arbitrary: seen st)
  case (Cons op ops)
  show ?case using Cons.IH [OF hunk_step_inv [OF Cons.prems]] by simp
qed simp

lemma hunks_laid_out: "laid_out 1 1 (hunks_of c ops) ops"
proof -
  let ?s0 = "\<lparr>finished = [], current = None, trailingEqual = 0, oldLine = 1, newLine = 1\<rparr>"
  let ?st = "hunk_loop c [] ops ?s0"
  have inv: "hunk_inv c ops [] ?st"
    using hunk_loop_inv [of c "[]" ops ?s0] by (simp add: hunk_inv_def)
  show ?thesis
  proof (cases "current ?st")
    case None
    then show ?thesis using inv laid_out_append unfolding hunks_of_def emit_hunk_def hunk_inv_def by auto
  next
    case (Some h)
    then obtain p where "ops = p @ hunk_ops h" "laid_out 1 1 (finished ?st) p"
        "oldStart h = 1 + length (old_of p)" "newStart h = 1 + length (new_of p)"
      using inv unfolding hunk_inv_def by auto
    with Some show ?thesis using laid_out_snoc [of 1 1 "finished ?st" p h]
      unfolding hunks_of_def emit_hunk_def by simp
  qed
qed

text \<open>The lines kept are the first ones, and what they take is counted.\<close>

definition lines_size :: "jsstring list \<Rightarrow> nat" where
  "lines_size ls = sum_list (map (\<lambda>l. length l + 1) ls)"

lemma lines_size_append [simp]: "lines_size [] = 0" "lines_size (p @ q) = lines_size p + lines_size q"
    "lines_size (l # q) = length l + 1 + lines_size q"
  by (simp_all add: lines_size_def)

lemma length_join_lines: "length (join_lines ls) \<le> lines_size ls"
  by (induction ls rule: join_lines.induct) simp_all

lemma fit_lines_take:
  "lines_size a \<le> M \<Longrightarrow> \<exists>n. fit_lines M ls (a, lines_size a) =
     ((a @ take n ls, lines_size (a @ take n ls)), n < length ls) \<and> lines_size (a @ take n ls) \<le> M"
proof (induction ls arbitrary: a)
  case (Cons l ls)
  show ?case
  proof (cases "lines_size a + length l + 1 > M")
    case True
    then show ?thesis using Cons.prems by (intro exI [of _ 0]) simp
  next
    case False
    then have "lines_size (a @ [l]) \<le> M" by simp
    from Cons.IH [OF this] obtain n where
      "fit_lines M ls (a @ [l], lines_size (a @ [l])) =
         (((a @ [l]) @ take n ls, lines_size ((a @ [l]) @ take n ls)), n < length ls)"
      "lines_size ((a @ [l]) @ take n ls) \<le> M" by blast
    then show ?thesis using False by (intro exI [of _ "Suc n"]) simp
  qed
qed simp

lemma fit_hunks_take:
  "lines_size a \<le> M \<Longrightarrow> \<exists>n. fit_hunks M m hs (a, lines_size a) =
     ((a @ take n (concat (map (hunk_lines m) hs)), lines_size (a @ take n (concat (map (hunk_lines m) hs)))),
      n < length (concat (map (hunk_lines m) hs))) \<and>
     lines_size (a @ take n (concat (map (hunk_lines m) hs))) \<le> M"
proof (induction hs arbitrary: a)
  case (Cons h hs)
  from fit_lines_take [OF Cons.prems] obtain n where n:
    "fit_lines M (hunk_lines m h) (a, lines_size a) =
       ((a @ take n (hunk_lines m h), lines_size (a @ take n (hunk_lines m h))), n < length (hunk_lines m h))"
    "lines_size (a @ take n (hunk_lines m h)) \<le> M" by blast
  show ?case
  proof (cases "n < length (hunk_lines m h)")
    case True
    then show ?thesis using n by (intro exI [of _ n]) simp
  next
    case False
    then have t: "take n (hunk_lines m h) = hunk_lines m h" by simp
    have "lines_size (a @ hunk_lines m h) \<le> M" using n(2) t by simp
    from Cons.IH [OF this] obtain k where
      "fit_hunks M m hs (a @ hunk_lines m h, lines_size (a @ hunk_lines m h)) =
         (((a @ hunk_lines m h) @ take k (concat (map (hunk_lines m) hs)),
           lines_size ((a @ hunk_lines m h) @ take k (concat (map (hunk_lines m) hs)))),
          k < length (concat (map (hunk_lines m) hs)))"
      "lines_size ((a @ hunk_lines m h) @ take k (concat (map (hunk_lines m) hs))) \<le> M" by blast
    then show ?thesis using n(1) False t
      by (intro exI [of _ "length (hunk_lines m h) + k"]) simp
  qed
qed simp

text \<open>The unified diff places every hunk where the two texts have it: the hunks lie in the
  diff in order with only unchanged lines between them, each header's start lines are the line
  numbers reached there.  The text is at most \<open>maxChars\<close> long, is made of whole lines from the
  first on, and \<open>truncated\<close> says exactly whether a line is missing.\<close>

theorem renderLineDiffHunks_correct:
  "let hs = hunks_of context ops;
       r = renderLineDiffHunks ops (Some context) maxChars (Some maxLine);
       all_lines = concat (map (hunk_lines maxLine) hs)
   in laid_out 1 1 hs ops \<and> length (dh_text r) \<le> maxChars \<and>
      (\<exists>n. dh_text r = join_lines (take n all_lines) \<and> dh_truncated r = (n < length all_lines))"
proof -
  let ?hs = "hunks_of context ops"
  let ?r = "renderLineDiffHunks ops (Some context) maxChars (Some maxLine)"
  let ?all = "concat (map (hunk_lines maxLine) ?hs)"
  from fit_hunks_take [of "[]" maxChars maxLine ?hs] obtain n where n:
    "fit_hunks maxChars maxLine ?hs ([], 0) = ((take n ?all, lines_size (take n ?all)), n < length ?all)"
    "lines_size (take n ?all) \<le> maxChars" by auto
  then have r: "dh_text ?r = join_lines (take n ?all)" "dh_truncated ?r = (n < length ?all)"
    by (simp_all add: renderLineDiffHunks_def)
  moreover have "length (dh_text ?r) \<le> maxChars"
    using length_join_lines [of "take n ?all"] n(2) r(1) by simp
  ultimately show ?thesis using hunks_laid_out unfolding Let_def by blast
qed

end
