(* ===== verification/PartialJson.thy ===== *)
theory PartialJson
  imports Json "HOL-Library.Sublist"
begin

text \<open>
  Reading tool-call arguments while they are still being written
  (\<open>packages/schemas/src/partial-json-lexer.ts\<close>, \<open>packages/schemas/src/partial-json.ts\<close>): the
  incremental lexer, one code unit per step, over a client's four callbacks, and its two
  clients, the reader of one top-level string field and the reader of a growing \<open>edits\<close> array.

  The closure variables are the fields of a record; the client's own variables are its \<open>host\<close>
  field and the callbacks are functions on it.  The stack is listed from its top.  A client
  that only ever extends its state is the locale \<open>growing_client\<close>, one that ignores nested values
  the locale \<open>shallow_client\<close>; both readers are interpretations of the first, and the field
  reader is one of the second, from which its agreement with \<open>JSON.parse\<close> follows.
\<close>

section \<open>The lexer\<close>

datatype path_segment = PathKey jsstring | PathIndex int

type_synonym json_path = "path_segment list"

datatype value_mode = Capture | Ignore

record 'h lexer_handlers =
  beginValue :: "json_path \<Rightarrow> 'h \<Rightarrow> value_mode \<times> 'h"
  appendText :: "jsstring \<Rightarrow> 'h \<Rightarrow> 'h"
  endValue :: "'h \<Rightarrow> 'h"
  on_fail :: "jsstring \<Rightarrow> 'h \<Rightarrow> 'h"

datatype frame = ObjectFrame "jsstring option" | ArrayFrame int

record 'h lexer =
  frames :: "frame list"
  failed :: bool
  inString :: bool
  stringIsKey :: bool
  keyBuffer :: jsstring
  capturing :: bool
  escaping :: bool
  unicodeDigits :: "jsstring option"
  expectKey :: bool
  host :: 'h

definition createJsonLexer :: "'h \<Rightarrow> 'h lexer" where
  "createJsonLexer h = \<lparr>frames = [], failed = False, inString = False, stringIsKey = False, keyBuffer = [],
     capturing = False, escaping = False, unicodeDigits = None, expectKey = False, host = h\<rparr>"

definition fail :: "'h lexer_handlers \<Rightarrow> jsstring \<Rightarrow> 'h lexer \<Rightarrow> 'h lexer" where
  "fail H message l =
     (if failed l then l else l\<lparr>failed := True, host := on_fail H message (host l)\<rparr>)"

fun frame_segment :: "frame \<Rightarrow> path_segment" where
  "frame_segment (ObjectFrame key) = PathKey (case key of None \<Rightarrow> [] | Some k \<Rightarrow> k)"
| "frame_segment (ArrayFrame index) = PathIndex index"

definition currentPath :: "'h lexer \<Rightarrow> json_path" where
  "currentPath l = map frame_segment (rev (frames l))"

fun bump :: "frame list \<Rightarrow> frame list" where
  "bump (ArrayFrame index # fs) = ArrayFrame (index + 1) # fs"
| "bump fs = fs"

definition noteValueStart :: "'h lexer \<Rightarrow> 'h lexer" where
  "noteValueStart l = l\<lparr>frames := bump (frames l)\<rparr>"

fun top_is_object :: "frame list \<Rightarrow> bool" where
  "top_is_object (ObjectFrame _ # _) = True"
| "top_is_object _ = False"

fun set_key :: "jsstring option \<Rightarrow> frame list \<Rightarrow> frame list" where
  "set_key k (ObjectFrame _ # fs) = ObjectFrame k # fs"
| "set_key k fs = fs"

definition openString :: "'h lexer_handlers \<Rightarrow> 'h lexer \<Rightarrow> 'h lexer" where
  "openString H l =
     (let l1 = l\<lparr>inString := True, escaping := False, unicodeDigits := None,
                 stringIsKey := top_is_object (frames l) \<and> expectKey l\<rparr>
      in if stringIsKey l1 then l1\<lparr>keyBuffer := [], capturing := False\<rparr>
         else (let l2 = noteValueStart l1; (mode, h) = beginValue H (currentPath l2) (host l2)
               in l2\<lparr>capturing := (mode = Capture), host := h\<rparr>))"

definition closeString :: "'h lexer_handlers \<Rightarrow> 'h lexer \<Rightarrow> 'h lexer" where
  "closeString H l =
     (let l1 = l\<lparr>inString := False\<rparr>
      in if stringIsKey l1 then l1\<lparr>frames := set_key (Some (keyBuffer l1)) (frames l1), expectKey := False, keyBuffer := []\<rparr>
         else if capturing l1 then l1\<lparr>capturing := False, host := endValue H (host l1)\<rparr>
         else l1)"

definition emit :: "'h lexer_handlers \<Rightarrow> jsstring \<Rightarrow> 'h lexer \<Rightarrow> 'h lexer" where
  "emit H t l =
     (if stringIsKey l then l\<lparr>keyBuffer := keyBuffer l @ t\<rparr>
      else if capturing l then l\<lparr>host := appendText H t (host l)\<rparr>
      else l)"

text \<open>\<open>String.fromCharCode(Number.parseInt(digits, 16))\<close> of four hexadecimal digits.\<close>

fun unit_of_digits :: "jsstring \<Rightarrow> jsstring" where
  "unit_of_digits [a, b, c, d] = (case hex4 a b c d of None \<Rightarrow> [] | Some u \<Rightarrow> [u])"
| "unit_of_digits _ = []"

definition pushStringChar :: "'h lexer_handlers \<Rightarrow> code_unit \<Rightarrow> 'h lexer \<Rightarrow> 'h lexer" where
  "pushStringChar H c l =
     (case unicodeDigits l of
        Some digits \<Rightarrow>
          if hex_value c = None then fail H (js ''Malformed '' @ [92] @ js ''u escape'') l
          else if length (digits @ [c]) = 4 then (emit H (unit_of_digits (digits @ [c])) l)\<lparr>unicodeDigits := None\<rparr>
          else l\<lparr>unicodeDigits := Some (digits @ [c])\<rparr>
      | None \<Rightarrow>
          if escaping l then
            (let l1 = l\<lparr>escaping := False\<rparr>
             in if c = 117 then l1\<lparr>unicodeDigits := Some []\<rparr>
                else (case simple_escape c of
                        None \<Rightarrow> fail H (js ''Invalid escape '' @ [34, 92, c, 34]) l1
                      | Some u \<Rightarrow> emit H [u] l1))
          else if c = 92 then l\<lparr>escaping := True\<rparr>
          else if c = 34 then closeString H l
          else emit H [c] l)"

definition pushStructuralChar :: "'h lexer_handlers \<Rightarrow> code_unit \<Rightarrow> 'h lexer \<Rightarrow> 'h lexer" where
  "pushStructuralChar H c l =
     (if c = 123 then
        (let l1 = noteValueStart l in l1\<lparr>frames := ObjectFrame None # frames l1, expectKey := True\<rparr>)
      else if c = 91 then
        (let l1 = noteValueStart l in l1\<lparr>frames := ArrayFrame (-1) # frames l1, expectKey := False\<rparr>)
      else if c = 125 \<or> c = 93 then l\<lparr>frames := tl (frames l), expectKey := False\<rparr>
      else if c = 34 then openString H l
      else if c = 44 then
        (if top_is_object (frames l) then l\<lparr>expectKey := True, frames := set_key None (frames l)\<rparr> else l)
      else l)"

definition push_unit :: "'h lexer_handlers \<Rightarrow> code_unit \<Rightarrow> 'h lexer \<Rightarrow> 'h lexer" where
  "push_unit H c l = (if inString l then pushStringChar H c l else pushStructuralChar H c l)"

fun lexer_push :: "'h lexer_handlers \<Rightarrow> jsstring \<Rightarrow> 'h lexer \<Rightarrow> 'h lexer" where
  "lexer_push H [] l = l"
| "lexer_push H (c # fragment) l = (if failed l then l else lexer_push H fragment (push_unit H c l))"

definition committedPrefix :: "jsstring \<Rightarrow> jsstring" where
  "committedPrefix raw =
     (if raw = [] then raw else if high_surrogate (last raw) then butlast raw else raw)"

section \<open>The reader of one field\<close>

definition MAX_TRACKED_FIELD_LENGTH :: nat where
  "MAX_TRACKED_FIELD_LENGTH = 4096"

record field_scan =
  completedFields :: "jsstring \<rightharpoonup> jsstring"
  rawText :: jsstring
  failure :: "jsstring option"
  complete :: bool
  seenTarget :: bool
  trackedKey :: "jsstring option"
  trackedValue :: jsstring

definition isTopLevelKey :: "json_path \<Rightarrow> jsstring \<Rightarrow> bool" where
  "isTopLevelKey path key \<longleftrightarrow> path = [PathKey key]"

text \<open>Assigning a string to the property \<open>__proto__\<close> of a plain object does nothing.\<close>

definition PROTO :: jsstring where
  "PROTO = js ''__proto__''"

definition set_field :: "jsstring \<Rightarrow> jsstring \<Rightarrow> (jsstring \<rightharpoonup> jsstring) \<Rightarrow> (jsstring \<rightharpoonup> jsstring)" where
  "set_field k v m = (if k = PROTO then m else m(k \<mapsto> v))"

definition add_tracked :: "jsstring \<Rightarrow> jsstring \<Rightarrow> jsstring" where
  "add_tracked v t = (if length v < MAX_TRACKED_FIELD_LENGTH then v @ t else v)"

definition first_failure :: "jsstring option \<Rightarrow> jsstring \<Rightarrow> jsstring option" where
  "first_failure f message = (case f of None \<Rightarrow> Some message | Some m \<Rightarrow> Some m)"

definition field_begin :: "jsstring \<Rightarrow> json_path \<Rightarrow> field_scan \<Rightarrow> value_mode \<times> field_scan" where
  "field_begin targetKey path h =
     (if isTopLevelKey path targetKey then
        if seenTarget h then
          (Ignore, h\<lparr>failure := Some (js ''Duplicate top-level '' @ [34] @ targetKey @ [34] @ js '' key in tool arguments'')\<rparr>)
        else (Capture, h\<lparr>seenTarget := True, trackedKey := None\<rparr>)
      else (case path of
              [PathKey k] \<Rightarrow> (Capture, h\<lparr>trackedKey := Some k, trackedValue := []\<rparr>)
            | _ \<Rightarrow> (Ignore, h)))"

definition field_append :: "jsstring \<Rightarrow> field_scan \<Rightarrow> field_scan" where
  "field_append t h =
     (case trackedKey h of
        Some k \<Rightarrow> h\<lparr>trackedValue := add_tracked (trackedValue h) t\<rparr>
      | None \<Rightarrow> h\<lparr>rawText := rawText h @ t\<rparr>)"

definition field_end :: "field_scan \<Rightarrow> field_scan" where
  "field_end h =
     (case trackedKey h of
        Some k \<Rightarrow> h\<lparr>completedFields := set_field k (trackedValue h) (completedFields h), trackedKey := None,
                    trackedValue := []\<rparr>
      | None \<Rightarrow> h\<lparr>complete := True\<rparr>)"

definition field_fail :: "jsstring \<Rightarrow> field_scan \<Rightarrow> field_scan" where
  "field_fail message h = h\<lparr>failure := first_failure (failure h) message\<rparr>"

definition field_handlers :: "jsstring \<Rightarrow> field_scan lexer_handlers" where
  "field_handlers targetKey = \<lparr>beginValue = field_begin targetKey, appendText = field_append,
     endValue = field_end, on_fail = field_fail\<rparr>"

definition createPartialJsonScanner :: "field_scan lexer" where
  "createPartialJsonScanner = createJsonLexer \<lparr>completedFields = Map.empty, rawText = [], failure = None,
     complete = False, seenTarget = False, trackedKey = None, trackedValue = []\<rparr>"

definition scanner_push :: "jsstring \<Rightarrow> jsstring \<Rightarrow> field_scan lexer \<Rightarrow> field_scan lexer" where
  "scanner_push targetKey fragment l =
     (if failure (host l) \<noteq> None then l else lexer_push (field_handlers targetKey) fragment l)"

definition committed :: "field_scan lexer \<Rightarrow> jsstring" where
  "committed l = committedPrefix (rawText (host l))"

section \<open>The reader of edits\<close>

record edit_state =
  find :: "jsstring option"
  findRaw :: jsstring
  replaceRaw :: jsstring
  replaceComplete :: bool

datatype edit_field = FindField | ReplaceField

record edit_scan =
  editFields :: "jsstring \<rightharpoonup> jsstring"
  edit_states :: "edit_state list"
  editFailure :: "jsstring option"
  currentEdit :: "(nat \<times> edit_field) option"
  editTracked :: "jsstring option"
  editTrackedValue :: jsstring

definition blank_edit :: edit_state where
  "blank_edit = \<lparr>find = None, findRaw = [], replaceRaw = [], replaceComplete = False\<rparr>"

definition EDITS_KEY :: jsstring where
  "EDITS_KEY = js ''edits''"

definition FIND_KEY :: jsstring where
  "FIND_KEY = js ''find''"

definition REPLACE_KEY :: jsstring where
  "REPLACE_KEY = js ''replace''"

text \<open>\<open>stateAt\<close> fills the list up to the index; the update then is in place.\<close>

definition stateAt :: "nat \<Rightarrow> edit_state list \<Rightarrow> edit_state list" where
  "stateAt index states = states @ replicate (Suc index - length states) blank_edit"

definition update_state :: "nat \<Rightarrow> (edit_state \<Rightarrow> edit_state) \<Rightarrow> edit_state list \<Rightarrow> edit_state list" where
  "update_state index f states = (let filled = stateAt index states in filled[index := f (filled ! index)])"

definition edit_append :: "jsstring \<Rightarrow> edit_scan \<Rightarrow> edit_scan" where
  "edit_append t h =
     (case editTracked h of
        Some k \<Rightarrow> h\<lparr>editTrackedValue := add_tracked (editTrackedValue h) t\<rparr>
      | None \<Rightarrow>
          (case currentEdit h of
             None \<Rightarrow> h
           | Some (index, FindField) \<Rightarrow>
               h\<lparr>edit_states := update_state index (\<lambda>e. e\<lparr>findRaw := findRaw e @ t\<rparr>) (edit_states h)\<rparr>
           | Some (index, ReplaceField) \<Rightarrow>
               h\<lparr>edit_states := update_state index (\<lambda>e. e\<lparr>replaceRaw := replaceRaw e @ t\<rparr>) (edit_states h)\<rparr>))"

definition edit_begin :: "json_path \<Rightarrow> edit_scan \<Rightarrow> value_mode \<times> edit_scan" where
  "edit_begin path h =
     (let h1 = h\<lparr>editTracked := None, currentEdit := None\<rparr>
      in case path of
           [PathKey k] \<Rightarrow> (Capture, h1\<lparr>editTracked := Some k, editTrackedValue := []\<rparr>)
         | [PathKey a, PathIndex i, PathKey b] \<Rightarrow>
             if a = EDITS_KEY then
               if b = FIND_KEY then (Capture, h1\<lparr>currentEdit := Some (nat i, FindField)\<rparr>)
               else if b = REPLACE_KEY then (Capture, h1\<lparr>currentEdit := Some (nat i, ReplaceField)\<rparr>)
               else (Ignore, h1)
             else (Ignore, h1)
         | _ \<Rightarrow> (Ignore, h1))"

definition edit_end :: "edit_scan \<Rightarrow> edit_scan" where
  "edit_end h =
     (case editTracked h of
        Some k \<Rightarrow> h\<lparr>editFields := set_field k (editTrackedValue h) (editFields h), editTracked := None,
                    editTrackedValue := []\<rparr>
      | None \<Rightarrow>
          (case currentEdit h of
             None \<Rightarrow> h
           | Some (index, FindField) \<Rightarrow>
               h\<lparr>edit_states := update_state index (\<lambda>e. e\<lparr>find := Some (findRaw e)\<rparr>) (edit_states h), currentEdit := None\<rparr>
           | Some (index, ReplaceField) \<Rightarrow>
               h\<lparr>edit_states := update_state index (\<lambda>e. e\<lparr>replaceComplete := True\<rparr>) (edit_states h), currentEdit := None\<rparr>))"

definition edit_fail :: "jsstring \<Rightarrow> edit_scan \<Rightarrow> edit_scan" where
  "edit_fail message h = h\<lparr>editFailure := first_failure (editFailure h) message\<rparr>"

definition edit_handlers :: "edit_scan lexer_handlers" where
  "edit_handlers = \<lparr>beginValue = edit_begin, appendText = edit_append, endValue = edit_end, on_fail = edit_fail\<rparr>"

definition createPartialJsonEditScanner :: "edit_scan lexer" where
  "createPartialJsonEditScanner = createJsonLexer \<lparr>editFields = Map.empty, edit_states = [], editFailure = None,
     currentEdit = None, editTracked = None, editTrackedValue = []\<rparr>"

definition edit_scanner_push :: "jsstring \<Rightarrow> edit_scan lexer \<Rightarrow> edit_scan lexer" where
  "edit_scanner_push fragment l =
     (if editFailure (host l) \<noteq> None then l else lexer_push edit_handlers fragment l)"

text \<open>What a caller sees of one edit: its anchor, its text so far, whether it is finished.\<close>

record partial_edit =
  pe_find :: "jsstring option"
  pe_replace :: jsstring
  pe_complete :: bool

definition edits :: "edit_scan lexer \<Rightarrow> partial_edit list" where
  "edits l = map (\<lambda>e. \<lparr>pe_find = find e, pe_replace = committedPrefix (replaceRaw e), pe_complete = replaceComplete e\<rparr>)
     (edit_states (host l))"

section \<open>Clients that only extend their state\<close>

lemma lexer_push_append: "lexer_push H (a @ b) l = lexer_push H b (lexer_push H a l)"
proof (induction a arbitrary: l)
  case (Cons c a)
  have "failed l \<Longrightarrow> lexer_push H b l = l" by (cases b) simp_all
  with Cons show ?case by simp
qed simp

locale growing_client =
  fixes H :: "'h lexer_handlers" and extends :: "'h \<Rightarrow> 'h \<Rightarrow> bool"
  assumes extends_refl: "extends h h"
    and extends_trans: "extends h h' \<Longrightarrow> extends h' h'' \<Longrightarrow> extends h h''"
    and begin_extends: "extends h (snd (beginValue H p h))"
    and append_extends: "extends h (appendText H t h)"
    and end_extends: "extends h (endValue H h)"
    and fail_extends: "extends h (on_fail H m h)"
begin

lemma emit_extends: "extends (host l) (host (emit H t l))"
  by (simp add: emit_def extends_refl append_extends)

lemma fail_keeps: "extends (host l) (host (fail H m l))"
  by (simp add: fail_def extends_refl fail_extends)

lemma open_extends: "extends (host l) (host (openString H l))"
  using begin_extends
  by (simp add: openString_def noteValueStart_def Let_def extends_refl split: prod.split) (metis snd_conv)

lemma close_extends: "extends (host l) (host (closeString H l))"
  by (simp add: closeString_def Let_def extends_refl end_extends)

lemma string_unit_extends: "extends (host l) (host (pushStringChar H c l))"
  using emit_extends [of "l\<lparr>escaping := False\<rparr>"] fail_keeps [of "l\<lparr>escaping := False\<rparr>"]
  by (simp add: pushStringChar_def Let_def extends_refl emit_extends fail_keeps close_extends
      split: option.split)

lemma unit_extends: "extends (host l) (host (push_unit H c l))"
  by (simp add: push_unit_def string_unit_extends pushStructuralChar_def noteValueStart_def Let_def
      extends_refl open_extends)

lemma push_extends: "extends (host l) (host (lexer_push H fragment l))"
proof (induction fragment arbitrary: l)
  case (Cons c fragment)
  then show ?case using extends_trans [OF unit_extends Cons.IH] by (simp add: extends_refl)
qed (simp add: extends_refl)

end

definition field_extends :: "field_scan \<Rightarrow> field_scan \<Rightarrow> bool" where
  "field_extends h h' \<longleftrightarrow> prefix (rawText h) (rawText h') \<and> (complete h \<longrightarrow> complete h') \<and>
     (failure h \<noteq> None \<longrightarrow> failure h' \<noteq> None)"

interpretation field_reader: growing_client "field_handlers targetKey" field_extends
  by unfold_locales
    (auto simp: field_extends_def field_handlers_def field_begin_def field_append_def field_end_def
      field_fail_def first_failure_def split: option.split list.split path_segment.split
      intro: prefix_order.trans)

definition edit_grows :: "edit_state \<Rightarrow> edit_state \<Rightarrow> bool" where
  "edit_grows e e' \<longleftrightarrow> prefix (replaceRaw e) (replaceRaw e') \<and> prefix (findRaw e) (findRaw e') \<and>
     (find e \<noteq> None \<longrightarrow> find e' \<noteq> None) \<and> (replaceComplete e \<longrightarrow> replaceComplete e')"

definition edits_extend :: "edit_scan \<Rightarrow> edit_scan \<Rightarrow> bool" where
  "edits_extend h h' \<longleftrightarrow>
     list_all2 edit_grows (edit_states h) (take (length (edit_states h)) (edit_states h')) \<and>
     (editFailure h \<noteq> None \<longrightarrow> editFailure h' \<noteq> None)"

lemma edit_grows_refl: "edit_grows e e"
  by (simp add: edit_grows_def)

lemma edit_grows_updates:
  "edit_grows e (e\<lparr>findRaw := findRaw e @ t\<rparr>)" "edit_grows e (e\<lparr>replaceRaw := replaceRaw e @ t\<rparr>)"
  "edit_grows e (e\<lparr>find := Some (findRaw e)\<rparr>)" "edit_grows e (e\<lparr>replaceComplete := True\<rparr>)"
  by (simp_all add: edit_grows_def)

lemma edit_grows_trans: "edit_grows a b \<Longrightarrow> edit_grows b c \<Longrightarrow> edit_grows a c"
  by (auto simp: edit_grows_def intro: prefix_order.trans)

lemma edits_extend_iff:
  "edits_extend h h' \<longleftrightarrow> length (edit_states h) \<le> length (edit_states h') \<and>
     (\<forall>i < length (edit_states h). edit_grows (edit_states h ! i) (edit_states h' ! i)) \<and>
     (editFailure h \<noteq> None \<longrightarrow> editFailure h' \<noteq> None)"
  by (auto simp: edits_extend_def list_all2_conv_all_nth min_def)

lemma update_state_grows:
  assumes "\<And>e. edit_grows e (f e)"
  shows "length states \<le> length (update_state index f states)"
    "i < length states \<Longrightarrow> edit_grows (states ! i) (update_state index f states ! i)"
  using assms edit_grows_refl
  by (auto simp: update_state_def stateAt_def Let_def nth_append nth_list_update)

lemma edit_append_extends: "edits_extend h (edit_append t h)"
  unfolding edits_extend_iff edit_append_def
  by (cases "editTracked h"; cases "currentEdit h")
    (auto simp: edit_grows_refl update_state_grows edit_grows_updates split: edit_field.splits)

lemma edit_end_extends: "edits_extend h (edit_end h)"
  unfolding edits_extend_iff edit_end_def
  by (cases "editTracked h"; cases "currentEdit h")
    (auto simp: edit_grows_refl update_state_grows edit_grows_updates split: edit_field.splits)

lemma edit_begin_states:
  "edit_states (snd (edit_begin p h)) = edit_states h \<and> editFailure (snd (edit_begin p h)) = editFailure h"
proof -
  consider "p = []" | x where "p = [x]" | x y where "p = [x, y]" | x y z where "p = [x, y, z]"
    | x y z u q where "p = x # y # z # u # q"
    by (metis list.exhaust)
  then show ?thesis
  proof cases
    case (2 x)
    then show ?thesis by (cases x) (simp_all add: edit_begin_def)
  next
    case (3 x y)
    then show ?thesis by (cases x; cases y) (simp_all add: edit_begin_def)
  next
    case (4 x y z)
    then show ?thesis by (cases x; cases y; cases z) (simp_all add: edit_begin_def Let_def)
  next
    case (5 x y z u q)
    then show ?thesis by (cases x; cases y; cases z) (simp_all add: edit_begin_def)
  qed (simp add: edit_begin_def)
qed

lemma edits_extend_trans:
  assumes "edits_extend h h'" "edits_extend h' h''"
  shows "edits_extend h h''"
proof -
  have "edit_grows (edit_states h ! i) (edit_states h'' ! i)" if "i < length (edit_states h)" for i
    using assms that edit_grows_trans less_le_trans unfolding edits_extend_iff by blast
  with assms show ?thesis unfolding edits_extend_iff by auto
qed

interpretation edit_reader: growing_client edit_handlers edits_extend
proof unfold_locales
  fix h h' h'' assume "edits_extend h h'" "edits_extend h' h''"
  then show "edits_extend h h''" by (rule edits_extend_trans)
next
  fix h m show "edits_extend h (on_fail edit_handlers m h)"
    by (simp add: edits_extend_iff edit_handlers_def edit_fail_def first_failure_def edit_grows_refl split: option.split)
next
  fix h p show "edits_extend h (snd (beginValue edit_handlers p h))"
    by (simp add: edit_handlers_def edit_begin_states edits_extend_iff edit_grows_refl)
next
  fix h show "edits_extend h h" by (simp add: edits_extend_iff edit_grows_refl)
qed (simp_all add: edit_handlers_def edit_append_extends edit_end_extends)

text \<open>The published text never ends on half a pair it would have to take back.\<close>

lemma committedPrefix_prefix: "prefix (committedPrefix s) s"
  by (simp add: committedPrefix_def) (metis append_butlast_last_id prefix_def)

lemma committedPrefix_mono: "prefix s t \<Longrightarrow> prefix (committedPrefix s) (committedPrefix t)"
proof -
  assume st: "prefix s t"
  show ?thesis
  proof (cases "s = t")
    case False
    obtain u where "t = s @ u" "u \<noteq> []" using st False by (auto simp: prefix_def)
    then have "prefix s (butlast t)" by (simp add: butlast_append)
    moreover have "prefix (butlast t) (committedPrefix t)"
      by (cases "t = []") (auto simp: committedPrefix_def prefix_def intro: exI [of _ "[last t]"])
    ultimately show ?thesis using committedPrefix_prefix by (metis prefix_order.trans)
  qed simp
qed

section \<open>Strings and skipped values\<close>

text \<open>Between two values of accepted text the lexer is at rest.\<close>

definition at_rest :: "'h lexer \<Rightarrow> bool" where
  "at_rest l \<longleftrightarrow> \<not> failed l \<and> \<not> inString l \<and> \<not> escaping l \<and> unicodeDigits l = None \<and> keyBuffer l = [] \<and>
     \<not> capturing l"

definition in_text :: "'h lexer \<Rightarrow> bool" where
  "in_text l \<longleftrightarrow> \<not> failed l \<and> inString l \<and> \<not> escaping l \<and> unicodeDigits l = None"

definition inert :: "code_unit \<Rightarrow> bool" where
  "inert c \<longleftrightarrow> c \<noteq> 123 \<and> c \<noteq> 91 \<and> c \<noteq> 125 \<and> c \<noteq> 93 \<and> c \<noteq> 34 \<and> c \<noteq> 44"

lemma push_inert: "at_rest l \<Longrightarrow> list_all inert w \<Longrightarrow> lexer_push H (w @ r) l = lexer_push H r l"
  by (induction w) (simp_all add: at_rest_def push_unit_def pushStructuralChar_def inert_def)

lemma push_space:
  assumes "at_rest l" shows "lexer_push H s l = lexer_push H (skip_space s) l"
proof -
  have "list_all inert (takeWhile is_json_space s)"
    by (auto simp: list_all_iff inert_def is_json_space_def dest!: set_takeWhileD)
  then show ?thesis using push_inert [OF assms, of "takeWhile is_json_space s" H "skip_space s"]
    by (simp add: skip_space_def)
qed

text \<open>The text of a string reaches the client one unit at a time.\<close>

lemma in_text_emit: "in_text (emit H t l) = in_text l"
  by (simp add: in_text_def emit_def)

lemma emit_escape_flags:
  "(emit H t l)\<lparr>unicodeDigits := d\<rparr> = emit H t (l\<lparr>unicodeDigits := d\<rparr>)"
  by (simp add: emit_def)

lemma same_update:
  "\<not> escaping l \<Longrightarrow> l\<lparr>escaping := False\<rparr> = l" "unicodeDigits l = d \<Longrightarrow> l\<lparr>unicodeDigits := d\<rparr> = l"
  by (cases l; simp)+

lemma push_backslash:
  "in_text l \<Longrightarrow> lexer_push H (92 # r) l = lexer_push H r (l\<lparr>escaping := True\<rparr>)"
  by (simp add: in_text_def push_unit_def pushStringChar_def)

lemma push_u:
  "in_text l \<Longrightarrow> lexer_push H (117 # r) (l\<lparr>escaping := True\<rparr>) = lexer_push H r (l\<lparr>unicodeDigits := Some []\<rparr>)"
  by (cases l) (simp add: in_text_def push_unit_def pushStringChar_def)

lemma push_digit:
  "in_text l \<Longrightarrow> hex_value c \<noteq> None \<Longrightarrow> length ds < 3 \<Longrightarrow>
     lexer_push H (c # r) (l\<lparr>unicodeDigits := Some ds\<rparr>) = lexer_push H r (l\<lparr>unicodeDigits := Some (ds @ [c])\<rparr>)"
  by (auto simp: in_text_def push_unit_def pushStringChar_def)

lemma push_last_digit:
  "in_text l \<Longrightarrow> hex4 a b c d = Some u \<Longrightarrow> hex_value d \<noteq> None \<Longrightarrow>
     lexer_push H (d # r) (l\<lparr>unicodeDigits := Some [a, b, c]\<rparr>) = lexer_push H r (emit H [u] l)"
  by (cases l) (auto simp: in_text_def push_unit_def pushStringChar_def emit_def)

lemma push_u_escape:
  assumes "in_text l" "hex4 a b c d = Some u"
  shows "lexer_push H (92 # 117 # a # b # c # d # r) l = lexer_push H r (emit H [u] l)"
proof -
  have "hex_value a \<noteq> None" "hex_value b \<noteq> None" "hex_value c \<noteq> None" "hex_value d \<noteq> None"
    using assms(2) by (auto simp: hex4_def split: option.splits)
  then show ?thesis using assms
    by (simp add: push_backslash push_u push_digit push_last_digit del: lexer_push.simps)
qed

lemma push_simple_escape:
  assumes "in_text l" "simple_escape e = Some u" "e \<noteq> 117"
  shows "lexer_push H (92 # e # r) l = lexer_push H r (emit H [u] l)"
  using assms by (simp add: push_backslash del: lexer_push.simps)
    (simp add: in_text_def push_unit_def pushStringChar_def Let_def same_update)

lemma push_plain_unit:
  assumes "in_text l" "c \<noteq> 92" "c \<noteq> 34"
  shows "lexer_push H (c # r) l = lexer_push H r (emit H [c] l)"
  using assms by (simp add: in_text_def push_unit_def pushStringChar_def)

definition emit_all :: "'h lexer_handlers \<Rightarrow> jsstring \<Rightarrow> 'h lexer \<Rightarrow> 'h lexer" where
  "emit_all H t l = fold (\<lambda>u. emit H [u]) t l"

lemma push_chars:
  "parse_chars s = Some (t, r) \<Longrightarrow> in_text l \<Longrightarrow>
     lexer_push H s l = lexer_push H r (closeString H (emit_all H t l))"
proof (induction s arbitrary: t l rule: parse_chars.induct)
  case (2 c s)
  consider (quote) "c = 34" | (escape) "c = 92" | (plain) "c \<noteq> 34" "c \<noteq> 92" by blast
  then show ?case
  proof cases
    case quote
    with 2 show ?thesis
      by (simp add: in_text_def push_unit_def pushStringChar_def emit_all_def)
  next
    case escape
    then obtain e s1 where s: "s = e # s1" using 2(4) by (cases s) simp_all
    show ?thesis
    proof (cases "e = 117")
      case True
      then obtain h1 h2 h3 h4 s2 where s1: "s1 = h1 # h2 # h3 # h4 # s2"
        using 2(4) escape s by (auto split: list.splits)
      then obtain u t' where u: "hex4 h1 h2 h3 h4 = Some u" "parse_chars s2 = Some (t', r)" "t = u # t'"
        using 2(4) escape s True by (auto simp: cons_unit_def split: option.splits)
      show ?thesis
        using 2(1) [OF _ escape s True s1 refl refl refl u(1) u(2), of "emit H [u] l"] 2(5) escape s True s1 u
          push_u_escape [OF 2(5) u(1)]
        by (simp add: in_text_emit emit_all_def del: lexer_push.simps)
    next
      case False
      then obtain u t' where u: "simple_escape e = Some u" "parse_chars s1 = Some (t', r)" "t = u # t'"
        using 2(4) escape s by (auto simp: cons_unit_def split: option.splits)
      show ?thesis
        using 2(2) [OF _ escape s False u(1) u(2), of "emit H [u] l"] 2(5) escape s False u
          push_simple_escape [OF 2(5) u(1)]
        by (simp add: in_text_emit emit_all_def del: lexer_push.simps)
    qed
  next
    case plain
    then obtain t' where u: "\<not> c < 32" "parse_chars s = Some (t', r)" "t = c # t'"
      using 2(4) by (auto simp: cons_unit_def split: if_splits)
    show ?thesis
      using 2(3) [OF plain u(1) u(2), of "emit H [c] l"] 2(5) plain u push_plain_unit [OF 2(5)]
      by (simp add: in_text_emit emit_all_def del: lexer_push.simps)
  qed
qed simp

section \<open>Structural steps\<close>

lemma at_rest_updates [simp]:
  "at_rest (l\<lparr>frames := fs\<rparr>) = at_rest l" "at_rest (l\<lparr>expectKey := b\<rparr>) = at_rest l"
  "at_rest (l\<lparr>stringIsKey := b\<rparr>) = at_rest l" "at_rest (l\<lparr>host := h\<rparr>) = at_rest l"
  by (simp_all add: at_rest_def)

lemma push_structural:
  assumes "at_rest l"
  shows "lexer_push H (91 # r) l = lexer_push H r (l\<lparr>frames := ArrayFrame (-1) # bump (frames l), expectKey := False\<rparr>)"
    "lexer_push H (123 # r) l = lexer_push H r (l\<lparr>frames := ObjectFrame None # bump (frames l), expectKey := True\<rparr>)"
    "lexer_push H (93 # r) l = lexer_push H r (l\<lparr>frames := tl (frames l), expectKey := False\<rparr>)"
    "lexer_push H (125 # r) l = lexer_push H r (l\<lparr>frames := tl (frames l), expectKey := False\<rparr>)"
    "lexer_push H (58 # r) l = lexer_push H r l"
    "\<not> top_is_object (frames l) \<Longrightarrow> lexer_push H (44 # r) l = lexer_push H r l"
    "top_is_object (frames l) \<Longrightarrow>
       lexer_push H (44 # r) l = lexer_push H r (l\<lparr>expectKey := True, frames := set_key None (frames l)\<rparr>)"
  using assms by (simp_all add: at_rest_def push_unit_def pushStructuralChar_def noteValueStart_def)

lemma emit_all_key:
  "stringIsKey l \<Longrightarrow> emit_all H t l = l\<lparr>keyBuffer := keyBuffer l @ t\<rparr>"
proof (induction t arbitrary: l)
  case (Cons u t)
  show ?case using Cons.prems Cons.IH [of "emit H [u] l"] by (simp add: emit_all_def emit_def)
qed (simp add: emit_all_def)

lemma emit_all_ignored: "\<not> stringIsKey l \<Longrightarrow> \<not> capturing l \<Longrightarrow> emit_all H t l = l"
  by (induction t) (simp_all add: emit_all_def emit_def)

lemma emit_all_captured:
  "\<not> stringIsKey l \<Longrightarrow> capturing l \<Longrightarrow> emit_all H t l = l\<lparr>host := fold (\<lambda>u. appendText H [u]) t (host l)\<rparr>"
proof (induction t arbitrary: l)
  case (Cons u t)
  show ?case using Cons.prems Cons.IH [of "emit H [u] l"] by (simp add: emit_all_def emit_def)
qed (simp add: emit_all_def)

lemma push_key:
  assumes "parse_chars s = Some (k, r)" "at_rest l" "expectKey l" "top_is_object (frames l)"
  shows "lexer_push H (34 # s) l =
    lexer_push H r (l\<lparr>frames := set_key (Some k) (frames l), expectKey := False, stringIsKey := True\<rparr>)"
proof -
  let ?l = "openString H l"
  have o: "?l = l\<lparr>inString := True, escaping := False, unicodeDigits := None, stringIsKey := True,
      keyBuffer := [], capturing := False\<rparr>"
    using assms(3,4) by (simp add: openString_def)
  have "in_text ?l" using assms(2) by (simp add: o in_text_def at_rest_def)
  then have "lexer_push H (34 # s) l = lexer_push H r (closeString H (emit_all H k ?l))"
    using push_chars [OF assms(1)] assms(2) by (simp add: at_rest_def push_unit_def pushStructuralChar_def)
  moreover have "closeString H (emit_all H k ?l) =
      l\<lparr>frames := set_key (Some k) (frames l), expectKey := False, stringIsKey := True\<rparr>"
    using assms(2) unfolding o by (cases l) (simp add: emit_all_key closeString_def at_rest_def)
  ultimately show ?thesis by simp
qed

lemma push_string_value:
  assumes "parse_chars s = Some (t, r)" "at_rest l" "\<not> expectKey l"
    "beginValue H (currentPath (noteValueStart l)) (host l) = (mode, h)"
  shows "lexer_push H (34 # s) l =
    lexer_push H r (l\<lparr>frames := bump (frames l), stringIsKey := False,
      host := (if mode = Capture then endValue H (fold (\<lambda>u. appendText H [u]) t h) else h)\<rparr>)"
proof -
  let ?l = "openString H l"
  have o: "?l = l\<lparr>inString := True, escaping := False, unicodeDigits := None, stringIsKey := False,
      frames := bump (frames l), capturing := (mode = Capture), host := h\<rparr>"
    using assms(3,4) by (simp add: openString_def noteValueStart_def currentPath_def)
  have "in_text ?l" using assms(2) by (simp add: o in_text_def at_rest_def)
  then have "lexer_push H (34 # s) l = lexer_push H r (closeString H (emit_all H t ?l))"
    using push_chars [OF assms(1)] assms(2) by (simp add: at_rest_def push_unit_def pushStructuralChar_def)
  moreover have "closeString H (emit_all H t ?l) = l\<lparr>frames := bump (frames l), stringIsKey := False,
      host := (if mode = Capture then endValue H (fold (\<lambda>u. appendText H [u]) t h) else h)\<rparr>"
    using assms(2) unfolding o
    by (cases l; cases mode) (simp_all add: emit_all_captured emit_all_ignored closeString_def at_rest_def)
  ultimately show ?thesis by simp
qed

text \<open>Number tokens and literals pass by.\<close>

lemma take_digits_inert:
  "take_digits s = Some (ds, r) \<Longrightarrow> s = ds @ r \<and> list_all inert ds"
  by (auto simp: take_digits_def list_all_iff inert_def is_digit_def split: list.splits dest!: set_takeWhileD)

lemma number_token_inert:
  assumes "number_token s = Some (t, r)"
  shows "s = t @ r \<and> list_all inert t"
proof -
  obtain sg r0 where sg: "number_sign s = (sg, r0)" by fastforce
  with assms obtain ds r1 where ds: "number_int r0 = Some (ds, r1)"
    by (auto simp: number_token_def split: option.splits)
  obtain fr r2 where fr: "number_fraction r1 = (fr, r2)" by fastforce
  obtain ex r3 where ex: "number_exponent r2 = (ex, r3)" by fastforce
  have "s = sg @ r0 \<and> list_all inert sg"
    using sg by (auto simp: number_sign_def inert_def split: list.splits if_splits)
  moreover have "r0 = ds @ r1 \<and> list_all inert ds"
    using ds take_digits_inert by (auto simp: number_int_def inert_def split: list.splits if_splits)
  moreover have "r1 = fr @ r2 \<and> list_all inert fr"
    using fr by (auto simp: number_fraction_def inert_def split: list.splits if_splits option.splits
        dest!: take_digits_inert)
  moreover have "r2 = ex @ r3 \<and> list_all inert ex"
    using ex by (auto simp: number_exponent_def inert_def Let_def split: list.splits if_splits option.splits prod.splits
        dest!: take_digits_inert)
  ultimately show ?thesis using assms sg ds fr ex by (auto simp: number_token_def)
qed

lemma literal_inert:
  "literal word s v = Some (v', r) \<Longrightarrow> s = word @ r \<and> v' = v"
  by (auto simp: literal_def starts_with_iff split: if_splits)

section \<open>Clients that ignore nested values\<close>

fun after_value :: "json \<Rightarrow> frame list \<Rightarrow> frame list" where
  "after_value (JStr _) fs = bump fs"
| "after_value (JArr _) fs = bump fs"
| "after_value (JObj _) fs = bump fs"
| "after_value _ fs = fs"

lemma length_bump [simp]: "length (bump fs) = length fs"
  by (cases fs rule: bump.cases) simp_all

lemma parse_items_array: "parse_items num f xs s = Some (v, r) \<Longrightarrow> \<exists>ys. v = JArr ys"
  by (induction f arbitrary: xs s) (auto split: option.splits list.splits if_splits)

lemma parse_members_object: "parse_members num f es s = Some (v, r) \<Longrightarrow> \<exists>ys. v = JObj ys"
  by (induction f arbitrary: es s) (auto split: option.splits list.splits if_splits)

lemma skip_space_cases:
  obtains "skip_space s = []" | c r where "skip_space s = c # r"
  by (cases "skip_space s") auto

lemma same_expect: "\<not> expectKey l \<Longrightarrow> l\<lparr>frames := fs, expectKey := False\<rparr> = l\<lparr>frames := fs\<rparr>"
  by (cases l) simp

lemma update_order:
  "l\<lparr>stringIsKey := b, frames := fs, expectKey := e\<rparr> = l\<lparr>frames := fs, expectKey := e, stringIsKey := b\<rparr>"
  by (cases l) simp

locale shallow_client =
  fixes H :: "'h lexer_handlers" and depth :: nat
  assumes ignores: "depth \<le> length p \<Longrightarrow> beginValue H p h = (Ignore, h)"
begin

lemma skip_string:
  assumes "parse_chars s = Some (t, r)" "at_rest l" "\<not> expectKey l" "depth \<le> length (frames l)"
  shows "lexer_push H (34 # s) l = lexer_push H r (l\<lparr>frames := bump (frames l), stringIsKey := False\<rparr>)"
proof -
  have "beginValue H (currentPath (noteValueStart l)) (host l) = (Ignore, host l)"
    using assms(4) by (intro ignores) (simp add: currentPath_def noteValueStart_def)
  from push_string_value [OF assms(1-3) this] show ?thesis by simp
qed

definition skipped :: "jsstring \<Rightarrow> 'h lexer \<Rightarrow> jsstring \<Rightarrow> frame list \<Rightarrow> bool" where
  "skipped s l r fs \<longleftrightarrow> (\<exists>b. lexer_push H s l = lexer_push H r (l\<lparr>frames := fs, expectKey := False, stringIsKey := b\<rparr>))"

lemma skippedI:
  "lexer_push H s l = lexer_push H r (l\<lparr>frames := fs, expectKey := False, stringIsKey := b\<rparr>) \<Longrightarrow> skipped s l r fs"
  unfolding skipped_def by blast

text \<open>What follows a step is skipped from the state after the step.\<close>

lemma skipped_step:
  assumes "lexer_push H s l = lexer_push H s' l'" "skipped s' l' r fs"
    "\<And>x b. l'\<lparr>frames := x, expectKey := False, stringIsKey := b\<rparr> = l\<lparr>frames := x, expectKey := False, stringIsKey := b\<rparr>"
  shows "skipped s l r fs"
  using assms unfolding skipped_def by simp

lemma skipped_space: "at_rest l \<Longrightarrow> skipped (skip_space s) l r fs \<Longrightarrow> skipped s l r fs"
  unfolding skipped_def using push_space [of l H s] by simp

lemma skipped_obtain:
  assumes "skipped s l r fs"
  obtains b where "lexer_push H s l = lexer_push H r (l\<lparr>frames := fs, expectKey := False, stringIsKey := b\<rparr>)"
  using assms unfolding skipped_def by blast

lemma tl_after_value: "\<not> top_is_object fs \<Longrightarrow> tl (after_value v fs) = tl fs \<and> \<not> top_is_object (after_value v fs)"
  by (cases v; cases fs rule: bump.cases) simp_all

lemma object_after_value: "top_is_object fs \<Longrightarrow> after_value v fs = fs"
  by (cases v; cases fs rule: bump.cases) simp_all

lemma length_after_value: "length (after_value v fs) = length fs"
  by (cases v) simp_all

definition skips_values :: "(jsstring \<Rightarrow> jsstring) \<Rightarrow> nat \<Rightarrow> bool" where
  "skips_values num f \<longleftrightarrow> (\<forall>s v r l. parse_value num f s = Some (v, r) \<and> at_rest l \<and> \<not> expectKey l \<and>
     depth \<le> length (frames l) \<longrightarrow> skipped s l r (after_value v (frames l)))"

definition skips_items :: "(jsstring \<Rightarrow> jsstring) \<Rightarrow> nat \<Rightarrow> bool" where
  "skips_items num f \<longleftrightarrow> (\<forall>xs s v r l. parse_items num f xs s = Some (v, r) \<and> at_rest l \<and> \<not> expectKey l \<and>
     depth \<le> length (frames l) \<and> \<not> top_is_object (frames l) \<longrightarrow> skipped s l r (tl (frames l)))"

definition skips_members :: "(jsstring \<Rightarrow> jsstring) \<Rightarrow> nat \<Rightarrow> bool" where
  "skips_members num f \<longleftrightarrow> (\<forall>es s v r l. parse_members num f es s = Some (v, r) \<and> at_rest l \<and> expectKey l \<and>
     depth \<le> length (frames l) \<and> top_is_object (frames l) \<longrightarrow> skipped s l r (tl (frames l)))"

lemma skips_valuesD: "skips_values num f \<Longrightarrow> parse_value num f s = Some (v, r) \<Longrightarrow> at_rest l \<Longrightarrow> \<not> expectKey l \<Longrightarrow>
    depth \<le> length (frames l) \<Longrightarrow> skipped s l r (after_value v (frames l))"
  unfolding skips_values_def by blast

lemma skips_itemsD: "skips_items num f \<Longrightarrow> parse_items num f xs s = Some (v, r) \<Longrightarrow> at_rest l \<Longrightarrow> \<not> expectKey l \<Longrightarrow>
    depth \<le> length (frames l) \<Longrightarrow> \<not> top_is_object (frames l) \<Longrightarrow> skipped s l r (tl (frames l))"
  unfolding skips_items_def by blast

lemma skips_membersD: "skips_members num f \<Longrightarrow> parse_members num f es s = Some (v, r) \<Longrightarrow> at_rest l \<Longrightarrow> expectKey l \<Longrightarrow>
    depth \<le> length (frames l) \<Longrightarrow> top_is_object (frames l) \<Longrightarrow> skipped s l r (tl (frames l))"
  unfolding skips_members_def by blast

lemma skip_items_step:
  assumes V: "skips_values num f"
    and I: "skips_items num f"
    and p: "parse_items num (Suc f) xs s = Some (v, r)"
    and l: "at_rest l" "\<not> expectKey l" "depth \<le> length (frames l)" "\<not> top_is_object (frames l)"
  shows "skipped s l r (tl (frames l))"
proof -
  obtain v1 r1 c r' where v1: "parse_value num f s = Some (v1, r1)" and c: "skip_space r1 = c # r'"
    using p by (auto split: option.splits list.splits)
  obtain b where b: "lexer_push H s l =
      lexer_push H r1 (l\<lparr>frames := after_value v1 (frames l), expectKey := False, stringIsKey := b\<rparr>)"
    using skipped_obtain [OF skips_valuesD [OF V v1 l(1-3)]] .
  let ?l = "l\<lparr>frames := after_value v1 (frames l), expectKey := False, stringIsKey := b\<rparr>"
  have rest: "at_rest ?l" using l(1) by simp
  have space: "lexer_push H s l = lexer_push H (c # r') ?l"
    using b push_space [OF rest, of H r1] c by simp
  show ?thesis
  proof (cases "c = 93")
    case True
    then have "r = r'" using p v1 c by simp
    with True space rest tl_after_value [OF l(4), of v1] show ?thesis
      by (intro skippedI [where b = b]) (simp add: push_structural update_order del: lexer_push.simps)
  next
    case False
    then have q: "c = 44" "parse_items num f (xs @ [v1]) r' = Some (v, r)" using p v1 c by (auto split: if_splits)
    have "skipped r' ?l r (tl (frames ?l))"
      using skips_itemsD [OF I q(2) rest] l(3) tl_after_value [OF l(4), of v1] by (simp add: length_after_value)
    then have "skipped r' ?l r (tl (frames l))" using tl_after_value [OF l(4), of v1] by simp
    moreover have "lexer_push H s l = lexer_push H r' ?l"
      using space q(1) push_structural(6) [OF rest, of H r'] tl_after_value [OF l(4), of v1] by simp
    ultimately show ?thesis using skipped_step [of s l r' ?l] by simp
  qed
qed

lemma skip_members_step:
  assumes V: "skips_values num f"
    and M: "skips_members num f"
    and p: "parse_members num (Suc f) es s = Some (v, r)"
    and l: "at_rest l" "expectKey l" "depth \<le> length (frames l)" "top_is_object (frames l)"
  shows "skipped s l r (tl (frames l))"
proof -
  obtain r0 k r1 r2 v1 r3 d r4 where q: "skip_space s = 34 # r0" "parse_chars r0 = Some (k, r1)"
    "skip_space r1 = 58 # r2" "parse_value num f r2 = Some (v1, r3)" "skip_space r3 = d # r4"
    "(d = 125 \<and> r = r4) \<or> (d = 44 \<and> parse_members num f (set_member k v1 es) r4 = Some (v, r))"
    using p by (auto split: option.splits list.splits if_splits)
  let ?fs = "set_key (Some k) (frames l)"
  have fs: "top_is_object ?fs" "length ?fs = length (frames l)" "tl ?fs = tl (frames l)"
    using l(4) by (cases "frames l" rule: bump.cases; simp)+
  let ?k = "l\<lparr>frames := ?fs, expectKey := False, stringIsKey := True\<rparr>"
  have "lexer_push H s l = lexer_push H r1 ?k"
    using push_space [OF l(1), of H s] q(1) push_key [OF q(2) l(1,2,4), of H] by simp
  also have "\<dots> = lexer_push H r2 ?k"
    using push_space [of ?k H r1] l(1) q(3) push_structural(5) [of ?k H r2] by simp
  also have "\<exists>b. \<dots> = lexer_push H r3 (?k\<lparr>stringIsKey := b\<rparr>)"
  proof -
    have "skipped r2 ?k r3 ?fs" using skips_valuesD [OF V q(4), of ?k] l(1,3) fs by (simp add: object_after_value)
    then obtain b where
      "lexer_push H r2 ?k = lexer_push H r3 (?k\<lparr>frames := ?fs, expectKey := False, stringIsKey := b\<rparr>)"
      by (rule skipped_obtain)
    then show ?thesis by (intro exI [of _ b]) simp
  qed
  finally obtain b where b: "lexer_push H s l = lexer_push H r3 (?k\<lparr>stringIsKey := b\<rparr>)" by blast
  let ?l = "?k\<lparr>stringIsKey := b\<rparr>"
  have rest: "at_rest ?l" using l(1) by simp
  have space: "lexer_push H s l = lexer_push H (d # r4) ?l"
    using b push_space [OF rest, of H r3] q(5) by simp
  from q(6) show ?thesis
  proof
    assume "d = 125 \<and> r = r4"
    with space rest fs(3) show ?thesis
      by (intro skippedI [where b = b]) (simp add: push_structural update_order del: lexer_push.simps)
  next
    assume d: "d = 44 \<and> parse_members num f (set_member k v1 es) r4 = Some (v, r)"
    let ?m = "?l\<lparr>expectKey := True, frames := set_key None (frames ?l)\<rparr>"
    have m: "top_is_object (frames ?m)" "length (frames ?m) = length (frames l)" "tl (frames ?m) = tl (frames l)"
      using l(4) by (cases "frames l" rule: bump.cases; simp)+
    have "skipped r4 ?m r (tl (frames ?m))" using skips_membersD [OF M, of "set_member k v1 es" r4 v r ?m] d l(1,3) m by simp
    then have "skipped r4 ?m r (tl (frames l))" using m(3) by simp
    moreover have "lexer_push H s l = lexer_push H r4 ?m"
      using space d push_structural(7) [OF rest, of H r4] fs by simp
    moreover have "?m\<lparr>frames := x, expectKey := False, stringIsKey := y\<rparr> =
        l\<lparr>frames := x, expectKey := False, stringIsKey := y\<rparr>" for x y by (cases l) simp
    ultimately show ?thesis using skipped_step [of s l r4 ?m] by blast
  qed
qed

lemma skip_value_step:
  assumes I: "skips_items num f"
    and M: "skips_members num f"
    and p: "parse_value num (Suc f) s = Some (v, r)"
    and l: "at_rest l" "\<not> expectKey l"
    and depth: "depth \<le> length (frames l) \<or> (depth \<le> Suc (length (frames l)) \<and> (\<forall>t. v \<noteq> JStr t))"
  shows "skipped s l r (after_value v (frames l))"
proof -
  obtain c q where cq: "skip_space s = c # q" using p by (auto split: list.splits)
  have same: "lexer_push H w l = lexer_push H r l \<Longrightarrow> skipped w l r (frames l)" for w r
    using l(2) by (intro skippedI [where b = "stringIsKey l"]) (cases l; simp)
  consider (str) "c = 34" | (arr) "c = 91" | (obj) "c = 123"
    | (lit) word u where "literal word (c # q) u = Some (v, r)" "list_all inert word" "after_value u (frames l) = frames l"
    | (num) t where "number_token (c # q) = Some (t, r)" "v = JNum (num t)"
    using p cq by (fastforce simp: inert_def js_simps split: if_splits)
  then have "skipped (c # q) l r (after_value v (frames l))"
  proof cases
    case str
    then obtain t where "parse_chars q = Some (t, r)" "v = JStr t" using p cq by auto
    moreover have "l\<lparr>frames := bump (frames l), expectKey := False, stringIsKey := False\<rparr> =
        l\<lparr>frames := bump (frames l), stringIsKey := False\<rparr>" using l(2) by (cases l) simp
    ultimately show ?thesis using skip_string [OF _ l] depth str by (intro skippedI [where b = False]) simp
  next
    case lit
    then show ?thesis using literal_inert [OF lit(1)] push_inert [OF l(1) lit(2), of H r] by (simp add: same)
  next
    case num
    then show ?thesis using number_token_inert [OF num(1)] push_inert [OF l(1), of t H r] by (simp add: same)
  next
    case arr
    let ?l = "l\<lparr>frames := ArrayFrame (-1) # bump (frames l), expectKey := False\<rparr>"
    have s: "lexer_push H (c # q) l = lexer_push H q ?l" using arr push_structural(1) [OF l(1)] by simp
    obtain d q' where dq: "skip_space q = d # q'" using p cq arr by (auto split: list.splits)
    have "skipped q ?l r (bump (frames l)) \<and> after_value v (frames l) = bump (frames l)"
    proof (cases "d = 93")
      case True
      then have "v = JArr []" "r = q'" using p cq arr dq by simp_all
      moreover have "lexer_push H q ?l = lexer_push H q' (l\<lparr>frames := bump (frames l), expectKey := False\<rparr>)"
        using push_space [of ?l H q] push_structural(3) [of ?l H q'] l(1) dq True by simp
      ultimately show ?thesis by (intro conjI skippedI [where b = "stringIsKey l"]) (cases l; simp)+
    next
      case False
      then have i: "parse_items num f [] q = Some (v, r)" using p cq arr dq by simp
      show ?thesis using skips_itemsD [OF I i, of ?l] l(1) depth parse_items_array [OF i] by auto
    qed
    then have "skipped q ?l r (after_value v (frames l))" by simp
    then show ?thesis by (rule skipped_step [OF s]) (cases l; simp)
  next
    case obj
    let ?l = "l\<lparr>frames := ObjectFrame None # bump (frames l), expectKey := True\<rparr>"
    have s: "lexer_push H (c # q) l = lexer_push H q ?l" using obj push_structural(2) [OF l(1)] by simp
    obtain d q' where dq: "skip_space q = d # q'" using p cq obj by (auto split: list.splits)
    have "skipped q ?l r (bump (frames l)) \<and> after_value v (frames l) = bump (frames l)"
    proof (cases "d = 125")
      case True
      then have "v = JObj []" "r = q'" using p cq obj dq by simp_all
      moreover have "lexer_push H q ?l = lexer_push H q' (l\<lparr>frames := bump (frames l), expectKey := False\<rparr>)"
        using push_space [of ?l H q] push_structural(4) [of ?l H q'] l(1) dq True by simp
      ultimately show ?thesis by (intro conjI skippedI [where b = "stringIsKey l"]) (cases l; simp)+
    next
      case False
      then have i: "parse_members num f [] q = Some (v, r)" using p cq obj dq by simp
      show ?thesis using skips_membersD [OF M i, of ?l] l(1) depth parse_members_object [OF i] by auto
    qed
    then have "skipped q ?l r (after_value v (frames l))" by simp
    then show ?thesis by (rule skipped_step [OF s]) (cases l; simp)
  qed
  then show ?thesis using skipped_space [OF l(1)] cq by simp
qed

lemma skip_all: "skips_values num f \<and> skips_items num f \<and> skips_members num f"
proof (induction f)
  case 0
  then show ?case by (simp add: skips_values_def skips_items_def skips_members_def)
next
  case (Suc f)
  then have V: "skips_values num f" and I: "skips_items num f" and M: "skips_members num f" by simp_all
  have "skips_values num (Suc f)" unfolding skips_values_def using skip_value_step [OF I M] by blast
  moreover have "skips_items num (Suc f)" unfolding skips_items_def using skip_items_step [OF V I] by blast
  moreover have "skips_members num (Suc f)" unfolding skips_members_def using skip_members_step [OF V M] by blast
  ultimately show ?case by simp
qed

lemma skip_value:
  "parse_value num f s = Some (v, r) \<Longrightarrow> at_rest l \<Longrightarrow> \<not> expectKey l \<Longrightarrow> depth \<le> length (frames l) \<Longrightarrow>
     skipped s l r (after_value v (frames l))"
  using skip_all by (blast intro: skips_valuesD)

lemma skip_container:
  assumes "parse_value num f s = Some (v, r)" "at_rest l" "\<not> expectKey l" "depth \<le> Suc (length (frames l))"
    "\<forall>t. v \<noteq> JStr t"
  shows "skipped s l r (after_value v (frames l))"
proof (cases f)
  case (Suc f')
  show ?thesis using skip_value_step [of num f' s v r l] skip_all [of num f'] assms Suc by blast
qed (use assms(1) in simp)

end

section \<open>The field reader agrees with the parser\<close>

interpretation field_shallow: shallow_client "field_handlers targetKey" 2
proof
  fix p :: json_path and h
  assume "2 \<le> length p"
  then obtain x y q where "p = x # y # q" by (metis Suc_le_length_iff numeral_2_eq_2)
  then show "beginValue (field_handlers targetKey) p h = (Ignore, h)"
    by (cases x) (simp_all add: field_handlers_def field_begin_def isTopLevelKey_def)
qed

text \<open>What one member does to the reader's state.\<close>

definition read_member :: "jsstring \<Rightarrow> jsstring \<Rightarrow> json \<Rightarrow> field_scan \<Rightarrow> field_scan" where
  "read_member targetKey k v h =
     (case v of
        JStr t \<Rightarrow> (let (mode, h') = field_begin targetKey [PathKey k] h
                   in if mode = Capture then field_end (fold (\<lambda>u. field_append [u]) t h') else h')
      | _ \<Rightarrow> h)"

lemma string_value_start:
  assumes "parse_value num f s = Some (JStr t, r)"
  obtains q where "skip_space s = 34 # q" "parse_chars q = Some (t, r)"
proof -
  obtain f' where f: "f = Suc f'" using assms by (cases f) simp_all
  obtain c q where c: "skip_space s = c # q" using assms f by (auto split: list.splits)
  have "c = 34"
  proof (rule ccontr)
    assume "c \<noteq> 34"
    with assms f c show False
      by (auto split: list.splits if_splits dest: parse_items_array parse_members_object literal_inert)
  qed
  with assms f c show ?thesis by (intro that) auto
qed

lemma object_value_start:
  assumes "parse_value num (Suc f) s = Some (JObj es, r)" "skip_space s = c # q"
  shows "c = 123"
proof (rule ccontr)
  assume "c \<noteq> 123"
  with assms show False
    by (auto split: list.splits if_splits dest: parse_items_array literal_inert)
qed

lemma push_member_value:
  assumes p: "parse_value num f s = Some (v, r)" and l: "at_rest l" "\<not> expectKey l" "frames l = [ObjectFrame (Some k)]"
  shows "\<exists>b. lexer_push (field_handlers targetKey) s l =
    lexer_push (field_handlers targetKey) r (l\<lparr>stringIsKey := b, host := read_member targetKey k v (host l)\<rparr>)"
proof (cases "\<exists>t. v = JStr t")
  case True
  then obtain t where v: "v = JStr t" by blast
  obtain q where q: "skip_space s = 34 # q" "parse_chars q = Some (t, r)"
    using string_value_start p v by blast
  obtain mode h where m: "field_begin targetKey [PathKey k] (host l) = (mode, h)" by fastforce
  then have "beginValue (field_handlers targetKey) (currentPath (noteValueStart l)) (host l) = (mode, h)"
    using l(3) by (simp add: field_handlers_def currentPath_def noteValueStart_def)
  from push_string_value [OF q(2) l(1,2) this]
  have "lexer_push (field_handlers targetKey) s l =
    lexer_push (field_handlers targetKey) r (l\<lparr>frames := frames l, stringIsKey := False, host := read_member targetKey k v (host l)\<rparr>)"
    using push_space [OF l(1), of _ s] q(1) m l(3) v by (simp add: read_member_def field_handlers_def)
  moreover have "l\<lparr>frames := frames l, stringIsKey := False, host := read_member targetKey k v (host l)\<rparr> =
      l\<lparr>stringIsKey := False, host := read_member targetKey k v (host l)\<rparr>" by (cases l) simp
  ultimately show ?thesis by metis
next
  case False
  then have "field_shallow.skipped targetKey s l r (after_value v (frames l))"
    using field_shallow.skip_container [OF p l(1,2)] l(3) by simp
  then obtain b where "lexer_push (field_handlers targetKey) s l =
      lexer_push (field_handlers targetKey) r (l\<lparr>frames := after_value v (frames l), expectKey := False, stringIsKey := b\<rparr>)"
    by (rule field_shallow.skipped_obtain)
  moreover have "l\<lparr>frames := after_value v (frames l), expectKey := False, stringIsKey := b\<rparr> =
      l\<lparr>stringIsKey := b, host := read_member targetKey k v (host l)\<rparr>"
    using l(2,3) False by (cases l; cases v) (simp_all add: read_member_def)
  ultimately show ?thesis by metis
qed

text \<open>The reader's state after some members of the top-level object.\<close>

definition has_read :: "jsstring \<Rightarrow> (jsstring \<times> json) list \<Rightarrow> field_scan \<Rightarrow> bool" where
  "has_read targetKey es h \<longleftrightarrow> trackedKey h = None \<and> (failure h = None \<longrightarrow>
     (\<forall>k v. k \<noteq> targetKey \<and> k \<noteq> PROTO \<and> map_of es k = Some (JStr v) \<longrightarrow>
        completedFields h k = Some (take MAX_TRACKED_FIELD_LENGTH v)) \<and>
     (seenTarget h \<longrightarrow> complete h \<and> (\<forall>t. map_of es targetKey = Some (JStr t) \<longrightarrow> rawText h = t)) \<and>
     (\<not> seenTarget h \<longrightarrow> rawText h = [] \<and> (\<forall>t. map_of es targetKey \<noteq> Some (JStr t))))"

lemma map_of_set_member: "map_of (set_member k v es) = (map_of es)(k \<mapsto> v)"
  by (induction es) (auto simp: fun_eq_iff)

lemma fold_append_raw:
  "trackedKey h = None \<Longrightarrow> fold (\<lambda>u. field_append [u]) t h = h\<lparr>rawText := rawText h @ t\<rparr>"
  by (induction t arbitrary: h) (simp_all add: field_append_def)

lemma fold_append_tracked:
  "trackedKey h = Some k \<Longrightarrow> length (trackedValue h) \<le> MAX_TRACKED_FIELD_LENGTH \<Longrightarrow>
     fold (\<lambda>u. field_append [u]) t h = h\<lparr>trackedValue := take MAX_TRACKED_FIELD_LENGTH (trackedValue h @ t)\<rparr>"
proof (induction t arbitrary: h)
  case (Cons u t)
  show ?case
  proof (cases "length (trackedValue h) < MAX_TRACKED_FIELD_LENGTH")
    case True
    then show ?thesis using Cons.IH [of "field_append [u] h"] Cons.prems
      by (simp add: field_append_def add_tracked_def)
  next
    case False
    then have "field_append [u] h = h" using Cons.prems by (cases h) (simp add: field_append_def add_tracked_def)
    then show ?thesis using Cons.IH [of h] Cons.prems False by simp
  qed
qed simp

lemma has_read_member:
  assumes "has_read targetKey es h"
  shows "has_read targetKey (set_member k v es) (read_member targetKey k v h)"
proof (cases "\<exists>t. v = JStr t")
  case False
  then have "read_member targetKey k v h = h" by (cases v) (simp_all add: read_member_def)
  then show ?thesis using assms False by (auto simp: has_read_def map_of_set_member)
next
  case True
  then obtain t where v: "v = JStr t" by blast
  consider (target) "k = targetKey" "\<not> seenTarget h" | (again) "k = targetKey" "seenTarget h" | (other) "k \<noteq> targetKey"
    by blast
  then show ?thesis
  proof cases
    case target
    then have "read_member targetKey k v h =
        h\<lparr>seenTarget := True, trackedKey := None, rawText := rawText h @ t, complete := True\<rparr>"
      by (simp add: read_member_def v field_begin_def isTopLevelKey_def fold_append_raw field_end_def)
    then show ?thesis using assms target v by (auto simp: has_read_def map_of_set_member)
  next
    case again
    then show ?thesis using assms v
      by (simp add: read_member_def field_begin_def isTopLevelKey_def has_read_def)
  next
    case other
    then have "read_member targetKey k v h = h\<lparr>completedFields := set_field k (take MAX_TRACKED_FIELD_LENGTH t) (completedFields h),
        trackedKey := None, trackedValue := []\<rparr>"
      by (simp add: read_member_def v field_begin_def isTopLevelKey_def fold_append_tracked field_end_def)
    then show ?thesis using assms other v by (auto simp: has_read_def map_of_set_member set_field_def)
  qed
qed

lemma members_read:
  assumes "parse_members num f es0 s = Some (JObj es, r)" "at_rest l" "expectKey l" "frames l = [ObjectFrame k0]"
    "has_read targetKey es0 (host l)"
  shows "\<exists>l'. lexer_push (field_handlers targetKey) s l = lexer_push (field_handlers targetKey) r l' \<and> at_rest l' \<and>
    has_read targetKey es (host l')"
  using assms
proof (induction f arbitrary: es0 s l k0)
  case (Suc f)
  let ?H = "field_handlers targetKey"
  obtain r0 k r1 r2 v1 r3 d r4 where q: "skip_space s = 34 # r0" "parse_chars r0 = Some (k, r1)"
    "skip_space r1 = 58 # r2" "parse_value num f r2 = Some (v1, r3)" "skip_space r3 = d # r4"
    "(d = 125 \<and> r = r4 \<and> es = set_member k v1 es0) \<or>
     (d = 44 \<and> parse_members num f (set_member k v1 es0) r4 = Some (JObj es, r))"
    using Suc.prems(1) by (auto split: option.splits list.splits if_splits)
  let ?k = "l\<lparr>frames := [ObjectFrame (Some k)], expectKey := False, stringIsKey := True\<rparr>"
  have "lexer_push ?H s l = lexer_push ?H r1 ?k"
    using push_space [OF Suc.prems(2), of ?H s] q(1) push_key [OF q(2) Suc.prems(2,3), of ?H] Suc.prems(4) by simp
  also have "\<dots> = lexer_push ?H r2 ?k"
    using push_space [of ?k ?H r1] Suc.prems(2) q(3) push_structural(5) [of ?k ?H r2] by simp
  also have "\<exists>b. \<dots> = lexer_push ?H r3 (?k\<lparr>stringIsKey := b, host := read_member targetKey k v1 (host l)\<rparr>)"
    using push_member_value [OF q(4), of ?k k targetKey] Suc.prems(2) by simp
  finally obtain b where b: "lexer_push ?H s l =
      lexer_push ?H r3 (?k\<lparr>stringIsKey := b, host := read_member targetKey k v1 (host l)\<rparr>)" by blast
  let ?l = "?k\<lparr>stringIsKey := b, host := read_member targetKey k v1 (host l)\<rparr>"
  have rest: "at_rest ?l" using Suc.prems(2) by simp
  have host: "has_read targetKey (set_member k v1 es0) (host ?l)" using has_read_member Suc.prems(5) by simp
  have space: "lexer_push ?H s l = lexer_push ?H (d # r4) ?l"
    using b push_space [OF rest, of ?H r3] q(5) by simp
  from q(6) show ?case
  proof
    assume d: "d = 125 \<and> r = r4 \<and> es = set_member k v1 es0"
    then have "lexer_push ?H s l = lexer_push ?H r (?l\<lparr>frames := [], expectKey := False\<rparr>)"
      using space push_structural(4) [OF rest, of ?H r4] by simp
    with d host rest show ?thesis by (intro exI [of _ "?l\<lparr>frames := [], expectKey := False\<rparr>"]) simp
  next
    assume d: "d = 44 \<and> parse_members num f (set_member k v1 es0) r4 = Some (JObj es, r)"
    let ?m = "?l\<lparr>expectKey := True, frames := [ObjectFrame None]\<rparr>"
    have "lexer_push ?H s l = lexer_push ?H r4 ?m"
      using space d push_structural(7) [OF rest, of ?H r4] by simp
    moreover have "\<exists>l'. lexer_push ?H r4 ?m = lexer_push ?H r l' \<and> at_rest l' \<and> has_read targetKey es (host l')"
      using d Suc.prems(2) host by (intro Suc.IH [of "set_member k v1 es0"]) simp_all
    ultimately show ?thesis by simp
  qed
qed simp

lemma scanner_initial:
  "at_rest createPartialJsonScanner" "frames createPartialJsonScanner = []"
  "has_read targetKey [] (host createPartialJsonScanner)"
  by (simp_all add: createPartialJsonScanner_def createJsonLexer_def at_rest_def has_read_def)

lemma whole_text_read:
  assumes "json_parse num s = Some (JObj es)"
  shows "has_read targetKey es (host (lexer_push (field_handlers targetKey) s createPartialJsonScanner))"
proof -
  let ?H = "field_handlers targetKey" and ?i = createPartialJsonScanner
  obtain r where r: "parse_value num (Suc (2 * length s + 1)) s = Some (JObj es, r)" "skip_space r = []"
    using assms by (auto simp: json_parse_def split: option.splits if_splits)
  obtain c q where cq: "skip_space s = c # q" using r(1) by (auto split: list.splits)
  have c: "c = 123" using object_value_start [OF r(1) cq] .
  let ?l = "?i\<lparr>frames := [ObjectFrame None], expectKey := True\<rparr>"
  have start: "lexer_push ?H s ?i = lexer_push ?H q ?l"
    using push_space [OF scanner_initial(1), of ?H s] cq c push_structural(2) [OF scanner_initial(1), of ?H q]
    by (simp add: scanner_initial(2))
  obtain d q' where dq: "skip_space q = d # q'" using r(1) cq c by (auto split: list.splits)
  have "\<exists>l'. lexer_push ?H q ?l = lexer_push ?H r l' \<and> at_rest l' \<and> has_read targetKey es (host l')"
  proof (cases "d = 125")
    case True
    then have e: "es = []" "r = q'" using r(1) cq c dq by simp_all
    moreover have "lexer_push ?H q ?l = lexer_push ?H q' (?i\<lparr>frames := [], expectKey := False\<rparr>)"
      using push_space [of ?l ?H q] push_structural(4) [of ?l ?H q'] scanner_initial(1) dq True by simp
    ultimately show ?thesis using scanner_initial(1) scanner_initial(3) [of targetKey]
      by (intro exI [of _ "?i\<lparr>frames := [], expectKey := False\<rparr>"]) simp
  next
    case False
    then have m: "parse_members num (2 * length s + 1) [] q = Some (JObj es, r)" using r(1) cq c dq by simp
    show ?thesis using members_read [OF m, of ?l None targetKey] scanner_initial(1) scanner_initial(3) [of targetKey] by simp
  qed
  then obtain l' where "lexer_push ?H s ?i = lexer_push ?H r l'" "at_rest l'" "has_read targetKey es (host l')"
    using start by auto
  then show ?thesis using push_space [of l' ?H r] r(2) by simp
qed

text \<open>Fragments in order.\<close>

definition read_fragments :: "jsstring \<Rightarrow> jsstring list \<Rightarrow> field_scan lexer" where
  "read_fragments targetKey cs = fold (scanner_push targetKey) cs createPartialJsonScanner"

lemma scanner_push_extends: "field_extends (host l) (host (scanner_push targetKey c l))"
  using field_reader.extends_refl by (simp add: scanner_push_def field_reader.push_extends)

lemma read_fragments_extends:
  "field_extends (host (read_fragments targetKey a)) (host (read_fragments targetKey (a @ b)))"
proof (induction b rule: rev_induct)
  case (snoc c b)
  then show ?case using scanner_push_extends [of "read_fragments targetKey (a @ b)" targetKey c]
    by (simp add: read_fragments_def) (rule field_reader.extends_trans)
qed (simp add: field_reader.extends_refl)

lemma read_fragments_concat:
  "failure (host (read_fragments targetKey cs)) = None \<Longrightarrow>
     read_fragments targetKey cs = lexer_push (field_handlers targetKey) (concat cs) createPartialJsonScanner"
proof (induction cs rule: rev_induct)
  case (snoc c cs)
  have "failure (host (read_fragments targetKey cs)) = None"
    using read_fragments_extends [of targetKey cs "[c]"] snoc.prems by (auto simp: field_extends_def)
  with snoc.IH show ?case by (simp add: read_fragments_def scanner_push_def lexer_push_append)
qed (simp add: read_fragments_def)

text \<open>C29: The reader of one streamed field agrees with \<open>JSON.parse\<close>, however the text is cut into
  fragments: when the whole text parses to an object whose target member is a string and the
  reader reports no error, what it has published is that string (less a high surrogate at its very
  end), the field is complete, every earlier publication is a prefix of the string, and every
  other string member is recorded, cut at the tracked length.\<close>

theorem streamed_field_is_parsed_field:
  assumes "json_parse num (concat cs) = Some (JObj es)" "map_of es targetKey = Some (JStr t)"
    "failure (host (read_fragments targetKey cs)) = None"
  shows "committed (read_fragments targetKey cs) = committedPrefix t \<and>
    complete (host (read_fragments targetKey cs)) \<and>
    (\<forall>i. prefix (committed (read_fragments targetKey (take i cs))) t) \<and>
    (\<forall>k v. k \<noteq> targetKey \<and> k \<noteq> PROTO \<and> map_of es k = Some (JStr v) \<longrightarrow>
       completedFields (host (read_fragments targetKey cs)) k = Some (take MAX_TRACKED_FIELD_LENGTH v))"
proof -
  let ?h = "host (read_fragments targetKey cs)"
  have h: "has_read targetKey es ?h"
    using whole_text_read [OF assms(1)] read_fragments_concat [OF assms(3)] by simp
  then have raw: "rawText ?h = t" "complete ?h" using assms(2,3) by (auto simp: has_read_def)
  have "prefix (committed (read_fragments targetKey (take i cs))) t" for i
    using read_fragments_extends [of targetKey "take i cs" "drop i cs"] raw(1) committedPrefix_prefix
    by (auto simp: committed_def field_extends_def intro: prefix_order.trans)
  then show ?thesis using h raw assms(3) by (simp add: has_read_def committed_def)
qed

lemma streamed_field_is_parsed_field_witness:
  "committed (read_fragments (js ''m'') [js ''{'' @ [34, 109], [34] @ js '':'' @ [34, 104], js ''i'' @ [34] @ js ''}'']) =
     committedPrefix (js ''hi'')"
proof -
  let ?cs = "[js ''{'' @ [34, 109], [34] @ js '':'' @ [34, 104], js ''i'' @ [34] @ js ''}'']"
  have "json_parse (\<lambda>t. t) (concat ?cs) = Some (JObj [(js ''m'', JStr (js ''hi''))])" by code_simp
  moreover have "map_of [(js ''m'', JStr (js ''hi''))] (js ''m'') = Some (JStr (js ''hi''))" by simp
  moreover have "failure (host (read_fragments (js ''m'') ?cs)) = None" by code_simp
  ultimately show ?thesis by (rule streamed_field_is_parsed_field [THEN conjunct1])
qed

text \<open>What the two readers publish only ever grows, whatever the fragments are: the text of
  the field is a prefix of its later text, and each edit stays in its place, its replacement text a
  prefix of the later one, its anchor and its completion never taken back.\<close>

theorem published_text_only_grows:
  "prefix (committed l) (committed (scanner_push targetKey c l)) \<and>
   list_all2 (\<lambda>e e'. prefix (pe_replace e) (pe_replace e') \<and> (pe_find e' = None) \<le> (pe_find e = None) \<and>
       pe_complete e \<le> pe_complete e')
     (edits m) (take (length (edits m)) (edits (edit_scanner_push c m)))"
proof
  show "prefix (committed l) (committed (scanner_push targetKey c l))"
    using scanner_push_extends [of l targetKey c]
    by (simp add: committed_def field_extends_def committedPrefix_mono)
next
  have "edits_extend (host m) (host (edit_scanner_push c m))"
    by (simp add: edit_scanner_push_def edit_reader.push_extends edit_reader.extends_refl)
  then have "list_all2 edit_grows (edit_states (host m))
      (take (length (edit_states (host m))) (edit_states (host (edit_scanner_push c m))))"
    by (simp add: edits_extend_def)
  then show "list_all2 (\<lambda>e e'. prefix (pe_replace e) (pe_replace e') \<and> (pe_find e' = None) \<le> (pe_find e = None) \<and>
       pe_complete e \<le> pe_complete e') (edits m) (take (length (edits m)) (edits (edit_scanner_push c m)))"
    by (simp add: edits_def take_map list_all2_map1 list_all2_map2)
      (erule list_all2_mono, auto simp: edit_grows_def committedPrefix_mono)
qed

text \<open>Duplicate keys get past both readers, though the parser keeps the last one: two
  \<open>replace\<close> members of one edit are published joined, and a target field written again as a
  number is published as the string it was first.\<close>

theorem duplicate_keys_are_published:
  "let text = js ''{'' @ [34] @ js ''edits'' @ [34] @ js '':[{'' @ [34] @ js ''replace'' @ [34] @ js '':'' @ [34] @ js ''a''
        @ [34] @ js '','' @ [34] @ js ''replace'' @ [34] @ js '':'' @ [34] @ js ''b'' @ [34] @ js ''}]}'';
       l = edit_scanner_push text createPartialJsonEditScanner;
       again = js ''{'' @ [34] @ js ''m'' @ [34] @ js '':'' @ [34] @ js ''x'' @ [34] @ js '','' @ [34] @ js ''m'' @ [34] @ js '':5}'';
       f = scanner_push (js ''m'') again createPartialJsonScanner
   in edits l = [\<lparr>pe_find = None, pe_replace = js ''ab'', pe_complete = True\<rparr>] \<and> editFailure (host l) = None \<and>
      json_parse (\<lambda>t. t) text = Some (JObj [(js ''edits'', JArr [JObj [(js ''replace'', JStr (js ''b''))]])]) \<and>
      committed f = js ''x'' \<and> complete (host f) \<and> failure (host f) = None \<and>
      json_parse (\<lambda>t. t) again = Some (JObj [(js ''m'', JNum (js ''5''))])"
  unfolding Let_def by (intro conjI; code_simp)

end
