(* ===== verification/AgentContext.thy ===== *)
theory AgentContext
  imports ToolPolicy RunBudget
begin

text \<open>
  The transcript of a run and its room in the model's window
  (\<open>worker/src/run/context-management.ts\<close>, \<open>worker/src/run/context-window.ts\<close>, and
  \<open>restoreCompactionGovernor\<close> of \<open>worker/src/run/loop-resume.ts\<close>): token estimates, closed groups
  of messages, the emergency trim, the window of a model, the context plan and the governor that
  rations compactions.

  Messages are the variants of \<open>ProviderMessage\<close> (\<open>packages/runtime/src/inference/types.ts\<close>), with
  the tool-images turn of \<open>tool-images.ts\<close> as a variant of its own.  The fractions of a window are
  taken exactly: for the integers they are applied to, the rounded double product has the same floor.
\<close>

section \<open>Messages\<close>

record tool_call =
  toolCallId :: jsstring
  tc_toolName :: jsstring
  tc_arguments :: json

datatype provider_message =
    SystemMessage jsstring
  | UserMessage jsstring "jsstring list option"
  | ToolImagesMessage jsstring "jsstring list"
  | AssistantMessage "jsstring option" "tool_call list option" "jsstring option"
  | ToolMessage jsstring jsstring

fun is_system :: "provider_message \<Rightarrow> bool" where
  "is_system (SystemMessage _) = True"
| "is_system _ = False"

fun isToolImagesMessage :: "provider_message \<Rightarrow> bool" where
  "isToolImagesMessage (ToolImagesMessage _ _) = True"
| "isToolImagesMessage _ = False"

definition TOOL_IMAGE_TURNS_SHOWN :: nat where "TOOL_IMAGE_TURNS_SHOWN = 2"

definition IMAGE_TOKEN_ESTIMATE :: nat where "IMAGE_TOKEN_ESTIMATE = 1500"

definition TOOL_IMAGE_TOKEN_ESTIMATE :: nat where "TOOL_IMAGE_TOKEN_ESTIMATE = 2300"

section \<open>Estimates\<close>

definition estimateTokens :: "'a list \<Rightarrow> nat" where
  "estimateTokens t = (length t + 3) div 4"

definition estimateToolSchemaTokens :: "tool_descriptor list \<Rightarrow> nat" where
  "estimateToolSchemaTokens tools = foldl (\<lambda>sum tool. sum
     + estimateTokens (toolName tool @ js '': '' @ d_description tool @ [32] @ json_text (inputSchema tool))) 0 tools"

definition tool_call_json :: "tool_call \<Rightarrow> json" where
  "tool_call_json tc = JObj [(js ''toolCallId'', JStr (toolCallId tc)), (js ''toolName'', JStr (tc_toolName tc)),
     (js ''arguments'', tc_arguments tc)]"

fun message_content :: "provider_message \<Rightarrow> jsstring" where
  "message_content (SystemMessage c) = c"
| "message_content (UserMessage c _) = c"
| "message_content (ToolImagesMessage c _) = c"
| "message_content (ToolMessage c _) = c"
| "message_content (AssistantMessage c calls _) = (case c of None \<Rightarrow> [] | Some t \<Rightarrow> t)
     @ (case calls of None \<Rightarrow> [] | Some tcs \<Rightarrow> concat (map (\<lambda>tc. json_text (tool_call_json tc)) tcs))"

fun image_tokens :: "provider_message \<Rightarrow> bool \<Rightarrow> nat" where
  "image_tokens (UserMessage _ (Some images)) shown = length images * IMAGE_TOKEN_ESTIMATE"
| "image_tokens (ToolImagesMessage _ images) shown = (if shown then length images * TOOL_IMAGE_TOKEN_ESTIMATE else 0)"
| "image_tokens _ shown = 0"

definition estimateMessageTokens :: "provider_message \<Rightarrow> bool \<Rightarrow> nat" where
  "estimateMessageTokens msg toolImagesShown =
     estimateTokens (message_content msg) + image_tokens msg toolImagesShown + 4"

text \<open>The newest tool-images turns are shown.  The code holds them in a set of message objects; here
  a message is shown when fewer than \<open>TOOL_IMAGE_TURNS_SHOWN\<close> such turns follow it.\<close>

fun shownToolImageTurns :: "provider_message list \<Rightarrow> bool list" where
  "shownToolImageTurns [] = []"
| "shownToolImageTurns (m # ms) =
     (isToolImagesMessage m \<and> length (filter isToolImagesMessage ms) < TOOL_IMAGE_TURNS_SHOWN) # shownToolImageTurns ms"

definition estimateMessagesTokens :: "provider_message list \<Rightarrow> nat" where
  "estimateMessagesTokens ms = sum_list (map2 estimateMessageTokens ms (shownToolImageTurns ms))"

definition estimateShownToolImageTokens :: "provider_message list \<Rightarrow> nat" where
  "estimateShownToolImageTokens ms = sum_list (map2 (\<lambda>m shown.
     (case m of ToolImagesMessage _ images \<Rightarrow> if shown then length images * TOOL_IMAGE_TOKEN_ESTIMATE else 0 | _ \<Rightarrow> 0))
     ms (shownToolImageTurns ms))"

section \<open>Groups and the emergency trim\<close>

fun answers_one_of :: "tool_call list \<Rightarrow> provider_message \<Rightarrow> bool" where
  "answers_one_of tcs (ToolMessage _ i) = (i \<in> set (map toolCallId tcs))"
| "answers_one_of tcs _ = False"

fun requested_calls :: "provider_message \<Rightarrow> tool_call list" where
  "requested_calls (AssistantMessage _ (Some tcs) _) = tcs"
| "requested_calls _ = []"

function groupMessages :: "provider_message list \<Rightarrow> provider_message list list" where
  "groupMessages [] = []"
| "groupMessages (m # ms) =
     (if requested_calls m = [] then [m] # groupMessages ms
      else (let results = takeWhile (answers_one_of (requested_calls m)) ms;
                rest = dropWhile (answers_one_of (requested_calls m)) ms
            in case rest of
                 i # rest' \<Rightarrow>
                   if results \<noteq> [] \<and> isToolImagesMessage i then (m # results @ [i]) # groupMessages rest'
                   else (m # results) # groupMessages rest
               | [] \<Rightarrow> [m # results]))"
  by pat_completeness auto
termination
proof (relation "measure length")
  fix m :: provider_message and ms x xa x21 x22
  assume a: "xa = dropWhile (answers_one_of (requested_calls m)) ms" "xa = x21 # x22"
  have "length (dropWhile (answers_one_of (requested_calls m)) ms) \<le> length ms" by (rule length_dropWhile_le)
  then have "length xa \<le> length ms" "length (x21 # x22) \<le> length ms" using a by (metis, metis)
  then show "(x22, m # ms) \<in> measure length" "(xa, m # ms) \<in> measure length" by simp_all
qed simp_all

definition group_tokens :: "provider_message list \<Rightarrow> nat" where
  "group_tokens g = sum_list (map (\<lambda>m. estimateMessageTokens m True) g)"

fun keep_recent :: "int \<Rightarrow> nat \<Rightarrow> provider_message list list \<Rightarrow> provider_message list list" where
  "keep_recent budget used [] = []"
| "keep_recent budget used (g # gs) =
     (if int (used + group_tokens g) > budget then []
      else g # keep_recent budget (used + group_tokens g) gs)"

definition trimConversationToFit :: "provider_message list \<Rightarrow> int \<Rightarrow> int \<Rightarrow> provider_message list" where
  "trimConversationToFit messages most schemaTokens =
     (let effectiveBudget = most - schemaTokens
      in if int (estimateMessagesTokens messages) \<le> effectiveBudget then messages
         else (let groups = groupMessages messages;
                   systemGroups = filter (\<lambda>g. is_system (hd g)) groups;
                   nonSystemGroups = filter (\<lambda>g. \<not> is_system (hd g)) groups;
                   budget = effectiveBudget - int (group_tokens (concat systemGroups))
               in concat systemGroups @ concat (rev (keep_recent budget 0 (rev nonSystemGroups)))))"

section \<open>Windows and plans\<close>

definition DEFAULT_CONTEXT_WINDOW_TOKENS :: int where "DEFAULT_CONTEXT_WINDOW_TOKENS = 100000"

definition CONTEXT_ESTIMATE_SAFETY_FACTOR :: rat where "CONTEXT_ESTIMATE_SAFETY_FACTOR = 85 / 100"

definition COMPACTION_TRIGGER_FRACTION :: rat where "COMPACTION_TRIGGER_FRACTION = 8 / 10"

definition COMPACTION_TARGET_FRACTION :: rat where "COMPACTION_TARGET_FRACTION = 6 / 10"

definition KNOWN_MODEL_WINDOWS :: "(jsstring \<times> int) list" where
  "KNOWN_MODEL_WINDOWS = [(js ''gpt-4.1'', 1000000), (js ''gpt-4o'', 128000), (js ''gpt-5'', 400000),
     (js ''o1'', 200000), (js ''o3'', 200000), (js ''o4'', 200000), (js ''claude'', 200000),
     (js ''deepseek'', 128000), (js ''kimi'', 128000), (js ''minimax'', 128000)]"

fun longest_prefix :: "jsstring \<Rightarrow> (jsstring \<times> int) list \<Rightarrow> (jsstring \<times> int) option \<Rightarrow> (jsstring \<times> int) option" where
  "longest_prefix model [] best = best"
| "longest_prefix model ((p, w) # ws) best =
     (if \<not> starts_with model p then longest_prefix model ws best
      else longest_prefix model ws
        (case best of None \<Rightarrow> Some (p, w)
         | Some (bp, bw) \<Rightarrow> if length p > length bp then Some (p, w) else Some (bp, bw)))"

definition contextWindowForModel :: "(jsstring \<Rightarrow> jsstring) \<Rightarrow> jsstring option \<Rightarrow> int" where
  "contextWindowForModel lower model =
     (let normalized = (case model of None \<Rightarrow> [] | Some m \<Rightarrow> lower (js_trim m))
      in if normalized = [] then DEFAULT_CONTEXT_WINDOW_TOKENS
         else (case longest_prefix normalized KNOWN_MODEL_WINDOWS None of
                 None \<Rightarrow> DEFAULT_CONTEXT_WINDOW_TOKENS | Some (p, w) \<Rightarrow> w))"

record context_plan =
  availableTokens :: int
  triggerTokens :: int
  targetTokens :: int

definition buildContextPlan :: "(jsstring \<Rightarrow> jsstring) \<Rightarrow> jsstring option \<Rightarrow> int \<Rightarrow> context_plan" where
  "buildContextPlan lower model toolSchemaTokens =
     (let window = \<lfloor>of_int (contextWindowForModel lower model) * CONTEXT_ESTIMATE_SAFETY_FACTOR\<rfloor>;
          available = max \<lfloor>of_int window * (25 / 100 :: rat)\<rfloor> (window - toolSchemaTokens)
      in \<lparr>availableTokens = available,
          triggerTokens = \<lfloor>of_int available * COMPACTION_TRIGGER_FRACTION\<rfloor>,
          targetTokens = \<lfloor>of_int available * COMPACTION_TARGET_FRACTION\<rfloor>\<rparr>)"

section \<open>The compaction governor\<close>

definition COMPACTION_ITERATION_COOLDOWN :: int where "COMPACTION_ITERATION_COOLDOWN = 2"

definition MAX_COMPACTIONS_PER_RUN :: nat where "MAX_COMPACTIONS_PER_RUN = 6"

text \<open>\<open>None\<close> is the initial \<open>-Infinity\<close>.\<close>

record governor =
  attempts :: nat
  lastAttemptIteration :: "int option"

definition createCompactionGovernor :: governor where
  "createCompactionGovernor = \<lparr>attempts = 0, lastAttemptIteration = None\<rparr>"

definition recordAttempt :: "int \<Rightarrow> governor \<Rightarrow> governor" where
  "recordAttempt iteration g = \<lparr>attempts = attempts g + 1, lastAttemptIteration = Some iteration\<rparr>"

definition shouldAttempt :: "context_plan \<Rightarrow> int \<Rightarrow> int \<Rightarrow> governor \<Rightarrow> bool" where
  "shouldAttempt plan iteration transcriptTokens g \<longleftrightarrow>
     transcriptTokens > triggerTokens plan \<and> attempts g < MAX_COMPACTIONS_PER_RUN \<and>
     (case lastAttemptIteration g of None \<Rightarrow> True | Some i \<Rightarrow> iteration - i \<ge> COMPACTION_ITERATION_COOLDOWN)"

definition restoreCompactionGovernor :: "nat \<Rightarrow> int option \<Rightarrow> governor \<Rightarrow> governor" where
  "restoreCompactionGovernor n i g = ((recordAttempt (case i of None \<Rightarrow> 0 | Some k \<Rightarrow> k)) ^^ n) g"

section \<open>The trim keeps the newest whole groups\<close>

text \<open>A system message is a group of its own.\<close>

definition group_ok :: "provider_message list \<Rightarrow> bool" where
  "group_ok g \<longleftrightarrow> g \<noteq> [] \<and> (if is_system (hd g) then g = [hd g] else list_all (\<lambda>m. \<not> is_system m) g)"

lemma answers_not_system: "answers_one_of tcs m \<Longrightarrow> \<not> is_system m"
  by (cases m) simp_all

lemma images_not_system: "isToolImagesMessage m \<Longrightarrow> \<not> is_system m"
  by (cases m) simp_all

lemma requests_not_system: "requested_calls m \<noteq> [] \<Longrightarrow> \<not> is_system m"
  by (cases m) simp_all

lemma answers_group_ok:
  assumes "requested_calls m \<noteq> []"
  shows "group_ok (m # takeWhile (answers_one_of (requested_calls m)) ms)"
    "isToolImagesMessage i \<Longrightarrow> group_ok (m # takeWhile (answers_one_of (requested_calls m)) ms @ [i])"
  using requests_not_system [OF assms] images_not_system [of i]
  by (auto simp: group_ok_def list_all_iff dest!: set_takeWhileD answers_not_system)

text \<open>
  What a closed group is, said without the grouping: a message, with the messages behind
  it that answer its tool calls and, behind at least one answer, the tool-images turn.  The message at
  position \<open>k\<close> belongs to the request at \<open>j\<close> when only its answers lie between and it is an answer
  itself or the images turn; a cut at position \<open>p\<close> parts them when \<open>j\<close> is left of it and \<open>k\<close> is not.
\<close>

fun is_answer :: "provider_message \<Rightarrow> provider_message \<Rightarrow> bool" where
  "is_answer (AssistantMessage _ (Some tcs) _) (ToolMessage _ i) = list_ex (\<lambda>tc. toolCallId tc = i) tcs"
| "is_answer _ _ = False"

fun closed_group :: "provider_message list \<Rightarrow> bool" where
  "closed_group [] = False"
| "closed_group (m # ms) =
     (list_all (is_answer m) ms \<or>
       (list_all (is_answer m) (butlast ms) \<and> butlast ms \<noteq> [] \<and> isToolImagesMessage (List.last ms)))"

definition belongs :: "provider_message list \<Rightarrow> nat \<Rightarrow> nat \<Rightarrow> bool" where
  "belongs ms j k \<longleftrightarrow> j < k \<and> k < length ms \<and> (\<forall>i \<in> {j<..<k}. is_answer (ms ! j) (ms ! i)) \<and>
     (is_answer (ms ! j) (ms ! k) \<or> Suc j < k \<and> isToolImagesMessage (ms ! k))"

definition parted_by :: "provider_message list \<Rightarrow> nat \<Rightarrow> bool" where
  "parted_by ms p \<longleftrightarrow> (\<exists>j < p. \<exists>k \<in> {p..<length ms}. belongs ms j k)"

lemma is_answer_iff: "is_answer m x \<longleftrightarrow> answers_one_of (requested_calls m) x"
proof -
  have "\<not> answers_one_of [] x" by (cases x) simp_all
  then show ?thesis by (cases "(m, x)" rule: is_answer.cases) (auto simp: list_ex_iff)
qed

lemma answered_requests: "is_answer m x \<Longrightarrow> requested_calls m \<noteq> []"
  by (cases "(m, x)" rule: is_answer.cases) auto

lemma belongs_requests: "belongs ms j k \<Longrightarrow> requested_calls (ms ! j) \<noteq> []"
  using answered_requests by (force simp: belongs_def)

lemma answers_request_nothing: "answers_one_of tcs m \<Longrightarrow> requested_calls m = []"
  by (cases m) simp_all

lemma images_request_nothing: "isToolImagesMessage m \<Longrightarrow> requested_calls m = []"
  by (cases m) simp_all

lemma images_answer_nothing: "isToolImagesMessage m \<Longrightarrow> \<not> answers_one_of tcs m"
  by (cases m) simp_all

text \<open>Behind a request, its run of answers and the images turn, the next message belongs to none of
  them.\<close>

lemma not_parted_behind:
  assumes tail: "\<forall>x \<in> set g. requested_calls x = []" and ms: "ms = m # g @ rest"
    and stop: "requested_calls m = [] \<or> rest = [] \<or> (\<exists>i \<in> set g. \<not> answers_one_of (requested_calls m) i) \<or>
      (\<not> answers_one_of (requested_calls m) (hd rest) \<and> (g = [] \<or> \<not> isToolImagesMessage (hd rest)))"
  shows "\<not> parted_by ms (Suc (length g))"
proof
  assume "parted_by ms (Suc (length g))"
  then obtain j k where jk: "j \<le> length g" "length g < k" "belongs ms j k"
    by (auto simp: parted_by_def Suc_le_eq less_Suc_eq_le)
  have j: "j = 0"
  proof (rule ccontr)
    assume "j \<noteq> 0"
    then have "ms ! j \<in> set g" using jk(1) ms by (auto simp: nth_append nth_Cons')
    then show False using tail belongs_requests [OF jk(3)] by simp
  qed
  then have m: "requested_calls m \<noteq> []" and k: "k < length ms"
    and answers: "\<And>i. 0 < i \<Longrightarrow> i < k \<Longrightarrow> answers_one_of (requested_calls m) (ms ! i)"
    and last_one: "answers_one_of (requested_calls m) (ms ! k) \<or> 1 < k \<and> isToolImagesMessage (ms ! k)"
    using jk(3) belongs_requests [OF jk(3)] ms by (auto simp: belongs_def is_answer_iff)
  have "rest \<noteq> []" using k jk(2) ms by auto
  have "answers_one_of (requested_calls m) x" if x: "x \<in> set g" for x
  proof -
    obtain i where "i < length g" "x = g ! i" using x by (metis in_set_conv_nth)
    then show ?thesis using answers [of "Suc i"] jk(2) ms by (simp add: nth_append)
  qed
  then have stop': "\<not> answers_one_of (requested_calls m) (hd rest)" "g = [] \<or> \<not> isToolImagesMessage (hd rest)"
    using stop m \<open>rest \<noteq> []\<close> by blast+
  have hd: "ms ! Suc (length g) = hd rest" using ms \<open>rest \<noteq> []\<close> by (simp add: nth_append hd_conv_nth)
  show False
  proof (cases "k = Suc (length g)")
    case True
    then show ?thesis using last_one stop' hd by auto
  next
    case False
    then show ?thesis using answers [of "Suc (length g)"] jk(2) stop'(1) hd by simp
  qed
qed

lemma groups_step:
  "\<exists>g rest. m # ms = g @ rest \<and> group_ok g \<and> closed_group g \<and> \<not> parted_by (m # ms) (length g) \<and>
     length rest \<le> length ms \<and> groupMessages (m # ms) = g # groupMessages rest"
proof (cases "requested_calls m = []")
  case True
  then have "\<not> parted_by (m # ms) (Suc 0)" using not_parted_behind [of "[]" "m # ms" m ms] by simp
  then show ?thesis using True by (intro exI [of _ "[m]"] exI [of _ ms]) (simp add: group_ok_def)
next
  case False
  define rs where "rs = takeWhile (answers_one_of (requested_calls m)) ms"
  define rest where "rest = dropWhile (answers_one_of (requested_calls m)) ms"
  have ms: "ms = rs @ rest" by (simp add: rs_def rest_def)
  have ok: "group_ok (m # rs)" "\<And>i. isToolImagesMessage i \<Longrightarrow> group_ok (m # rs @ [i])"
    using answers_group_ok [OF False] by (simp_all add: rs_def)
  have answer: "answers_one_of (requested_calls m) x" if "x \<in> set rs" for x
    using that by (auto simp: rs_def dest: set_takeWhileD)
  have quiet: "\<forall>x \<in> set rs. requested_calls x = []" using answer answers_request_nothing by blast
  have stop: "rest = [] \<or> \<not> answers_one_of (requested_calls m) (hd rest)"
    using hd_dropWhile [of "answers_one_of (requested_calls m)" ms] by (auto simp: rest_def)
  have step: "groupMessages (m # ms) = (case rest of
      i # rest' \<Rightarrow> if rs \<noteq> [] \<and> isToolImagesMessage i then (m # rs @ [i]) # groupMessages rest'
        else (m # rs) # groupMessages rest | [] \<Rightarrow> [m # rs])"
    using False by (simp only: groupMessages.simps(2) Let_def if_False rs_def [symmetric] rest_def [symmetric])
  consider i rest' where "rest = i # rest'" "rs \<noteq> []" "isToolImagesMessage i"
    | "groupMessages (m # ms) = (m # rs) # groupMessages rest" "rest = [] \<or> rs = [] \<or> \<not> isToolImagesMessage (hd rest)"
    using step by (cases rest) (auto split: if_splits)
  then show ?thesis
  proof cases
    case (1 i rest')
    have "\<not> parted_by (m # ms) (Suc (length (rs @ [i])))"
      by (rule not_parted_behind [where rest = rest'])
        (use 1 ms quiet images_request_nothing images_answer_nothing in auto)
    moreover have "closed_group (m # rs @ [i])" using answer 1 by (simp add: list_all_iff is_answer_iff)
    ultimately show ?thesis using 1 ms step ok(2) [of i]
      by (intro exI [of _ "m # rs @ [i]"] exI [of _ rest']) simp
  next
    case 2
    have "\<not> parted_by (m # ms) (Suc (length rs))"
      by (rule not_parted_behind [where rest = rest]) (use 2(2) ms quiet stop in auto)
    moreover have "closed_group (m # rs)" using answer by (simp add: list_all_iff is_answer_iff)
    ultimately show ?thesis using 2(1) ms ok(1) by (intro exI [of _ "m # rs"] exI [of _ rest]) simp
  qed
qed

lemma belongs_behind: "belongs (g @ rest) (length g + j) (length g + k) = belongs rest j k"
proof -
  have "(\<forall>i \<in> {length g + j<..<length g + k}. P ((g @ rest) ! i)) = (\<forall>i \<in> {j<..<k}. P (rest ! i))" for P
  proof -
    have "x \<in> (+) (length g) ` {j<..<k}" if "length g + j < x" "x < length g + k" for x
      using that by (intro image_eqI [of _ _ "x - length g"]) auto
    then have "{length g + j<..<length g + k} = (+) (length g) ` {j<..<k}" by auto
    then show ?thesis by simp
  qed
  then show ?thesis by (simp add: belongs_def)
qed

lemma parted_behind:
  assumes "\<not> parted_by (g @ rest) (length g)" "\<not> parted_by rest p"
  shows "\<not> parted_by (g @ rest) (length g + p)"
proof
  assume "parted_by (g @ rest) (length g + p)"
  then obtain j k where jk: "j < length g + p" "length g + p \<le> k" "k < length (g @ rest)" "belongs (g @ rest) j k"
    by (auto simp: parted_by_def)
  show False
  proof (cases "j < length g")
    case True
    then have "parted_by (g @ rest) (length g)" unfolding parted_by_def using jk
      by (intro exI [of _ j] conjI bexI [of _ k]) auto
    then show ?thesis using assms(1) by simp
  next
    case False
    define j' k' where "j' = j - length g" and "k' = k - length g"
    have eqs: "j = length g + j'" "k = length g + k'" using False jk by (simp_all add: j'_def k'_def)
    have "belongs rest j' k'" using jk(4) unfolding eqs belongs_behind .
    then have "parted_by rest p" unfolding parted_by_def using jk(1-3) unfolding eqs
      by (intro exI [of _ j'] conjI bexI [of _ k']) auto
    then show ?thesis using assms(2) by simp
  qed
qed

text \<open>A cut between two groups parts nothing.\<close>

lemma groups_part_nothing: "\<not> parted_by ms (length (concat (take n (groupMessages ms))))"
proof (induction ms arbitrary: n rule: length_induct)
  case (1 ms)
  have zero: "\<not> parted_by ms 0" by (simp add: parted_by_def)
  show ?case
  proof (cases ms)
    case Nil
    then show ?thesis using zero by simp
  next
    case (Cons m ms')
    obtain g rest where g: "m # ms' = g @ rest" "\<not> parted_by (m # ms') (length g)" "length rest \<le> length ms'"
        "groupMessages (m # ms') = g # groupMessages rest"
      using groups_step [of m ms'] by blast
    have "length rest < length ms" using g(3) Cons by simp
    then have "\<not> parted_by rest (length (concat (take k (groupMessages rest))))" for k using 1 by blast
    then show ?thesis using parted_behind [of g rest] g Cons zero by (cases n) simp_all
  qed
qed

lemma groups_all: "concat (groupMessages ms) = ms \<and> list_all group_ok (groupMessages ms) \<and>
    list_all closed_group (groupMessages ms)"
proof (induction ms rule: length_induct)
  case (1 ms)
  show ?case
  proof (cases ms)
    case (Cons m ms')
    obtain g rest where g: "m # ms' = g @ rest" "group_ok g" "closed_group g" "length rest \<le> length ms'"
        "groupMessages (m # ms') = g # groupMessages rest"
      using groups_step [of m ms'] by blast
    have "length rest < length ms" using g(4) Cons by simp
    then have "concat (groupMessages rest) = rest \<and> list_all group_ok (groupMessages rest) \<and>
        list_all closed_group (groupMessages rest)"
      using 1 by blast
    with g Cons show ?thesis by simp
  qed simp
qed

lemmas concat_groups = groups_all [THEN conjunct1]

lemmas groups_ok = groups_all [THEN conjunct2, THEN conjunct1]

lemmas groups_closed = groups_all [THEN conjunct2, THEN conjunct2]

lemma system_groups:
  "list_all group_ok gs \<Longrightarrow> concat (filter (\<lambda>g. is_system (hd g)) gs) = filter is_system (concat gs)"
proof (induction gs)
  case (Cons g gs)
  then have "filter is_system g = (if is_system (hd g) then g else [])"
    by (cases g) (auto simp: group_ok_def list_all_iff filter_empty_conv split: if_splits)
  with Cons show ?case by simp
qed simp

lemma other_groups:
  "list_all group_ok gs \<Longrightarrow> concat (filter (\<lambda>g. \<not> is_system (hd g)) gs) = filter (\<lambda>m. \<not> is_system m) (concat gs)"
proof (induction gs)
  case (Cons g gs)
  then have "filter (\<lambda>m. \<not> is_system m) g = (if is_system (hd g) then [] else g)"
    by (cases g) (auto simp: group_ok_def list_all_iff filter_id_conv split: if_splits)
  with Cons show ?case by simp
qed simp

text \<open>The newest groups without the system groups are the transcript from a cut between two groups
  on, without its system messages.\<close>

lemma kept_groups_drop:
  "list_all group_ok gs \<Longrightarrow> k \<le> length (filter (\<lambda>g. \<not> is_system (hd g)) gs) \<Longrightarrow>
   \<exists>n. concat (drop k (filter (\<lambda>g. \<not> is_system (hd g)) gs)) =
     filter (\<lambda>m. \<not> is_system m) (concat (drop n gs))"
proof (induction gs arbitrary: k)
  case Nil
  then show ?case by simp
next
  case (Cons g gs)
  show ?case
  proof (cases "k = 0")
    case True
    then show ?thesis using other_groups [OF Cons.prems(1)] by (intro exI [of _ 0]) simp
  next
    case False
    define k' where "k' = (if is_system (hd g) then k else k - 1)"
    have k': "drop k (filter (\<lambda>g. \<not> is_system (hd g)) (g # gs)) = drop k' (filter (\<lambda>g. \<not> is_system (hd g)) gs)"
      using False by (cases k) (simp_all add: k'_def)
    have "list_all group_ok gs" "k' \<le> length (filter (\<lambda>g. \<not> is_system (hd g)) gs)"
      using Cons.prems by (auto simp: k'_def)
    then obtain n where "concat (drop k' (filter (\<lambda>g. \<not> is_system (hd g)) gs)) =
        filter (\<lambda>m. \<not> is_system m) (concat (drop n gs))"
      using Cons.IH by blast
    then show ?thesis unfolding k' by (intro exI [of _ "Suc n"]) simp
  qed
qed

lemma trim_cut:
  assumes "k \<le> length (filter (\<lambda>g. \<not> is_system (hd g)) (groupMessages ms))"
  shows "\<exists>p. concat (drop k (filter (\<lambda>g. \<not> is_system (hd g)) (groupMessages ms))) =
    filter (\<lambda>m. \<not> is_system m) (drop p ms) \<and> \<not> parted_by ms p"
proof -
  obtain n where n: "concat (drop k (filter (\<lambda>g. \<not> is_system (hd g)) (groupMessages ms))) =
      filter (\<lambda>m. \<not> is_system m) (concat (drop n (groupMessages ms)))"
    using kept_groups_drop [OF groups_ok assms] by blast
  have "concat (take n (groupMessages ms)) @ concat (drop n (groupMessages ms)) = ms"
    by (simp add: concat_groups flip: concat_append)
  then have "drop (length (concat (take n (groupMessages ms)))) ms = concat (drop n (groupMessages ms))"
    by (metis append_eq_conv_conj)
  then show ?thesis using n groups_part_nothing by (intro exI [of _ "length (concat (take n (groupMessages ms)))"]) simp
qed

lemma group_tokens_simps [simp]:
  "group_tokens [] = 0" "group_tokens (x @ y) = group_tokens x + group_tokens y"
  by (simp_all add: group_tokens_def)

lemma keep_recent_take:
  "\<exists>k \<le> length gs. keep_recent budget used gs = take k gs \<and>
     (k = 0 \<or> int (used + group_tokens (concat (take k gs))) \<le> budget) \<and>
     (k = length gs \<or> int (used + group_tokens (concat (take (Suc k) gs))) > budget)"
proof (induction budget used gs rule: keep_recent.induct)
  case (2 budget used g gs)
  show ?case
  proof (cases "int (used + group_tokens g) > budget")
    case True
    then show ?thesis by (intro exI [of _ 0]) simp
  next
    case False
    with 2 obtain k where k: "k \<le> length gs" "keep_recent budget (used + group_tokens g) gs = take k gs"
      "k = 0 \<or> int (used + group_tokens g + group_tokens (concat (take k gs))) \<le> budget"
      "k = length gs \<or> int (used + group_tokens g + group_tokens (concat (take (Suc k) gs))) > budget" by blast
    have "keep_recent budget used (g # gs) = take (Suc k) (g # gs)" using k(2) False by simp
    moreover have "int (used + group_tokens (concat (take (Suc k) (g # gs)))) \<le> budget"
      using k(3) False by (auto simp: add.assoc)
    moreover have "Suc k = length (g # gs) \<or> int (used + group_tokens (concat (take (Suc (Suc k)) (g # gs)))) > budget"
      using k(4) by (auto simp: add.assoc)
    ultimately show ?thesis using k(1) by (intro exI [of _ "Suc k"]) simp
  qed
qed simp

lemma image_tokens_shown: "image_tokens m b \<le> image_tokens m True"
  by (cases "(m, b)" rule: image_tokens.cases) simp_all

lemma length_shown: "length (shownToolImageTurns ms) = length ms"
  by (induction ms) simp_all

lemma estimate_le_group: "estimateMessagesTokens ms \<le> group_tokens ms"
proof -
  have "sum_list (map2 estimateMessageTokens ms bs) \<le> group_tokens ms" if "length bs = length ms" for bs
    using that
  proof (induction ms bs rule: list_induct2')
    case (4 m ms b bs)
    then show ?case using image_tokens_shown [of m b]
      by (simp add: group_tokens_def estimateMessageTokens_def)
  qed (simp_all add: group_tokens_def)
  then show ?thesis by (simp add: estimateMessagesTokens_def length_shown)
qed

text \<open>C36: The emergency trim parts no tool result from its call.  The transcript is the sequence of
  its closed groups: a message that requests no tool, or a request with the answers behind it and
  their images turn.  A transcript that fits is returned as it is.  Otherwise every system message is
  kept, and the rest of the transcript from a cut on, where no message behind the cut belongs to a
  request before it; what is kept are exactly the newest groups that fit, and the result is estimated
  within the limit, or at what its system messages alone take.\<close>

theorem trim_keeps_newest_groups:
  "let r = trimConversationToFit ms most schemaTokens;
       others = filter (\<lambda>g. \<not> is_system (hd g)) (groupMessages ms);
       room = most - schemaTokens
   in concat (groupMessages ms) = ms \<and> list_all closed_group (groupMessages ms) \<and>
      (if int (estimateMessagesTokens ms) \<le> room then r = ms
       else \<exists>k \<le> length others. r = filter is_system ms @ concat (drop k others) \<and>
         (\<exists>p. concat (drop k others) = filter (\<lambda>m. \<not> is_system m) (drop p ms) \<and> \<not> parted_by ms p) \<and>
         int (estimateMessagesTokens r) \<le> max room (int (group_tokens (filter is_system ms))) \<and>
         (k = 0 \<or> int (group_tokens (filter is_system ms @ concat (drop (k - 1) others))) > room))"
proof (cases "int (estimateMessagesTokens ms) \<le> most - schemaTokens")
  case True
  then show ?thesis by (simp add: trimConversationToFit_def concat_groups groups_closed)
next
  case False
  define sys where "sys = filter is_system ms"
  define others where "others = filter (\<lambda>g. \<not> is_system (hd g)) (groupMessages ms)"
  define b where "b = most - schemaTokens - int (group_tokens sys)"
  have sys: "concat (filter (\<lambda>g. is_system (hd g)) (groupMessages ms)) = sys"
    by (simp add: sys_def system_groups [OF groups_ok] concat_groups)
  obtain j where j: "j \<le> length others" "keep_recent b 0 (rev others) = take j (rev others)"
    "j = 0 \<or> int (group_tokens (concat (take j (rev others)))) \<le> b"
    "j = length others \<or> int (group_tokens (concat (take (Suc j) (rev others)))) > b"
    using keep_recent_take [of "rev others" b 0] by auto
  define k where "k = length others - j"
  have gt: "group_tokens (concat (rev gs)) = group_tokens (concat gs)" for gs
    by (induction gs) (simp_all add: group_tokens_def)
  have kept: "rev (take j (rev others)) = drop k others" by (simp add: k_def rev_take)
  have r: "trimConversationToFit ms most schemaTokens = sys @ concat (drop k others)"
    using False kept j(2) by (simp add: trimConversationToFit_def Let_def sys b_def flip: others_def)
  have t: "take j (rev others) = rev (drop k others)" using kept by (metis rev_swap)
  have fits: "int (estimateMessagesTokens (sys @ concat (drop k others))) \<le> max (most - schemaTokens) (int (group_tokens sys))"
  proof (cases "j = 0")
    case True
    then show ?thesis using estimate_le_group [of sys] by (simp add: k_def)
  next
    case False
    then have "int (group_tokens (concat (drop k others))) \<le> b" using j(3) t gt by simp
    then show ?thesis using estimate_le_group [of "sys @ concat (drop k others)"] by (simp add: b_def)
  qed
  have newest: "k = 0 \<or> int (group_tokens (sys @ concat (drop (k - 1) others))) > most - schemaTokens"
  proof (cases "j = length others")
    case False
    then have "length others - (k - 1) = Suc j" using j(1) by (simp add: k_def)
    then have d: "take (Suc j) (rev others) = rev (drop (k - 1) others)" by (simp add: rev_drop)
    then show ?thesis using j(4) False gt [of "drop (k - 1) others"] by (auto simp: b_def)
  qed (simp add: k_def)
  have le: "k \<le> length others" by (simp add: k_def)
  note cut = trim_cut [OF le [unfolded others_def], folded others_def]
  have "\<exists>k \<le> length others. trimConversationToFit ms most schemaTokens = sys @ concat (drop k others) \<and>
      (\<exists>p. concat (drop k others) = filter (\<lambda>m. \<not> is_system m) (drop p ms) \<and> \<not> parted_by ms p) \<and>
      int (estimateMessagesTokens (trimConversationToFit ms most schemaTokens)) \<le> max (most - schemaTokens) (int (group_tokens sys)) \<and>
      (k = 0 \<or> int (group_tokens (sys @ concat (drop (k - 1) others))) > most - schemaTokens)"
    unfolding r by (rule exI [of _ k], rule conjI [OF le], rule conjI [OF refl], rule conjI [OF cut], rule conjI [OF fits],
      rule newest)
  then show ?thesis using False unfolding Let_def concat_groups sys_def others_def
    by (intro conjI) (rule refl, rule groups_closed, simp only: if_False)
qed

end
