(* ===== verification/RetryPolicy.thy ===== *)
theory RetryPolicy
  imports AgentContext
begin

text \<open>
  What a run does when the model provider fails (\<open>worker/src/run/error-classification.ts\<close>,
  \<open>worker/src/run/inference-retry.ts\<close>): the reason read off an error, the recovery for the reason,
  and the loop that calls the provider again.

  A thrown value is a record: its class, its message, and what the runtime's own readers
  (\<open>providerFailureDetails\<close>, \<open>isCreditsExhaustedError\<close>, \<open>isRequesterIdentityRefusal\<close>) answer for it.
  Lower-casing is an argument.  The provider is a function of the number of the attempt and the
  transcript that answers or throws; the waits are listed, not slept.
\<close>

section \<open>Reasons and their messages\<close>

datatype failover_reason =
    AuthFailure | AuthPermanentFailure | CredentialsMissingFailure | CredentialsScopeFailure
  | RateLimitFailure | CreditsExhaustedFailure | RequesterIdentityFailure | BillingFailure
  | ProviderForbiddenFailure | ProviderRejectedFailure | ImageRejectedFailure
  | ContextOverflowFailure | TimeoutFailure | OverloadedFailure | ModelNotFoundFailure
  | ContentFilterFailure | PrivateAgentPlacementFailure | GlobalAgentPlacementFailure
  | FormatFailure | EmptyResponseFailure | ProviderOutputLimitFailure | TransientFailure
  | UnknownFailure

definition CREDITS_EXHAUSTED_USER_MESSAGE :: jsstring where
  "CREDITS_EXHAUSTED_USER_MESSAGE =
     js ''Your team has no AI credits remaining. Ask a billing manager to add credits or update billing in Credits and billing (/admin/billing), then try again.''"

fun in_parens :: "jsstring option \<Rightarrow> jsstring" where
  "in_parens None = []"
| "in_parens (Some p) = (if p = [] then [] else js '' ('' @ p @ js '')'')"

fun in_ticks :: "jsstring option \<Rightarrow> jsstring" where
  "in_ticks None = []"
| "in_ticks (Some m) = (if m = [] then [] else [32, 96] @ m @ [96])"

fun userMessageForFailureReason :: "failover_reason \<Rightarrow> jsstring option \<Rightarrow> jsstring option \<Rightarrow> jsstring" where
  "userMessageForFailureReason AuthFailure _ _ =
     js ''The model provider could not authenticate this request. Ask a team owner to verify the provider credential, then try again.''"
| "userMessageForFailureReason AuthPermanentFailure _ _ =
     js ''The model provider rejected its API key. Ask a team owner to update the provider credential, then try again.''"
| "userMessageForFailureReason CredentialsMissingFailure _ _ =
     js ''No API key is configured for the model provider. Ask a team owner to add the provider credential, then try again.''"
| "userMessageForFailureReason CredentialsScopeFailure _ _ =
     js ''The team AI service credential is not permitted to use the configured model. Ask a team owner to update its allowed model scope, then try again.''"
| "userMessageForFailureReason RateLimitFailure _ _ =
     js ''The model provider is rate limited. Please try again shortly.''"
| "userMessageForFailureReason CreditsExhaustedFailure _ _ =
     CREDITS_EXHAUSTED_USER_MESSAGE"
| "userMessageForFailureReason RequesterIdentityFailure _ _ =
     js ''I can't act for you right now because your sign-in has changed. Sign in again, then ask me again.''"
| "userMessageForFailureReason BillingFailure _ _ =
     js ''The model provider reported a billing or quota problem. Ask a team owner to review the provider account, then try again.''"
| "userMessageForFailureReason ProviderForbiddenFailure _ _ =
     js ''The model provider refused this request: the deployment's credential is not permitted to use the configured model. Ask a team owner to check the configured model against what the credential allows, then try again.''"
| "userMessageForFailureReason ProviderRejectedFailure provider model =
     js ''The model provider'' @ in_parens provider @ js '' rejected this request for the configured model'' @ in_ticks model @ js ''. Ask a team owner to check the model configuration.''"
| "userMessageForFailureReason ImageRejectedFailure provider model =
     js ''The model provider'' @ in_parens provider @ js '' rejected the images in this request for the configured model'' @ in_ticks model @ js ''. Ask a team owner to check the model configuration.''"
| "userMessageForFailureReason ContextOverflowFailure _ _ =
     js ''This conversation is too long for the configured model. Start a new conversation or ask a shorter follow-up.''"
| "userMessageForFailureReason TimeoutFailure _ _ =
     js ''The model provider is temporarily unavailable. Please try again shortly.''"
| "userMessageForFailureReason OverloadedFailure _ _ =
     js ''The model provider is overloaded. Please try again in a few minutes.''"
| "userMessageForFailureReason ModelNotFoundFailure _ _ =
     js ''The configured model was not found. Ask a team owner to check the model configuration.''"
| "userMessageForFailureReason ContentFilterFailure _ _ =
     js ''The model provider blocked this request under its content policy. Try rephrasing it.''"
| "userMessageForFailureReason PrivateAgentPlacementFailure _ _ =
     js ''This private agent can only run in its private home conversation.''"
| "userMessageForFailureReason GlobalAgentPlacementFailure _ _ =
     js ''This built-in agent can only run in your private conversation with it.''"
| "userMessageForFailureReason FormatFailure _ _ =
     js ''The model provider returned an invalid response. Please try again.''"
| "userMessageForFailureReason EmptyResponseFailure _ _ =
     js ''The model provider returned no final answer. Please try again.''"
| "userMessageForFailureReason ProviderOutputLimitFailure _ _ =
     js ''The model provider reached its response limit before finishing. Please try again with a narrower request.''"
| "userMessageForFailureReason TransientFailure _ _ =
     js ''The model provider is temporarily unavailable. Please try again shortly.''"
| "userMessageForFailureReason UnknownFailure _ _ =
     js ''I could not complete that request because the assistant service encountered an unexpected error. Please try again; if it keeps happening, ask a team owner to check the worker logs.''"

section \<open>Classification\<close>

datatype error_class = PrivateAgentPlacementError | GlobalAgentPlacementError | EmptyProviderResponseError
  | ProviderOutputLimitError | InferenceAbortedError | PlainError | NotAnError

record thrown =
  th_class :: error_class
  th_message :: jsstring
  th_creditsExhausted :: bool
  th_requesterIdentity :: bool
  th_statusCode :: "int option"

definition is_word_unit :: "code_unit \<Rightarrow> bool" where
  "is_word_unit c \<longleftrightarrow> is_digit c \<or> 65 \<le> c \<and> c \<le> 90 \<or> c = 95 \<or> 97 \<le> c \<and> c \<le> 122"

definition ends_word :: "jsstring \<Rightarrow> bool" where
  "ends_word s = (case s of [] \<Rightarrow> True | c # _ \<Rightarrow> \<not> is_word_unit c)"

text \<open>\<open>/\bimages?\b/\<close>; the flag says whether the unit before is a word unit.\<close>

fun has_image_word :: "bool \<Rightarrow> jsstring \<Rightarrow> bool" where
  "has_image_word inside [] = False"
| "has_image_word inside (c # s) =
     (\<not> inside \<and> starts_with (c # s) (js ''image'') \<and>
        (ends_word (drop 5 (c # s)) \<or> starts_with (c # s) (js ''images'') \<and> ends_word (drop 6 (c # s)))
      \<or> has_image_word (is_word_unit c) s)"

definition IMAGE_CONTENT :: "jsstring \<Rightarrow> bool" where
  "IMAGE_CONTENT s \<longleftrightarrow> has_image_word False s \<or> js_includes s (js ''image_url'') \<or> js_includes s (js ''vision'')
     \<or> js_includes s (js ''multimodal'') \<or> js_includes s (js ''multi-modal'')"

definition isContextOverflowMessage :: "jsstring \<Rightarrow> bool" where
  "isContextOverflowMessage message \<longleftrightarrow> js_includes message (js ''context'') \<and>
     (js_includes message (js ''length'') \<or> js_includes message (js ''overflow'')
      \<or> js_includes message (js ''too long'') \<or> js_includes message (js ''maximum''))"

text \<open>\<open>/(?:status|http)[:\s]*(\d{3})/\<close>, the first match.\<close>

definition code_after :: "jsstring \<Rightarrow> int option" where
  "code_after s =
     (case dropWhile (\<lambda>c. c = 58 \<or> is_js_space c) s of
        a # b # c # _ \<Rightarrow> if is_digit a \<and> is_digit b \<and> is_digit c then Some (digits_value [a, b, c]) else None
      | _ \<Rightarrow> None)"

definition status_here :: "jsstring \<Rightarrow> int option" where
  "status_here s =
     (if starts_with s (js ''status'') then code_after (drop 6 s)
      else if starts_with s (js ''http'') then code_after (drop 4 s) else None)"

fun statusMatch :: "jsstring \<Rightarrow> int option" where
  "statusMatch [] = None"
| "statusMatch (c # s) = (case status_here (c # s) of Some n \<Rightarrow> Some n | None \<Rightarrow> statusMatch s)"

definition classifyMessage :: "jsstring \<Rightarrow> int option \<Rightarrow> failover_reason" where
  "classifyMessage message status =
     (let inc = js_includes message
      in if (inc (js ''api key'') \<or> inc (js ''api_key''))
            \<and> (inc (js ''missing'') \<or> inc (js ''not configured'') \<or> inc (js ''required''))
         then CredentialsMissingFailure
         else if (inc (js ''product app key'') \<or> inc (js ''api key'')) \<and> inc (js ''unsafe'') \<and> inc (js ''scope'')
         then CredentialsScopeFailure
         else if status = Some 401 \<or> inc (js ''unauthorized'')
         then (if inc (js ''invalid'') \<or> inc (js ''malformed'') \<or> inc (js ''revoked'') then AuthPermanentFailure
               else AuthFailure)
         else if status = Some 403 \<or> inc (js ''forbidden'') then ProviderForbiddenFailure
         else if status = Some 429 \<or> inc (js ''rate limit'') \<or> inc (js ''too many requests'') then RateLimitFailure
         else if (status = Some 400 \<or> status = Some 413 \<or> status = Some 404 \<and> inc (js ''support''))
            \<and> IMAGE_CONTENT message \<and> \<not> isContextOverflowMessage message
         then ImageRejectedFailure
         else if status = Some 402 \<or> inc (js ''billing'') \<or> inc (js ''quota'') \<or> inc (js ''insufficient'')
         then BillingFailure
         else if isContextOverflowMessage message then ContextOverflowFailure
         else if inc (js ''timeout'') \<or> inc (js ''timed out'') \<or> inc (js ''etimedout'') \<or> inc (js ''econnreset'')
         then TimeoutFailure
         else if inc (js ''model metadata'') \<and> inc (js ''temporarily unavailable'') then TransientFailure
         else if status = Some 503 \<or> inc (js ''overloaded'') \<or> inc (js ''service unavailable'') then OverloadedFailure
         else if status = Some 404 \<or> inc (js ''model'') \<and> inc (js ''not found'') then ModelNotFoundFailure
         else if inc (js ''content_filter'') \<or> inc (js ''content policy'') \<or> inc (js ''safety'')
         then ContentFilterFailure
         else if inc (js ''json'') \<and> (inc (js ''parse'') \<or> inc (js ''unexpected''))
            \<or> inc (js ''model metadata'') \<and> inc (js ''malformed'')
         then FormatFailure
         else if status = Some 400 then ProviderRejectedFailure
         else (case status of None \<Rightarrow> UnknownFailure | Some n \<Rightarrow> if n \<ge> 500 then TransientFailure else UnknownFailure))"

definition classifyError :: "(jsstring \<Rightarrow> jsstring) \<Rightarrow> thrown \<Rightarrow> failover_reason" where
  "classifyError lower e =
     (case th_class e of
        PrivateAgentPlacementError \<Rightarrow> PrivateAgentPlacementFailure
      | GlobalAgentPlacementError \<Rightarrow> GlobalAgentPlacementFailure
      | EmptyProviderResponseError \<Rightarrow> EmptyResponseFailure
      | ProviderOutputLimitError \<Rightarrow> ProviderOutputLimitFailure
      | NotAnError \<Rightarrow> UnknownFailure
      | _ \<Rightarrow>
          if th_creditsExhausted e then CreditsExhaustedFailure
          else if th_requesterIdentity e then RequesterIdentityFailure
          else (let message = lower (th_message e)
                in classifyMessage message
                     (case th_statusCode e of Some n \<Rightarrow> Some n | None \<Rightarrow> statusMatch message)))"

section \<open>Recovery\<close>

datatype recovery = Retry nat | CompactAndRetry | FailRun | SurfaceError jsstring | Abort

record retry_budget =
  rb_remaining :: int
  rb_total :: int

definition createRetryBudget :: "int \<Rightarrow> retry_budget" where
  "createRetryBudget n = \<lparr>rb_remaining = n, rb_total = n\<rparr>"

definition exponentialBackoffMs :: "nat \<Rightarrow> nat \<Rightarrow> nat \<Rightarrow> nat" where
  "exponentialBackoffMs attempt baseMs capMs = min (baseMs * 2 ^ attempt) capMs"

definition resolveRecovery :: "failover_reason \<Rightarrow> nat \<Rightarrow> retry_budget \<Rightarrow> recovery" where
  "resolveRecovery reason attemptCount budget =
     (let surface = SurfaceError (userMessageForFailureReason reason None None)
      in if reason = CreditsExhaustedFailure \<or> reason = RequesterIdentityFailure then FailRun
         else if rb_remaining budget \<le> 0 \<and> reason \<noteq> ContextOverflowFailure
         then SurfaceError (js ''Too many retries. Please try again later.'')
         else (case reason of
             RateLimitFailure \<Rightarrow>
               if attemptCount < 3 then Retry (exponentialBackoffMs attemptCount 1000 30000) else surface
           | OverloadedFailure \<Rightarrow>
               if attemptCount < 3 then Retry (exponentialBackoffMs attemptCount 5000 60000) else surface
           | TransientFailure \<Rightarrow>
               if attemptCount < 2 then Retry (exponentialBackoffMs attemptCount 2000 30000) else surface
           | TimeoutFailure \<Rightarrow>
               if attemptCount < 2 then Retry (exponentialBackoffMs attemptCount 2000 30000) else surface
           | FormatFailure \<Rightarrow> if attemptCount < 1 then Retry 500 else surface
           | ContextOverflowFailure \<Rightarrow> CompactAndRetry
           | UnknownFailure \<Rightarrow> Abort
           | _ \<Rightarrow> surface))"

section \<open>The retry loop\<close>

definition MAX_ATTEMPTS :: nat where "MAX_ATTEMPTS = 3"

definition MAX_OVERFLOW_TRIM_ATTEMPTS :: nat where "MAX_OVERFLOW_TRIM_ATTEMPTS = 2"

datatype 'r retry_end = Answered 'r | Surfaced jsstring | Rethrown thrown | OverflowUnresolved

record 'r retry_run =
  re_end :: "'r retry_end"
  re_messages :: "provider_message list"
  re_budget :: retry_budget
  re_waits :: "nat list"
  re_calls :: nat

text \<open>One attempt and, where it is answered by another, the ones after it.  \<open>spent\<close> holds the
  transcript, the budget, the waits and the number of calls so far; an attempt past the last one
  does not happen, the last error is thrown.\<close>

function retry_from ::
    "(jsstring \<Rightarrow> jsstring) \<Rightarrow> (nat \<Rightarrow> provider_message list \<Rightarrow> thrown + 'r) \<Rightarrow> int \<Rightarrow> nat \<Rightarrow> nat
      \<Rightarrow> provider_message list \<Rightarrow> retry_budget \<Rightarrow> nat list \<Rightarrow> 'r retry_run" where
  "retry_from lower infer target attempt trims messages budget waits =
     (let stop = (\<lambda>e. \<lparr>re_end = e, re_messages = messages, re_budget = budget, re_waits = waits,
                      re_calls = attempt + 1\<rparr>)
      in case infer attempt messages of
           Inr r \<Rightarrow> stop (Answered r)
         | Inl e \<Rightarrow>
             if th_class e = InferenceAbortedError then stop (Rethrown e)
             else (case resolveRecovery (classifyError lower e) attempt budget of
                 Retry delayMs \<Rightarrow>
                   if attempt < MAX_ATTEMPTS then
                     retry_from lower infer target (attempt + 1) trims messages
                       (budget\<lparr>rb_remaining := rb_remaining budget - 1\<rparr>) (waits @ [delayMs])
                   else (stop (Rethrown e))\<lparr>re_budget := budget\<lparr>rb_remaining := rb_remaining budget - 1\<rparr>,
                          re_waits := waits @ [delayMs]\<rparr>
               | CompactAndRetry \<Rightarrow>
                   if trims \<ge> MAX_OVERFLOW_TRIM_ATTEMPTS then stop OverflowUnresolved
                   else if attempt < MAX_ATTEMPTS then
                     retry_from lower infer target (attempt + 1) (trims + 1)
                       (trimConversationToFit messages target 0) budget waits
                   else (stop (Rethrown e))\<lparr>re_messages := trimConversationToFit messages target 0\<rparr>
               | SurfaceError m \<Rightarrow> stop (Surfaced m)
               | _ \<Rightarrow> stop (Rethrown e)))"
  by pat_completeness auto
termination
  by (relation "measure (\<lambda>(lower, infer, target, attempt, trims, messages, budget, waits). Suc MAX_ATTEMPTS - attempt)") auto

definition callInferenceWithRetry ::
    "(jsstring \<Rightarrow> jsstring) \<Rightarrow> (nat \<Rightarrow> provider_message list \<Rightarrow> thrown + 'r) \<Rightarrow> int
      \<Rightarrow> provider_message list \<Rightarrow> retry_budget \<Rightarrow> 'r retry_run" where
  "callInferenceWithRetry lower infer overflowTrimTarget messages retryBudget =
     retry_from lower infer overflowTrimTarget 0 0 messages retryBudget []"

section \<open>The retry loop is bounded\<close>

lemma recovery_wait:
  "resolveRecovery reason attempt budget = Retry d \<Longrightarrow>
     attempt < MAX_ATTEMPTS \<and> d \<le> 5000 * 2 ^ attempt \<and> rb_remaining budget > 0"
  by (cases reason) (auto simp: resolveRecovery_def exponentialBackoffMs_def MAX_ATTEMPTS_def Let_def
      split: if_splits)

fun aborted :: "thrown + 'r \<Rightarrow> bool" where
  "aborted (Inl e) = (th_class e = InferenceAbortedError)"
| "aborted (Inr r) = False"

text \<open>What holds of the calls from one attempt on.\<close>

definition retry_ok ::
    "(nat \<Rightarrow> provider_message list \<Rightarrow> thrown + 'r) \<Rightarrow> int \<Rightarrow> nat \<Rightarrow> nat \<Rightarrow> provider_message list \<Rightarrow> retry_budget
      \<Rightarrow> nat list \<Rightarrow> 'r retry_run \<Rightarrow> bool" where
  "retry_ok infer target attempt trims ms b ws r \<longleftrightarrow>
     attempt < re_calls r \<and> re_calls r \<le> 4 \<and>
     (\<exists>ws'. re_waits r = ws @ ws' \<and> rb_remaining (re_budget r) = rb_remaining b - int (length ws') \<and>
        sum_list ws' + 5000 * 2 ^ attempt \<le> 40000 \<and> (rb_remaining b \<ge> 0 \<longrightarrow> rb_remaining (re_budget r) \<ge> 0)) \<and>
     rb_total (re_budget r) = rb_total b \<and>
     (\<exists>n. n + trims \<le> 2 \<and> re_messages r = ((\<lambda>m. trimConversationToFit m target 0) ^^ n) ms) \<and>
     (\<forall>a. re_end r = Answered a \<longrightarrow> infer (re_calls r - 1) (re_messages r) = Inr a) \<and>
     (\<forall>k \<ge> attempt. (\<forall>m. aborted (infer k m)) \<longrightarrow> re_calls r \<le> Suc k)"

lemma pow_attempt: "attempt \<le> 3 \<Longrightarrow> 5000 * 2 ^ attempt \<le> (40000 :: nat)"
proof -
  assume "attempt \<le> 3"
  then have "(2 :: nat) ^ attempt \<le> 2 ^ 3" by (rule power_increasing) simp
  then show ?thesis by simp
qed

lemma retry_ok_stop:
  assumes "attempt \<le> 3" "trims \<le> 2" "\<forall>a. x = Answered a \<longrightarrow> infer attempt ms = Inr a"
  shows "retry_ok infer target attempt trims ms b ws
    \<lparr>re_end = x, re_messages = ms, re_budget = b, re_waits = ws, re_calls = attempt + 1\<rparr>"
  using assms pow_attempt unfolding retry_ok_def by (auto intro: exI [of _ 0])

lemma retry_ok_wait:
  assumes "retry_ok infer target (attempt + 1) trims ms (b\<lparr>rb_remaining := rb_remaining b - 1\<rparr>) (ws @ [d]) r"
    "d \<le> 5000 * 2 ^ attempt" "rb_remaining b > 0" "\<not> aborted (infer attempt ms)"
  shows "retry_ok infer target attempt trims ms b ws r"
proof -
  obtain ws' where ws': "re_waits r = ws @ [d] @ ws'"
      "rb_remaining (re_budget r) = rb_remaining b - 1 - int (length ws')"
      "sum_list ws' + 5000 * 2 ^ (attempt + 1) \<le> 40000" "rb_remaining (re_budget r) \<ge> 0"
    using assms(1,3) unfolding retry_ok_def by auto
  have "\<exists>ws'. re_waits r = ws @ ws' \<and> rb_remaining (re_budget r) = rb_remaining b - int (length ws') \<and>
        sum_list ws' + 5000 * 2 ^ attempt \<le> 40000 \<and> (rb_remaining b \<ge> 0 \<longrightarrow> rb_remaining (re_budget r) \<ge> 0)"
    using ws' assms(2) by (intro exI [of _ "d # ws'"]) simp
  moreover have "\<forall>k \<ge> attempt. (\<forall>m. aborted (infer k m)) \<longrightarrow> re_calls r \<le> Suc k"
    using assms(1,4) unfolding retry_ok_def by (metis Suc_eq_plus1 le_neq_implies_less less_eq_Suc_le)
  ultimately show ?thesis using assms(1) unfolding retry_ok_def by simp
qed

lemma retry_ok_trim:
  assumes "retry_ok infer target (attempt + 1) (trims + 1) (trimConversationToFit ms target 0) b ws r"
    "\<not> aborted (infer attempt ms)"
  shows "retry_ok infer target attempt trims ms b ws r"
proof -
  obtain n where n: "n + (trims + 1) \<le> 2"
      "re_messages r = ((\<lambda>m. trimConversationToFit m target 0) ^^ n) (trimConversationToFit ms target 0)"
    using assms(1) unfolding retry_ok_def by blast
  have "\<exists>n. n + trims \<le> 2 \<and> re_messages r = ((\<lambda>m. trimConversationToFit m target 0) ^^ n) ms"
    using n by (intro exI [of _ "Suc n"]) (simp add: funpow_Suc_right del: funpow.simps)
  moreover have "\<forall>k \<ge> attempt. (\<forall>m. aborted (infer k m)) \<longrightarrow> re_calls r \<le> Suc k"
    using assms unfolding retry_ok_def by (metis Suc_eq_plus1 le_neq_implies_less less_eq_Suc_le)
  moreover have "(2 :: nat) ^ attempt \<le> 2 ^ (attempt + 1)" by simp
  ultimately show ?thesis using assms(1) unfolding retry_ok_def by fastforce
qed

lemma retry_from_ok:
  "attempt \<le> 3 \<Longrightarrow> trims \<le> 2 \<Longrightarrow>
     retry_ok infer target attempt trims ms b ws (retry_from lower infer target attempt trims ms b ws)"
proof (induction lower infer target attempt trims ms b ws rule: retry_from.induct)
  case (1 lower infer target attempt trims ms b ws)
  have stop: "retry_ok infer target attempt trims ms b ws
      \<lparr>re_end = x, re_messages = ms, re_budget = b, re_waits = ws, re_calls = attempt + 1\<rparr>"
    if "\<forall>a. x = Answered a \<longrightarrow> infer attempt ms = Inr a" for x
    using retry_ok_stop [OF 1(3,4)] that .
  show ?case
  proof (cases "infer attempt ms")
    case (Inr r)
    then show ?thesis using stop [of "Answered r"] by (simp add: retry_from.simps [of lower infer])
  next
    case (Inl e)
    show ?thesis
    proof (cases "th_class e = InferenceAbortedError")
      case True
      then show ?thesis using stop [of "Rethrown e"] Inl by (simp add: retry_from.simps [of lower infer])
    next
      case False
      then have na: "\<not> aborted (infer attempt ms)" using Inl by simp
      show ?thesis
      proof (cases "resolveRecovery (classifyError lower e) attempt b")
        case (Retry d)
        note w = recovery_wait [OF Retry]
        then have "retry_ok infer target (attempt + 1) trims ms (b\<lparr>rb_remaining := rb_remaining b - 1\<rparr>) (ws @ [d])
            (retry_from lower infer target (attempt + 1) trims ms (b\<lparr>rb_remaining := rb_remaining b - 1\<rparr>) (ws @ [d]))"
          using 1(1) [OF refl Inl False Retry] 1(4) by (simp add: MAX_ATTEMPTS_def)
        from retry_ok_wait [OF this] w na show ?thesis
          using Inl False Retry by (simp add: retry_from.simps [of lower infer target attempt])
      next
        case CompactAndRetry
        consider "trims \<ge> 2" | "trims < 2" "attempt < 3" | "trims < 2" "attempt = 3" using 1(3) by linarith
        then show ?thesis
        proof cases
          case 1
          then show ?thesis using stop [of OverflowUnresolved] Inl False CompactAndRetry
            by (simp add: retry_from.simps [of lower infer] MAX_OVERFLOW_TRIM_ATTEMPTS_def)
        next
          case 2
          then have "retry_ok infer target (attempt + 1) (trims + 1) (trimConversationToFit ms target 0) b ws
              (retry_from lower infer target (attempt + 1) (trims + 1) (trimConversationToFit ms target 0) b ws)"
            using "1.IH"(2) [OF refl Inl False CompactAndRetry]
            by (simp add: MAX_ATTEMPTS_def MAX_OVERFLOW_TRIM_ATTEMPTS_def)
          from retry_ok_trim [OF this na] show ?thesis using 2 Inl False CompactAndRetry
            by (simp add: retry_from.simps [of lower infer target attempt] MAX_ATTEMPTS_def MAX_OVERFLOW_TRIM_ATTEMPTS_def)
        next
          case 3
          have "\<exists>n. n + trims \<le> 2 \<and> trimConversationToFit ms target 0 = ((\<lambda>m. trimConversationToFit m target 0) ^^ n) ms"
            using 3 by (intro exI [of _ 1]) simp
          then have "retry_ok infer target attempt trims ms b ws \<lparr>re_end = Rethrown e,
              re_messages = trimConversationToFit ms target 0, re_budget = b, re_waits = ws, re_calls = attempt + 1\<rparr>"
            using 3 pow_attempt unfolding retry_ok_def by auto
          then show ?thesis using 3 Inl False CompactAndRetry
            by (simp add: retry_from.simps [of lower infer target attempt] MAX_ATTEMPTS_def MAX_OVERFLOW_TRIM_ATTEMPTS_def)
        qed
      next
        case (SurfaceError m)
        then show ?thesis using stop [of "Surfaced m"] Inl False by (simp add: retry_from.simps [of lower infer])
      qed (use stop [of "Rethrown e"] Inl False in \<open>simp_all add: retry_from.simps [of lower infer]\<close>)
    qed
  qed
qed

text \<open>C17: One inference call recovers within bounds.  However the provider fails, it is asked at most
  four times, waits at most 35 seconds in all, spends one retry of the run's budget per wait and
  never overdraws it, and shrinks the transcript at most twice and by nothing but the emergency
  trim; an answer is the provider's answer to the transcript that is kept, and an attempt that is
  deliberately aborted is the last one.\<close>

theorem inference_retry_is_bounded:
  assumes "rb_remaining budget \<ge> 0"
  shows "let r = callInferenceWithRetry lower infer target ms budget
    in re_calls r \<le> 4 \<and> sum_list (re_waits r) \<le> 35000 \<and>
       rb_remaining (re_budget r) = rb_remaining budget - int (length (re_waits r)) \<and>
       rb_remaining (re_budget r) \<ge> 0 \<and>
       (\<exists>n \<le> 2. re_messages r = ((\<lambda>m. trimConversationToFit m target 0) ^^ n) ms) \<and>
       (\<forall>a. re_end r = Answered a \<longrightarrow> infer (re_calls r - 1) (re_messages r) = Inr a) \<and>
       (\<forall>k. (\<forall>m. aborted (infer k m)) \<longrightarrow> re_calls r \<le> Suc k)"
  using retry_from_ok [of 0 0 infer target ms budget "[]" lower] assms
  unfolding callInferenceWithRetry_def Let_def retry_ok_def by auto

definition flaky_provider :: "nat \<Rightarrow> provider_message list \<Rightarrow> thrown + unit" where
  "flaky_provider k m = (if k = 0 then Inl \<lparr>th_class = PlainError, th_message = js ''HTTP 503'',
     th_creditsExhausted = False, th_requesterIdentity = False, th_statusCode = None\<rparr> else Inr ())"

lemma inference_retry_is_bounded_witness:
  "re_calls (callInferenceWithRetry (\<lambda>s. s) flaky_provider 1000 [] (createRetryBudget 6)) \<le> 4"
proof -
  have "0 \<le> rb_remaining (createRetryBudget 6)" by (simp add: createRetryBudget_def)
  from inference_retry_is_bounded [OF this, of "\<lambda>s. s" flaky_provider 1000 "[]"] show ?thesis
    unfolding Let_def by blast
qed

text \<open>C35: What is terminal is never retried: a refusal for exhausted credits or a changed sign-in
  ends the run with that error at the first answer, for any budget and any attempt, so that it
  can never be delivered as an answer; every other failure is surfaced, aborted or retried, and with
  no retries left only a context overflow is tried again.\<close>

theorem terminal_failures_end_the_run:
  "(let r = callInferenceWithRetry lower (\<lambda>k m. Inl e) target ms budget
    in if th_class e = PlainError \<and> (th_creditsExhausted e \<or> th_requesterIdentity e)
       then re_end r = Rethrown e \<and> re_calls r = 1 \<and> re_messages r = ms \<and> re_budget r = budget \<and> re_waits r = []
       else True) \<and>
   (let x = resolveRecovery reason attempt budget
    in (x = FailRun) = (reason = CreditsExhaustedFailure \<or> reason = RequesterIdentityFailure) \<and>
       (rb_remaining budget > 0 \<or> x = FailRun \<or> reason = ContextOverflowFailure \<or> (\<exists>m. x = SurfaceError m)) \<and>
       (x = CompactAndRetry) = (reason = ContextOverflowFailure))"
proof
  show "let r = callInferenceWithRetry lower (\<lambda>k m. Inl e) target ms budget
    in if th_class e = PlainError \<and> (th_creditsExhausted e \<or> th_requesterIdentity e)
       then re_end r = Rethrown e \<and> re_calls r = 1 \<and> re_messages r = ms \<and> re_budget r = budget \<and> re_waits r = []
       else True"
    by (auto simp: callInferenceWithRetry_def retry_from.simps [of lower _ target 0] classifyError_def
        resolveRecovery_def Let_def)
next
  show "let x = resolveRecovery reason attempt budget
    in (x = FailRun) = (reason = CreditsExhaustedFailure \<or> reason = RequesterIdentityFailure) \<and>
       (rb_remaining budget > 0 \<or> x = FailRun \<or> reason = ContextOverflowFailure \<or> (\<exists>m. x = SurfaceError m)) \<and>
       (x = CompactAndRetry) = (reason = ContextOverflowFailure)"
    by (cases reason) (auto simp: resolveRecovery_def Let_def)
qed

end
