(* ===== verification/Schedules.thy ===== *)
theory Schedules
  imports Prelude
begin

text \<open>
  Runs of a component that moves by steps: the steps of a schedule one after another, each a partial
  function of the state, and what every run keeps and how long it can be.
\<close>

fun run_steps :: "('e \<Rightarrow> 's \<Rightarrow> 's option) \<Rightarrow> 'e list \<Rightarrow> 's \<Rightarrow> 's option" where
  "run_steps step [] s = Some s"
| "run_steps step (e # es) s = Option.bind (step e s) (run_steps step es)"

lemma run_steps_append:
  "run_steps step (es @ fs) s = Option.bind (run_steps step es s) (run_steps step fs)"
  by (induction es arbitrary: s) (auto split: bind_splits)

text \<open>What every step keeps, every run keeps.\<close>

locale kept_by_steps =
  fixes step :: "'e \<Rightarrow> 's \<Rightarrow> 's option"
    and inv :: "'s \<Rightarrow> bool"
  assumes step_keeps: "inv s \<Longrightarrow> step e s = Some s' \<Longrightarrow> inv s'"
begin

lemma run_keeps: "inv s \<Longrightarrow> run_steps step es s = Some s' \<Longrightarrow> inv s'"
  by (induction es arbitrary: s) (auto simp: bind_eq_Some_conv dest: step_keeps)

end

text \<open>A rank that every step lowers bounds the length of a run.\<close>

locale ranked_steps =
  fixes step :: "'e \<Rightarrow> 's \<Rightarrow> 's option"
    and rank :: "'s \<Rightarrow> nat"
  assumes step_lowers: "step e s = Some s' \<Longrightarrow> rank s' < rank s"
begin

lemma run_is_bounded: "run_steps step es s = Some s' \<Longrightarrow> length es + rank s' \<le> rank s"
proof (induction es arbitrary: s)
  case (Cons e es)
  then obtain t where t: "step e s = Some t" "run_steps step es t = Some s'"
    by (auto simp: bind_eq_Some_conv)
  then show ?case using Cons.IH [OF t(2)] step_lowers [OF t(1)] by simp
qed simp

end

text \<open>A component that can move until it is done reaches an end from every state it is in.\<close>

locale live_steps = ranked_steps +
  fixes finished :: "'s \<Rightarrow> bool"
    and ok :: "'s \<Rightarrow> bool"
  assumes moves: "ok s \<Longrightarrow> \<not> finished s \<Longrightarrow> \<exists>e s'. step e s = Some s' \<and> ok s'"
begin

lemma can_finish: "ok s \<Longrightarrow> \<exists>es s'. run_steps step es s = Some s' \<and> finished s'"
proof (induction "rank s" arbitrary: s rule: less_induct)
  case less
  show ?case
  proof (cases "finished s")
    case True
    then show ?thesis by (metis run_steps.simps(1))
  next
    case False
    then obtain e t where t: "step e s = Some t" "ok t" using moves [OF less.prems] by auto
    then obtain es s' where "run_steps step es t = Some s'" "finished s'"
      using less.hyps [OF step_lowers [OF t(1)] t(2)] by auto
    then show ?thesis using t(1) by (metis bind.bind_lunit run_steps.simps(2))
  qed
qed

end

end
