(* ===== verification/ToolBatch.thy ===== *)
theory ToolBatch
  imports ToolLoop AgentContext Schedules "HOL-Library.Sublist"
begin

text \<open>
  One batch of tool calls (\<open>worker/src/run/tool-batch.ts\<close>) and the breaker that disables a failing
  tool (\<open>worker/src/run/circuit-breaker.ts\<close>).

  A batch admits its calls, prepares them, and then runs the prepared ones beside each other, those
  of the executor's lane one after another.  Every \<open>await\<close> of a running call is a step: the steps of
  the calls interleave in any order, and a schedule lists them with what the environment answers
  (a tool's result, an error, its timeout, a failed callback, a Stop).  The breaker, the loop
  counts, the nudge, the tool time and the callbacks already made are shared by the calls.

  Preparing a call, summarising its arguments, normalising its name and its timeout are arguments
  of the model.
\<close>

section \<open>The circuit breaker\<close>

type_synonym breaker = "jsstring \<rightharpoonup> nat"

definition CIRCUIT_BREAKER_THRESHOLD :: nat where "CIRCUIT_BREAKER_THRESHOLD = 3"

definition EXECUTOR_MCP_CALL_TOOL_NAME :: jsstring where
  "EXECUTOR_MCP_CALL_TOOL_NAME = js ''executor_mcp_call''"

definition EXECUTOR_MCP_TOOLS_TOOL_NAME :: jsstring where
  "EXECUTOR_MCP_TOOLS_TOOL_NAME = js ''executor_mcp_tools''"

text \<open>A member of the arguments that is a string.\<close>

definition string_member :: "json \<Rightarrow> jsstring \<Rightarrow> jsstring option" where
  "string_member args k =
     (case args of JObj es \<Rightarrow> (case map_of es k of Some (JStr s) \<Rightarrow> Some s | _ \<Rightarrow> None) | _ \<Rightarrow> None)"

definition circuitBreakerKey :: "jsstring \<Rightarrow> json \<Rightarrow> jsstring" where
  "circuitBreakerKey tool args =
     (if tool = EXECUTOR_MCP_CALL_TOOL_NAME then
        (case (string_member args (js ''server''), string_member args (js ''tool'')) of
           (Some server, Some t) \<Rightarrow> tool @ [58] @ server @ [58] @ t
         | _ \<Rightarrow> tool)
      else if tool = EXECUTOR_MCP_TOOLS_TOOL_NAME then
        (case string_member args (js ''server'') of Some server \<Rightarrow> tool @ [58] @ server | None \<Rightarrow> tool)
      else tool)"

definition failures :: "breaker \<Rightarrow> jsstring \<Rightarrow> nat" where
  "failures b k = (case b k of None \<Rightarrow> 0 | Some n \<Rightarrow> n)"

definition recordSuccess :: "jsstring \<Rightarrow> breaker \<Rightarrow> breaker" where
  "recordSuccess k b = b(k := None)"

definition recordError :: "jsstring \<Rightarrow> breaker \<Rightarrow> breaker" where
  "recordError k b = b(k \<mapsto> failures b k + 1)"

definition isTripped :: "breaker \<Rightarrow> jsstring \<Rightarrow> bool" where
  "isTripped b k \<longleftrightarrow> failures b k \<ge> CIRCUIT_BREAKER_THRESHOLD"

definition trippedErrorMessage :: "jsstring \<Rightarrow> jsstring" where
  "trippedErrorMessage k = js ''Tool '' @ [34] @ k @ [34] @ js '' disabled after ''
     @ nat_text CIRCUIT_BREAKER_THRESHOLD @ js '' consecutive failures''"

definition reset_breaker :: "breaker \<Rightarrow> breaker" where
  "reset_breaker b = Map.empty"

text \<open>A checkpoint holds the own entries of the counts as an object.\<close>

definition restore_breaker :: "(jsstring \<times> nat) list \<Rightarrow> breaker \<Rightarrow> breaker" where
  "restore_breaker saved b = map_of saved"

section \<open>Results of calls\<close>

record image_ref =
  attachmentId :: jsstring
  byteLength :: int
  mimeType :: jsstring

record approval_suspension =
  approvalId :: jsstring
  approval_notice :: jsstring
  approval_toolName :: jsstring

record executed_result =
  correctable :: bool
  er_delivered :: bool
  imageRefs :: "image_ref list"
  inputSummary :: jsstring
  er_output :: jsstring
  er_approval :: "approval_suspension option"
  er_cardId :: "jsstring option"
  success :: bool
  er_callId :: "jsstring option"
  er_toolName :: "jsstring option"
  er_watch :: "watch_report option"

text \<open>A thrown value: its message when it is an \<open>Error\<close>, and whether it is fatal to the run
  (\<open>isFatalToolExecutionError\<close>).\<close>

record tool_error =
  te_message :: "jsstring option"
  te_fatal :: bool

text \<open>The answer the batch writes for a call that it does not run, or that threw.\<close>

definition failed_answer :: "(json \<Rightarrow> jsstring) \<Rightarrow> tool_call \<Rightarrow> jsstring \<Rightarrow> executed_result" where
  "failed_answer summarize tc out =
     \<lparr>correctable = False, er_delivered = False, imageRefs = [], inputSummary = summarize (tc_arguments tc),
      er_output = out, er_approval = None, er_cardId = None, success = False,
      er_callId = Some (toolCallId tc), er_toolName = Some (tc_toolName tc), er_watch = None\<rparr>"

text \<open>What a refused call answers with; \<open>8212\<close> is the em dash.\<close>

definition REPEATED_OBSERVATION_OUTPUT :: jsstring where
  "REPEATED_OBSERVATION_OUTPUT = js ''Not run: this exact call was already made ''
     @ int_text (OBSERVATION_LOOP_THRESHOLD - 1) @ js '' times in a row, with nothing else in between.''"

fun verdict_output :: "loop_verdict \<Rightarrow> jsstring" where
  "verdict_output REPEATED_CALL = js ''Tool call loop detected '' @ [8212]
     @ js '' this exact call has been repeated too many times. Try a different approach.''"
| "verdict_output REPEATED_OBSERVATION = REPEATED_OBSERVATION_OUTPUT"
| "verdict_output REPEATED_CODING_OBSERVATION = REPEATED_OBSERVATION_OUTPUT"
| "verdict_output WAIT_NEEDS_YOU =
     js ''Not run: your last wait on this session already returned because it needs you, and nothing you did since can have changed that, so waiting again would return the same answer.''"
| "verdict_output WAIT_AFTER_TURN_ENDED =
     js ''Not run: the person has written, or this run is nearly out of time, so every wait this turn would stop at once. End your turn now with one line of status.''"

section \<open>Admission\<close>

datatype preparation = PrepExecute | PrepSuspend approval_suspension | PrepThrew tool_error

text \<open>What a batch is given.  \<open>prepare_call\<close> answers for the call at an index.\<close>

record batch_env =
  num_of :: "jsstring \<Rightarrow> jsstring"
  summarize_args :: "json \<Rightarrow> jsstring"
  normalize_name :: "jsstring \<Rightarrow> jsstring"
  in_order :: "jsstring \<Rightarrow> bool"
  timeout_for :: "jsstring \<Rightarrow> nat option"
  timeout_error :: "jsstring \<Rightarrow> jsstring \<Rightarrow> tool_error option"
  prepare_call :: "nat \<Rightarrow> preparation"

definition countedName :: "batch_env \<Rightarrow> tool_call \<Rightarrow> jsstring" where
  "countedName env tc = normalize_name env (tc_toolName tc)"

definition breaker_key :: "batch_env \<Rightarrow> tool_call \<Rightarrow> jsstring" where
  "breaker_key env tc = circuitBreakerKey (countedName env tc) (tc_arguments tc)"

text \<open>The slots so far (\<open>None\<close> a hole), the calls to run with their index, the counts and the nudge.\<close>

record admission =
  ad_slots :: "executed_result option list"
  ad_runnable :: "(nat \<times> tool_call) list"
  ad_counts :: counts
  ad_nudge :: "nudge option"

definition admit_call :: "batch_env \<Rightarrow> breaker \<Rightarrow> tool_call \<Rightarrow> admission \<Rightarrow> admission" where
  "admit_call env b tc a =
     (let (loop, counts) = countToolCall (num_of env) (ad_counts a) (countedName env tc) (tc_arguments tc);
          key = breaker_key env tc
      in case loop of
           Some v \<Rightarrow> a\<lparr>ad_slots := ad_slots a @ [Some (failed_answer (summarize_args env) tc (verdict_output v))],
                      ad_counts := counts, ad_nudge := Some (strongerNudge (ad_nudge a) (Inl v))\<rparr>
         | None \<Rightarrow>
             if isTripped b key
             then a\<lparr>ad_slots := ad_slots a
                        @ [Some (failed_answer (summarize_args env) tc (trippedErrorMessage key))],
                    ad_counts := counts\<rparr>
             else a\<lparr>ad_slots := ad_slots a @ [None],
                    ad_runnable := ad_runnable a @ [(length (ad_slots a), tc)], ad_counts := counts\<rparr>)"

definition admit_calls :: "batch_env \<Rightarrow> breaker \<Rightarrow> counts \<Rightarrow> tool_call list \<Rightarrow> admission" where
  "admit_calls env b counts tcs =
     fold (admit_call env b) tcs \<lparr>ad_slots = [], ad_runnable = [], ad_counts = counts, ad_nudge = None\<rparr>"

section \<open>Running calls\<close>

text \<open>
  A prepared call waits for the lane (\<open>Queued\<close>), is announced to the start callback, runs, and is
  reported to the end callback, after its result or after an error.
\<close>

datatype call_phase = Queued | Announcing | Running | Reporting executed_result
  | ReportingFailure tool_error | Fulfilled executed_result | Rejected tool_error

record task =
  task_index :: nat
  task_call :: tool_call
  task_error :: "tool_error option"
  task_phase :: call_phase

datatype report = Began | Ended jsstring int bool jsstring

record batch_state =
  bs_tasks :: "task list"
  bs_breaker :: breaker
  bs_counts :: counts
  bs_nudge :: "nudge option"
  bs_toolMs :: int
  bs_reports :: "(jsstring \<times> report) list"

definition initial_phase :: "batch_env \<Rightarrow> tool_call \<Rightarrow> call_phase" where
  "initial_phase env tc = (if in_order env (tc_toolName tc) then Queued else Announcing)"

text \<open>The calls to execute, up to a suspension, which ends the batch.\<close>

fun prepare_calls ::
    "batch_env \<Rightarrow> (nat \<times> tool_call) list \<Rightarrow> task list \<Rightarrow> (nat \<times> tool_call \<times> approval_suspension) + task list" where
  "prepare_calls env [] prepared = Inr prepared"
| "prepare_calls env ((i, tc) # rest) prepared =
     (let task = (\<lambda>e. \<lparr>task_index = i, task_call = tc, task_error = e,
                task_phase = initial_phase env tc\<rparr>)
      in case prepare_call env i of
           PrepSuspend approval \<Rightarrow> Inl (i, tc, approval)
         | PrepExecute \<Rightarrow> prepare_calls env rest (prepared @ [task None])
         | PrepThrew e \<Rightarrow> prepare_calls env rest (prepared @ [task (Some e)]))"

datatype tool_answer = Answers executed_result | Throws tool_error | TimesOut

datatype batch_event =
    Sent nat bool
  | Announced nat "tool_error option"
  | Settled nat tool_answer int
  | Told nat "tool_error option" int
  | ToldFailure nat "tool_error option"

definition DEFAULT_TOOL_TIMEOUT_MS :: nat where "DEFAULT_TOOL_TIMEOUT_MS = 30000"

definition STOPPED_BEFORE_DISPATCH_OUTPUT :: jsstring where
  "STOPPED_BEFORE_DISPATCH_OUTPUT = js ''Not run: the person stopped this run before this call was sent.''"

definition withTimeout :: "batch_env \<Rightarrow> tool_call \<Rightarrow> tool_answer \<Rightarrow> tool_error + executed_result" where
  "withTimeout env tc answer =
     (case answer of
        Answers r \<Rightarrow> Inr r
      | Throws e \<Rightarrow> Inl e
      | TimesOut \<Rightarrow>
          Inl (case timeout_error env (tc_toolName tc) (toolCallId tc) of
                 Some e \<Rightarrow> e
               | None \<Rightarrow>
                   \<lparr>te_message = Some (tc_toolName tc @ js '' timed out after ''
                      @ nat_text (case timeout_for env (tc_toolName tc) of Some ms \<Rightarrow> ms | None \<Rightarrow> DEFAULT_TOOL_TIMEOUT_MS)
                      @ js ''ms''), te_fatal = False\<rparr>))"

definition error_output :: "tool_error \<Rightarrow> jsstring" where
  "error_output e =
     (if te_fatal e then js ''Tool execution could not be confirmed; retrying safely.''
      else (case te_message e of Some m \<Rightarrow> m | None \<Rightarrow> js ''Tool execution failed''))"

definition set_phase :: "nat \<Rightarrow> call_phase \<Rightarrow> batch_state \<Rightarrow> batch_state" where
  "set_phase i p st = st\<lparr>bs_tasks := (bs_tasks st)[i := (bs_tasks st ! i)\<lparr>task_phase := p\<rparr>]\<rparr>"

definition log_report :: "tool_call \<Rightarrow> report \<Rightarrow> batch_state \<Rightarrow> batch_state" where
  "log_report tc r st = st\<lparr>bs_reports := bs_reports st @ [(toolCallId tc, r)]\<rparr>"

text \<open>The synchronous part after a result, and after anything thrown.\<close>

definition after_result :: "batch_env \<Rightarrow> tool_call \<Rightarrow> executed_result \<Rightarrow> int \<Rightarrow> batch_state \<Rightarrow> batch_state" where
  "after_result env tc r ms st =
     (let b = (if er_approval r \<noteq> None then bs_breaker st
               else if success r then recordSuccess (breaker_key env tc) (bs_breaker st)
               else if correctable r then bs_breaker st
               else recordError (breaker_key env tc) (bs_breaker st));
          (stalled, counts) = (case er_watch r of
              None \<Rightarrow> (None, bs_counts st)
            | Some w \<Rightarrow> noteWatchProgress (num_of env) (bs_counts st) (countedName env tc) (tc_arguments tc) w)
      in log_report tc (Ended (er_output r) ms (success r) (inputSummary r))
           (st\<lparr>bs_toolMs := bs_toolMs st + ms, bs_breaker := b, bs_counts := counts,
              bs_nudge := (case stalled of None \<Rightarrow> bs_nudge st | Some n \<Rightarrow> Some (strongerNudge (bs_nudge st) (Inr n)))\<rparr>))"

definition after_error :: "batch_env \<Rightarrow> tool_call \<Rightarrow> tool_error \<Rightarrow> int \<Rightarrow> batch_state \<Rightarrow> batch_state" where
  "after_error env tc e ms st =
     log_report tc (Ended (error_output e) ms False (summarize_args env (tc_arguments tc)))
       (st\<lparr>bs_breaker := recordError (breaker_key env tc) (bs_breaker st), bs_toolMs := bs_toolMs st + ms\<rparr>)"

text \<open>The call the lane waits for: the last one before it that is sent in order.\<close>

definition predecessor :: "batch_env \<Rightarrow> nat \<Rightarrow> task list \<Rightarrow> task option" where
  "predecessor env i ts =
     (case filter (\<lambda>t. in_order env (tc_toolName (task_call t))) (take i ts) of
        [] \<Rightarrow> None | ys \<Rightarrow> Some (last ys))"

definition answered_as :: "tool_call \<Rightarrow> executed_result \<Rightarrow> executed_result" where
  "answered_as tc r = r\<lparr>er_callId := Some (toolCallId tc), er_toolName := Some (tc_toolName tc)\<rparr>"

text \<open>
  One step; \<open>None\<close> when the event cannot happen.  \<open>Sent\<close> ends the wait in the lane, with the answer
  of the Stop probe (a probe that is absent or fails answers \<open>False\<close>).
\<close>

fun batch_step :: "batch_env \<Rightarrow> batch_event \<Rightarrow> batch_state \<Rightarrow> batch_state option" where
  "batch_step env (Sent i stop) st =
     (if i < length (bs_tasks st) \<and> task_phase (bs_tasks st ! i) = Queued then
        (let tc = task_call (bs_tasks st ! i);
             go = set_phase i (if stop
                    then Fulfilled (failed_answer (summarize_args env) tc STOPPED_BEFORE_DISPATCH_OUTPUT)
                    else Announcing) st
         in case map_option task_phase (predecessor env i (bs_tasks st)) of
              None \<Rightarrow> Some go
            | Some (Fulfilled _) \<Rightarrow> Some go
            | Some (Rejected e) \<Rightarrow> Some (set_phase i (Rejected e) st)
            | _ \<Rightarrow> None)
      else None)"
| "batch_step env (Announced i failure) st =
     (if i < length (bs_tasks st) \<and> task_phase (bs_tasks st ! i) = Announcing then
        Some (log_report (task_call (bs_tasks st ! i)) Began
               (set_phase i (case failure of None \<Rightarrow> Running | Some e \<Rightarrow> Rejected e) st))
      else None)"
| "batch_step env (Settled i answer ms) st =
     (if i < length (bs_tasks st) \<and> task_phase (bs_tasks st ! i) = Running then
        (let t = bs_tasks st ! i; tc = task_call t
         in Some (case (case task_error t of Some e \<Rightarrow> Inl e | None \<Rightarrow> withTimeout env tc answer) of
              Inr r \<Rightarrow> after_result env tc r ms (set_phase i (Reporting r) st)
            | Inl e \<Rightarrow> after_error env tc e ms (set_phase i (ReportingFailure e) st)))
      else None)"
| "batch_step env (Told i failure ms) st =
     (if i < length (bs_tasks st) then
        (let tc = task_call (bs_tasks st ! i)
         in case task_phase (bs_tasks st ! i) of
              Reporting r \<Rightarrow>
                Some (case failure of
                    None \<Rightarrow> set_phase i (Fulfilled (answered_as tc r)) st
                  | Some e \<Rightarrow> after_error env tc e ms (set_phase i (ReportingFailure e) st))
            | _ \<Rightarrow> None)
      else None)"
| "batch_step env (ToldFailure i failure) st =
     (if i < length (bs_tasks st) then
        (let tc = task_call (bs_tasks st ! i)
         in case task_phase (bs_tasks st ! i) of
              ReportingFailure e \<Rightarrow>
                Some (set_phase i
                  (if te_fatal e then Rejected e
                   else (case failure of
                       None \<Rightarrow> Fulfilled (failed_answer (summarize_args env) tc (error_output e))
                     | Some callbackError \<Rightarrow> Rejected callbackError)) st)
            | _ \<Rightarrow> None)
      else None)"

section \<open>The batch\<close>

record batch_result =
  br_delivered :: bool
  br_loopNudge :: "nudge option"
  br_approval :: "approval_suspension option"
  br_cardId :: "jsstring option"
  br_results :: "executed_result list"
  br_toolMs :: int

fun is_settled :: "call_phase \<Rightarrow> bool" where
  "is_settled (Fulfilled _) = True"
| "is_settled (Rejected _) = True"
| "is_settled _ = False"

fun rejection_of :: "call_phase \<Rightarrow> tool_error option" where
  "rejection_of (Rejected e) = Some e"
| "rejection_of _ = None"

definition fill_slot :: "task \<Rightarrow> executed_result option list \<Rightarrow> executed_result option list" where
  "fill_slot t slots = (case task_phase t of Fulfilled r \<Rightarrow> slots[task_index t := Some r] | _ \<Rightarrow> slots)"

definition filled :: "'a option list \<Rightarrow> 'a list" where
  "filled slots = List.map_filter id slots"

definition first_some :: "('a \<Rightarrow> 'b option) \<Rightarrow> 'a list \<Rightarrow> 'b option" where
  "first_some f xs = (case List.map_filter f xs of [] \<Rightarrow> None | y # _ \<Rightarrow> Some y)"

definition conclude :: "executed_result option list \<Rightarrow> batch_state \<Rightarrow> tool_error + batch_result" where
  "conclude slots st =
     (let rejections = List.map_filter (\<lambda>t. rejection_of (task_phase t)) (bs_tasks st)
      in case List.find te_fatal rejections of
           Some e \<Rightarrow> Inl e
         | None \<Rightarrow>
             (case rejections of
                e # _ \<Rightarrow> Inl e
              | [] \<Rightarrow>
                  (let results = filled (fold fill_slot (bs_tasks st) slots)
                   in Inr \<lparr>br_delivered = (\<exists>r\<in>set results. er_delivered r), br_loopNudge = bs_nudge st,
                        br_approval = first_some er_approval results, br_cardId = first_some er_cardId results,
                        br_results = results, br_toolMs = bs_toolMs st\<rparr>)))"

text \<open>
  The start of a batch: the result when a call suspends it, with the counts it leaves; otherwise the
  slots already answered and the calls about to run.
\<close>

definition start_batch ::
    "batch_env \<Rightarrow> breaker \<Rightarrow> counts \<Rightarrow> tool_call list
      \<Rightarrow> (batch_result \<times> batch_state) + (executed_result option list \<times> batch_state)" where
  "start_batch env b counts tcs =
     (let a = admit_calls env b counts tcs;
          start = (\<lambda>tasks. \<lparr>bs_tasks = tasks, bs_breaker = b, bs_counts = ad_counts a, bs_nudge = ad_nudge a,
                     bs_toolMs = 0, bs_reports = []\<rparr>)
      in case prepare_calls env (ad_runnable a) [] of
           Inl (i, tc, approval) \<Rightarrow>
             Inl (\<lparr>br_delivered = False, br_loopNudge = ad_nudge a, br_approval = Some approval, br_cardId = None,
                 br_results = filled ((ad_slots a)[i := Some ((failed_answer (summarize_args env) tc
                     (js ''Tool execution is waiting for human approval.''))\<lparr>er_approval := Some approval\<rparr>)]),
                 br_toolMs = 0\<rparr>, start [])
         | Inr tasks \<Rightarrow> Inr (ad_slots a, start tasks))"

definition all_settled :: "batch_state \<Rightarrow> bool" where
  "all_settled st = list_all (\<lambda>t. is_settled (task_phase t)) (bs_tasks st)"

text \<open>
  The batch under a schedule: what it throws or returns, and the state it leaves; \<open>None\<close> when the
  schedule is not one of the batch, or stops before every call has settled.
\<close>

definition executeToolBatch ::
    "batch_env \<Rightarrow> breaker \<Rightarrow> counts \<Rightarrow> tool_call list \<Rightarrow> batch_event list
      \<Rightarrow> ((tool_error + batch_result) \<times> batch_state) option" where
  "executeToolBatch env b counts tcs schedule =
     (case start_batch env b counts tcs of
        Inl (suspended, st) \<Rightarrow> Some (Inr suspended, st)
      | Inr (slots, st) \<Rightarrow>
          (case run_steps (batch_step env) schedule st of
             None \<Rightarrow> None
           | Some st \<Rightarrow> if all_settled st then Some (conclude slots st, st) else None))"

section \<open>The breaker counts consecutive failures\<close>

text \<open>The breaker after a history of outcomes, the latest first; a success is \<open>True\<close>.\<close>

definition breaker_after :: "(jsstring \<times> bool) list \<Rightarrow> breaker \<Rightarrow> breaker" where
  "breaker_after h b = foldr (\<lambda>(k, ok). if ok then recordSuccess k else recordError k) h b"

lemma failures_record [simp]:
  "failures (recordSuccess k b) k' = (if k = k' then 0 else failures b k')"
  "failures (recordError k b) k' = (if k = k' then failures b k + 1 else failures b k')"
  by (auto simp: failures_def recordSuccess_def recordError_def)

lemma failures_empty [simp]: "failures Map.empty k = 0"
  by (simp add: failures_def)

lemma failures_after:
  "failures (breaker_after h Map.empty) k = length (takeWhile Not (map snd (filter (\<lambda>(k', _). k' = k) h)))"
  by (induction h) (auto simp: breaker_after_def)

text \<open>A key is disabled exactly when its last three outcomes are failures.\<close>

lemma trips_on_a_streak:
  "isTripped (breaker_after h Map.empty) k \<longleftrightarrow>
     (let outcomes = map snd (filter (\<lambda>(k', _). k' = k) h)
      in 3 \<le> length outcomes \<and> take 3 outcomes = [False, False, False])"
proof -
  have "3 \<le> length (takeWhile Not xs) \<longleftrightarrow> 3 \<le> length xs \<and> take 3 xs = [False, False, False]" for xs
    by (cases xs; cases "tl xs"; cases "tl (tl xs)") (auto simp: numeral_3_eq_3)
  then show ?thesis
    by (simp add: isTripped_def failures_after CIRCUIT_BREAKER_THRESHOLD_def)
qed

section \<open>How a call moves\<close>

text \<open>The phases a step can move a call to, whatever the environment answers.\<close>

definition names_call :: "tool_call \<Rightarrow> executed_result \<Rightarrow> bool" where
  "names_call tc r \<longleftrightarrow> er_callId r = Some (toolCallId tc) \<and> er_toolName r = Some (tc_toolName tc)"

lemma names_call [simp]: "names_call tc (failed_answer f tc out)" "names_call tc (answered_as tc r)"
  by (simp_all add: names_call_def failed_answer_def answered_as_def)

definition lane_before :: "batch_env \<Rightarrow> task list \<Rightarrow> nat \<Rightarrow> call_phase option" where
  "lane_before env ts i = map_option task_phase (predecessor env i ts)"

inductive moves :: "batch_env \<Rightarrow> task list \<Rightarrow> nat \<Rightarrow> call_phase \<Rightarrow> call_phase \<Rightarrow> bool"
  for env ts i where
  sent: "lane_before env ts i = None \<or> lane_before env ts i = Some (Fulfilled r) \<Longrightarrow>
    moves env ts i Queued Announcing"
| stopped: "lane_before env ts i = None \<or> lane_before env ts i = Some (Fulfilled r) \<Longrightarrow>
    names_call (task_call (ts ! i)) r' \<Longrightarrow> moves env ts i Queued (Fulfilled r')"
| passed_over: "lane_before env ts i = Some (Rejected e) \<Longrightarrow> moves env ts i Queued (Rejected e)"
| announced: "moves env ts i Announcing Running"
| start_failed: "moves env ts i Announcing (Rejected e)"
| succeeded: "moves env ts i Running (Reporting r)"
| failed: "moves env ts i Running (ReportingFailure e)"
| told: "names_call (task_call (ts ! i)) r' \<Longrightarrow> moves env ts i (Reporting r) (Fulfilled r')"
| told_badly: "moves env ts i (Reporting r) (ReportingFailure e)"
| failure_told: "names_call (task_call (ts ! i)) r' \<Longrightarrow> moves env ts i (ReportingFailure e) (Fulfilled r')"
| rejected: "moves env ts i (ReportingFailure e) (Rejected e')"

inductive_cases movesE: "moves env ts i p q"

definition move :: "nat \<Rightarrow> call_phase \<Rightarrow> task list \<Rightarrow> task list" where
  "move i p ts = ts[i := (ts ! i)\<lparr>task_phase := p\<rparr>]"

lemma bs_tasks_simps [simp]:
  "bs_tasks (set_phase i p st) = move i p (bs_tasks st)"
  "bs_tasks (log_report tc r st) = bs_tasks st"
  "bs_tasks (after_result env tc res ms st) = bs_tasks st"
  "bs_tasks (after_error env tc e ms st) = bs_tasks st"
  by (simp_all add: set_phase_def move_def log_report_def after_result_def after_error_def Let_def split_beta)

lemma map_update_same: "f y = f (xs ! i) \<Longrightarrow> map f (xs[i := y]) = map f xs"
  by (induction xs arbitrary: i) (auto split: nat.split)

lemma move_simps [simp]:
  "length (move i p ts) = length ts" "map task_call (move i p ts) = map task_call ts"
  "map task_index (move i p ts) = map task_index ts"
  by (simp_all add: move_def map_update_same)

lemma step_moves:
  assumes "batch_step env ev st = Some st'"
  shows "\<exists>i p. i < length (bs_tasks st) \<and> bs_tasks st' = move i p (bs_tasks st)
    \<and> moves env (bs_tasks st) i (task_phase (bs_tasks st ! i)) p"
proof (cases ev)
  case (Sent i stop)
  then show ?thesis using assms
    by (auto simp: Let_def lane_before_def [symmetric] split: if_splits option.splits call_phase.splits
        intro!: exI [of _ i] moves.intros)
      (rule exI, rule conjI, rule refl, rule moves.stopped; simp)+
next
  case (Announced i e)
  then show ?thesis using assms
    by (auto split: if_splits option.splits intro!: exI [of _ i] moves.intros)
next
  case (Settled i answer ms)
  then show ?thesis using assms
    by (auto simp: Let_def split: if_splits option.splits sum.splits intro!: exI [of _ i] moves.intros)
next
  case (Told i e ms)
  then show ?thesis using assms
    by (auto simp: Let_def split: if_splits option.splits call_phase.splits intro!: exI [of _ i] moves.intros)
      (rule exI, rule conjI, rule refl, rule moves.told; simp)
next
  case (ToldFailure i e)
  then show ?thesis using assms
    by (auto simp: Let_def split: if_splits option.splits call_phase.splits intro!: exI [of _ i] moves.intros)
      (rule exI, rule conjI, rule refl, rule moves.failure_told; simp)
qed


section \<open>Every batch can finish\<close>

fun phase_rank :: "call_phase \<Rightarrow> nat" where
  "phase_rank Queued = 5"
| "phase_rank Announcing = 4"
| "phase_rank Running = 3"
| "phase_rank (Reporting _) = 2"
| "phase_rank (ReportingFailure _) = 1"
| "phase_rank _ = 0"

definition batch_rank :: "batch_state \<Rightarrow> nat" where
  "batch_rank st = sum_list (map (\<lambda>t. phase_rank (task_phase t)) (bs_tasks st))"

lemma moves_lower: "moves env ts i p q \<Longrightarrow> phase_rank q < phase_rank p"
  by (induction rule: moves.induct) simp_all

lemma rank_move:
  "i < length ts \<Longrightarrow> phase_rank p < phase_rank (task_phase (ts ! i)) \<Longrightarrow>
     sum_list (map (\<lambda>t. phase_rank (task_phase t)) (move i p ts)) < sum_list (map (\<lambda>t. phase_rank (task_phase t)) ts)"
proof (induction ts arbitrary: i)
  case (Cons t ts)
  then show ?case by (cases i) (auto simp: move_def)
qed simp

interpretation batch_ranked: ranked_steps "batch_step env" batch_rank for env
proof
  fix e s s'
  assume "batch_step env e s = Some s'"
  from step_moves [OF this] show "batch_rank s' < batch_rank s"
    by (auto simp: batch_rank_def intro!: rank_move dest: moves_lower)
qed

text \<open>The first call that has not settled can always move: nothing before it holds the lane.\<close>

lemma predecessor_settled:
  assumes "\<forall>j<i. is_settled (task_phase (ts ! j))" "i \<le> length ts"
  shows "case lane_before env ts i of None \<Rightarrow> True | Some p \<Rightarrow> is_settled p"
proof -
  let ?ys = "filter (\<lambda>t. in_order env (tc_toolName (task_call t))) (take i ts)"
  have "is_settled (task_phase (last ?ys))" if "?ys \<noteq> []"
    using last_in_set [OF that] assms by (auto simp: in_set_conv_nth)
  then show ?thesis by (auto simp: lane_before_def predecessor_def split: list.splits)
qed

lemma first_open_call:
  assumes "\<not> all_settled st"
  obtains i where "i < length (bs_tasks st)" "\<not> is_settled (task_phase (bs_tasks st ! i))"
    "\<forall>j<i. is_settled (task_phase (bs_tasks st ! j))"
proof -
  let ?P = "\<lambda>i. i < length (bs_tasks st) \<and> \<not> is_settled (task_phase (bs_tasks st ! i))"
  have "\<exists>i. ?P i" using assms by (auto simp: all_settled_def list_all_length)
  then obtain i where "?P i" "\<forall>j<i. \<not> ?P j" using exists_least_iff [of ?P] by blast
  then show ?thesis using that by (meson order.strict_trans)
qed

lemma batch_moves:
  assumes "\<not> all_settled st"
  shows "\<exists>e st'. batch_step env e st = Some st'"
proof -
  obtain i where i: "i < length (bs_tasks st)" "\<not> is_settled (task_phase (bs_tasks st ! i))"
      "\<forall>j<i. is_settled (task_phase (bs_tasks st ! j))"
    using first_open_call [OF assms] .
  show ?thesis
  proof (cases "task_phase (bs_tasks st ! i)")
    case Queued
    have "case lane_before env (bs_tasks st) i of None \<Rightarrow> True | Some p \<Rightarrow> is_settled p"
      using i by (intro predecessor_settled) auto
    then have "batch_step env (Sent i False) st \<noteq> None"
      using i(1) Queued
      by (auto simp: Let_def lane_before_def [symmetric] split: option.splits call_phase.splits)
    then show ?thesis by blast
  next
    case Announcing
    then show ?thesis using i(1) by (intro exI [of _ "Announced i None"]) simp
  next
    case Running
    then show ?thesis using i(1) by (intro exI [of _ "Settled i TimesOut 0"]) (simp add: Let_def)
  next
    case (Reporting r)
    then show ?thesis using i(1) by (intro exI [of _ "Told i None 0"]) simp
  next
    case (ReportingFailure e)
    then show ?thesis using i(1) by (intro exI [of _ "ToldFailure i None"]) simp
  qed (use i(2) in simp_all)
qed

interpretation batch_live: live_steps "batch_step env" batch_rank all_settled "\<lambda>_. True" for env
  by unfold_locales (use batch_moves in blast)

section \<open>The lane\<close>

text \<open>The phases of the calls sent in order: answered ones, then at most one under way or rejected;
  behind it nothing has been sent.\<close>

fun lane_in_order :: "call_phase list \<Rightarrow> bool" where
  "lane_in_order [] = True"
| "lane_in_order (Fulfilled r # ps) = lane_in_order ps"
| "lane_in_order (Rejected e # ps) = list_all (\<lambda>p. p = Queued \<or> p = Rejected e) ps"
| "lane_in_order (p # ps) = list_all (\<lambda>p. p = Queued) ps"

definition lane :: "batch_env \<Rightarrow> task list \<Rightarrow> call_phase list" where
  "lane env ts = map task_phase (filter (\<lambda>t. in_order env (tc_toolName (task_call t))) ts)"

lemma lane_move:
  assumes "i < length ts"
  shows "if in_order env (tc_toolName (task_call (ts ! i)))
    then \<exists>A B. lane env ts = A @ task_phase (ts ! i) # B \<and> lane env (move i p ts) = A @ p # B
      \<and> lane_before env ts i = (if A = [] then None else Some (last A))
    else lane env (move i p ts) = lane env ts"
proof -
  have ts: "ts = take i ts @ ts ! i # drop (Suc i) ts"
    using assms by (rule id_take_nth_drop)
  have mv: "move i p ts = take i ts @ (ts ! i)\<lparr>task_phase := p\<rparr> # drop (Suc i) ts"
    using assms by (simp add: move_def upd_conv_take_nth_drop)
  have before: "lane_before env ts i = (if lane env (take i ts) = [] then None else Some (last (lane env (take i ts))))"
    by (auto simp: lane_before_def predecessor_def lane_def last_map split: list.splits)
  show ?thesis
    using arg_cong [OF ts, of "lane env"] arg_cong [OF mv, of "lane env"] before
    by (auto simp: lane_def)
qed

lemma lane_queued: "list_all (\<lambda>p. p = Queued) ps \<Longrightarrow> lane_in_order ps"
  by (cases ps) auto

lemma lane_open:
  "lane_in_order (A @ p # B) \<Longrightarrow> \<not> is_settled p \<Longrightarrow> p \<noteq> Queued \<or> A = [] \<or> (\<exists>r. Fulfilled r = last A) \<Longrightarrow>
     lane_in_order (A @ q # B)"
proof (induction A)
  case Nil
  then have "list_all (\<lambda>p. p = Queued) B" by (cases p) auto
  then show ?case by (cases q) (auto simp: lane_queued list.pred_mono_strong)
next
  case (Cons a A)
  then have "A \<noteq> [] \<Longrightarrow> p = Queued \<Longrightarrow> \<exists>r. Fulfilled r \<in> set A" by (metis last.simps last_in_set list.discI)
  with Cons show ?case by (cases a) (auto simp: list_all_iff split: if_splits)
qed

lemma lane_passed:
  "lane_in_order (A @ Queued # B) \<Longrightarrow> A \<noteq> [] \<Longrightarrow> last A = Rejected e \<Longrightarrow> lane_in_order (A @ Rejected e # B)"
proof (induction A)
  case (Cons a A)
  then have "A \<noteq> [] \<Longrightarrow> Rejected e \<in> set A" by (metis last.simps last_in_set)
  with Cons show ?case by (cases a) (auto simp: list_all_iff split: if_splits)
qed simp

lemma lane_kept:
  assumes "moves env ts i (task_phase (ts ! i)) p" "i < length ts" "lane_in_order (lane env ts)"
  shows "lane_in_order (lane env (move i p ts))"
proof (cases "in_order env (tc_toolName (task_call (ts ! i)))")
  case True
  then obtain A B where AB: "lane env ts = A @ task_phase (ts ! i) # B" "lane env (move i p ts) = A @ p # B"
      "lane_before env ts i = (if A = [] then None else Some (last A))"
    using lane_move [OF assms(2), of env p] by auto
  show ?thesis
    using assms(1,3) AB
    by (auto elim!: movesE intro: lane_open lane_passed lane_queued list.pred_mono_strong
        split: if_splits)
next
  case False
  then show ?thesis using lane_move [OF assms(2), of env p] assms(3) by simp
qed

interpretation batch_lane: kept_by_steps "batch_step env" "\<lambda>st. lane_in_order (lane env (bs_tasks st))" for env
proof
  fix st e st'
  assume "lane_in_order (lane env (bs_tasks st))" "batch_step env e st = Some st'"
  from step_moves [OF this(2)] this(1) show "lane_in_order (lane env (bs_tasks st'))"
    by (auto dest: lane_kept)
qed

section \<open>The answers\<close>

text \<open>Every slot holds an answer that names its call, or is a hole.\<close>

fun slot_names :: "tool_call \<Rightarrow> executed_result option \<Rightarrow> bool" where
  "slot_names tc None = True"
| "slot_names tc (Some r) = names_call tc r"

definition slots_name :: "tool_call list \<Rightarrow> executed_result option list \<Rightarrow> bool" where
  "slots_name = list_all2 slot_names"

definition holes :: "'a option list \<Rightarrow> nat list" where
  "holes slots = filter (\<lambda>j. slots ! j = None) [0..<length slots]"

lemma holes_snoc: "holes (slots @ [x]) = holes slots @ (case x of None \<Rightarrow> [length slots] | Some _ \<Rightarrow> [])"
proof -
  have "filter (\<lambda>j. (slots @ [x]) ! j = None) [0..<length slots] = holes slots"
    unfolding holes_def by (rule filter_cong) (auto simp: nth_append)
  then show ?thesis by (auto simp: holes_def split: option.split)
qed

definition admitted :: "tool_call list \<Rightarrow> admission \<Rightarrow> bool" where
  "admitted tcs a \<longleftrightarrow> slots_name tcs (ad_slots a) \<and> ad_runnable a = map (\<lambda>j. (j, tcs ! j)) (holes (ad_slots a))"

lemma holes_less: "j \<in> set (holes slots) \<Longrightarrow> j < length slots"
  by (simp add: holes_def)

lemma admit_call_admitted:
  assumes "admitted tcs a"
  shows "admitted (tcs @ [tc]) (admit_call env b tc a)"
proof -
  have len: "length (ad_slots a) = length tcs"
    using assms by (auto simp: admitted_def slots_name_def dest: list_all2_lengthD)
  have "map (\<lambda>j. (j, (tcs @ [tc]) ! j)) (holes (ad_slots a)) = ad_runnable a"
    using assms len by (auto simp: admitted_def nth_append dest: holes_less)
  then show ?thesis using assms len
    by (auto simp: admitted_def admit_call_def slots_name_def holes_snoc Let_def nth_append
        intro!: list_all2_appendI split: prod.split option.split)
qed

lemma admit_calls_admitted: "admitted tcs (admit_calls env b counts tcs)"
proof -
  have "admitted (ys @ tcs) (fold (admit_call env b) tcs a)" if "admitted ys a" for ys a
    using that
  proof (induction tcs arbitrary: ys a)
    case (Cons tc tcs)
    then show ?case using Cons.IH [OF admit_call_admitted [OF Cons.prems]] by simp
  qed simp
  from this [of "[]"] show ?thesis
    by (simp add: admit_calls_def admitted_def slots_name_def holes_def)
qed

lemma prepare_calls_tasks:
  "case prepare_calls env rs ts of
     Inl (i, tc, ap) \<Rightarrow> (i, tc) \<in> set rs
   | Inr ts' \<Rightarrow> map (\<lambda>t. (task_index t, task_call t)) ts' = map (\<lambda>t. (task_index t, task_call t)) ts @ rs
       \<and> (list_all (\<lambda>t. task_phase t = initial_phase env (task_call t)) ts
          \<longrightarrow> list_all (\<lambda>t. task_phase t = initial_phase env (task_call t)) ts')"
proof (induction rs arbitrary: ts)
  case (Cons r rs)
  obtain i tc where r: "r = (i, tc)" by (cases r)
  show ?case
    using Cons.IH [of "ts @ [\<lparr>task_index = i, task_call = tc, task_error = _, task_phase = initial_phase env tc\<rparr>]"]
    by (cases "prepare_call env i") (fastforce simp: r Let_def split: sum.splits)+
qed simp

text \<open>What holds of the calls of a batch while it runs.\<close>

definition tasks_ok :: "tool_call list \<Rightarrow> executed_result option list \<Rightarrow> task list \<Rightarrow> bool" where
  "tasks_ok tcs slots ts \<longleftrightarrow>
     map (\<lambda>t. (task_index t, task_call t)) ts = map (\<lambda>j. (j, tcs ! j)) (holes slots)
     \<and> (\<forall>t\<in>set ts. \<forall>r. task_phase t = Fulfilled r \<longrightarrow> names_call (task_call t) r)"

lemma move_tasks_ok:
  assumes "tasks_ok tcs slots ts" "i < length ts" "moves env ts i (task_phase (ts ! i)) p"
  shows "tasks_ok tcs slots (move i p ts)"
proof -
  have "map (\<lambda>t. (task_index t, task_call t)) (move i p ts) = map (\<lambda>t. (task_index t, task_call t)) ts"
    by (simp add: move_def map_update_same)
  moreover have "names_call (task_call (ts ! i)) r" if "p = Fulfilled r" for r
    using assms(3) that by (auto elim: movesE)
  ultimately show ?thesis using assms(1,2)
    by (auto simp: tasks_ok_def move_def dest!: set_update_subset_insert [THEN subsetD])
qed

interpretation batch_answers: kept_by_steps "batch_step env" "\<lambda>st. tasks_ok tcs slots (bs_tasks st)"
  for env tcs slots
proof
  fix st e st'
  assume "tasks_ok tcs slots (bs_tasks st)" "batch_step env e st = Some st'"
  from step_moves [OF this(2)] this(1) show "tasks_ok tcs slots (bs_tasks st')"
    by (auto dest: move_tasks_ok)
qed

text \<open>Filling the holes with what the calls answered.\<close>

lemma fill_names:
  "slots_name tcs slots \<Longrightarrow> \<forall>t\<in>set ts. task_index t < length tcs \<and> task_call t = tcs ! task_index t
      \<and> (\<forall>r. task_phase t = Fulfilled r \<longrightarrow> names_call (task_call t) r) \<Longrightarrow>
     slots_name tcs (fold fill_slot ts slots)"
proof (induction ts arbitrary: slots)
  case (Cons t ts)
  have "slots_name tcs (fill_slot t slots)"
    using Cons.prems
    by (auto simp: fill_slot_def slots_name_def list_all2_conv_all_nth nth_list_update split: call_phase.split)
  then show ?case using Cons.prems(2) by (auto intro!: Cons.IH)
qed simp

lemma length_fill [simp]: "length (fold fill_slot ts slots) = length slots"
  by (induction ts arbitrary: slots) (auto simp: fill_slot_def split: call_phase.split)

lemma fill_holes:
  "j < length slots \<Longrightarrow> fold fill_slot ts slots ! j = None \<Longrightarrow>
     slots ! j = None \<and> (\<forall>t\<in>set ts. task_index t = j \<longrightarrow> (\<forall>r. task_phase t \<noteq> Fulfilled r))"
proof (induction ts arbitrary: slots)
  case (Cons t ts)
  have "length (fill_slot t slots) = length slots"
    by (simp add: fill_slot_def split: call_phase.split)
  then have "fill_slot t slots ! j = None \<and> (\<forall>t\<in>set ts. task_index t = j \<longrightarrow> (\<forall>r. task_phase t \<noteq> Fulfilled r))"
    using Cons.prems Cons.IH [of "fill_slot t slots"] by simp
  then show ?case using Cons.prems(1)
    by (cases "task_index t = j") (auto simp: fill_slot_def split: call_phase.splits)
qed simp

lemma named_results:
  "slots_name tcs slots \<Longrightarrow>
     subseq (map (\<lambda>r. (er_callId r, er_toolName r)) (filled slots))
            (map (\<lambda>tc. (Some (toolCallId tc), Some (tc_toolName tc))) tcs)
     \<and> (None \<notin> set slots \<longrightarrow> map (\<lambda>r. (er_callId r, er_toolName r)) (filled slots)
          = map (\<lambda>tc. (Some (toolCallId tc), Some (tc_toolName tc))) tcs)"
  unfolding slots_name_def
  by (induction rule: list_all2_induct)
    (auto simp: filled_def List.map_filter_simps names_call_def split: option.splits)

section \<open>Batches from start to end\<close>

lemma start_batch_starts:
  assumes "start_batch env b counts tcs = Inr (slots, st)"
  shows "slots_name tcs slots" "tasks_ok tcs slots (bs_tasks st)" "lane_in_order (lane env (bs_tasks st))"
    "batch_rank st \<le> 5 * length tcs"
proof -
  define a where "a = admit_calls env b counts tcs"
  have adm: "slots_name tcs (ad_slots a)" "ad_runnable a = map (\<lambda>j. (j, tcs ! j)) (holes (ad_slots a))"
    using admit_calls_admitted [of tcs env b counts] by (simp_all add: a_def admitted_def)
  have st: "slots = ad_slots a" "prepare_calls env (ad_runnable a) [] = Inr (bs_tasks st)"
    using assms by (auto simp: start_batch_def a_def [symmetric] Let_def split: sum.splits)
  have ts: "map (\<lambda>t. (task_index t, task_call t)) (bs_tasks st) = map (\<lambda>j. (j, tcs ! j)) (holes slots)"
      "\<forall>t\<in>set (bs_tasks st). task_phase t = initial_phase env (task_call t)"
    using prepare_calls_tasks [where env = env and rs = "ad_runnable a" and ts = "[]", unfolded st(2)] adm(2)
    by (simp_all add: st(1) list_all_iff)
  show "slots_name tcs slots" using adm st by simp
  show "tasks_ok tcs slots (bs_tasks st)" using ts by (auto simp: tasks_ok_def initial_phase_def split: if_splits)
  have "list_all (\<lambda>p. p = Queued) (lane env (bs_tasks st))"
    using ts(2) by (auto simp: lane_def list_all_iff initial_phase_def)
  then show "lane_in_order (lane env (bs_tasks st))" by (rule lane_queued)
  have "length (bs_tasks st) \<le> length tcs"
    using arg_cong [OF ts(1), of length] length_filter_le [of _ "[0..<length slots]"] adm(1)
    by (auto simp: holes_def st slots_name_def dest: list_all2_lengthD)
  moreover have "batch_rank st \<le> 5 * length (bs_tasks st)"
    using sum_list_mono [of "bs_tasks st" "\<lambda>t. phase_rank (task_phase t)" "\<lambda>_. 5"] ts(2)
    by (simp add: batch_rank_def initial_phase_def sum_list_triv mult.commute)
  ultimately show "batch_rank st \<le> 5 * length tcs" by linarith
qed

lemma suspended_batch:
  assumes "start_batch env b counts tcs = Inl (r, st)"
  shows "subseq (map (\<lambda>r. (er_callId r, er_toolName r)) (br_results r))
           (map (\<lambda>tc. (Some (toolCallId tc), Some (tc_toolName tc))) tcs)" "br_approval r \<noteq> None"
proof -
  define a where "a = admit_calls env b counts tcs"
  have adm: "slots_name tcs (ad_slots a)" "ad_runnable a = map (\<lambda>j. (j, tcs ! j)) (holes (ad_slots a))"
    using admit_calls_admitted [of tcs env b counts] by (simp_all add: a_def admitted_def)
  obtain i tc ap where p: "prepare_calls env (ad_runnable a) [] = Inl (i, tc, ap)"
      "br_results r = filled ((ad_slots a)[i := Some ((failed_answer (summarize_args env) tc
         (js ''Tool execution is waiting for human approval.''))\<lparr>er_approval := Some ap\<rparr>)])"
      "br_approval r = Some ap"
    using assms by (auto simp: start_batch_def a_def [symmetric] Let_def split: sum.splits)
  have "i < length tcs \<and> tc = tcs ! i"
    using prepare_calls_tasks [where env = env and rs = "ad_runnable a" and ts = "[]", unfolded p(1)] adm
    by (auto simp: slots_name_def dest!: holes_less list_all2_lengthD)
  then have "slots_name tcs ((ad_slots a)[i := Some ((failed_answer (summarize_args env) tc out)\<lparr>er_approval := Some ap\<rparr>)])" for out
    using adm(1) by (auto simp: slots_name_def list_all2_conv_all_nth nth_list_update names_call_def failed_answer_def)
  then show "subseq (map (\<lambda>r. (er_callId r, er_toolName r)) (br_results r))
           (map (\<lambda>tc. (Some (toolCallId tc), Some (tc_toolName tc))) tcs)"
    using named_results by (simp add: p)
  show "br_approval r \<noteq> None" by (simp add: p)
qed

text \<open>A batch that settled without a rejection answered every call.\<close>

lemma settled_batch:
  assumes "tasks_ok tcs slots (bs_tasks st)" "slots_name tcs slots" "all_settled st" "conclude slots st = Inr r"
  shows "map (\<lambda>r. (er_callId r, er_toolName r)) (br_results r)
    = map (\<lambda>tc. (Some (toolCallId tc), Some (tc_toolName tc))) tcs"
proof -
  let ?slots = "fold fill_slot (bs_tasks st) slots"
  have len: "length slots = length tcs" using assms(2) by (auto simp: slots_name_def dest: list_all2_lengthD)
  have pairs: "set (map (\<lambda>t. (task_index t, task_call t)) (bs_tasks st)) = set (map (\<lambda>j. (j, tcs ! j)) (holes slots))"
    using assms(1) by (simp add: tasks_ok_def)
  have none: "List.map_filter (\<lambda>t. rejection_of (task_phase t)) (bs_tasks st) = []"
      and res: "br_results r = filled ?slots"
    using assms(4) by (auto simp: conclude_def Let_def split: option.splits list.splits)
  have ful: "\<exists>x. task_phase t = Fulfilled x" if "t \<in> set (bs_tasks st)" for t
    using that assms(3) none
    by (cases "task_phase t") (auto simp: all_settled_def list_all_iff map_filter_def filter_empty_conv)
  have "\<forall>t\<in>set (bs_tasks st). task_index t < length tcs \<and> task_call t = tcs ! task_index t"
  proof
    fix t assume "t \<in> set (bs_tasks st)"
    then have "(task_index t, task_call t) \<in> set (map (\<lambda>j. (j, tcs ! j)) (holes slots))"
      unfolding pairs [symmetric] by force
    then show "task_index t < length tcs \<and> task_call t = tcs ! task_index t"
      using len by (auto dest: holes_less)
  qed
  then have named: "slots_name tcs ?slots"
    using assms(1,2) by (intro fill_names) (auto simp: tasks_ok_def)
  have "?slots ! j \<noteq> None" if "j < length slots" for j
  proof
    assume n: "?slots ! j = None"
    from fill_holes [OF that n] have h: "slots ! j = None"
      "\<forall>t\<in>set (bs_tasks st). task_index t = j \<longrightarrow> (\<forall>x. task_phase t \<noteq> Fulfilled x)" by auto
    have "j \<in> set (holes slots)" using that h(1) by (simp add: holes_def)
    then have "(j, tcs ! j) \<in> set (map (\<lambda>t. (task_index t, task_call t)) (bs_tasks st))" unfolding pairs by auto
    then show False using h(2) ful by fastforce
  qed
  then have "None \<notin> set ?slots" by (auto simp: in_set_conv_nth)
  then show ?thesis using named_results [OF named] res by simp
qed

lemma conclude_throws:
  assumes "conclude slots st = Inl e"
  shows "e \<in> set (List.map_filter (\<lambda>t. rejection_of (task_phase t)) (bs_tasks st))"
    "te_fatal e = list_ex te_fatal (List.map_filter (\<lambda>t. rejection_of (task_phase t)) (bs_tasks st))"
proof -
  define rs where "rs = List.map_filter (\<lambda>t. rejection_of (task_phase t)) (bs_tasks st)"
  have "e \<in> set rs \<and> te_fatal e = list_ex te_fatal rs"
  proof (cases "List.find te_fatal rs")
    case None
    then have "\<forall>x\<in>set rs. \<not> te_fatal x" by (auto simp: find_None_iff)
    moreover have "e \<in> set rs"
      using assms None by (simp add: conclude_def Let_def rs_def [symmetric] split: list.splits)
    ultimately show ?thesis by (auto simp: list_ex_iff)
  next
    case (Some x)
    then have "x \<in> set rs \<and> te_fatal x" by (induction rs) (auto split: if_splits)
    moreover have "e = x"
      using assms Some by (simp add: conclude_def Let_def rs_def [symmetric])
    ultimately show ?thesis by (auto simp: list_ex_iff)
  qed
  then show "e \<in> set (List.map_filter (\<lambda>t. rejection_of (task_phase t)) (bs_tasks st))"
    "te_fatal e = list_ex te_fatal (List.map_filter (\<lambda>t. rejection_of (task_phase t)) (bs_tasks st))"
    by (simp_all add: rs_def)
qed

lemma batch_outcome:
  "case executeToolBatch env b counts tcs schedule of
     None \<Rightarrow> True
   | Some (Inr r, st) \<Rightarrow>
       (let answered = map (\<lambda>r. (er_callId r, er_toolName r)) (br_results r);
            asked = map (\<lambda>tc. (Some (toolCallId tc), Some (tc_toolName tc))) tcs
        in if length answered = length asked then answered = asked
           else br_approval r \<noteq> None \<and> subseq answered asked)
   | Some (Inl e, st) \<Rightarrow>
       (let rejections = List.map_filter (\<lambda>t. rejection_of (task_phase t)) (bs_tasks st)
        in e \<in> set rejections \<and> te_fatal e = list_ex te_fatal rejections)"
proof (cases "start_batch env b counts tcs")
  case (Inl p)
  then obtain r st where "start_batch env b counts tcs = Inl (r, st)" by (cases p) simp
  then show ?thesis using suspended_batch [of env b counts tcs r st]
    by (auto simp: executeToolBatch_def Let_def dest: subseq_same_length)
next
  case (Inr p)
  then obtain slots st0 where start: "start_batch env b counts tcs = Inr (slots, st0)" by (cases p) simp
  note s = start_batch_starts [OF start]
  show ?thesis
  proof (cases "run_steps (batch_step env) schedule st0")
    case (Some st)
    from batch_answers.run_keeps [OF s(2) this] have "tasks_ok tcs slots (bs_tasks st)" .
    from settled_batch [OF this s(1)] show ?thesis
      using start Some conclude_throws [of slots st]
      by (auto simp: executeToolBatch_def Let_def split: sum.split)
  qed (simp add: executeToolBatch_def start)
qed

text \<open>
  A call that succeeded is answered as failed when the end callback fails once: the \<open>catch\<close> branch
  counts an error on its breaker key, counts its time a second time, asks the callback again and,
  when that succeeds, answers with the callback's message.  The batch is not thrown.
\<close>

lemma success_with_failed_report:
  assumes "i < length (bs_tasks st)" "task_phase (bs_tasks st ! i) = Running" "task_error (bs_tasks st ! i) = None"
    "\<not> te_fatal e"
  shows "\<exists>st'. run_steps (batch_step env) [Settled i (Answers r) ms, Told i (Some e) ms', ToldFailure i None] st = Some st'
    \<and> task_phase (bs_tasks st' ! i)
      = Fulfilled (failed_answer (summarize_args env) (task_call (bs_tasks st ! i)) (error_output e))
    \<and> bs_toolMs st' = bs_toolMs st + ms + ms' \<and> failures (bs_breaker st') (breaker_key env (task_call (bs_tasks st ! i))) > 0"
proof -
  have [simp]: "bs_toolMs (set_phase j p t) = bs_toolMs t" "bs_breaker (set_phase j p t) = bs_breaker t"
    "bs_toolMs (after_result env tc x m t) = bs_toolMs t + m" "bs_toolMs (after_error env tc e m t) = bs_toolMs t + m"
    "bs_breaker (after_error env tc e m t) = recordError (breaker_key env tc) (bs_breaker t)" for j p t tc x m
    by (simp_all add: set_phase_def after_result_def after_error_def log_report_def Let_def split_beta)
  have [simp]: "move i p ts ! i = (ts ! i)\<lparr>task_phase := p\<rparr>" if "i < length ts" for p ts
    using that by (simp add: move_def)
  show ?thesis using assms by (simp add: Let_def withTimeout_def)
qed

section \<open>Properties\<close>

text \<open>C2: Every call of a batch is answered exactly once, in the order the model asked.  Whatever the
  calls, the preparations, the breaker, the counts and the schedule: a batch that returns has one
  result per call, in call order, each with the id and the name of its call, unless a call waits
  for approval, and then the results are a subsequence of that list and the approval is returned.
  A batch that throws throws what one of its calls was rejected with, and a fatal error when any
  call was rejected with one.\<close>

theorem every_call_answered_once:
  "case executeToolBatch env b counts tcs schedule of
     None \<Rightarrow> True
   | Some (Inr r, st) \<Rightarrow>
       (let answered = map (\<lambda>r. (er_callId r, er_toolName r)) (br_results r);
            asked = map (\<lambda>tc. (Some (toolCallId tc), Some (tc_toolName tc))) tcs
        in if length answered = length asked then answered = asked
           else br_approval r \<noteq> None \<and> subseq answered asked)
   | Some (Inl e, st) \<Rightarrow>
       (let rejections = List.map_filter (\<lambda>t. rejection_of (task_phase t)) (bs_tasks st)
        in e \<in> set rejections \<and> te_fatal e = list_ex te_fatal rejections)"
  by (rule batch_outcome)

text \<open>C5: Calls of the executor's lane are sent one at a time, in call order.  In every state of a
  running batch, under any schedule, the lane is a run of answered calls, then at most one that is
  under way or rejected; behind it no call has been sent, and behind a rejected one none ever is.\<close>

theorem lane_keeps_call_order:
  "case start_batch env b counts tcs of
     Inl _ \<Rightarrow> True
   | Inr (slots, st0) \<Rightarrow>
       (case run_steps (batch_step env) schedule st0 of
          None \<Rightarrow> True | Some st \<Rightarrow> lane_in_order (lane env (bs_tasks st)))"
  using start_batch_starts(3) [of env b counts tcs] batch_lane.run_keeps [of env]
  by (auto split: sum.split option.split)

text \<open>C6: A batch never deadlocks and never runs on: a schedule has at most five steps per call, and
  whatever has happened so far, the batch can still be brought to its end.\<close>

theorem batch_can_always_finish:
  "case start_batch env b counts tcs of
     Inl _ \<Rightarrow> True
   | Inr (slots, st0) \<Rightarrow>
       (case run_steps (batch_step env) schedule st0 of
          None \<Rightarrow> True
        | Some st \<Rightarrow> length schedule \<le> 5 * length tcs
            \<and> (\<exists>rest. executeToolBatch env b counts tcs (schedule @ rest) \<noteq> None))"
proof (cases "start_batch env b counts tcs")
  case (Inr p)
  then obtain slots st0 where start: "start_batch env b counts tcs = Inr (slots, st0)" by (cases p) simp
  show ?thesis
  proof (cases "run_steps (batch_step env) schedule st0")
    case (Some st)
    obtain rest st' where "run_steps (batch_step env) rest st = Some st'" "all_settled st'"
      using batch_live.can_finish [where s = st and env = env] by auto
    then have "executeToolBatch env b counts tcs (schedule @ rest) \<noteq> None"
      using start Some by (simp add: executeToolBatch_def run_steps_append)
    moreover have "length schedule \<le> 5 * length tcs"
      using batch_ranked.run_is_bounded [OF Some] start_batch_starts(4) [OF start] by linarith
    ultimately show ?thesis using start Some by auto
  qed (simp add: start)
qed simp

end
