(* ===== verification/AgentLoop.thy ===== *)
theory AgentLoop
  imports RetryPolicy LoopCompletion
begin

text \<open>
  The agentic loop (\<open>runAgenticLoop\<close> of \<open>worker/src/run/agentic-loop.ts\<close>): one pass of its
  \<open>while (true)\<close> as a function of the loop's state and of what the environment answers during the
  pass, and a run as its passes one after another.

  The state holds every variable the loop keeps across passes.  The answers of a pass are the
  clock, the probes, the compaction, the model, the review and the schedule of the tool batch.  A
  batch that has not settled when the drain's grace runs out, and an inference cut by it, end in
  \<open>RunDrained\<close>.  Callbacks are recorded as actions; one that throws is not modelled, and the
  provenance marks of \<open>coverProviderInputComponent\<close> do not change a message.
\<close>

section \<open>Configuration, answers and state\<close>

record loop_config =
  lc_budget :: budget_limits
  lc_upper :: "jsstring \<Rightarrow> jsstring"
  lc_lower :: "jsstring \<Rightarrow> jsstring"
  lc_num :: "jsstring \<Rightarrow> jsstring"
  lc_redact :: "jsstring \<Rightarrow> jsstring"
  lc_weight :: "rat option"
  lc_tools :: "tool_descriptor list"
  lc_plan :: "context_plan option"
  lc_maxOutputTokens :: "int option"
  lc_windDownInstruction :: "jsstring option"
  lc_hasCompactor :: bool
  lc_inOrder :: "jsstring \<Rightarrow> bool"
  lc_normalize :: "jsstring \<Rightarrow> jsstring"
  lc_summarize :: "json \<Rightarrow> jsstring"
  lc_timeoutFor :: "jsstring \<Rightarrow> nat option"
  lc_timeoutError :: "jsstring \<Rightarrow> jsstring \<Rightarrow> tool_error option"

definition cacheReadWeight :: "loop_config \<Rightarrow> rat" where
  "cacheReadWeight cfg = (case lc_weight cfg of Some w \<Rightarrow> w | None \<Rightarrow> DEFAULT_CACHE_READ_WEIGHT)"

definition schema_tokens :: "loop_config \<Rightarrow> int" where
  "schema_tokens cfg = int (estimateToolSchemaTokens (lc_tools cfg))"

definition contextPlan :: "loop_config \<Rightarrow> context_plan" where
  "contextPlan cfg = (case lc_plan cfg of Some p \<Rightarrow> p
     | None \<Rightarrow> buildContextPlan (lc_lower cfg) None (schema_tokens cfg))"

text \<open>A compaction's answer: the rebuilt transcript, unless it failed or declined, and what it spent.\<close>

record compaction_answer =
  co_messages :: "provider_message list option"
  co_invocations :: "invocation list"

text \<open>The clock of a pass is read at up to seven points, numbered in the order of the code.\<close>

record pass_answers =
  pa_drained :: bool
  pa_cancelled :: bool
  pa_elapsed :: "nat \<Rightarrow> int"
  pa_blocked :: bool
  pa_compact :: compaction_answer
  pa_forcedCompact :: compaction_answer
  pa_infer :: "nat \<Rightarrow> provider_message list \<Rightarrow> thrown + inference_result"
  pa_drainedInference :: bool
  pa_completion :: completion_answers
  pa_drainedCompletion :: bool
  pa_prepare :: "nat \<Rightarrow> preparation"
  pa_schedule :: "batch_event list"
  pa_cancelledAfter :: bool
  pa_confirm :: bool

text \<open>A checkpoint, and what the loop has done.  Of a checkpoint the elapsed time and the recorded tool
  results are left out: the clock is an answer of the environment, and the recorder wraps the tools,
  which are answers too.  An inference is recorded with the invocations paid for and the transcript
  as they are when the model is asked.\<close>

record resume_state =
  rs_messages :: "provider_message list"
  rs_invocations :: "invocation list"
  rs_iterations :: int
  rs_followUps :: nat
  rs_toolCallsUsed :: int
  rs_toolMs :: int
  rs_woundDown :: bool
  rs_retriesUsed :: int
  rs_compactionAttempts :: nat
  rs_compactionLast :: "int option"
  rs_budgetRecovery :: bool
  rs_finalization :: saved_finalization
  rs_lastText :: jsstring
  rs_counts :: counts
  rs_failures :: breaker
  rs_pending :: "tool_call list option"

datatype loop_action = WoundDown | Compacted int | Checkpointed resume_state
  | AskedModel "invocation list" "provider_message list" output_admission | RanBatch "tool_call list" | BudgetExhausted exhaustion
  | IterationStarted int | TextDelta jsstring

record loop_state =
  ls_messages :: "provider_message list"
  ls_invocations :: "invocation list"
  ls_counts :: counts
  ls_breaker :: breaker
  ls_retry :: retry_budget
  ls_governor :: governor
  ls_iterations :: int
  ls_followUps :: nat
  ls_toolCallsUsed :: int
  ls_toolMs :: int
  ls_spend :: spend_totals
  ls_woundDown :: bool
  ls_delivered :: bool
  ls_resumedCalls :: "tool_call list option"
  ls_preparedPending :: bool
  ls_compactionAttempts :: nat
  ls_compactionLast :: "int option"
  ls_budgetRecovery :: bool
  ls_finalization :: finalization_state
  ls_lastText :: jsstring
  ls_inFlight :: "tool_call list option"
  ls_boundaryCounts :: counts
  ls_boundaryFailures :: breaker
  ls_actions :: "loop_action list"

section \<open>Checkpoints\<close>

definition save_finalization :: "finalization_state \<Rightarrow> saved_finalization" where
  "save_finalization f = \<lparr>lengthFinalizationPending = Some (fs_pending f), lengthFinalizationUsed = Some (fs_used f),
     outputFinalizationPending = Some (fs_pending f), outputFinalizationNoTools = Some (fs_noTools f),
     outputFinalizationReason = fs_reason f, outputFinalizationUsed = Some (fs_used f)\<rparr>"

definition snapshot :: "loop_state \<Rightarrow> resume_state" where
  "snapshot st = \<lparr>rs_messages = ls_messages st, rs_invocations = ls_invocations st, rs_iterations = ls_iterations st,
     rs_followUps = ls_followUps st, rs_toolCallsUsed = ls_toolCallsUsed st, rs_toolMs = ls_toolMs st,
     rs_woundDown = ls_woundDown st, rs_retriesUsed = rb_total (ls_retry st) - rb_remaining (ls_retry st),
     rs_compactionAttempts = ls_compactionAttempts st, rs_compactionLast = ls_compactionLast st,
     rs_budgetRecovery = ls_budgetRecovery st, rs_finalization = save_finalization (ls_finalization st),
     rs_lastText = ls_lastText st, rs_counts = ls_boundaryCounts st, rs_failures = ls_boundaryFailures st,
     rs_pending = ls_inFlight st\<rparr>"

definition record_action :: "loop_action \<Rightarrow> loop_state \<Rightarrow> loop_state" where
  "record_action a st = st\<lparr>ls_actions := ls_actions st @ [a]\<rparr>"

definition checkpoint :: "loop_state \<Rightarrow> loop_state" where
  "checkpoint st = record_action (Checkpointed (snapshot st)) st"

definition markDispatchBoundary :: "tool_call list option \<Rightarrow> loop_state \<Rightarrow> loop_state" where
  "markDispatchBoundary pending st = st\<lparr>ls_inFlight := pending, ls_boundaryCounts := ls_counts st,
     ls_boundaryFailures := ls_breaker st\<rparr>"

definition push_messages :: "provider_message list \<Rightarrow> loop_state \<Rightarrow> loop_state" where
  "push_messages ms st = st\<lparr>ls_messages := ls_messages st @ ms\<rparr>"

definition meter :: "loop_config \<Rightarrow> loop_state \<Rightarrow> loop_state" where
  "meter cfg st = st\<lparr>ls_spend := meterSpend (lc_upper cfg) (ls_invocations st) (cacheReadWeight cfg)\<rparr>"

section \<open>Starting\<close>

definition RETRY_ALLOWANCE :: int where "RETRY_ALLOWANCE = 6"

text \<open>A fresh run, with the calls a pressed card button prepared, if any.  \<open>sink\<close> holds the
  invocations already metered; \<open>legacy\<close> is \<open>normalizeLegacyCompactionNotes\<close>.\<close>

definition start_loop ::
    "loop_config \<Rightarrow> (provider_message list \<Rightarrow> provider_message list) \<Rightarrow> provider_message list \<Rightarrow> invocation list
      \<Rightarrow> tool_call list option \<Rightarrow> loop_state" where
  "start_loop cfg legacy initial sink prepared =
     (let ms = map (redactMessageContent (lc_redact cfg)) (legacy initial);
          calls = (case prepared of Some (tc # tcs) \<Rightarrow> Some (tc # tcs) | _ \<Rightarrow> None)
      in \<lparr>ls_messages = ms @ (case calls of None \<Rightarrow> [] | Some tcs \<Rightarrow> [AssistantMessage None (Some tcs) None]),
          ls_invocations = sink, ls_counts = Map.empty, ls_breaker = Map.empty,
          ls_retry = createRetryBudget RETRY_ALLOWANCE, ls_governor = createCompactionGovernor,
          ls_iterations = 0, ls_followUps = 0, ls_toolCallsUsed = 0, ls_toolMs = 0,
          ls_spend = meterSpend (lc_upper cfg) sink (cacheReadWeight cfg), ls_woundDown = False, ls_delivered = False,
          ls_resumedCalls = calls, ls_preparedPending = (calls \<noteq> None), ls_compactionAttempts = 0,
          ls_compactionLast = None, ls_budgetRecovery = False,
          ls_finalization = \<lparr>fs_noTools = True, fs_pending = False, fs_reason = None, fs_used = False\<rparr>,
          ls_lastText = [], ls_inFlight = None, ls_boundaryCounts = Map.empty, ls_boundaryFailures = Map.empty,
          ls_actions = []\<rparr>)"

text \<open>A run resumed from a checkpoint.  \<open>entries\<close> lists the saved loop counts.\<close>

definition resume_loop ::
    "loop_config \<Rightarrow> (provider_message list \<Rightarrow> provider_message list) \<Rightarrow> (jsstring \<times> int) list \<Rightarrow> invocation list
      \<Rightarrow> resume_state \<Rightarrow> loop_state" where
  "resume_loop cfg legacy entries sink rs =
     (let counts = restoreLoopCounts (lc_num cfg) (Some entries); budget = createRetryBudget RETRY_ALLOWANCE;
          invocations = sink @ rs_invocations rs
      in \<lparr>ls_messages = map (redactMessageContent (lc_redact cfg)) (legacy (rs_messages rs)),
          ls_invocations = invocations, ls_counts = counts, ls_breaker = rs_failures rs,
          ls_retry = budget\<lparr>rb_remaining := max 0 (rb_total budget - rs_retriesUsed rs)\<rparr>,
          ls_governor = restoreCompactionGovernor (rs_compactionAttempts rs) (rs_compactionLast rs) createCompactionGovernor,
          ls_iterations = rs_iterations rs, ls_followUps = rs_followUps rs, ls_toolCallsUsed = rs_toolCallsUsed rs,
          ls_toolMs = rs_toolMs rs, ls_spend = meterSpend (lc_upper cfg) invocations (cacheReadWeight cfg),
          ls_woundDown = rs_woundDown rs, ls_delivered = False, ls_resumedCalls = rs_pending rs,
          ls_preparedPending = False, ls_compactionAttempts = rs_compactionAttempts rs,
          ls_compactionLast = rs_compactionLast rs, ls_budgetRecovery = rs_budgetRecovery rs,
          ls_finalization = restoreOutputFinalizationState (rs_finalization rs), ls_lastText = rs_lastText rs,
          ls_inFlight = None, ls_boundaryCounts = counts, ls_boundaryFailures = rs_failures rs, ls_actions = []\<rparr>)"

section \<open>How a pass ends\<close>

record loop_result =
  lr_exhausted :: "exhaustion option"
  lr_finalText :: jsstring
  lr_cancelled :: bool
  lr_approval :: "approval_suspension option"
  lr_cardId :: "jsstring option"
  lr_incomplete :: "incomplete_reason option"
  lr_preparedCompleted :: bool

datatype run_failure = RunDrained | ToolFailure tool_error | InferenceFailure thrown | OverflowFailure

datatype pass_end = NextPass | Finished loop_result | Failed run_failure

type_synonym 'a stage = "pass_end \<times> loop_state + 'a"

definition finish :: "loop_state \<Rightarrow> loop_result" where
  "finish st = \<lparr>lr_exhausted = None, lr_finalText = ls_lastText st, lr_cancelled = False, lr_approval = None,
     lr_cardId = None, lr_incomplete = None, lr_preparedCompleted = False\<rparr>"

definition stop :: "exhaustion \<Rightarrow> loop_state \<Rightarrow> pass_end \<times> loop_state" where
  "stop reason st = (Finished ((finish st)\<lparr>lr_exhausted := Some reason\<rparr>), record_action (BudgetExhausted reason) st)"

definition cancelled :: "loop_state \<Rightarrow> pass_end \<times> loop_state" where
  "cancelled st = (Finished ((finish st)\<lparr>lr_cancelled := True\<rparr>), st)"

definition stop_on :: "exhaustion option \<Rightarrow> loop_state \<Rightarrow> loop_state stage" where
  "stop_on reason st = (case reason of Some r \<Rightarrow> Inl (stop r st) | None \<Rightarrow> Inr st)"

definition loop_usage :: "loop_state \<Rightarrow> int \<Rightarrow> budget_usage" where
  "loop_usage st elapsed = usage_of (ls_spend st) elapsed (ls_iterations st) (ls_toolCallsUsed st)"

text \<open>A probe of the elapsed time alone.\<close>

definition time_usage :: "loop_state \<Rightarrow> int \<Rightarrow> budget_usage" where
  "time_usage st elapsed = usage_of (ls_spend st) elapsed 0 (ls_toolCallsUsed st)"

section \<open>Before the model is asked\<close>

definition maintainContext ::
    "loop_config \<Rightarrow> compaction_answer \<Rightarrow> int \<Rightarrow> bool \<Rightarrow> int \<Rightarrow> loop_state \<Rightarrow> loop_state" where
  "maintainContext cfg answer iteration force target st =
     (let transcriptTokens = int (estimateMessagesTokens (ls_messages st))
      in if \<not> force \<and> \<not> shouldAttempt (contextPlan cfg) iteration transcriptTokens (ls_governor st) then st
         else if force \<and> ls_compactionAttempts st \<ge> MAX_COMPACTIONS_PER_RUN then st
         else (let st = checkpoint (record_action (Compacted iteration)
                     (st\<lparr>ls_governor := recordAttempt iteration (ls_governor st),
                         ls_compactionAttempts := ls_compactionAttempts st + 1,
                         ls_compactionLast := Some iteration\<rparr>))
               in st\<lparr>ls_invocations := ls_invocations st @ (if lc_hasCompactor cfg then co_invocations answer else []),
                     ls_messages := (case if lc_hasCompactor cfg then co_messages answer else None of
                        Some ms \<Rightarrow> ms | None \<Rightarrow> trimConversationToFit (ls_messages st) target 0)\<rparr>))"

text \<open>The drain, a cancellation, the claim of a resumed batch, the wind-down, and the stops.\<close>

definition wind_down :: "loop_config \<Rightarrow> pass_answers \<Rightarrow> bool \<Rightarrow> loop_state \<Rightarrow> loop_state" where
  "wind_down cfg ans reentered st =
     (case lc_windDownInstruction cfg of
        None \<Rightarrow> st
      | Some instruction \<Rightarrow>
          if \<not> reentered \<and> instruction \<noteq> [] \<and> \<not> ls_woundDown st
             \<and> shouldWindDown (lc_budget cfg) (loop_usage st (pa_elapsed ans 0))
          then record_action WoundDown (push_messages [SystemMessage instruction] (st\<lparr>ls_woundDown := True\<rparr>)) else st)"

definition open_pass ::
    "loop_config \<Rightarrow> pass_answers \<Rightarrow> loop_state \<Rightarrow> (tool_call list option \<times> loop_state) stage" where
  "open_pass cfg ans st =
     (if pa_drained ans then Inl (Failed RunDrained, st)
      else if pa_cancelled ans then Inl (cancelled st)
      else (let reentered = ls_resumedCalls st;
                st = wind_down cfg ans (reentered \<noteq> None) (st\<lparr>ls_resumedCalls := None\<rparr>)
            in bindE (stop_on (stopBeforeIteration (lc_budget cfg) (loop_usage st (pa_elapsed ans 1))) st) (\<lambda>st.
               if pa_blocked ans then Inl (stop OrgBudgetBlockedReason st) else Inr (reentered, st))))"

text \<open>Spend and time again, after a compaction may have been metered.\<close>

definition recheck :: "loop_config \<Rightarrow> int \<Rightarrow> loop_state \<Rightarrow> loop_state stage" where
  "recheck cfg elapsed st =
     bindE (stop_on (stopAfterInference (lc_budget cfg) (loop_usage st 0)) st) (\<lambda>st.
       stop_on (stopBeforeIteration (lc_budget cfg) (time_usage st elapsed)) st)"

definition admit :: "loop_config \<Rightarrow> loop_state \<Rightarrow> output_admission" where
  "admit cfg st =
     resolveOutputAdmission (availableTokens (contextPlan cfg)) (targetTokens (contextPlan cfg))
       (effectiveTokensUsed (ls_spend st)) (lc_maxOutputTokens cfg) (maxTokens (lc_budget cfg))
       (int (estimateMessagesTokens (ls_messages st)))
       (if fs_pending (ls_finalization st) \<and> fs_noTools (ls_finalization st) then 0 else schema_tokens cfg)"

definition must_compact :: "loop_config \<Rightarrow> output_admission \<Rightarrow> loop_state \<Rightarrow> bool" where
  "must_compact cfg adm st \<longleftrightarrow> requiresCompaction adm
     \<and> (requestedOutputTokens adm \<noteq> Some 0 \<or> lc_hasCompactor cfg)
     \<and> (requestedOutputTokens adm \<noteq> Some 0 \<or> \<not> ls_budgetRecovery st)
     \<and> ls_compactionLast st \<noteq> Some (ls_iterations st)"

definition admit_call_of_model ::
    "loop_config \<Rightarrow> pass_answers \<Rightarrow> loop_state \<Rightarrow> (output_admission \<times> loop_state) stage" where
  "admit_call_of_model cfg ans st =
     (let adm = admit cfg st
      in if must_compact cfg adm st then
           (let st = (if requestedOutputTokens adm = Some 0 then st\<lparr>ls_budgetRecovery := True\<rparr> else st);
                st = maintainContext cfg (pa_forcedCompact ans) (ls_iterations st) True
                  (case compactionTargetTokens adm of Some t \<Rightarrow> t | None \<Rightarrow> targetTokens (contextPlan cfg)) st;
                st = checkpoint (meter cfg st)
            in bindE (recheck cfg (pa_elapsed ans 3) st) (\<lambda>st. Inr (admit cfg st, st)))
         else Inr (adm, st))"

definition prepare_inference ::
    "loop_config \<Rightarrow> pass_answers \<Rightarrow> loop_state \<Rightarrow> (output_admission \<times> loop_state) stage" where
  "prepare_inference cfg ans st =
     (let i = ls_iterations st + 1;
          st = record_action (IterationStarted i) (st\<lparr>ls_iterations := i\<rparr>);
          st = meter cfg (maintainContext cfg (pa_compact ans) i False (targetTokens (contextPlan cfg)) st)
      in bindE (recheck cfg (pa_elapsed ans 2) st) (\<lambda>st.
         bindE (admit_call_of_model cfg ans st) (\<lambda>(adm, st).
           if (case requestedOutputTokens adm of None \<Rightarrow> False | Some n \<Rightarrow> n < 1) then Inl (stop TokensReason st)
           else (let st = checkpoint (markDispatchBoundary None st)
                 in bindE (stop_on (stopBeforeInference (lc_budget cfg) (effectiveTokensUsed (ls_spend st))
                      (projectedInputTokens adm) (requestedOutputTokens adm)) st) (\<lambda>st. Inr (adm, st))))))"

section \<open>The model's answer\<close>

definition surfaced_result :: "jsstring \<Rightarrow> inference_result" where
  "surfaced_result m = \<lparr>ir_finishReason = Some (js ''error''), ir_invocations = [], ir_outputText = m,
     ir_reasoning = None, ir_toolCalls = []\<rparr>"

definition call_model ::
    "loop_config \<Rightarrow> pass_answers \<Rightarrow> output_admission \<Rightarrow> loop_state \<Rightarrow> (inference_result \<times> loop_state) stage" where
  "call_model cfg ans adm st =
     (let r = callInferenceWithRetry (lc_lower cfg) (pa_infer ans) (targetTokens (contextPlan cfg)) (ls_messages st)
                (ls_retry st);
          st = (record_action (AskedModel (ls_invocations st) (ls_messages st) adm) st)
            \<lparr>ls_messages := re_messages r, ls_retry := re_budget r\<rparr>
      in if pa_drainedInference ans then Inl (Failed RunDrained, st)
         else (case re_end r of
             Answered result \<Rightarrow> Inr (result, st)
           | Surfaced m \<Rightarrow> Inr (surfaced_result m, st)
           | Rethrown e \<Rightarrow> Inl (Failed (InferenceFailure e), st)
           | OverflowUnresolved \<Rightarrow> Inl (Failed OverflowFailure, st)))"

definition completion_of ::
    "loop_config \<Rightarrow> pass_answers \<Rightarrow> output_admission \<Rightarrow> inference_result \<Rightarrow> jsstring \<Rightarrow> loop_state
      \<Rightarrow> completion \<times> loop_state" where
  "completion_of cfg ans adm result safe st =
     (let (c, cs) = resolveLoopCompletion
            \<lparr>ci_budget = lc_budget cfg, ci_upper = lc_upper cfg, ci_redact = lc_redact cfg, ci_weight = cacheReadWeight cfg,
             ci_delivered = ls_delivered st, ci_lastAssistantText = ls_lastText st,
             ci_projectedInputTokens = projectedInputTokens adm, ci_requestedOutputTokens = requestedOutputTokens adm,
             ci_result = result, ci_safeOutputText = safe, ci_woundDown = ls_woundDown st\<rparr>
            (pa_completion ans)
            \<lparr>cs_messages = ls_messages st, cs_invocations = ls_invocations st, cs_followUps = ls_followUps st,
             cs_finalization = ls_finalization st\<rparr>
      in (c, meter cfg (st\<lparr>ls_messages := cs_messages cs, ls_invocations := cs_invocations cs,
                ls_followUps := cs_followUps cs, ls_finalization := cs_finalization cs\<rparr>)))"

definition nonempty_text :: "jsstring option \<Rightarrow> jsstring option" where
  "nonempty_text r = (case r of None \<Rightarrow> None | Some t \<Rightarrow> if t = [] then None else Some t)"

text \<open>What the boundary's decision does to the run.\<close>

definition act_on_completion ::
    "loop_config \<Rightarrow> inference_result \<Rightarrow> jsstring \<Rightarrow> completion \<Rightarrow> loop_state \<Rightarrow> (tool_call list \<times> loop_state) stage" where
  "act_on_completion cfg result safe c st =
     (case c of
        BudgetStop reason \<Rightarrow> Inl (stop reason st)
      | CancelledStop \<Rightarrow> Inl (cancelled st)
      | ContinueNext \<Rightarrow> Inl (NextPass, checkpoint st)
      | FinishWith answer incomplete \<Rightarrow>
          (let st = st\<lparr>ls_lastText := answer\<rparr>
           in Inl (Finished ((finish st)\<lparr>lr_incomplete := incomplete\<rparr>),
                if answer \<noteq> [] \<and> incomplete = None then record_action (TextDelta answer) st else st))
      | ToolsNext \<Rightarrow>
          Inr (ir_toolCalls result, push_messages [redactMessageContent (lc_redact cfg) (AssistantMessage
            (nonempty_text (Some safe)) (Some (ir_toolCalls result)) (nonempty_text (ir_reasoning result)))] st))"

definition after_answer ::
    "loop_config \<Rightarrow> pass_answers \<Rightarrow> output_admission \<Rightarrow> inference_result \<Rightarrow> loop_state
      \<Rightarrow> (tool_call list \<times> loop_state) stage" where
  "after_answer cfg ans adm result st =
     (let safe = lc_redact cfg (ir_outputText result);
          st = meter cfg (st\<lparr>ls_invocations := ls_invocations st @ ir_invocations result\<rparr>);
          st = (if safe = [] then st else st\<lparr>ls_lastText := safe\<rparr>)
      in bindE (stop_on (stopAfterInference (lc_budget cfg) (loop_usage st 0)) st) (\<lambda>st.
         (let (c, st) = completion_of cfg ans adm result safe st
          in if pa_drainedCompletion ans then Inl (Failed RunDrained, st)
             else act_on_completion cfg result safe c st)))"

definition ask_model ::
    "loop_config \<Rightarrow> pass_answers \<Rightarrow> loop_state \<Rightarrow> (tool_call list \<times> loop_state) stage" where
  "ask_model cfg ans st =
     bindE (prepare_inference cfg ans st) (\<lambda>(adm, st).
     bindE (call_model cfg ans adm st) (\<lambda>(result, st). after_answer cfg ans adm result st))"

section \<open>The batch\<close>

fun nudge_text :: "nudge \<Rightarrow> jsstring" where
  "nudge_text REPEATED_CALL_NUDGE =
     js ''You are repeating the same tool call. Stop and produce a final answer with the information you already have.''"
| "nudge_text REPEATED_OBSERVATION_NUDGE =
     js ''The result has not changed. Wait with a different call, or tell the person where things stand and end your turn.''"
| "nudge_text CODING_NO_PROGRESS_NUDGE =
     js ''The coding agent is still working; that is normal. Wait again, or tell the person where things stand and end your turn.''"
| "nudge_text CODING_REPEATED_LOOK_NUDGE =
     js ''The coding session'' @ [39] @ js ''s answer has not changed. If it is working, call coding_session_wait; if it is waiting for you, send it feedback or close it; otherwise tell the person where things stand and end your turn.''"
| "nudge_text CODING_WAIT_NEEDS_YOU_NUDGE =
     js ''Waiting again will not change the coding session: it is not working, and the last wait on it said why. Act on that answer '' @ [8212] @ js '' review it, send it a message or close it '' @ [8212] @ js '' or tell the person where it stands and end your turn.''"
| "nudge_text CODING_WAIT_END_TURN_NUDGE =
     js ''Stop waiting and end your turn now with one line saying where the coding session stands: the person has written, or this run is nearly out of time.''"

definition batch_env_of :: "loop_config \<Rightarrow> pass_answers \<Rightarrow> batch_env" where
  "batch_env_of cfg ans = \<lparr>num_of = lc_num cfg, summarize_args = lc_summarize cfg, normalize_name = lc_normalize cfg,
     in_order = lc_inOrder cfg,
     timeout_for = (\<lambda>t. case lc_timeoutFor cfg t of Some ms \<Rightarrow> Some ms | None \<Rightarrow> map_option nat (toolTimeoutMs (lc_budget cfg))),
     timeout_error = lc_timeoutError cfg, prepare_call = pa_prepare ans\<rparr>"

definition result_message :: "loop_config \<Rightarrow> executed_result \<Rightarrow> provider_message" where
  "result_message cfg r = ToolMessage (truncateToolResult (lc_redact cfg) (er_output r) MAX_TOOL_RESULT_CHARS)
     (case er_callId r of Some i \<Rightarrow> i | None \<Rightarrow> [])"

text \<open>What a settled batch adds to the transcript.\<close>

definition batch_messages :: "loop_config \<Rightarrow> batch_result \<Rightarrow> provider_message list" where
  "batch_messages cfg r = map (result_message cfg) (br_results r)
     @ (case buildToolImagesMessage (br_results r) of None \<Rightarrow> [] | Some m \<Rightarrow> [m])"

definition close_batch :: "loop_config \<Rightarrow> pass_answers \<Rightarrow> batch_result \<Rightarrow> loop_state \<Rightarrow> pass_end \<times> loop_state" where
  "close_batch cfg ans r st =
     (let st = markDispatchBoundary None (push_messages (batch_messages cfg r) st);
          st = push_messages (case br_loopNudge r of None \<Rightarrow> [] | Some n \<Rightarrow> [UserMessage (nudge_text n) None]) st;
          batchStop = stopAfterToolBatch (lc_budget cfg) (loop_usage st (pa_elapsed ans 6))
      in if batchStop = Some ToolCallsReason then stop ToolCallsReason st
         else if pa_cancelledAfter ans then cancelled st
         else (case batchStop of
             Some reason \<Rightarrow> stop reason st
           | None \<Rightarrow>
               if ls_preparedPending st then
                 (let st = st\<lparr>ls_preparedPending := False\<rparr>
                  in if list_all success (br_results r) \<and> pa_confirm ans
                     then (Finished ((finish st)\<lparr>lr_finalText := [], lr_preparedCompleted := True\<rparr>), st)
                     else (NextPass, st))
               else (NextPass, st)))"

definition adopt_batch :: "batch_state \<Rightarrow> loop_state \<Rightarrow> loop_state" where
  "adopt_batch bst st = st\<lparr>ls_breaker := bs_breaker bst, ls_counts := bs_counts bst\<rparr>"

definition account_batch :: "batch_result \<Rightarrow> loop_state \<Rightarrow> loop_state" where
  "account_batch r st = st\<lparr>ls_toolMs := ls_toolMs st + br_toolMs r, ls_delivered := (ls_delivered st \<or> br_delivered r),
     ls_toolCallsUsed := ls_toolCallsUsed st + int (length (br_results r))\<rparr>"

text \<open>The results of a batch: an approval or a card to wait for ends the run.\<close>

definition after_batch :: "loop_config \<Rightarrow> pass_answers \<Rightarrow> batch_result \<Rightarrow> loop_state \<Rightarrow> pass_end \<times> loop_state" where
  "after_batch cfg ans r st =
     (if br_approval r \<noteq> None then (Finished ((finish st)\<lparr>lr_approval := br_approval r\<rparr>), st)
      else if br_cardId r \<noteq> None then (Finished ((finish st)\<lparr>lr_cardId := br_cardId r\<rparr>), st)
      else close_batch cfg ans r st)"

definition dispatch_batch :: "tool_call list \<Rightarrow> loop_state \<Rightarrow> loop_state" where
  "dispatch_batch tcs st = record_action (RanBatch tcs) (checkpoint (markDispatchBoundary (Some tcs) st))"

definition run_batch :: "loop_config \<Rightarrow> pass_answers \<Rightarrow> tool_call list \<Rightarrow> loop_state \<Rightarrow> pass_end \<times> loop_state" where
  "run_batch cfg ans tcs st =
     (let st = dispatch_batch tcs st
      in case executeToolBatch (batch_env_of cfg ans) (ls_breaker st) (ls_counts st) tcs (pa_schedule ans) of
           None \<Rightarrow> (Failed RunDrained, st)
         | Some (Inl e, bst) \<Rightarrow> (Failed (ToolFailure e), adopt_batch bst st)
         | Some (Inr r, bst) \<Rightarrow> after_batch cfg ans r (account_batch r (adopt_batch bst st)))"

section \<open>A pass and a run\<close>

definition loop_pass :: "loop_config \<Rightarrow> pass_answers \<Rightarrow> loop_state \<Rightarrow> pass_end \<times> loop_state" where
  "loop_pass cfg ans st =
     (case bindE (open_pass cfg ans st) (\<lambda>(reentered, st).
             case reentered of Some tcs \<Rightarrow> Inr (tcs, st) | None \<Rightarrow> ask_model cfg ans st) of
        Inl over \<Rightarrow> over
      | Inr (tcs, st) \<Rightarrow> run_batch cfg ans tcs st)"

fun runAgenticLoop :: "loop_config \<Rightarrow> pass_answers list \<Rightarrow> loop_state \<Rightarrow> pass_end \<times> loop_state" where
  "runAgenticLoop cfg [] st = (NextPass, st)"
| "runAgenticLoop cfg (ans # rest) st =
     (case loop_pass cfg ans st of (NextPass, st') \<Rightarrow> runAgenticLoop cfg rest st' | over \<Rightarrow> over)"

section \<open>What every pass keeps\<close>

text \<open>The fields the invariants speak of, and the actions that change none of them.\<close>

definition core :: "loop_state \<Rightarrow> governor \<times> nat \<times> int option \<times> bool \<times> retry_budget \<times> finalization_state \<times> loop_action list" where
  "core st = (ls_governor st, ls_compactionAttempts st, ls_compactionLast st, ls_woundDown st, ls_retry st,
     ls_finalization st, ls_actions st)"

fun quiet :: "loop_action \<Rightarrow> bool" where
  "quiet WoundDown = False"
| "quiet (Compacted _) = False"
| "quiet (AskedModel _ _ _) = False"
| "quiet _ = True"

definition may_compact :: "loop_state \<Rightarrow> bool" where
  "may_compact st \<longleftrightarrow> ls_compactionAttempts st < MAX_COMPACTIONS_PER_RUN \<or> attempts (ls_governor st) < MAX_COMPACTIONS_PER_RUN"

text \<open>The model may be asked: what all invocations so far have cost, metered anew from the
  invocations themselves, is under nine tenths of the limits, the call fits the token limit on top
  of it, the projected input is the transcript and the tool schemas, and the answer asked for has
  at least one token, no more than allowed, and room in the window after the transcript.\<close>

definition tokens_under :: "budget_limits \<Rightarrow> int \<Rightarrow> bool" where
  "tokens_under budget spent \<longleftrightarrow>
     (case maxTokens budget of None \<Rightarrow> True | Some limit \<Rightarrow> limit \<le> 0 \<or> spent * 10 < limit * 9)"

definition cost_under :: "budget_limits \<Rightarrow> int \<Rightarrow> bool" where
  "cost_under budget cents \<longleftrightarrow>
     (case maxCostCents budget of None \<Rightarrow> True | Some limit \<Rightarrow> limit \<le> 0 \<or> cents * 10 < limit * 9)"

definition paid :: "loop_config \<Rightarrow> invocation list \<Rightarrow> spend_totals" where
  "paid cfg invocations = meterSpend (lc_upper cfg) invocations (cacheReadWeight cfg)"

definition call_fits :: "budget_limits \<Rightarrow> int \<Rightarrow> output_admission \<Rightarrow> bool" where
  "call_fits budget spent adm \<longleftrightarrow>
     (case maxTokens budget of None \<Rightarrow> True
      | Some limit \<Rightarrow> limit \<le> 0 \<or> spent + projectedInputTokens adm + or_zero (requestedOutputTokens adm) \<le> limit)"

definition answer_fits :: "loop_config \<Rightarrow> int \<Rightarrow> output_admission \<Rightarrow> bool" where
  "answer_fits cfg transcript adm \<longleftrightarrow>
     (case requestedOutputTokens adm of None \<Rightarrow> lc_maxOutputTokens cfg = None
      | Some n \<Rightarrow> 1 \<le> n \<and> transcript + n \<le> availableTokens (contextPlan cfg)
          \<and> (case lc_maxOutputTokens cfg of None \<Rightarrow> False | Some m \<Rightarrow> n \<le> m))"

fun asked_ok :: "loop_config \<Rightarrow> loop_action \<Rightarrow> bool" where
  "asked_ok cfg (AskedModel invocations messages adm) =
     (tokens_under (lc_budget cfg) (effectiveTokensUsed (paid cfg invocations)) \<and>
      cost_under (lc_budget cfg) (totalCostCents (paid cfg invocations)) \<and>
      call_fits (lc_budget cfg) (effectiveTokensUsed (paid cfg invocations)) adm \<and>
      answer_fits cfg (int (estimateMessagesTokens messages)) adm \<and>
      projectedInputTokens adm - int (estimateMessagesTokens messages) \<in> {0, schema_tokens cfg})"
| "asked_ok cfg _ = True"

definition spends_retries :: "retry_budget \<Rightarrow> retry_budget \<Rightarrow> bool" where
  "spends_retries b b' \<longleftrightarrow> rb_total b' = rb_total b \<and> rb_remaining b' \<le> rb_remaining b
     \<and> (rb_remaining b \<ge> 0 \<longrightarrow> rb_remaining b' \<ge> 0)"

definition explained :: "finalization_state \<Rightarrow> bool" where
  "explained f \<longleftrightarrow> (fs_used f \<longrightarrow> fs_reason f \<noteq> None)"

definition ok_stage :: "(loop_state \<Rightarrow> bool) \<Rightarrow> ('a \<Rightarrow> loop_state) \<Rightarrow> 'a stage \<Rightarrow> bool" where
  "ok_stage I f r = (case r of Inl (e, st) \<Rightarrow> I st | Inr x \<Rightarrow> I (f x))"

lemma ok_stage_simps [simp]:
  "ok_stage I f (Inl (e, st)) = I st" "ok_stage I f (Inr x) = I (f x)"
  by (simp_all add: ok_stage_def)

lemma ok_bind:
  "ok_stage I f r \<Longrightarrow> (\<And>x. I (f x) \<Longrightarrow> ok_stage I g (k x)) \<Longrightarrow> ok_stage I g (bindE r k)"
  by (cases r) (auto simp: ok_stage_def)

text \<open>What admits a call to the model: the spend is metered, and under the limits.\<close>

definition metered :: "loop_config \<Rightarrow> loop_state \<Rightarrow> bool" where
  "metered cfg st \<longleftrightarrow> ls_spend st = paid cfg (ls_invocations st)"

definition under_headroom :: "loop_config \<Rightarrow> loop_state \<Rightarrow> bool" where
  "under_headroom cfg st \<longleftrightarrow> tokens_under (lc_budget cfg) (effectiveTokensUsed (ls_spend st))
     \<and> cost_under (lc_budget cfg) (totalCostCents (ls_spend st))"

lemma metered_meter [simp]: "metered cfg (meter cfg st)"
  by (simp add: metered_def meter_def paid_def)

lemma metered_checkpoint [simp]: "metered cfg (checkpoint st) = metered cfg st"
  by (simp add: metered_def checkpoint_def record_action_def)

lemma stop_on_Inr [simp]: "stop_on r st = Inr st' \<longleftrightarrow> r = None \<and> st' = st"
  by (cases r) (auto simp: stop_on_def)

lemma over_share_iff: "overFraction used (Some limit) \<longleftrightarrow> limit > 0 \<and> used * 10 \<ge> limit * 9"
proof -
  have "of_int used \<ge> of_int limit * (9 / 10 :: rat) \<longleftrightarrow> (of_int (used * 10) :: rat) \<ge> of_int (limit * 9)" by simp
  then show ?thesis by (simp only: of_int_le_iff) (simp add: overFraction_def over_share_def BUDGET_HEADROOM_FRACTION_def)
qed

lemma recheck_Inr: "recheck cfg e st = Inr st' \<Longrightarrow> st' = st \<and> under_headroom cfg st"
  by (auto simp: recheck_def stopAfterInference_def under_headroom_def tokens_under_def cost_under_def loop_usage_def
      usage_of_def over_share_iff not_le split: if_splits option.splits)

lemma admitted_call:
  assumes "admit_call_of_model cfg ans st = Inr (adm, st')" "metered cfg st" "under_headroom cfg st"
  shows "metered cfg st' \<and> under_headroom cfg st' \<and> adm = admit cfg st'"
  using assms by (auto simp: admit_call_of_model_def Let_def dest!: recheck_Inr split: if_splits)

lemma admitted_answer:
  assumes "adm = admit cfg st" "case requestedOutputTokens adm of None \<Rightarrow> True | Some n \<Rightarrow> n \<ge> 1"
  shows "answer_fits cfg (int (estimateMessagesTokens (ls_messages st))) adm"
    "projectedInputTokens adm - int (estimateMessagesTokens (ls_messages st)) \<in> {0, schema_tokens cfg}"
  using assms
  by (auto simp: admit_def resolveOutputAdmission_def answer_fits_def Let_def split: option.splits)

lemma prepared_ok:
  assumes "prepare_inference cfg ans st = Inr (adm, st')"
  shows "asked_ok cfg (AskedModel (ls_invocations st') (ls_messages st') adm)"
proof -
  obtain s1 s2 where s: "under_headroom cfg (meter cfg s1)" "admit_call_of_model cfg ans (meter cfg s1) = Inr (adm, s2)"
      "case requestedOutputTokens adm of None \<Rightarrow> True | Some n \<Rightarrow> n \<ge> 1"
      "stopBeforeInference (lc_budget cfg) (effectiveTokensUsed (ls_spend s2)) (projectedInputTokens adm)
         (requestedOutputTokens adm) = None"
      "ls_invocations st' = ls_invocations s2" "ls_messages st' = ls_messages s2"
    using assms
    by (auto simp: prepare_inference_def Let_def checkpoint_def record_action_def markDispatchBoundary_def
        split: if_splits option.splits dest!: recheck_Inr)
  have s2: "metered cfg s2" "under_headroom cfg s2" "adm = admit cfg s2" using admitted_call [OF s(2) metered_meter s(1)] by simp_all
  have spend: "ls_spend s2 = paid cfg (ls_invocations st')" using s2(1) s(5) by (simp add: metered_def)
  have "call_fits (lc_budget cfg) (effectiveTokensUsed (ls_spend s2)) adm"
    using s(4) by (auto simp: call_fits_def stopBeforeInference_def split: option.splits if_splits)
  then show ?thesis
    using s2(2) admitted_answer [OF s2(3) s(3)] unfolding asked_ok.simps under_headroom_def spend s(6) by blast
qed

lemma retry_spends: "spends_retries b (re_budget (callInferenceWithRetry lower infer target ms b))"
  using retry_from_ok [of 0 0 infer target ms b "[]" lower]
  by (auto simp: callInferenceWithRetry_def retry_ok_def spends_retries_def)

lemma completion_explained:
  assumes "resolveLoopCompletion input ans st = (c, st')" "explained (cs_finalization st)"
  shows "explained (cs_finalization st')"
proof -
  obtain x fin where adv: "advanceOutputFinalization (cs_finalization st) (ci_delivered input)
      (ir_finishReason (ci_result input)) (ci_safeOutputText input) (ir_toolCalls (ci_result input)) = (x, fin)"
    by fastforce
  then have fin: "explained fin" using assms(2)
    by (auto simp: advanceOutputFinalization_def explained_def Let_def split: option.splits if_splits)
  show ?thesis using assms(1) adv fin
    by (auto simp: resolveLoopCompletion_def Let_def explained_def split: option.splits finalization.splits if_splits
        dest!: review_counts)
qed

locale loop_invariant =
  fixes cfg :: loop_config and I :: "loop_state \<Rightarrow> bool"
  assumes frame: "I st \<Longrightarrow> core st' = core st \<Longrightarrow> I st'"
    and quiet_act: "I st \<Longrightarrow> quiet a \<Longrightarrow> I (record_action a st)"
    and compacted: "I st \<Longrightarrow> may_compact st \<Longrightarrow> I (record_action (Compacted i) (st\<lparr>ls_governor := recordAttempt i (ls_governor st),
        ls_compactionAttempts := ls_compactionAttempts st + 1, ls_compactionLast := Some i\<rparr>))"
    and wound_down: "I st \<Longrightarrow> \<not> ls_woundDown st \<Longrightarrow> I (record_action WoundDown (st\<lparr>ls_woundDown := True\<rparr>))"
    and asked: "I st \<Longrightarrow> asked_ok cfg (AskedModel invs ms adm) \<Longrightarrow>
        spends_retries (ls_retry st) b \<Longrightarrow> I ((record_action (AskedModel invs ms adm) st)\<lparr>ls_retry := b\<rparr>)"
    and finalized: "I st \<Longrightarrow> (explained (ls_finalization st) \<Longrightarrow> explained f) \<Longrightarrow> I (st\<lparr>ls_finalization := f\<rparr>)"
begin

lemma frame_keeps:
  "I st \<Longrightarrow> I (push_messages ms st)" "I st \<Longrightarrow> I (meter cfg st)" "I st \<Longrightarrow> I (markDispatchBoundary x st)"
  "I st \<Longrightarrow> I (st\<lparr>ls_resumedCalls := r\<rparr>)" "I st \<Longrightarrow> I (st\<lparr>ls_budgetRecovery := v\<rparr>)" "I st \<Longrightarrow> I (st\<lparr>ls_lastText := t\<rparr>)"
  "I st \<Longrightarrow> I (st\<lparr>ls_iterations := n\<rparr>)" "I st \<Longrightarrow> I (st\<lparr>ls_preparedPending := v\<rparr>)"
  "I st \<Longrightarrow> I (st\<lparr>ls_breaker := br, ls_counts := cs\<rparr>)" "I st \<Longrightarrow> I (st\<lparr>ls_invocations := invs\<rparr>)"
  "I st \<Longrightarrow> I (st\<lparr>ls_invocations := invs, ls_messages := ms\<rparr>)"
  "I st \<Longrightarrow> I (st\<lparr>ls_toolMs := tm, ls_delivered := v, ls_toolCallsUsed := u\<rparr>)"
  by (erule frame, simp add: core_def push_messages_def meter_def markDispatchBoundary_def)+

lemma act_keeps: "I st \<Longrightarrow> I (checkpoint st)" "I st \<Longrightarrow> I (snd (stop r st))" "I st \<Longrightarrow> I (snd (cancelled st))"
  by (simp_all add: checkpoint_def stop_def cancelled_def quiet_act)

lemma stop_keeps [simp]: "I st \<Longrightarrow> ok_stage I (\<lambda>s. s) (stop_on r st)"
  by (cases r) (simp_all add: stop_on_def stop_def quiet_act)

lemma maintain_keeps:
  assumes "I st"
  shows "I (maintainContext cfg answer i force target st)"
proof -
  let ?c = "checkpoint (record_action (Compacted i) (st\<lparr>ls_governor := recordAttempt i (ls_governor st),
        ls_compactionAttempts := ls_compactionAttempts st + 1, ls_compactionLast := Some i\<rparr>))"
  have c: "I (?c\<lparr>ls_invocations := invs, ls_messages := ms\<rparr>)" if "may_compact st" for invs ms
    by (intro frame_keeps(11) act_keeps(1) compacted assms that)
  show ?thesis
  proof (cases "(\<not> force \<longrightarrow> shouldAttempt (contextPlan cfg) i (int (estimateMessagesTokens (ls_messages st))) (ls_governor st))
      \<and> (force \<longrightarrow> ls_compactionAttempts st < MAX_COMPACTIONS_PER_RUN)")
    case True
    then have "may_compact st" by (auto simp: may_compact_def shouldAttempt_def)
    from c [OF this] True show ?thesis by (auto simp: maintainContext_def Let_def)
  next
    case False
    then show ?thesis using assms by (auto simp: maintainContext_def Let_def)
  qed
qed

lemma wind_down_keeps: "I st \<Longrightarrow> I (wind_down cfg ans reentered st)"
proof -
  assume I: "I st"
  have "I (record_action WoundDown (push_messages [SystemMessage m] (st\<lparr>ls_woundDown := True\<rparr>)))" if "\<not> ls_woundDown st" for m
    using wound_down [OF I that] by (rule frame) (simp add: core_def push_messages_def record_action_def)
  then show ?thesis using I by (auto simp: wind_down_def split: option.split)
qed

lemma open_pass_keeps: "I st \<Longrightarrow> ok_stage I snd (open_pass cfg ans st)"
  unfolding open_pass_def Let_def
  by (auto intro!: ok_bind [where f = "\<lambda>s. s"] stop_keeps wind_down_keeps frame_keeps(4)
      simp: cancelled_def stop_def quiet_act)

lemma recheck_keeps: "I st \<Longrightarrow> ok_stage I (\<lambda>s. s) (recheck cfg e st)"
  unfolding recheck_def by (rule ok_bind [where f = "\<lambda>s. s"]) simp_all

lemma admit_call_keeps: "I st \<Longrightarrow> ok_stage I snd (admit_call_of_model cfg ans st)"
  unfolding admit_call_of_model_def Let_def
  by (auto intro!: ok_bind [where f = "\<lambda>s. s"] recheck_keeps act_keeps(1) frame_keeps(2,5) maintain_keeps)

lemma prepare_keeps: "I st \<Longrightarrow> ok_stage I snd (prepare_inference cfg ans st)"
  unfolding prepare_inference_def Let_def
  by (auto intro!: ok_bind [where f = "\<lambda>s. s"] ok_bind [where f = snd] recheck_keeps admit_call_keeps stop_keeps
      act_keeps(1) frame_keeps(2,3,7) maintain_keeps quiet_act simp: stop_def split: option.split)

lemma call_model_keeps:
  assumes "I st" "asked_ok cfg (AskedModel (ls_invocations st) (ls_messages st) adm)"
  shows "ok_stage I snd (call_model cfg ans adm st)"
proof -
  let ?r = "callInferenceWithRetry (lc_lower cfg) (pa_infer ans) (targetTokens (contextPlan cfg)) (ls_messages st) (ls_retry st)"
  have "I ((record_action (AskedModel (ls_invocations st) (ls_messages st) adm) st)
      \<lparr>ls_retry := re_budget ?r\<rparr>)"
    using asked [OF assms retry_spends] .
  then have "I ((record_action (AskedModel (ls_invocations st) (ls_messages st) adm) st)
      \<lparr>ls_messages := re_messages ?r, ls_retry := re_budget ?r\<rparr>)"
    by (rule frame) (simp add: core_def)
  then show ?thesis by (simp add: call_model_def Let_def split: retry_end.split)
qed

lemma completion_keeps:
  assumes "I st"
  shows "I (snd (completion_of cfg ans adm result safe st))"
proof -
  let ?f = "ls_finalization (snd (completion_of cfg ans adm result safe st))"
  have "explained (ls_finalization st) \<Longrightarrow> explained ?f"
    by (auto simp: completion_of_def meter_def split: prod.split dest: completion_explained)
  from finalized [OF assms this] show ?thesis
    by (rule frame) (auto simp: core_def completion_of_def meter_def Let_def split_beta)
qed

lemma act_on_completion_keeps: "I st \<Longrightarrow> ok_stage I snd (act_on_completion cfg result safe c st)"
  by (auto simp: act_on_completion_def Let_def stop_def cancelled_def quiet_act frame_keeps act_keeps
      split: completion.split)

lemma after_answer_keeps:
  assumes "I st"
  shows "ok_stage I snd (after_answer cfg ans adm result st)"
proof -
  have "ok_stage I snd (let (c, st) = completion_of cfg ans adm result safe s
          in if pa_drainedCompletion ans then Inl (Failed RunDrained, st) else act_on_completion cfg result safe c st)"
    if "I s" for safe s
    using completion_keeps [OF that, of ans adm result safe] act_on_completion_keeps
    by (auto simp: Let_def split: prod.split)
  then show ?thesis
    unfolding after_answer_def Let_def [of "lc_redact cfg (ir_outputText result)"] Let_def [of "meter cfg _"]
      Let_def [of "if _ then _ else _"]
    by (intro ok_bind [where f = "\<lambda>s. s"] stop_keeps) (auto simp: frame_keeps assms)
qed

lemma ask_model_keeps:
  assumes "I st"
  shows "ok_stage I snd (ask_model cfg ans st)"
proof (cases "prepare_inference cfg ans st")
  case (Inl x)
  then show ?thesis using prepare_keeps [OF assms, of ans] by (cases x) (simp add: ask_model_def)
next
  case (Inr x)
  obtain adm s1 where x: "x = (adm, s1)" by (cases x)
  have s1: "I s1" using prepare_keeps [OF assms, of ans] Inr x by simp
  have "ok_stage I snd (call_model cfg ans adm s1)"
    using call_model_keeps [OF s1] prepared_ok Inr x by blast
  then have "ok_stage I snd (bindE (call_model cfg ans adm s1) (\<lambda>(result, st). after_answer cfg ans adm result st))"
    by (rule ok_bind) (auto intro: after_answer_keeps)
  then show ?thesis by (simp add: ask_model_def Inr x)
qed

lemma close_batch_keeps:
  assumes "I st"
  shows "I (snd (close_batch cfg ans r st))"
proof -
  have "I (push_messages m (markDispatchBoundary None (push_messages k st)))" for m k by (intro frame_keeps assms)
  then show ?thesis
    by (auto simp: close_batch_def Let_def act_keeps frame_keeps split: option.split)
qed

lemma run_batch_keeps:
  assumes "I st"
  shows "I (snd (run_batch cfg ans tcs st))"
proof -
  have "I (dispatch_batch tcs st)"
    unfolding dispatch_batch_def by (intro quiet_act act_keeps frame_keeps assms) simp
  then show ?thesis
    by (auto simp: run_batch_def Let_def adopt_batch_def account_batch_def after_batch_def frame_keeps close_batch_keeps
        split: option.split sum.split)
qed

lemma pass_keeps:
  assumes "I st"
  shows "I (snd (loop_pass cfg ans st))"
proof -
  have "ok_stage I snd (bindE (open_pass cfg ans st) (\<lambda>(reentered, st).
             case reentered of Some tcs \<Rightarrow> Inr (tcs, st) | None \<Rightarrow> ask_model cfg ans st))"
    by (rule ok_bind [OF open_pass_keeps [OF assms]]) (auto split: option.split intro: ask_model_keeps)
  then show ?thesis
    by (auto simp: loop_pass_def run_batch_keeps split: sum.split)
qed

lemma run_keeps: "I st \<Longrightarrow> I (snd (runAgenticLoop cfg answers st))"
proof (induction answers arbitrary: st)
  case (Cons ans answers)
  then show ?case using pass_keeps [OF Cons.prems, of ans] by (auto split: prod.split pass_end.split)
qed simp

end

section \<open>The invariant of a run\<close>

fun is_compaction :: "loop_action \<Rightarrow> bool" where
  "is_compaction (Compacted _) = True"
| "is_compaction _ = False"

text \<open>The accounts of a run that was not resumed.\<close>

definition sound :: "loop_config \<Rightarrow> loop_state \<Rightarrow> bool" where
  "sound cfg st \<longleftrightarrow>
     ls_governor st = restoreCompactionGovernor (ls_compactionAttempts st) (ls_compactionLast st) createCompactionGovernor
     \<and> rb_total (ls_retry st) = RETRY_ALLOWANCE \<and> 0 \<le> rb_remaining (ls_retry st) \<and> rb_remaining (ls_retry st) \<le> RETRY_ALLOWANCE
     \<and> explained (ls_finalization st)"

text \<open>The limits of a run that starts with \<open>n\<close> compactions behind it, and the wind-down or not.\<close>

definition limited :: "loop_config \<Rightarrow> nat \<Rightarrow> bool \<Rightarrow> loop_state \<Rightarrow> bool" where
  "limited cfg n w st \<longleftrightarrow>
     attempts (ls_governor st) = ls_compactionAttempts st
     \<and> (ls_compactionAttempts st \<le> MAX_COMPACTIONS_PER_RUN \<or> ls_compactionAttempts st = n)
     \<and> list_all (asked_ok cfg) (ls_actions st)
     \<and> length (filter ((=) WoundDown) (ls_actions st)) = (if ls_woundDown st \<and> \<not> w then 1 else 0)
     \<and> (w \<longrightarrow> ls_woundDown st)
     \<and> n + length (filter is_compaction (ls_actions st)) = ls_compactionAttempts st"

lemma restored_governor:
  "restoreCompactionGovernor n i createCompactionGovernor
     = \<lparr>attempts = n, lastAttemptIteration = (if n = 0 then None else Some (case i of None \<Rightarrow> 0 | Some k \<Rightarrow> k))\<rparr>"
  by (induction n) (auto simp: restoreCompactionGovernor_def createCompactionGovernor_def recordAttempt_def)

interpretation agent_run: loop_invariant cfg "sound cfg" for cfg
proof
  fix st st' assume "sound cfg st" "core st' = core st"
  then show "sound cfg st'" by (simp add: sound_def core_def)
qed (auto simp: sound_def record_action_def restored_governor recordAttempt_def spends_retries_def)

interpretation agent_limits: loop_invariant cfg "limited cfg n w" for cfg n w
proof
  fix st st' assume "limited cfg n w st" "core st' = core st"
  then show "limited cfg n w st'" by (simp add: limited_def core_def)
next
  fix st a assume "limited cfg n w st" "quiet a"
  then show "limited cfg n w (record_action a st)" by (cases a) (simp_all add: limited_def record_action_def)
qed (auto simp: limited_def record_action_def recordAttempt_def may_compact_def)

lemma sound_start: "sound cfg (start_loop cfg legacy initial sink prepared)"
  by (simp add: sound_def start_loop_def Let_def createRetryBudget_def RETRY_ALLOWANCE_def explained_def
      restoreCompactionGovernor_def)

lemma limited_start:
  "limited cfg 0 False (start_loop cfg legacy initial sink prepared)"
  "limited cfg (rs_compactionAttempts rs) (rs_woundDown rs) (resume_loop cfg legacy entries sink rs)"
  by (simp_all add: limited_def start_loop_def resume_loop_def Let_def restored_governor)
    (simp add: createCompactionGovernor_def)

section \<open>Passes count\<close>

definition loop_rank :: "loop_config \<Rightarrow> loop_state \<Rightarrow> nat" where
  "loop_rank cfg st = nat (reserveOne (maxIterations (lc_budget cfg)) - ls_iterations st)
     + (if ls_resumedCalls st = None then 0 else 1)"

definition marks :: "loop_state \<Rightarrow> int \<times> tool_call list option" where
  "marks st = (ls_iterations st, ls_resumedCalls st)"

lemma marks_simps [simp]:
  "marks (push_messages ms st) = marks st" "marks (meter cfg st) = marks st" "marks (markDispatchBoundary x st) = marks st"
  "marks (record_action a st) = marks st" "marks (checkpoint st) = marks st" "marks (snd (cancelled st)) = marks st"
  "marks (snd (stop r st)) = marks st" "marks (st\<lparr>ls_budgetRecovery := v\<rparr>) = marks st"
  "marks (st\<lparr>ls_lastText := t\<rparr>) = marks st" "marks (st\<lparr>ls_preparedPending := v\<rparr>) = marks st"
  "marks (st\<lparr>ls_invocations := invs\<rparr>) = marks st" "marks (st\<lparr>ls_breaker := br, ls_counts := cs\<rparr>) = marks st"
  "marks (st\<lparr>ls_toolMs := tm, ls_delivered := v, ls_toolCallsUsed := u\<rparr>) = marks st"
  by (simp_all add: marks_def push_messages_def meter_def markDispatchBoundary_def record_action_def checkpoint_def cancelled_def stop_def)

lemma stop_not_next [simp]: "stop r st = (NextPass, st') \<longleftrightarrow> False" "cancelled st = (NextPass, st') \<longleftrightarrow> False"
  by (auto simp: stop_def cancelled_def)

lemma stop_on_not_next [simp]: "stop_on r st = Inl (NextPass, st') \<longleftrightarrow> False"
  by (cases r) (auto simp: stop_on_def)

lemma bindE_Inl_iff: "bindE r f = Inl e \<longleftrightarrow> r = Inl e \<or> (\<exists>a. r = Inr a \<and> f a = Inl e)"
  by (cases r) auto

lemma marks_maintain [simp]: "marks (maintainContext cfg answer i force target st) = marks st"
  by (simp add: maintainContext_def Let_def marks_def record_action_def checkpoint_def)

lemma marks_wind_down [simp]: "marks (wind_down cfg ans reentered st) = marks st"
  by (auto simp: wind_down_def marks_def record_action_def push_messages_def split: option.split)

lemma recheck_not_next [simp]: "recheck cfg e st = Inl (NextPass, st') \<longleftrightarrow> False"
  by (auto simp: recheck_def bindE_Inl_iff)

lemma marks_recheck: "recheck cfg e st = Inr st' \<Longrightarrow> marks st' = marks st"
  by (auto dest: recheck_Inr)

lemma admit_marks:
  "admit_call_of_model cfg ans st = Inl (NextPass, st') \<longleftrightarrow> False"
  "admit_call_of_model cfg ans st = Inr (adm, st') \<Longrightarrow> marks st' = marks st"
  by (auto simp: admit_call_of_model_def Let_def bindE_Inl_iff dest!: marks_recheck split: if_splits)

lemma prepare_marks:
  "prepare_inference cfg ans st = Inl (NextPass, st') \<longleftrightarrow> False"
  "prepare_inference cfg ans st = Inr (adm, st') \<Longrightarrow> marks st' = (ls_iterations st + 1, ls_resumedCalls st)"
  by (auto simp: prepare_inference_def Let_def bindE_Inl_iff admit_marks dest!: marks_recheck admit_marks(2) split: if_splits)
    (simp add: marks_def)

lemma call_model_marks:
  "call_model cfg ans adm st = Inl (NextPass, st') \<longleftrightarrow> False"
  "call_model cfg ans adm st = Inr (r, st') \<Longrightarrow> marks st' = marks st"
  by (auto simp: call_model_def Let_def marks_def record_action_def split: if_splits retry_end.splits)

lemma marks_completion [simp]: "marks (snd (completion_of cfg ans adm result safe st)) = marks st"
  by (auto simp: completion_of_def marks_def meter_def Let_def split_beta)

lemma act_on_marks:
  "act_on_completion cfg result safe c st = Inl (NextPass, st') \<Longrightarrow> marks st' = marks st"
  "act_on_completion cfg result safe c st = Inr (tcs, st') \<Longrightarrow> marks st' = marks st"
  by (auto simp: act_on_completion_def Let_def split: completion.splits)

lemma after_answer_marks:
  "after_answer cfg ans adm result st = Inl (NextPass, st') \<Longrightarrow> marks st' = marks st"
  "after_answer cfg ans adm result st = Inr (tcs, st') \<Longrightarrow> marks st' = marks st"
  by (auto simp: after_answer_def Let_def bindE_Inl_iff split_beta dest!: act_on_marks split: if_splits)

lemma ask_model_marks:
  "ask_model cfg ans st = Inl (NextPass, st') \<Longrightarrow> marks st' = (ls_iterations st + 1, ls_resumedCalls st)"
  "ask_model cfg ans st = Inr (tcs, st') \<Longrightarrow> marks st' = (ls_iterations st + 1, ls_resumedCalls st)"
  by (auto simp: ask_model_def bindE_Inl_iff prepare_marks call_model_marks
      dest!: prepare_marks(2) call_model_marks(2) after_answer_marks)

lemma marks_close_batch [simp]: "marks (snd (close_batch cfg ans r st)) = marks st"
  by (auto simp: close_batch_def Let_def split: option.split)

lemma marks_batch_steps [simp]:
  "marks (dispatch_batch tcs st) = marks st" "marks (adopt_batch bst st) = marks st"
  "marks (account_batch r st) = marks st" "marks (snd (after_batch cfg ans r st)) = marks st"
  by (simp_all add: dispatch_batch_def adopt_batch_def account_batch_def after_batch_def)

lemma marks_run_batch [simp]: "marks (snd (run_batch cfg ans tcs st)) = marks st"
  by (simp add: run_batch_def Let_def split: option.split sum.split prod.split)

lemma run_batch_marks: "run_batch cfg ans tcs st = (e, st') \<Longrightarrow> marks st' = marks st"
  by (metis marks_run_batch snd_conv)

lemma open_pass_marks:
  "open_pass cfg ans st = Inl (NextPass, st') \<longleftrightarrow> False"
  "open_pass cfg ans st = Inr (reentered, st') \<Longrightarrow> reentered = ls_resumedCalls st
     \<and> marks st' = (ls_iterations st, None) \<and> ls_iterations st < reserveOne (maxIterations (lc_budget cfg))"
proof -
  show "open_pass cfg ans st = Inl (NextPass, st') \<longleftrightarrow> False"
    by (auto simp: open_pass_def Let_def bindE_Inl_iff)
  assume opened: "open_pass cfg ans st = Inr (reentered, st')"
  define w where "w = wind_down cfg ans (ls_resumedCalls st \<noteq> None) (st\<lparr>ls_resumedCalls := None\<rparr>)"
  have w: "st' = w" "reentered = ls_resumedCalls st"
      "stopBeforeIteration (lc_budget cfg) (loop_usage w (pa_elapsed ans 1)) = None"
    using opened unfolding open_pass_def Let_def w_def [symmetric] by (auto split: if_splits)
  have m: "marks w = (ls_iterations st, None)" unfolding w_def marks_wind_down by (simp add: marks_def)
  then have "ls_iterations w = ls_iterations st" by (simp add: marks_def)
  with w(3) have "ls_iterations st < reserveOne (maxIterations (lc_budget cfg))"
    by (auto simp: stopBeforeIteration_def loop_usage_def usage_of_def split: if_splits)
  then show "reentered = ls_resumedCalls st \<and> marks st' = (ls_iterations st, None)
      \<and> ls_iterations st < reserveOne (maxIterations (lc_budget cfg))"
    using w m by simp
qed

lemma pass_lowers:
  assumes "loop_pass cfg ans st = (NextPass, st')"
  shows "loop_rank cfg st' < loop_rank cfg st"
proof (cases "open_pass cfg ans st")
  case (Inl x)
  then show ?thesis using assms by (auto simp: loop_pass_def open_pass_marks)
next
  case (Inr x)
  obtain reentered s1 where x: "x = (reentered, s1)" by (cases x)
  note o = open_pass_marks(2) [OF Inr [unfolded x]]
  show ?thesis
  proof (cases reentered)
    case None
    have "marks st' = (ls_iterations st + 1, None)"
      using assms Inr x None o
      by (auto simp: loop_pass_def marks_def split: sum.splits dest!: ask_model_marks run_batch_marks)
    then show ?thesis using o None by (auto simp: loop_rank_def marks_def)
  next
    case (Some tcs)
    have "marks st' = (ls_iterations st, None)"
      using assms Inr x Some o by (auto simp: loop_pass_def dest: run_batch_marks)
    then show ?thesis using o Some by (simp add: loop_rank_def marks_def) (metis option.distinct(1))
  qed
qed

definition next_pass :: "loop_config \<Rightarrow> pass_answers \<Rightarrow> loop_state \<Rightarrow> loop_state option" where
  "next_pass cfg ans st = (case loop_pass cfg ans st of (NextPass, st') \<Rightarrow> Some st' | _ \<Rightarrow> None)"

interpretation loop_ranked: ranked_steps "next_pass cfg" "loop_rank cfg" for cfg
  by unfold_locales (auto simp: next_pass_def dest: pass_lowers split: prod.splits pass_end.splits)

lemma run_is_steps:
  "runAgenticLoop cfg answers st = (NextPass, st') \<Longrightarrow> run_steps (next_pass cfg) answers st = Some st'"
  by (induction answers arbitrary: st) (auto simp: next_pass_def split: prod.splits pass_end.splits)

section \<open>A settled batch in the transcript\<close>

fun answered_call :: "provider_message \<Rightarrow> jsstring option" where
  "answered_call (ToolMessage _ i) = Some i"
| "answered_call _ = None"

lemma images_answer_no_call: "buildToolImagesMessage rs = Some m \<Longrightarrow> answered_call m = None"
  by (auto simp: buildToolImagesMessage_def Let_def split: if_splits)

lemma result_messages_answer:
  assumes "map (\<lambda>r. (er_callId r, er_toolName r)) rs = map (\<lambda>tc. (Some (toolCallId tc), Some (tc_toolName tc))) tcs"
  shows "map (answered_call \<circ> result_message cfg) rs = map (Some \<circ> toolCallId) tcs"
proof -
  have "map er_callId rs = map (Some \<circ> toolCallId) tcs"
    using arg_cong [OF assms, of "map fst"] by (simp add: comp_def)
  moreover have "map (answered_call \<circ> result_message cfg) rs
      = map (\<lambda>i. Some (case i of None \<Rightarrow> [] | Some j \<Rightarrow> j)) (map er_callId rs)"
    by (simp add: result_message_def)
  ultimately show ?thesis by (simp add: comp_def)
qed

lemma close_batch_next:
  assumes "close_batch cfg ans r st = (NextPass, st')"
  shows "ls_messages st' = ls_messages st @ batch_messages cfg r
      @ (case br_loopNudge r of None \<Rightarrow> [] | Some n \<Rightarrow> [UserMessage (nudge_text n) None])"
    "ls_inFlight st' = None" "ls_toolCallsUsed st' = ls_toolCallsUsed st"
  using assms
  by (auto simp: close_batch_def Let_def push_messages_def markDispatchBoundary_def split: if_splits option.splits)

lemma run_batch_next:
  assumes "run_batch cfg ans tcs st = (NextPass, st')"
  shows "\<exists>answers notes. ls_messages st' = ls_messages st @ answers @ notes
    \<and> map answered_call answers = map (Some \<circ> toolCallId) tcs
    \<and> length notes \<le> 2 \<and> list_all (\<lambda>m. answered_call m = None) notes
    \<and> ls_toolCallsUsed st' = ls_toolCallsUsed st + int (length tcs) \<and> ls_inFlight st' = None"
proof -
  define s where "s = dispatch_batch tcs st"
  have s: "ls_messages s = ls_messages st" "ls_toolCallsUsed s = ls_toolCallsUsed st"
    by (simp_all add: s_def dispatch_batch_def checkpoint_def record_action_def markDispatchBoundary_def)
  obtain r bst where r: "executeToolBatch (batch_env_of cfg ans) (ls_breaker s) (ls_counts s) tcs (pa_schedule ans)
        = Some (Inr r, bst)"
      "after_batch cfg ans r (account_batch r (adopt_batch bst s)) = (NextPass, st')"
    using assms by (auto simp: run_batch_def Let_def s_def [symmetric] split: option.splits sum.splits)
  have c: "br_approval r = None" "close_batch cfg ans r (account_batch r (adopt_batch bst s)) = (NextPass, st')"
    using r(2) by (auto simp: after_batch_def split: if_splits)
  have ids: "map (\<lambda>r. (er_callId r, er_toolName r)) (br_results r)
      = map (\<lambda>tc. (Some (toolCallId tc), Some (tc_toolName tc))) tcs"
    using batch_outcome [where env = "batch_env_of cfg ans" and b = "ls_breaker s" and counts = "ls_counts s" and tcs = tcs
        and schedule = "pa_schedule ans"] c(1)
    by (auto simp: r(1) Let_def split: if_splits)
  then have len: "length (br_results r) = length tcs" using map_eq_imp_length_eq by blast
  let ?notes = "(case buildToolImagesMessage (br_results r) of None \<Rightarrow> [] | Some m \<Rightarrow> [m])
      @ (case br_loopNudge r of None \<Rightarrow> [] | Some n \<Rightarrow> [UserMessage (nudge_text n) None])"
  have "ls_messages st' = ls_messages st @ map (result_message cfg) (br_results r) @ ?notes"
    using close_batch_next(1) [OF c(2)] s by (simp add: batch_messages_def account_batch_def adopt_batch_def)
  moreover have "length ?notes \<le> 2 \<and> list_all (\<lambda>m. answered_call m = None) ?notes"
    by (auto split: option.split dest: images_answer_no_call)
  ultimately show ?thesis
    using close_batch_next(2,3) [OF c(2)] s len result_messages_answer [OF ids, of cfg]
    by (intro exI [of _ "map (result_message cfg) (br_results r)"] exI [of _ ?notes])
      (simp add: account_batch_def adopt_batch_def)
qed

section \<open>Checkpoints and restarts\<close>

text \<open>What a run is accounted by.\<close>

definition accounting where
  "accounting st = (ls_iterations st, ls_followUps st, ls_toolCallsUsed st, ls_toolMs st, ls_woundDown st, ls_retry st,
     ls_governor st, (ls_compactionAttempts st, ls_compactionLast st, ls_budgetRecovery st, ls_finalization st,
     ls_lastText st, ls_invocations st))"

lemma restore_saved: "explained f \<Longrightarrow> restoreOutputFinalizationState (save_finalization f) = f"
  by (cases f) (auto simp: restoreOutputFinalizationState_def save_finalization_def explained_def Let_def split: option.splits)

lemma resume_snapshot: "sound cfg st \<Longrightarrow> accounting (resume_loop cfg legacy entries [] (snapshot st)) = accounting st"
  by (cases "ls_retry st")
    (auto simp: accounting_def resume_loop_def snapshot_def Let_def sound_def restore_saved createRetryBudget_def)

section \<open>Properties\<close>

text \<open>C3: A run ends.  Every pass that goes on to another one has asked the model in a new iteration,
  except the single pass that re-enters a batch; and no pass starts at the reserved last iteration.
  So a run makes at most as many passes that go on as the iterations left under its limit less the
  reserve, and one more when it starts with a batch, whatever the model, the tools and the clock
  answer.\<close>

theorem run_ends:
  "case runAgenticLoop cfg answers st of
     (NextPass, st') \<Rightarrow> int (length answers)
        \<le> max 0 (reserveOne (maxIterations (lc_budget cfg)) - ls_iterations st)
          + (if ls_resumedCalls st = None then 0 else 1)
   | _ \<Rightarrow> True"
proof -
  have "length answers \<le> loop_rank cfg st" if "runAgenticLoop cfg answers st = (NextPass, st')" for st'
    using loop_ranked.run_is_bounded [OF run_is_steps [OF that]] by simp
  then show ?thesis by (fastforce simp: loop_rank_def split: prod.split pass_end.split)
qed

text \<open>C1: The model is asked only within the run's limits, at any point of any run, whether it starts
  afresh or resumes from any checkpoint.  At every main inference what all invocations so far have
  spent, metered from the invocations themselves, compactions included, is under nine tenths of the
  token and of the cost limit; the spend, the transcript that is sent with its tool schemas and the
  output asked for fit the token limit together; and the output asked for is at least one token, at
  most what the caller allows, and has room in the window after the transcript.  The wind-down
  instruction is given at most once and the transcript compacted at most six times, both counted
  over the restarts of the run.\<close>

theorem model_is_asked_within_limits:
  "list_all (\<lambda>st0. let st = snd (runAgenticLoop cfg answers st0)
     in list_all (asked_ok cfg) (ls_actions st)
        \<and> length (filter ((=) WoundDown) (ls_actions st)) \<le> (if ls_woundDown st0 then 0 else 1)
        \<and> length (filter is_compaction (ls_actions st)) \<le> 6 - ls_compactionAttempts st0
        \<and> ls_compactionAttempts st = ls_compactionAttempts st0 + length (filter is_compaction (ls_actions st)))
     [start_loop cfg legacy initial sink prepared, resume_loop cfg legacy entries sink rs]"
proof -
  have start: "ls_woundDown (start_loop cfg legacy initial sink prepared) = False"
      "ls_compactionAttempts (start_loop cfg legacy initial sink prepared) = 0"
      "ls_woundDown (resume_loop cfg legacy entries sink rs) = rs_woundDown rs"
      "ls_compactionAttempts (resume_loop cfg legacy entries sink rs) = rs_compactionAttempts rs"
    by (simp_all add: start_loop_def resume_loop_def Let_def)
  show ?thesis
    using agent_limits.run_keeps [OF limited_start(1), of cfg answers legacy initial sink prepared]
      agent_limits.run_keeps [OF limited_start(2), of cfg rs answers legacy entries sink]
    unfolding list.pred_inject Let_def start limited_def MAX_COMPACTIONS_PER_RUN_def by auto
qed

text \<open>C13: A restart keeps the accounts.  Whatever a run did, a run resumed from its checkpoint stands
  where it stood: the same iterations, follow-ups, calls, tool time and invocations, the same
  retries left, the same wind-down and recovery states, and a compaction governor with the same
  attempts and the same cooldown, rebuilt by replaying the counters of the checkpoint.\<close>

theorem restart_keeps_accounts:
  "let st = snd (runAgenticLoop cfg answers (start_loop cfg legacy initial sink prepared))
   in accounting (resume_loop cfg legacy' entries [] (snapshot st)) = accounting st"
  unfolding Let_def by (rule resume_snapshot) (rule agent_run.run_keeps [OF sound_start])

text \<open>C16: A batch leaves the transcript closed.  When a pass goes on after a batch, the transcript has
  gained one tool message per requested call, in the order and with the ids of the calls, then at
  most a turn with the images and an instruction, which answer no call; the calls are counted, and
  no batch is in flight.\<close>

theorem batch_closes_the_transcript:
  "case run_batch cfg ans tcs st of
     (NextPass, st') \<Rightarrow> \<exists>answers notes. ls_messages st' = ls_messages st @ answers @ notes
        \<and> map answered_call answers = map (Some \<circ> toolCallId) tcs
        \<and> length notes \<le> 2 \<and> list_all (\<lambda>m. answered_call m = None) notes
        \<and> ls_toolCallsUsed st' = ls_toolCallsUsed st + int (length tcs) \<and> ls_inFlight st' = None
   | _ \<Rightarrow> True"
  using run_batch_next [of cfg ans tcs st] by (auto split: prod.split pass_end.split)

end
