(* ===== verification/Bytes.thy ===== *)
theory Bytes
  imports Prelude
begin

text \<open>
  Byte buffers, as the disk writers of \<open>src/executor/src/hyperv/\<close> use Node's \<open>Buffer\<close>.

  \<^item> A buffer is a list of 8-bit words.  \<open>overlay\<close> replaces the bytes from a position on;
    \<open>copy_into\<close> is \<open>Buffer.copy\<close> (cut off at the end of the target), \<open>set_bytes\<close> is
    \<open>TypedArray.set\<close> and \<open>write_le\<close>, \<open>write_be\<close> are \<open>writeUInt8\<close>, \<open>writeUInt16LE\<close>,
    \<open>writeUInt32BE\<close> and the like: both throw a \<open>RangeError\<close> when the bytes do not fit, the
    writes of numbers also when the value needs more bytes.
  \<^item> \<open>bytes_at\<close> and \<open>le_at\<close> read a buffer back.  The lemmas say what is read after one
    write and after a whole sequence of writes to places that do not overlap.

  Memory is not exhausted: \<open>Buffer.alloc\<close> always returns.
\<close>

named_theorems byte_simps \<open>lengths and reads of buffers\<close>

type_synonym byte = "8 word"
type_synonym bytes = "byte list"

text \<open>What a disk writer throws: a \<open>WorkspacePathError\<close> with its message, or the
  \<open>RangeError\<close> of a buffer.\<close>

datatype disk_error = Workspace_path_error string | Range_error

text \<open>\<open>Math.ceil(a / b)\<close> of two lengths.\<close>

definition ceil_div :: "nat \<Rightarrow> nat \<Rightarrow> nat" where
  "ceil_div a b = (a + b - 1) div b"

section \<open>Numbers as bytes\<close>

primrec le_bytes :: "nat \<Rightarrow> nat \<Rightarrow> bytes" where
  "le_bytes 0 v = []"
| "le_bytes (Suc n) v = word_of_nat v # le_bytes n (v div 256)"

definition be_bytes :: "nat \<Rightarrow> nat \<Rightarrow> bytes" where
  "be_bytes n v = rev (le_bytes n v)"

primrec le_value :: "bytes \<Rightarrow> nat" where
  "le_value [] = 0"
| "le_value (b # bs) = unat b + 256 * le_value bs"

definition be_value :: "bytes \<Rightarrow> nat" where
  "be_value bs = le_value (rev bs)"

lemma length_le_bytes [simp]: "length (le_bytes n v) = n"
  by (induction n arbitrary: v) simp_all

lemma length_be_bytes [simp]: "length (be_bytes n v) = n"
  by (simp add: be_bytes_def)

lemma unat_byte [simp]: "unat (word_of_nat v :: byte) = v mod 256"
  by (simp add: unsigned_of_nat take_bit_eq_mod)

lemma le_value_bytes: "le_value (le_bytes n v) = v mod 256 ^ n"
proof (induction n arbitrary: v)
  case (Suc n)
  have "v mod (256 * 256 ^ n) = 256 * (v div 256 mod 256 ^ n) + v mod 256"
    by (rule mod_mult2_eq)
  then show ?case by (simp add: Suc)
qed simp

lemma le_value_less: "le_value bs < 256 ^ length bs"
proof (induction bs)
  case (Cons b bs)
  have "unat b < 256" using unsigned_less[of b] by simp
  then show ?case using Cons by simp
qed simp

lemma be_value_bytes: "be_value (be_bytes n v) = v mod 256 ^ n"
  by (simp add: be_value_def be_bytes_def le_value_bytes)

section \<open>Buffers\<close>

definition overlay :: "bytes \<Rightarrow> nat \<Rightarrow> bytes \<Rightarrow> bytes" where
  "overlay buf off src = take off buf @ src @ drop (off + length src) buf"

definition bytes_at :: "nat \<Rightarrow> nat \<Rightarrow> bytes \<Rightarrow> bytes" where
  "bytes_at off n buf = take n (drop off buf)"

definition le_at :: "nat \<Rightarrow> nat \<Rightarrow> bytes \<Rightarrow> nat" where
  "le_at n off buf = le_value (bytes_at off n buf)"

definition be_at :: "nat \<Rightarrow> nat \<Rightarrow> bytes \<Rightarrow> nat" where
  "be_at n off buf = be_value (bytes_at off n buf)"

definition copy_into :: "bytes \<Rightarrow> nat \<Rightarrow> bytes \<Rightarrow> bytes" where
  "copy_into buf off src = overlay buf off (take (length buf - off) src)"

definition set_bytes :: "nat \<Rightarrow> bytes \<Rightarrow> bytes \<Rightarrow> disk_error + bytes" where
  "set_bytes off src buf =
     (if off + length src \<le> length buf then Inr (overlay buf off src) else Inl Range_error)"

definition write_le :: "nat \<Rightarrow> nat \<Rightarrow> nat \<Rightarrow> bytes \<Rightarrow> disk_error + bytes" where
  "write_le n v off buf =
     (if v < 256 ^ n then set_bytes off (le_bytes n v) buf else Inl Range_error)"

definition write_be :: "nat \<Rightarrow> nat \<Rightarrow> nat \<Rightarrow> bytes \<Rightarrow> disk_error + bytes" where
  "write_be n v off buf =
     (if v < 256 ^ n then set_bytes off (be_bytes n v) buf else Inl Range_error)"

text \<open>\<open>buf.write(text, off, n, 'ascii')\<close>: the low bytes of at most \<open>n\<close> code units, cut off
  at the end of the buffer.\<close>

definition ascii :: "jsstring \<Rightarrow> bytes" where
  "ascii s = map ucast s"

definition write_ascii :: "jsstring \<Rightarrow> nat \<Rightarrow> nat \<Rightarrow> bytes \<Rightarrow> bytes" where
  "write_ascii s off n buf = copy_into buf off (ascii (take n s))"

text \<open>Statements in sequence, each on the buffer the one before left.\<close>

fun foldE :: "('a \<Rightarrow> 'b \<Rightarrow> 'e + 'b) \<Rightarrow> 'a list \<Rightarrow> 'b \<Rightarrow> 'e + 'b" where
  "foldE f [] b = Inr b"
| "foldE f (x # xs) b = bindE (f x b) (foldE f xs)"

lemma foldE_append: "foldE f (xs @ ys) b = bindE (foldE f xs b) (foldE f ys)"
  by (induction xs arbitrary: b) (simp_all add: bindE_def split: sum.split)

lemma length_overlay [byte_simps]:
  "off + length src \<le> length buf \<Longrightarrow> length (overlay buf off src) = length buf"
  by (simp add: overlay_def)

lemma length_bytes_at [byte_simps]:
  "off + n \<le> length buf \<Longrightarrow> length (bytes_at off n buf) = n"
  by (simp add: bytes_at_def)

lemma length_ascii [simp]: "length (ascii s) = length s"
  by (simp add: ascii_def)

lemma copy_into_fits [byte_simps]:
  "off + length src \<le> length buf \<Longrightarrow> copy_into buf off src = overlay buf off src"
  by (simp add: copy_into_def)

lemma length_copy_into [byte_simps]: "off \<le> length buf \<Longrightarrow> length (copy_into buf off src) = length buf"
  by (simp add: copy_into_def overlay_def)

lemma read_inside:
  assumes "off \<le> a" "a + n \<le> off + length src" "off \<le> length buf"
  shows "bytes_at a n (overlay buf off src) = bytes_at (a - off) n src"
proof -
  have "drop a (overlay buf off src) = drop (a - off) (src @ drop (off + length src) buf)"
    using assms by (simp add: overlay_def)
  then show ?thesis using assms by (simp add: bytes_at_def)
qed

lemma read_apart:
  assumes "a + n \<le> off \<or> off + length src \<le> a" "off + length src \<le> length buf"
  shows "bytes_at a n (overlay buf off src) = bytes_at a n buf"
proof (rule nth_equalityI)
  show "length (bytes_at a n (overlay buf off src)) = length (bytes_at a n buf)"
    using assms(2) by (simp add: bytes_at_def length_overlay)
next
  fix i assume "i < length (bytes_at a n (overlay buf off src))"
  then have i: "i < n \<and> a + i < length buf"
    using assms(2) by (auto simp: bytes_at_def length_overlay)
  have "overlay buf off src ! (a + i) = buf ! (a + i)"
    using assms i by (auto simp: overlay_def nth_append)
  then show "bytes_at a n (overlay buf off src) ! i = bytes_at a n buf ! i"
    using i assms(2) by (simp add: bytes_at_def length_overlay)
qed

lemma overlay_overlay:
  "off + length a \<le> length buf \<Longrightarrow>
     overlay (overlay buf off a) (off + length a) b = overlay buf off (a @ b)"
  by (simp add: overlay_def ac_simps)

lemma bytes_at_bytes_at:
  "a + k \<le> n \<Longrightarrow> bytes_at a k (bytes_at off n buf) = bytes_at (off + a) k buf"
  by (simp add: bytes_at_def drop_take add.commute min_def)

lemma bytes_at_all [simp]: "length src = n \<Longrightarrow> bytes_at 0 n src = src"
  by (simp add: bytes_at_def)

lemma bytes_at_append:
  "bytes_at off (m + n) buf = bytes_at off m buf @ bytes_at (off + m) n buf"
  by (simp add: bytes_at_def take_add add.commute)

section \<open>Sequences of writes\<close>

text \<open>
  Writes are pairs of a position and the bytes put there.  Two of them are \<open>apart\<close> when
  they do not overlap; the writes of a sequence that fit and are pairwise apart are all
  read back.
\<close>

definition fits :: "nat \<Rightarrow> nat \<times> bytes \<Rightarrow> bool" where
  "fits n w \<longleftrightarrow> fst w + length (snd w) \<le> n"

definition apart :: "nat \<times> bytes \<Rightarrow> nat \<times> bytes \<Rightarrow> bool" where
  "apart v w \<longleftrightarrow> fst v + length (snd v) \<le> fst w \<or> fst w + length (snd w) \<le> fst v"

lemma fits_pair [simp]: "fits n (off, src) \<longleftrightarrow> off + length src \<le> n"
  by (simp add: fits_def)

lemma apart_pair [simp]:
  "apart (a, v) (b, w) \<longleftrightarrow> a + length v \<le> b \<or> b + length w \<le> a"
  by (simp add: apart_def)

definition overlays :: "(nat \<times> bytes) list \<Rightarrow> bytes \<Rightarrow> bytes" where
  "overlays ws buf = fold (\<lambda>w b. overlay b (fst w) (snd w)) ws buf"

lemma overlays_simps [simp]:
  "overlays [] buf = buf"
  "overlays (w # ws) buf = overlays ws (overlay buf (fst w) (snd w))"
  "overlays (vs @ ws) buf = overlays ws (overlays vs buf)"
  by (simp_all add: overlays_def)

lemma length_overlays [byte_simps]:
  "list_all (fits (length buf)) ws \<Longrightarrow> length (overlays ws buf) = length buf"
  by (induction ws arbitrary: buf) (simp_all add: fits_def length_overlay)

lemma foldE_set_bytes:
  "list_all (fits (length buf)) ws \<Longrightarrow>
     foldE (\<lambda>w. set_bytes (fst w) (snd w)) ws buf = Inr (overlays ws buf)"
  by (induction ws arbitrary: buf) (simp_all add: fits_def set_bytes_def length_overlay)

lemma read_overlays_apart:
  assumes "list_all (fits (length buf)) ws"
    and "\<forall>w\<in>set ws. a + n \<le> fst w \<or> fst w + length (snd w) \<le> a"
  shows "bytes_at a n (overlays ws buf) = bytes_at a n buf"
  using assms
proof (induction ws arbitrary: buf)
  case (Cons w ws)
  from Cons.prems show ?case
    by (simp add: Cons.IH fits_def length_overlay read_apart)
qed simp

lemma read_overlays_inside:
  assumes "list_all (fits (length buf)) ws" "sorted_wrt apart ws" "(off, src) \<in> set ws"
    and "off \<le> a" "a + n \<le> off + length src"
  shows "bytes_at a n (overlays ws buf) = bytes_at (a - off) n src"
  using assms(1-3)
proof (induction ws arbitrary: buf)
  case (Cons w ws)
  show ?case
  proof (cases "(off, src) = w")
    case True
    have w: "w = (off, src)" using True by simp
    have "\<forall>v\<in>set ws. a + n \<le> fst v \<or> fst v + length (snd v) \<le> a"
      using Cons.prems(2) assms(4,5) by (fastforce simp: w apart_def)
    then have "bytes_at a n (overlays ws (overlay buf off src)) = bytes_at a n (overlay buf off src)"
      using Cons.prems(1) by (intro read_overlays_apart) (simp_all add: w length_overlay)
    also have "\<dots> = bytes_at (a - off) n src"
      using Cons.prems True assms(4,5) by (intro read_inside) (auto simp: fits_def)
    finally show ?thesis using True by auto
  next
    case False
    with Cons.prems show ?thesis by (simp add: Cons.IH fits_def length_overlay)
  qed
qed simp

lemma read_overlays:
  assumes "list_all (fits (length buf)) ws" "sorted_wrt apart ws" "(off, src) \<in> set ws"
  shows "bytes_at off (length src) (overlays ws buf) = src"
  using read_overlays_inside[OF assms, of off "length src"] by simp

end
