(* ===== verification/Fat32Names.thy ===== *)
theory Fat32Names
  imports Bytes Addressing
begin

text \<open>
  Names and 32-byte directory entries of the FAT32 writer
  (\<open>src/executor/src/hyperv/fat32-names.ts\<close>), with the reader of a directory that the FAT
  specification gives.

  \<^item> \<open>fat32ShortName\<close>, \<open>fat32ShortNameChecksum\<close>, \<open>fat32LongNameEntries\<close>,
    \<open>fat32DirectoryEntry\<close>, \<open>fat32DotEntries\<close> and \<open>fat32VolumeLabelEntry\<close> are the functions
    of the file.
  \<^item> \<open>list_directory\<close> is what a driver reads: 32-byte entries up to the first free one,
    where long-name entries are put together and believed when their checksum is the one
    of the short entry after them.
\<close>

section \<open>Constants\<close>

definition DIRECTORY_ENTRY_BYTES :: nat where "DIRECTORY_ENTRY_BYTES = 32"
definition ATTR_VOLUME_ID :: byte where "ATTR_VOLUME_ID = 0x08"
definition ATTR_DIRECTORY :: byte where "ATTR_DIRECTORY = 0x10"
definition ATTR_ARCHIVE :: byte where "ATTR_ARCHIVE = 0x20"
definition ATTR_LONG_NAME :: byte where "ATTR_LONG_NAME = 0x0f"
definition LAST_LONG_ENTRY :: nat where "LAST_LONG_ENTRY = 0x40"
definition LONG_NAME_CHARS_PER_ENTRY :: nat where "LONG_NAME_CHARS_PER_ENTRY = 13"
definition LONG_NAME_SLOTS :: "(nat \<times> nat) list" where
  "LONG_NAME_SLOTS = [(5, 1), (6, 14), (2, 28)]"
definition LONG_NAME_MAX_CHARS :: nat where "LONG_NAME_MAX_CHARS = 255"
definition LONG_NAME_PAD :: code_unit where "LONG_NAME_PAD = 0xffff"
definition SHORT_BASE_BYTES :: nat where "SHORT_BASE_BYTES = 8"
definition SHORT_EXTENSION_BYTES :: nat where "SHORT_EXTENSION_BYTES = 3"
definition SHORT_NAME_BYTES :: nat where
  "SHORT_NAME_BYTES = SHORT_BASE_BYTES + SHORT_EXTENSION_BYTES"
definition FAT_EPOCH_DATE :: nat where "FAT_EPOCH_DATE = 0 * 512 + 1 * 32 + 1"
definition FAT_EPOCH_TIME :: nat where "FAT_EPOCH_TIME = 0"

lemmas name_constants = DIRECTORY_ENTRY_BYTES_def ATTR_VOLUME_ID_def ATTR_DIRECTORY_def
  ATTR_ARCHIVE_def ATTR_LONG_NAME_def LAST_LONG_ENTRY_def LONG_NAME_CHARS_PER_ENTRY_def
  LONG_NAME_SLOTS_def LONG_NAME_MAX_CHARS_def LONG_NAME_PAD_def SHORT_BASE_BYTES_def
  SHORT_EXTENSION_BYTES_def SHORT_NAME_BYTES_def FAT_EPOCH_DATE_def FAT_EPOCH_TIME_def

section \<open>Short names\<close>

definition DOT :: code_unit where "DOT = 46"

text \<open>\<open>[A-Za-z0-9_~-]\<close>\<close>

definition name_char :: "code_unit \<Rightarrow> bool" where
  "name_char c \<longleftrightarrow>
     65 \<le> c \<and> c \<le> 90 \<or> 97 \<le> c \<and> c \<le> 122 \<or> 48 \<le> c \<and> c \<le> 57 \<or> c = 95 \<or> c = 126 \<or> c = 45"

text \<open>
  \<open>ENCODABLE_NAME\<close>: as a dot is no name character, the pattern matches when the longest
  run of name characters is the base.
\<close>

definition ENCODABLE_NAME :: "jsstring \<Rightarrow> bool" where
  "ENCODABLE_NAME name =
     (let base = takeWhile name_char name; rest = dropWhile name_char name
      in 1 \<le> length base \<and> length base \<le> 32 \<and>
         (case rest of
            [] \<Rightarrow> True
          | c # extension \<Rightarrow>
              c = DOT \<and> 1 \<le> length extension \<and> length extension \<le> 3 \<and>
              list_all name_char extension))"

text \<open>\<open>String.prototype.lastIndexOf\<close> of one code unit.\<close>

fun last_index_of :: "'a \<Rightarrow> 'a list \<Rightarrow> nat option" where
  "last_index_of c [] = None"
| "last_index_of c (x # xs) =
     (case last_index_of c xs of
        Some i \<Rightarrow> Some (Suc i)
      | None \<Rightarrow> if x = c then Some 0 else None)"

record short_name =
  name_bytes :: bytes
  exact :: bool

definition shortNameField :: "jsstring \<Rightarrow> jsstring \<Rightarrow> bytes" where
  "shortNameField base extension =
     write_ascii extension SHORT_BASE_BYTES SHORT_EXTENSION_BYTES
       (write_ascii base 0 SHORT_BASE_BYTES (replicate SHORT_NAME_BYTES 0x20))"

definition short_base :: "jsstring \<Rightarrow> jsstring" where
  "short_base name = to_upper_case
     (case last_index_of DOT name of None \<Rightarrow> name | Some dot \<Rightarrow> take dot name)"

definition short_extension :: "jsstring \<Rightarrow> jsstring" where
  "short_extension name = to_upper_case
     (case last_index_of DOT name of None \<Rightarrow> [] | Some dot \<Rightarrow> drop (dot + 1) name)"

text \<open>\<open>`${base}${extension && '.'}${extension}`\<close>\<close>

definition dotted :: "jsstring \<Rightarrow> jsstring \<Rightarrow> jsstring" where
  "dotted base extension = base @ (if extension = [] then [] else [DOT]) @ extension"

definition fat32ShortName :: "jsstring \<Rightarrow> disk_error + short_name" where
  "fat32ShortName name =
     (if \<not> ENCODABLE_NAME name then
        Inl (Workspace_path_error ''A guest boot disk file name cannot be stored on FAT32.'')
      else
        let base = short_base name; extension = short_extension name in
        if length base \<le> SHORT_BASE_BYTES \<and> dotted base extension = name then
          Inr \<lparr>name_bytes = shortNameField base extension, exact = True\<rparr>
        else
          Inr \<lparr>name_bytes = shortNameField (take 6 base @ js ''~1'') extension, exact = False\<rparr>)"

definition checksum_step :: "byte \<Rightarrow> byte \<Rightarrow> byte" where
  "checksum_step b s = (if odd s then 0x80 else 0) + s div 2 + b"

definition fat32ShortNameChecksum :: "bytes \<Rightarrow> disk_error + byte" where
  "fat32ShortNameChecksum shortNameBytes =
     (if length shortNameBytes \<noteq> SHORT_NAME_BYTES then
        Inl (Workspace_path_error ''A guest boot disk short name is malformed.'')
      else Inr (fold checksum_step shortNameBytes 0))"

section \<open>Long names\<close>

text \<open>\<open>[...name]\<close>: the code points, a surrogate pair as one element of two units.\<close>

fun code_points :: "jsstring \<Rightarrow> jsstring list" where
  "code_points [] = []"
| "code_points [c] = [[c]]"
| "code_points (c # d # s) =
     (if high_surrogate c \<and> low_surrogate d then [c, d] # code_points s
      else [c] # code_points (d # s))"

text \<open>The code unit a slot holds, then the slots of one entry in the order of the loop.\<close>

definition slot_code :: "jsstring list \<Rightarrow> nat \<Rightarrow> code_unit" where
  "slot_code characters i =
     (if i < length characters then hd (characters ! i)
      else if i = length characters then 0 else LONG_NAME_PAD)"

fun slot_writes :: "jsstring list \<Rightarrow> nat \<Rightarrow> (nat \<times> nat) list \<Rightarrow> (nat \<times> bytes) list" where
  "slot_writes characters first [] = []"
| "slot_writes characters first ((count, offset) # slots) =
     map (\<lambda>i. (offset + i * 2, le_bytes 2 (unat (slot_code characters (first + i))))) [0..<count] @
     slot_writes characters (first + count) slots"

definition long_name_entry :: "jsstring list \<Rightarrow> nat \<Rightarrow> byte \<Rightarrow> nat \<Rightarrow> bytes" where
  "long_name_entry characters count checksum ordinal =
     overlays
       ([(0, le_bytes 1 (if ordinal = count then or ordinal LAST_LONG_ENTRY else ordinal)),
         (11, [ATTR_LONG_NAME]), (13, [checksum])] @
        slot_writes characters ((ordinal - 1) * LONG_NAME_CHARS_PER_ENTRY) LONG_NAME_SLOTS)
       (replicate DIRECTORY_ENTRY_BYTES 0)"

definition fat32LongNameEntries :: "jsstring \<Rightarrow> byte \<Rightarrow> disk_error + bytes" where
  "fat32LongNameEntries name checksum =
     (let characters = code_points name in
      if length characters > LONG_NAME_MAX_CHARS \<or> list_ex (\<lambda>c. length c > 1) characters then
        Inl (Workspace_path_error ''A guest boot disk file name cannot be stored on FAT32.'')
      else
        let count = ceil_div (length characters) LONG_NAME_CHARS_PER_ENTRY in
        Inr (concat (map (long_name_entry characters count checksum) (rev [1..<Suc count]))))"

section \<open>Directory entries\<close>

definition fat32DirectoryEntry :: "byte \<Rightarrow> nat \<Rightarrow> bytes \<Rightarrow> nat \<Rightarrow> disk_error + bytes" where
  "fat32DirectoryEntry attributes firstCluster shortNameBytes sizeBytes =
     (let entry = overlays
        [(11, [attributes]), (14, le_bytes 2 FAT_EPOCH_TIME), (16, le_bytes 2 FAT_EPOCH_DATE),
         (18, le_bytes 2 FAT_EPOCH_DATE), (20, le_bytes 2 (firstCluster div 65536 mod 65536)),
         (22, le_bytes 2 FAT_EPOCH_TIME), (24, le_bytes 2 FAT_EPOCH_DATE),
         (26, le_bytes 2 (firstCluster mod 65536))]
        (copy_into (replicate DIRECTORY_ENTRY_BYTES 0) 0 shortNameBytes)
      in write_le 4 sizeBytes 28 entry)"

definition fat32DotEntries :: "nat \<Rightarrow> nat \<Rightarrow> disk_error + bytes" where
  "fat32DotEntries firstCluster parentCluster =
     bindE (fat32DirectoryEntry ATTR_DIRECTORY firstCluster (shortNameField (js ''.'') []) 0)
       (\<lambda>self. bindE (fat32DirectoryEntry ATTR_DIRECTORY parentCluster (shortNameField (js ''..'') []) 0)
          (\<lambda>parent. Inr (self @ parent)))"

definition label_char :: "code_unit \<Rightarrow> bool" where
  "label_char c \<longleftrightarrow> 65 \<le> c \<and> c \<le> 90 \<or> 48 \<le> c \<and> c \<le> 57 \<or> c = 95 \<or> c = 45"

definition fat32VolumeLabelEntry :: "jsstring \<Rightarrow> disk_error + bytes" where
  "fat32VolumeLabelEntry label =
     (if \<not> (1 \<le> length label \<and> length label \<le> 11 \<and> list_all label_char label) then
        Inl (Workspace_path_error ''A guest boot disk volume label is invalid.'')
      else fat32DirectoryEntry ATTR_VOLUME_ID 0
             (write_ascii label 0 SHORT_NAME_BYTES (replicate SHORT_NAME_BYTES 0x20)) 0)"

section \<open>Reading a directory\<close>

text \<open>
  A directory is a run of 32-byte entries.  A first byte of 0 says that no entry follows, 0xE5
  that the entry is free; an entry with the attribute \<open>ATTR_LONG_NAME\<close> holds a part of the
  name of the next entry that is none.  The parts come in falling order, so the nearest one
  is the first part: \<open>parts\<close> collects them in the order of the name.
\<close>

record dir_entry =
  entry_name :: jsstring
  entry_attributes :: byte
  entry_cluster :: nat
  entry_size :: nat

definition short_sum :: "bytes \<Rightarrow> byte" where
  "short_sum name = fold checksum_step name 0"

definition unpadded :: "bytes \<Rightarrow> jsstring" where
  "unpadded bs = map ucast (rev (dropWhile (\<lambda>b. b = 0x20) (rev bs)))"

definition short_text :: "bytes \<Rightarrow> jsstring" where
  "short_text name = dotted (unpadded (bytes_at 0 8 name)) (unpadded (bytes_at 8 3 name))"

definition long_chars :: "bytes \<Rightarrow> jsstring" where
  "long_chars e = map (\<lambda>i. word_of_nat (le_at 2 i e)) [1, 3, 5, 7, 9, 14, 16, 18, 20, 22, 24, 28, 30]"

definition part_ordinals :: "nat \<Rightarrow> nat list" where
  "part_ordinals n = map (\<lambda>i. if i = n then or i 0x40 else i) [1..<Suc n]"

definition parts_bind :: "byte \<Rightarrow> bytes list \<Rightarrow> bool" where
  "parts_bind checksum parts \<longleftrightarrow>
     parts \<noteq> [] \<and> map (le_at 1 0) parts = part_ordinals (length parts) \<and>
     list_all (\<lambda>e. bytes_at 13 1 e = [checksum]) parts"

definition read_entry :: "bytes list \<Rightarrow> bytes \<Rightarrow> dir_entry" where
  "read_entry parts e =
     \<lparr>entry_name =
        (if parts_bind (short_sum (bytes_at 0 11 e)) parts
         then takeWhile (\<lambda>c. c \<noteq> 0) (concat (map long_chars parts))
         else short_text (bytes_at 0 11 e)),
      entry_attributes = e ! 11,
      entry_cluster = le_at 2 20 e * 65536 + le_at 2 26 e,
      entry_size = le_at 4 28 e\<rparr>"

fun list_directory :: "bytes list \<Rightarrow> bytes list \<Rightarrow> dir_entry list" where
  "list_directory parts [] = []"
| "list_directory parts (e # es) =
     (if e ! 0 = 0 then []
      else if e ! 0 = 0xE5 then list_directory [] es
      else if e ! 11 = ATTR_LONG_NAME then list_directory (e # parts) es
      else read_entry parts e # list_directory [] es)"

definition entries_of :: "bytes \<Rightarrow> bytes list" where
  "entries_of bs = map (\<lambda>i. bytes_at (32 * i) 32 bs) [0..<length bs div 32]"

lemma entries_of_append:
  assumes "length e = 32"
  shows "entries_of (e @ bs) = e # entries_of bs"
proof -
  have "length (e @ bs) div 32 = Suc (length bs div 32)" using assms by simp
  moreover have "bytes_at (32 * Suc i) 32 (e @ bs) = bytes_at (32 * i) 32 bs" for i
    using assms by (simp add: bytes_at_def)
  ultimately show ?thesis using assms
    by (simp add: entries_of_def upt_conv_Cons map_Suc_upt[symmetric] o_def bytes_at_def
        del: upt_Suc mult_Suc_right)
qed

lemma entries_of_concat:
  "list_all (\<lambda>e. length e = 32) es \<Longrightarrow> entries_of (concat es @ bs) = es @ entries_of bs"
  by (induction es) (simp_all add: entries_of_append)

section \<open>Characters of names\<close>

text \<open>The code units a short name may hold: visible ASCII.\<close>

definition visible :: "code_unit \<Rightarrow> bool" where
  "visible c \<longleftrightarrow> 33 \<le> c \<and> c < 127"

lemma visible_name_char: "name_char c \<Longrightarrow> visible c"
  by (auto simp: name_char_def visible_def word_le_nat_alt word_less_nat_alt)

definition raised :: "code_unit \<Rightarrow> code_unit" where
  "raised c = (if 97 \<le> c \<and> c \<le> 122 then c - 32 else c)"

lemma upper_visible: "visible c \<Longrightarrow> upper_unit c = [raised c]"
  by (auto simp: visible_def upper_unit_def raised_def)

lemma visible_raised: "visible c \<Longrightarrow> visible (raised c)"
  by (auto simp: visible_def raised_def word_le_nat_alt word_less_nat_alt unat_sub)

lemma to_upper_visible: "list_all visible s \<Longrightarrow> to_upper_case s = map raised s"
  by (induction s) (simp_all add: to_upper_case_def upper_visible)

lemma visible_upper: "list_all visible s \<Longrightarrow> list_all visible (to_upper_case s)"
  by (simp add: to_upper_visible list_all_iff visible_raised)

lemma visible_ascii: "visible c \<Longrightarrow> ucast (ucast c :: byte) = c"
  by (rule word_unat_eq_iff[THEN iffD2])
    (auto simp: visible_def word_le_nat_alt word_less_nat_alt unsigned_ucast_eq take_bit_eq_mod unat_mod)

lemma visible_byte:
  assumes "visible c"
  shows "(ucast c :: byte) \<noteq> 0" "(ucast c :: byte) \<noteq> 0x20" "(ucast c :: byte) \<noteq> 0xE5"
  using visible_ascii[OF assms] assms by (auto simp: visible_def)

section \<open>What a short entry says\<close>

lemma last_index_of_None: "c \<notin> set s \<Longrightarrow> last_index_of c s = None"
  by (induction s) auto

lemma last_index_of_append: "c \<notin> set s \<Longrightarrow> last_index_of c (b @ c # s) = Some (length b)"
  by (induction b) (simp_all add: last_index_of_None)

lemma dot_no_name_char: "list_all name_char s \<Longrightarrow> DOT \<notin> set s"
  by (induction s) (auto simp: name_char_def DOT_def)

lemma encodable_parts:
  assumes "ENCODABLE_NAME name"
  obtains b e where "name = dotted b e" "1 \<le> length b" "length b \<le> 32" "length e \<le> 3"
    "list_all name_char b" "list_all name_char e"
    "short_base name = to_upper_case b" "short_extension name = to_upper_case e"
proof -
  define b where "b = takeWhile name_char name"
  define r where "r = dropWhile name_char name"
  have name: "name = b @ r" by (simp add: b_def r_def)
  have b: "list_all name_char b" by (simp add: b_def list_all_iff) (meson set_takeWhileD)
  have base: "1 \<le> length b" "length b \<le> 32"
    using assms by (simp_all add: ENCODABLE_NAME_def Let_def b_def)
  show thesis
  proof (cases r)
    case Nil
    then show thesis using that[of b "[]"] b base name dot_no_name_char[OF b]
      by (simp add: dotted_def short_base_def short_extension_def last_index_of_None)
  next
    case (Cons c e)
    then have e: "c = DOT" "1 \<le> length e" "length e \<le> 3" "list_all name_char e"
      using assms by (auto simp: ENCODABLE_NAME_def Let_def r_def)
    have "e \<noteq> []" using e(2) by auto
    from e have "last_index_of DOT name = Some (length b)"
      using Cons name by (simp add: last_index_of_append dot_no_name_char)
    then show thesis using that[of b e] b base name e Cons \<open>e \<noteq> []\<close>
      by (auto simp: dotted_def short_base_def short_extension_def)
  qed
qed

lemma shortNameField_bytes:
  assumes "length b \<le> 8" "length e \<le> 3"
  shows "shortNameField b e =
    (ascii b @ replicate (8 - length b) 0x20) @ (ascii e @ replicate (3 - length e) 0x20)"
  using assms
  by (simp add: shortNameField_def write_ascii_def copy_into_def overlay_def name_constants)

lemma unpadded_ascii:
  assumes "list_all visible s"
  shows "unpadded (ascii s @ replicate n 0x20) = s"
proof -
  have pad: "dropWhile (\<lambda>b. b = 0x20) (replicate n (0x20 :: byte) @ xs) = dropWhile (\<lambda>b. b = 0x20) xs"
    for xs by (induction n) simp_all
  have "dropWhile (\<lambda>b. b = 0x20) (rev (ascii s)) = rev (ascii s)"
    using assms by (cases "rev (ascii s)")
      (auto simp: ascii_def list_all_iff rev_eq_Cons_iff map_eq_append_conv visible_byte)
  moreover have "map ucast (ascii s) = s"
    using assms by (induction s) (simp_all add: ascii_def visible_ascii)
  ultimately show ?thesis by (simp add: unpadded_def pad)
qed

lemma short_text_field:
  assumes "length b \<le> 8" "length e \<le> 3" "list_all visible b" "list_all visible e"
  shows "short_text (shortNameField b e) = dotted b e"
  using assms by (simp add: shortNameField_bytes short_text_def bytes_at_def unpadded_ascii)

lemma length_shortNameField:
  "length b \<le> 8 \<Longrightarrow> length e \<le> 3 \<Longrightarrow> length (shortNameField b e) = 11"
  by (simp add: shortNameField_bytes)

lemma hd_shortNameField:
  "b \<noteq> [] \<Longrightarrow> length b \<le> 8 \<Longrightarrow> length e \<le> 3 \<Longrightarrow> shortNameField b e ! 0 = ucast (hd b)"
  by (cases b) (simp_all add: shortNameField_bytes ascii_def)

lemma directory_entry:
  assumes "fat32DirectoryEntry attributes cluster name bytes_held = Inr e" "length name = 11"
  shows "length e = 32" "bytes_at 0 11 e = name" "bytes_at 11 1 e = [attributes]"
    "le_at 2 20 e * 65536 + le_at 2 26 e = cluster mod 2 ^ 32" "le_at 4 28 e = bytes_held"
proof -
  define ws :: "(nat \<times> bytes) list" where "ws =
    [(0, name), (11, [attributes]), (14, le_bytes 2 FAT_EPOCH_TIME), (16, le_bytes 2 FAT_EPOCH_DATE),
     (18, le_bytes 2 FAT_EPOCH_DATE), (20, le_bytes 2 (cluster div 65536 mod 65536)),
     (22, le_bytes 2 FAT_EPOCH_TIME), (24, le_bytes 2 FAT_EPOCH_DATE),
     (26, le_bytes 2 (cluster mod 65536)), (28, le_bytes 4 bytes_held)]"
  have e: "bytes_held < 256 ^ 4" "e = overlays ws (replicate 32 0)"
    using assms by (auto simp: fat32DirectoryEntry_def write_le_def set_bytes_def ws_def
        copy_into_fits name_constants Let_def split: if_splits)
  have ok: "list_all (fits (length (replicate 32 (0 :: byte)))) ws" "sorted_wrt apart ws"
    using assms(2) by (simp_all add: ws_def)
  note get = read_overlays[OF ok, folded e(2)]
  show "length e = 32" using ok(1) by (simp add: e(2) length_overlays)
  show "bytes_at 0 11 e = name" using get[of 0 name] assms(2) by (simp add: ws_def)
  show "bytes_at 11 1 e = [attributes]" using get[of 11 "[attributes]"] by (simp add: ws_def)
  have "le_at 2 20 e = cluster div 65536 mod 65536"
    using get[of 20 "le_bytes 2 (cluster div 65536 mod 65536)"]
    by (simp add: ws_def le_at_def le_value_bytes)
  moreover have "le_at 2 26 e = cluster mod 65536"
    using get[of 26 "le_bytes 2 (cluster mod 65536)"]
    by (simp add: ws_def le_at_def le_value_bytes)
  ultimately show "le_at 2 20 e * 65536 + le_at 2 26 e = cluster mod 2 ^ 32"
    using mod_mult2_eq[of cluster 65536 65536] by simp
  show "le_at 4 28 e = bytes_held"
    using get[of 28 "le_bytes 4 bytes_held"] e(1) by (simp add: ws_def le_at_def le_value_bytes)
qed

section \<open>What the long entries say\<close>

lemma code_points_plain: "list_all visible s \<Longrightarrow> code_points s = map (\<lambda>c. [c]) s"
proof (induction s rule: code_points.induct)
  case (3 c d s)
  have "\<not> high_surrogate c"
    using "3.prems" by (auto simp: visible_def high_surrogate_def word_le_nat_alt word_less_nat_alt)
  then show ?case using 3 by simp
qed simp_all

definition entry_slots :: "jsstring list \<Rightarrow> nat \<Rightarrow> jsstring" where
  "entry_slots characters ordinal = map (slot_code characters) [(ordinal - 1) * 13..<(ordinal - 1) * 13 + 13]"

lemma long_entry:
  fixes characters count checksum ordinal
  defines "e \<equiv> long_name_entry characters count checksum ordinal"
  assumes "ordinal \<le> 20"
  shows "length e = 32"
    "le_at 1 0 e = (if ordinal = count then or ordinal 0x40 else ordinal)"
    "bytes_at 11 1 e = [ATTR_LONG_NAME]" "bytes_at 13 1 e = [checksum]"
    "long_chars e = entry_slots characters ordinal"
proof -
  define k where "k = (ordinal - 1) * 13"
  define u where "u i = le_bytes 2 (unat (slot_code characters (k + i)))" for i
  define m where "m = (if ordinal = count then or ordinal 0x40 else ordinal)"
  define ws :: "(nat \<times> bytes) list" where "ws =
    [(0, le_bytes 1 m), (11, [ATTR_LONG_NAME]), (13, [checksum]),
     (1, u 0), (3, u 1), (5, u 2), (7, u 3), (9, u 4), (14, u 5), (16, u 6), (18, u 7),
     (20, u 8), (22, u 9), (24, u 10), (28, u 11), (30, u 12)]"
  have u: "length (u i) = 2" for i by (simp add: u_def)
  have "slot_writes characters k LONG_NAME_SLOTS = drop 3 ws"
    by (simp add: ws_def LONG_NAME_SLOTS_def upt_rec u_def eval_nat_numeral del: le_bytes.simps)
  then have e: "e = overlays ws (replicate 32 0)"
    by (simp add: e_def long_name_entry_def ws_def name_constants k_def[unfolded One_nat_def] m_def
        del: overlays_simps le_bytes.simps)
  have ok: "list_all (fits (length (replicate 32 (0 :: byte)))) ws" "sorted_wrt apart ws"
    by (simp_all add: ws_def u)
  note get = read_overlays[OF ok, folded e]
  show "length e = 32" using ok(1) by (simp add: e length_overlays)
  have "list_all (\<lambda>n. n < 256 \<and> or n 0x40 < (256 :: nat)) [0..<21]" by code_simp
  then have "m < 256" using assms(2) by (auto simp: list_all_iff m_def)
  then show "le_at 1 0 e = m" using get[of 0 "le_bytes 1 m"]
    by (simp add: ws_def le_at_def le_value_bytes)
  show "bytes_at 11 1 e = [ATTR_LONG_NAME]"
    using get[of 11 "[ATTR_LONG_NAME]"] by (simp add: ws_def)
  show "bytes_at 13 1 e = [checksum]" using get[of 13 "[checksum]"] by (simp add: ws_def)
  have slot: "word_of_nat (le_at 2 o' e) = slot_code characters (k + i)" if "(o', u i) \<in> set ws" for o' i
  proof -
    have "unat (slot_code characters (k + i)) < 65536"
      using unsigned_less[of "slot_code characters (k + i)"] by simp
    then show ?thesis using get[OF that] by (simp add: u_def le_at_def le_value_bytes)
  qed
  have "entry_slots characters ordinal = map (\<lambda>i. slot_code characters (k + i)) [0..<13]"
    unfolding entry_slots_def k_def[symmetric] by (rule nth_equalityI) simp_all
  moreover have "[0..<13] = [0, 1, 2, 3, 4, 5, 6, 7, 8, 9, 10, 11, 12 :: nat]" by code_simp
  moreover have "long_chars e =
      map (\<lambda>i. slot_code characters (k + i)) [0, 1, 2, 3, 4, 5, 6, 7, 8, 9, 10, 11, 12]"
    using slot[of 1 0] slot[of 3 1] slot[of 5 2] slot[of 7 3] slot[of 9 4] slot[of 14 5]
      slot[of 16 6] slot[of 18 7] slot[of 20 8] slot[of 22 9] slot[of 24 10] slot[of 28 11]
      slot[of 30 12]
    by (simp add: long_chars_def ws_def)
  ultimately show "long_chars e = entry_slots characters ordinal" by simp
qed

lemma concat_slots:
  "concat (map (entry_slots characters) [1..<Suc n]) = map (slot_code characters) [0..<n * 13]"
proof (induction n)
  case (Suc n)
  have "[0..<Suc n * 13] = [0..<n * 13] @ [n * 13..<n * 13 + 13]"
    by (metis add.commute le0 mult_Suc upt_add_eq_append)
  then show ?case using Suc by (simp add: entry_slots_def del: upt_Suc mult_Suc) simp
qed simp

lemma long_name_read:
  assumes "0 \<notin> set name" "length name \<le> n * 13"
  shows "takeWhile (\<lambda>c. c \<noteq> 0) (map (slot_code (map (\<lambda>c. [c]) name)) [0..<n * 13]) = name"
proof -
  let ?code = "slot_code (map (\<lambda>c. [c]) name)"
  have split: "[0..<n * 13] = [0..<length name] @ [length name..<n * 13]"
    using assms(2) by (metis le_add_diff_inverse plus_nat.add_0 upt_add_eq_append zero_le)
  have front: "map ?code [0..<length name] = name"
    by (rule nth_equalityI) (simp_all add: slot_code_def)
  have padding: "takeWhile (\<lambda>c. c \<noteq> 0) (map ?code [length name..<n * 13]) = []"
    by (cases "length name < n * 13") (simp_all add: upt_conv_Cons slot_code_def)
  have "takeWhile (\<lambda>c. c \<noteq> 0) (name @ map ?code [length name..<n * 13]) = name @ []"
    using assms(1) by (subst takeWhile_append2) (auto simp: padding)
  then show ?thesis by (simp add: split front)
qed

lemma list_parts:
  assumes "\<forall>e\<in>set parts. e ! 0 \<noteq> 0 \<and> e ! 0 \<noteq> 0xE5 \<and> e ! 11 = ATTR_LONG_NAME"
  shows "list_directory ps (parts @ es) = list_directory (rev parts @ ps) es"
  using assms by (induction parts arbitrary: ps) simp_all

lemma byte_of: "i < length e \<Longrightarrow> bytes_at i 1 e = [b] \<Longrightarrow> e ! i = b"
  by (simp add: bytes_at_def take_Suc hd_drop_conv_nth split: if_splits)

lemma byte_value: "i < length e \<Longrightarrow> le_at 1 i e = unat (e ! i)"
  by (simp add: le_at_def bytes_at_def take_Suc hd_drop_conv_nth)

lemma long_entries_listed:
  assumes "fat32LongNameEntries name checksum = Inr bs" "list_all visible name" "name \<noteq> []"
    and "length name \<le> 255"
  obtains parts where "bs = concat parts" "length parts = ceil_div (length name) 13"
    "list_all (\<lambda>e. length e = 32) parts"
    "\<forall>es. list_directory [] (parts @ es) = list_directory (rev parts) es"
    "parts_bind checksum (rev parts)"
    "takeWhile (\<lambda>c. c \<noteq> 0) (concat (map long_chars (rev parts))) = name"
proof -
  define n where "n = ceil_div (length name) 13"
  have n: "1 \<le> n" "n \<le> 20" "length name \<le> n * 13"
    using assms(3,4) by (cases name; simp add: n_def ceil_div_def)+
  let ?entry = "long_name_entry (map (\<lambda>c. [c]) name) n checksum"
  define parts where "parts = map ?entry (rev [1..<Suc n])"
  have bs: "bs = concat parts"
    using assms(1,2,4)
    by (simp add: fat32LongNameEntries_def code_points_plain n_def parts_def name_constants Let_def
        split: if_splits)
  note facts = long_entry[of _ "map (\<lambda>c. [c]) name" n checksum]
  have ordinals: "list_all (\<lambda>i. or i 0x40 \<notin> {0, 0xE5 :: nat}) [0..<21]" by code_simp
  have first: "?entry i ! 0 \<noteq> 0 \<and> ?entry i ! 0 \<noteq> 0xE5 \<and> ?entry i ! 11 = ATTR_LONG_NAME"
    if "1 \<le> i" "i \<le> n" for i
  proof -
    have i: "i \<le> 20" using that n by simp
    have "unat (?entry i ! 0) = (if i = n then or i 0x40 else i)"
      using facts(1,2)[OF i] byte_value[of 0 "?entry i"] by simp
    then have "unat (?entry i ! 0) \<notin> {0, 0xE5}"
      using that n ordinals by (auto simp: list_all_iff split: if_splits)
    moreover have "?entry i ! 11 = ATTR_LONG_NAME"
      using facts(1,3)[OF i] byte_of[of 11 "?entry i"] by simp
    ultimately show ?thesis by auto
  qed
  have "map (le_at 1 0) (rev parts) = part_ordinals n"
    using n by (auto simp: parts_def part_ordinals_def rev_map facts(2) simp del: upt_Suc One_nat_def)
  then have bound: "parts_bind checksum (rev parts)"
    using n by (simp add: parts_bind_def parts_def list_all_iff facts(4) del: upt_Suc One_nat_def)
  have "map long_chars (rev parts) = map (entry_slots (map (\<lambda>c. [c]) name)) [1..<Suc n]"
    using n by (auto simp: parts_def rev_map facts(5) simp del: upt_Suc)
  then have chars: "concat (map long_chars (rev parts)) =
      map (slot_code (map (\<lambda>c. [c]) name)) [0..<n * 13]"
    by (simp only: concat_slots)
  have zero: "0 \<notin> set name" using assms(2) by (auto simp: list_all_iff visible_def)
  have read: "takeWhile (\<lambda>c. c \<noteq> 0) (concat (map long_chars (rev parts))) = name"
    unfolding chars by (rule long_name_read[OF zero n(3)])
  show thesis
  proof (rule that[OF bs _ _ _ bound read])
    show "length parts = ceil_div (length name) 13" by (simp add: parts_def n_def)
    show "list_all (\<lambda>e. length e = 32) parts"
      using n by (simp add: parts_def list_all_iff facts(1) del: upt_Suc)
    show "\<forall>es. list_directory [] (parts @ es) = list_directory (rev parts) es"
      using first by (subst list_parts) (auto simp: parts_def simp del: upt_Suc)
  qed
qed

section \<open>What the entries of one name say\<close>

lemma short_entry_listed:
  assumes "fat32DirectoryEntry attributes cluster (shortNameField b x) held = Inr e"
    and "b \<noteq> []" "length b \<le> 8" "length x \<le> 3" "list_all visible b" "list_all visible x"
    and "attributes \<noteq> ATTR_LONG_NAME"
  shows "length e = 32"
    "list_directory parts (e # es) =
       \<lparr>entry_name = (if parts_bind (short_sum (shortNameField b x)) parts
          then takeWhile (\<lambda>c. c \<noteq> 0) (concat (map long_chars parts)) else dotted b x),
        entry_attributes = attributes, entry_cluster = cluster mod 2 ^ 32, entry_size = held\<rparr> #
       list_directory [] es"
proof -
  note facts = directory_entry[OF assms(1) length_shortNameField[OF assms(3,4)]]
  show len: "length e = 32" by (rule facts(1))
  have attr: "e ! 11 = attributes" using byte_of[OF _ facts(3)] len by simp
  have "e ! 0 = bytes_at 0 11 e ! 0" by (simp add: bytes_at_def)
  also have "\<dots> = ucast (hd b)" using assms(2-4) by (simp add: facts(2) hd_shortNameField)
  finally have "e ! 0 \<noteq> 0 \<and> e ! 0 \<noteq> 0xE5"
    using assms(2,5) visible_byte[of "hd b"] by (cases b) auto
  then show "list_directory parts (e # es) =
       \<lparr>entry_name = (if parts_bind (short_sum (shortNameField b x)) parts
          then takeWhile (\<lambda>c. c \<noteq> 0) (concat (map long_chars parts)) else dotted b x),
        entry_attributes = attributes, entry_cluster = cluster mod 2 ^ 32, entry_size = held\<rparr> #
       list_directory [] es"
    using assms(3-7) by (simp add: attr read_entry_def facts(2,4,5) short_text_field)
qed

lemma not_bound [simp]: "\<not> parts_bind checksum []"
  by (simp add: parts_bind_def)

lemma visible_marks: "visible 46" "visible 126" "visible 49"
  by (simp_all add: visible_def)

lemma dot_entries_listed:
  assumes "fat32DotEntries cluster parent = Inr bs"
  obtains self up where "bs = self @ up" "length self = 32" "length up = 32"
    "\<And>es. list_directory [] (self # up # es) =
       \<lparr>entry_name = js ''.'', entry_attributes = ATTR_DIRECTORY, entry_cluster = cluster mod 2 ^ 32, entry_size = 0\<rparr> #
       \<lparr>entry_name = js ''..'', entry_attributes = ATTR_DIRECTORY, entry_cluster = parent mod 2 ^ 32, entry_size = 0\<rparr> #
       list_directory [] es"
proof -
  from assms obtain self up where bs: "bs = self @ up"
    and self: "fat32DirectoryEntry ATTR_DIRECTORY cluster (shortNameField (js ''.'') []) 0 = Inr self"
    and up: "fat32DirectoryEntry ATTR_DIRECTORY parent (shortNameField (js ''..'') []) 0 = Inr up"
    by (auto simp: fat32DotEntries_def)
  have ok: "list_all visible (js ''.'')" "list_all visible (js ''..'')"
    "ATTR_DIRECTORY \<noteq> ATTR_LONG_NAME"
    by (simp_all add: js_simps visible_marks name_constants)
  note s = short_entry_listed[OF self _ _ _ ok(1) _ ok(3)]
  note u = short_entry_listed[OF up _ _ _ ok(2) _ ok(3)]
  show thesis
    by (rule that[OF bs]) (simp_all add: s u js_simps dotted_def del: list_directory.simps)
qed

lemma label_entry_listed:
  assumes "fat32VolumeLabelEntry label = Inr e"
  shows "length e = 32" "entry_attributes (read_entry [] e) = ATTR_VOLUME_ID"
    "list_directory [] (e # es) = read_entry [] e # list_directory [] es"
proof -
  have label: "label \<noteq> []" "length label \<le> 11" "list_all label_char label"
    and e: "fat32DirectoryEntry ATTR_VOLUME_ID 0
      (write_ascii label 0 SHORT_NAME_BYTES (replicate SHORT_NAME_BYTES 0x20)) 0 = Inr e"
    using assms by (auto simp: fat32VolumeLabelEntry_def split: if_splits)
  define field where "field = ascii label @ replicate (11 - length label) 0x20"
  have field: "write_ascii label 0 SHORT_NAME_BYTES (replicate SHORT_NAME_BYTES 0x20) = field"
    using label(2) by (simp add: field_def write_ascii_def copy_into_def overlay_def name_constants)
  have "length field = 11" using label(2) by (simp add: field_def)
  note facts = directory_entry[OF e[unfolded field] this]
  show len: "length e = 32" by (rule facts(1))
  have attr: "e ! 11 = ATTR_VOLUME_ID" using byte_of[OF _ facts(3)] len by simp
  have "e ! 0 = bytes_at 0 11 e ! 0" by (simp add: bytes_at_def)
  also have "\<dots> = ucast (hd label)"
    using label(1) by (cases label) (simp_all add: facts(2) field_def ascii_def)
  finally have "e ! 0 \<noteq> 0 \<and> e ! 0 \<noteq> 0xE5"
    using label(1,3) visible_byte[of "hd label"] visible_name_char[of "hd label"]
    by (cases label) (auto simp: label_char_def name_char_def)
  moreover have "ATTR_VOLUME_ID \<noteq> ATTR_LONG_NAME" by (simp add: name_constants)
  ultimately show "list_directory [] (e # es) = read_entry [] e # list_directory [] es"
    by (simp add: attr)
  show "entry_attributes (read_entry [] e) = ATTR_VOLUME_ID" by (simp add: read_entry_def attr)
qed

end
