(* ===== verification/Fat32.thy ===== *)
theory Fat32
  imports Fat32Names "HOL-Library.Multiset"
begin

text \<open>
  The FAT32 volume writer of the executor (\<open>src/executor/src/hyperv/fat32.ts\<close>): the geometry
  of a volume, the allocation of clusters to the tree of files, the tables and the image, each
  function under its name in the file.

  \<^item> The closures \<open>claim\<close> and \<open>place\<close> of \<open>allocateTree\<close> share the next free cluster; here it
    is passed on.  \<open>fill_directory\<close> is the part of \<open>place\<close> that fills one directory,
    \<open>place_nodes\<close> the loop after it, which goes down the tree.
  \<^item> The lemmas on geometries say that the table is large enough and that the data area ends
    inside the disk; those on allocations that every cluster is owned once.
\<close>

section \<open>Geometry\<close>

definition FAT32_SECTOR_BYTES :: nat where "FAT32_SECTOR_BYTES = 512"
definition FAT_ENTRY_BYTES :: nat where "FAT_ENTRY_BYTES = 4"
definition FAT_COUNT :: nat where "FAT_COUNT = 2"
definition RESERVED_SECTORS :: nat where "RESERVED_SECTORS = 32"
definition FIRST_DATA_CLUSTER :: nat where "FIRST_DATA_CLUSTER = 2"
definition FAT_ENTRY_MEDIA :: nat where "FAT_ENTRY_MEDIA = 0x0ffffff8"
definition FAT_ENTRY_END_OF_CHAIN :: nat where "FAT_ENTRY_END_OF_CHAIN = 0x0fffffff"
definition MEDIA_FIXED :: nat where "MEDIA_FIXED = 0xf8"
definition FAT32_MINIMUM_CLUSTER_COUNT :: nat where "FAT32_MINIMUM_CLUSTER_COUNT = 65525"
definition VOLUME_SERIAL :: nat where "VOLUME_SERIAL = 0x4e455353"
definition BACKUP_BOOT_SECTOR :: nat where "BACKUP_BOOT_SECTOR = 6"
definition MAX_SAFE_INTEGER :: nat where "MAX_SAFE_INTEGER = 9007199254740991"

lemmas fat_constants = FAT32_SECTOR_BYTES_def FAT_ENTRY_BYTES_def FAT_COUNT_def
  RESERVED_SECTORS_def FIRST_DATA_CLUSTER_def FAT_ENTRY_MEDIA_def FAT_ENTRY_END_OF_CHAIN_def
  MEDIA_FIXED_def FAT32_MINIMUM_CLUSTER_COUNT_def VOLUME_SERIAL_def BACKUP_BOOT_SECTOR_def

text \<open>Pairs of \<open>maxSectors\<close> and \<open>sectorsPerCluster\<close>.\<close>

definition SECTORS_PER_CLUSTER_TABLE :: "(nat \<times> nat) list" where
  "SECTORS_PER_CLUSTER_TABLE =
     [(66600, 0), (532480, 1), (16777216, 8), (33554432, 16), (67108864, 32), (MAX_SAFE_INTEGER, 64)]"

record fat32_geometry =
  clusterCount :: nat
  fatSectors :: nat
  firstDataSector :: nat
  reservedSectors :: nat
  sectorsPerCluster :: nat
  totalSectors :: nat

definition sectors_per_cluster :: "nat \<Rightarrow> nat" where
  "sectors_per_cluster sectors =
     (case find (\<lambda>row. sectors \<le> fst row) SECTORS_PER_CLUSTER_TABLE of
        Some row \<Rightarrow> snd row | None \<Rightarrow> 0)"

definition too_small :: disk_error where
  "too_small = Workspace_path_error ''A guest boot disk is too small to hold a FAT32 volume.''"

definition fat32Geometry :: "int \<Rightarrow> disk_error + fat32_geometry" where
  "fat32Geometry sizeBytes =
     (if sizeBytes > int MAX_SAFE_INTEGER \<or> sizeBytes \<le> 0 \<or> sizeBytes mod 512 \<noteq> 0 then
        Inl (Workspace_path_error ''A guest boot disk must be a whole number of 512-byte sectors.'')
      else
        let sectors = nat sizeBytes div FAT32_SECTOR_BYTES;
            per_cluster = sectors_per_cluster sectors
        in if per_cluster = 0 then Inl too_small
           else
             let divisor = (256 * per_cluster + FAT_COUNT) div 2;
                 fats = ceil_div (sectors - RESERVED_SECTORS) divisor;
                 first_data = RESERVED_SECTORS + FAT_COUNT * fats;
                 clusters = (sectors - first_data) div per_cluster
             in if clusters \<le> FAT32_MINIMUM_CLUSTER_COUNT then Inl too_small
                else Inr \<lparr>clusterCount = clusters, fatSectors = fats, firstDataSector = first_data,
                  reservedSectors = RESERVED_SECTORS, sectorsPerCluster = per_cluster,
                  totalSectors = sectors\<rparr>)"

section \<open>Trees and sizes\<close>

datatype fat32_node =
  File_node (node_content: bytes) (node_name: jsstring)
| Directory_node (node_children: "fat32_node list") (node_name: jsstring)

record allocation =
  held_bytes :: bytes
  first_cluster :: nat
  cluster_count :: nat

definition clusterBytes :: "fat32_geometry \<Rightarrow> nat" where
  "clusterBytes g = sectorsPerCluster g * FAT32_SECTOR_BYTES"

fun node_attributes :: "fat32_node \<Rightarrow> byte" where
  "node_attributes (File_node content name) = ATTR_ARCHIVE"
| "node_attributes (Directory_node children name) = ATTR_DIRECTORY"

fun node_length :: "fat32_node \<Rightarrow> nat" where
  "node_length (File_node content name) = length content"
| "node_length (Directory_node children name) = 0"

definition nameEntries :: "fat32_node \<Rightarrow> nat \<Rightarrow> disk_error + bytes" where
  "nameEntries node firstCluster =
     bindE (fat32ShortName (node_name node)) (\<lambda>short.
     bindE (fat32DirectoryEntry (node_attributes node) firstCluster (name_bytes short)
              (node_length node)) (\<lambda>entry.
     if exact short then Inr entry
     else bindE (fat32ShortNameChecksum (name_bytes short)) (\<lambda>checksum.
          bindE (fat32LongNameEntries (node_name node) checksum) (\<lambda>long.
          Inr (long @ entry)))))"

fun directoryEntryCount :: "fat32_node list \<Rightarrow> nat \<Rightarrow> disk_error + nat" where
  "directoryEntryCount [] leadingEntries = Inr leadingEntries"
| "directoryEntryCount (child # children) leadingEntries =
     bindE (fat32ShortName (node_name child)) (\<lambda>short.
       directoryEntryCount children
         (leadingEntries +
          (if exact short then 1
           else 1 + ceil_div (length (code_points (node_name child))) LONG_NAME_CHARS_PER_ENTRY)))"

definition clustersFor :: "nat \<Rightarrow> fat32_geometry \<Rightarrow> nat" where
  "clustersFor byteLength g = ceil_div byteLength (clusterBytes g)"

definition directorySizeBytes :: "fat32_node list \<Rightarrow> nat \<Rightarrow> fat32_geometry \<Rightarrow> disk_error + nat" where
  "directorySizeBytes children leadingEntries g =
     bindE (directoryEntryCount children leadingEntries) (\<lambda>n.
       Inr (clustersFor (n * DIRECTORY_ENTRY_BYTES) g * clusterBytes g))"

fun nodeSizeBytes :: "fat32_node \<Rightarrow> fat32_geometry \<Rightarrow> disk_error + nat" where
  "nodeSizeBytes (File_node content name) g = Inr (length content)"
| "nodeSizeBytes (Directory_node children name) g = directorySizeBytes children 2 g"

section \<open>Allocation\<close>

text \<open>
  The first loop of \<open>place\<close>: claim the clusters of every child and copy its entries into the
  directory.  It returns the children's first clusters (0 for an empty file), the directory
  and the next free cluster.
\<close>

fun enter_children ::
  "fat32_geometry \<Rightarrow> fat32_node list \<Rightarrow> nat \<Rightarrow> bytes \<Rightarrow> nat \<Rightarrow> disk_error + nat list \<times> bytes \<times> nat" where
  "enter_children g [] offset directory next = Inr ([], directory, next)"
| "enter_children g (child # children) offset directory next =
     bindE (nodeSizeBytes child g) (\<lambda>childBytes.
     let childCluster = (if childBytes = 0 then 0 else next);
         claimed = (if childBytes = 0 then next else next + clustersFor childBytes g) in
     bindE (nameEntries child childCluster) (\<lambda>entries.
     bindE (enter_children g children (offset + min (length entries) (length directory - offset))
              (copy_into directory offset entries) claimed)
       (\<lambda>(clusters, filled, free). Inr (childCluster # clusters, filled, free))))"

definition fill_directory ::
  "fat32_geometry \<Rightarrow> fat32_node list \<Rightarrow> nat \<Rightarrow> bytes \<Rightarrow> nat \<Rightarrow>
     disk_error + allocation \<times> nat list \<times> nat" where
  "fill_directory g children firstCluster leading next =
     bindE (directorySizeBytes children (length leading div DIRECTORY_ENTRY_BYTES) g) (\<lambda>held.
     bindE (enter_children g children (length leading)
              (copy_into (replicate held 0) 0 leading) next)
       (\<lambda>(clusters, filled, free).
          Inr (\<lparr>held_bytes = filled, first_cluster = firstCluster,
                cluster_count = clustersFor (length filled) g\<rparr>, clusters, free)))"

definition parent_entry :: "nat \<Rightarrow> nat" where
  "parent_entry firstCluster = (if firstCluster = FIRST_DATA_CLUSTER then 0 else firstCluster)"

text \<open>
  The second loop of \<open>place\<close>, with the recursive call: \<open>parent\<close> is the first cluster of the
  directory the nodes are in, \<open>clusters\<close> are those its first loop returned.
\<close>

fun place_nodes ::
  "fat32_geometry \<Rightarrow> nat \<Rightarrow> fat32_node list \<Rightarrow> nat list \<Rightarrow> nat \<Rightarrow> disk_error + allocation list \<times> nat" where
  "place_nodes g parent (Directory_node children name # nodes) (cluster # clusters) next =
     bindE (fat32DotEntries cluster (parent_entry parent)) (\<lambda>dots.
     bindE (fill_directory g children cluster dots next) (\<lambda>(own, inner, claimed).
     bindE (place_nodes g cluster children inner claimed) (\<lambda>(below, free).
     bindE (place_nodes g parent nodes clusters free) (\<lambda>(others, last).
     Inr ((own # below) @ others, last)))))"
| "place_nodes g parent (File_node content name # nodes) (cluster # clusters) next =
     bindE (place_nodes g parent nodes clusters next) (\<lambda>(others, last).
     Inr ((if cluster \<noteq> 0 then
             [\<lparr>held_bytes = content, first_cluster = cluster,
               cluster_count = clustersFor (length content) g\<rparr>] else []) @ others, last))"
| "place_nodes g parent nodes clusters next = Inr ([], next)"

definition place_tree ::
  "fat32_geometry \<Rightarrow> fat32_node list \<Rightarrow> nat \<Rightarrow> bytes \<Rightarrow> nat \<Rightarrow> disk_error + allocation list \<times> nat" where
  "place_tree g children firstCluster leading next =
     bindE (fill_directory g children firstCluster leading next) (\<lambda>(own, clusters, claimed).
     bindE (place_nodes g firstCluster children clusters claimed) (\<lambda>(below, free).
     Inr (own # below, free)))"

definition allocateTree ::
  "fat32_geometry \<Rightarrow> jsstring \<Rightarrow> fat32_node list \<Rightarrow> disk_error + allocation list" where
  "allocateTree g label root =
     bindE (directorySizeBytes root 1 g) (\<lambda>held.
     bindE (fat32VolumeLabelEntry label) (\<lambda>leading.
     bindE (place_tree g root FIRST_DATA_CLUSTER leading (FIRST_DATA_CLUSTER + clustersFor held g))
       (\<lambda>(allocations, free). Inr allocations)))"

section \<open>Tables and sectors\<close>

definition chain_writes :: "allocation \<Rightarrow> (nat \<times> nat) list" where
  "chain_writes a =
     map (\<lambda>i. let cluster = first_cluster a + i in
            (cluster, if i = cluster_count a - 1 then FAT_ENTRY_END_OF_CHAIN else cluster + 1))
       [0..<cluster_count a]"

definition write_fat_entry :: "nat \<times> nat \<Rightarrow> bytes \<Rightarrow> disk_error + bytes" where
  "write_fat_entry = (\<lambda>(cluster, v). write_le 4 v (cluster * FAT_ENTRY_BYTES))"

definition buildFat :: "allocation list \<Rightarrow> fat32_geometry \<Rightarrow> disk_error + bytes" where
  "buildFat allocations g =
     foldE write_fat_entry
       ([(0, FAT_ENTRY_MEDIA), (1, FAT_ENTRY_END_OF_CHAIN)] @ concat (map chain_writes allocations))
       (replicate (fatSectors g * FAT32_SECTOR_BYTES) 0)"

text \<open>Numbers written in sequence: the width, the value and the position of each.\<close>

definition write_field :: "nat \<times> nat \<times> nat \<Rightarrow> bytes \<Rightarrow> disk_error + bytes" where
  "write_field = (\<lambda>(width, v, offset). write_le width v offset)"

definition buildFsInfo :: "nat \<Rightarrow> nat \<Rightarrow> disk_error + bytes" where
  "buildFsInfo freeClusters nextFreeCluster =
     foldE write_field
       [(4, 0x41615252, 0), (4, 0x61417272, 484), (4, freeClusters, 488),
        (4, nextFreeCluster, 492), (4, 0xaa550000, 508)]
       (replicate FAT32_SECTOR_BYTES 0)"

definition padEnd :: "nat \<Rightarrow> jsstring \<Rightarrow> jsstring" where
  "padEnd n s = s @ replicate (n - length s) 32"

definition buildBootSector :: "fat32_geometry \<Rightarrow> jsstring \<Rightarrow> disk_error + bytes" where
  "buildBootSector g label =
     bindE (set_bytes 0 [0xeb, 0x58, 0x90] (replicate FAT32_SECTOR_BYTES 0)) (\<lambda>s.
     bindE (foldE write_field
       [(2, FAT32_SECTOR_BYTES, 11), (1, sectorsPerCluster g, 13), (2, reservedSectors g, 14),
        (1, FAT_COUNT, 16), (1, MEDIA_FIXED, 21), (2, 63, 24), (2, 255, 26),
        (4, totalSectors g, 32), (4, fatSectors g, 36), (4, FIRST_DATA_CLUSTER, 44), (2, 1, 48),
        (2, BACKUP_BOOT_SECTOR, 50), (1, 0x80, 64), (1, 0x29, 66), (4, VOLUME_SERIAL, 67)]
       (write_ascii (js ''NESSIE  '') 3 8 s)) (\<lambda>s.
     write_le 2 0xaa55 510
       (write_ascii (js ''FAT32   '') 82 8 (write_ascii (padEnd 11 label) 71 11 s))))"

section \<open>The image\<close>

definition used_clusters :: "allocation list \<Rightarrow> nat" where
  "used_clusters allocations = sum_list (map cluster_count allocations)"

definition data_offset :: "fat32_geometry \<Rightarrow> nat \<Rightarrow> nat" where
  "data_offset g cluster =
     (firstDataSector g + (cluster - FIRST_DATA_CLUSTER) * sectorsPerCluster g) * FAT32_SECTOR_BYTES"

definition write_system_area :: "fat32_geometry \<Rightarrow> bytes \<Rightarrow> bytes \<Rightarrow> bytes \<Rightarrow> bytes \<Rightarrow> bytes" where
  "write_system_area g boot fsInfo fat disk =
     fold (\<lambda>(offset, src) b. copy_into b offset src)
       [(0, boot), (FAT32_SECTOR_BYTES, fsInfo),
        (BACKUP_BOOT_SECTOR * FAT32_SECTOR_BYTES, boot),
        ((BACKUP_BOOT_SECTOR + 1) * FAT32_SECTOR_BYTES, fsInfo),
        ((reservedSectors g + 0 * fatSectors g) * FAT32_SECTOR_BYTES, fat),
        ((reservedSectors g + 1 * fatSectors g) * FAT32_SECTOR_BYTES, fat)]
       disk"

definition write_allocations :: "fat32_geometry \<Rightarrow> allocation list \<Rightarrow> bytes \<Rightarrow> disk_error + bytes" where
  "write_allocations g allocations disk =
     foldE (\<lambda>a. set_bytes (data_offset g (first_cluster a)) (held_bytes a)) allocations disk"

definition buildFat32Image :: "jsstring \<Rightarrow> fat32_node list \<Rightarrow> int \<Rightarrow> disk_error + bytes" where
  "buildFat32Image label root sizeBytes =
     bindE (fat32Geometry sizeBytes) (\<lambda>g.
     bindE (allocateTree g label root) (\<lambda>allocations.
     let used = used_clusters allocations in
     if used > clusterCount g then
       Inl (Workspace_path_error ''The executor guest kernel and initrd do not fit on the boot disk.'')
     else
       bindE (buildBootSector g label) (\<lambda>boot.
       bindE (buildFsInfo (clusterCount g - used) (FIRST_DATA_CLUSTER + used)) (\<lambda>fsInfo.
       bindE (buildFat allocations g) (\<lambda>fat.
       write_allocations g allocations
         (write_system_area g boot fsInfo fat (replicate (nat sizeBytes) 0)))))))"

section \<open>Soundness of a geometry\<close>

lemma ceil_div_covers: "0 < b \<Longrightarrow> a \<le> ceil_div a b * b"
proof -
  assume "0 < b"
  then have "a + b - 1 < (a + b - 1) div b * b + b"
    by (metis add.commute div_mult_mod_eq mod_less_divisor nat_add_left_cancel_less)
  then show ?thesis by (simp add: ceil_div_def)
qed

lemma ceil_div_0 [simp]: "0 < b \<Longrightarrow> ceil_div 0 b = 0"
  by (simp add: ceil_div_def)

lemma ceil_div_mult: "0 < b \<Longrightarrow> ceil_div (n * b) b = n"
  by (simp add: ceil_div_def)
    (metis Nat.add_diff_assoc One_nat_def Suc_leI Suc_pred add.right_neutral diff_Suc_less
      div_less div_mult_self3 not_gr_zero)

definition cluster_sizes :: "nat list" where
  "cluster_sizes = [1, 8, 16, 32, 64]"

lemma sectors_per_cluster_cases:
  "sectors_per_cluster n \<noteq> 0 \<Longrightarrow>
     sectors_per_cluster n \<in> set cluster_sizes \<and> 66600 < n \<and> n \<le> MAX_SAFE_INTEGER"
  by (auto simp: sectors_per_cluster_def SECTORS_PER_CLUSTER_TABLE_def cluster_sizes_def
      MAX_SAFE_INTEGER_def split: if_splits)

definition geometry_ok :: "fat32_geometry \<Rightarrow> bool" where
  "geometry_ok g \<longleftrightarrow>
     sectorsPerCluster g \<in> set cluster_sizes \<and> reservedSectors g = RESERVED_SECTORS \<and>
     firstDataSector g = reservedSectors g + FAT_COUNT * fatSectors g \<and>
     FAT32_MINIMUM_CLUSTER_COUNT < clusterCount g \<and>
     firstDataSector g + clusterCount g * sectorsPerCluster g \<le> totalSectors g \<and>
     (clusterCount g + 2) * FAT_ENTRY_BYTES \<le> fatSectors g * FAT32_SECTOR_BYTES"

definition data_area_used :: "fat32_geometry \<Rightarrow> bool" where
  "data_area_used g \<longleftrightarrow>
     clusterCount g = (totalSectors g - firstDataSector g) div sectorsPerCluster g"

lemma table_large_enough:
  assumes "s \<in> set cluster_sizes" "t - 32 \<le> f * (128 * s + 1)" "65525 < (t - (32 + 2 * f)) div s"
  shows "((t - (32 + 2 * f)) div s + 2) * 4 \<le> f * (512 :: nat)"
    "32 + 2 * f + (t - (32 + 2 * f)) div s * s \<le> t"
proof -
  have "(t - (32 + 2 * f)) div s * s \<le> t - (32 + 2 * f)" by simp
  with assms show "((t - (32 + 2 * f)) div s + 2) * 4 \<le> f * (512 :: nat)"
    "32 + 2 * f + (t - (32 + 2 * f)) div s * s \<le> t"
    by (auto simp: cluster_sizes_def)
qed

lemma fat32Geometry_sound:
  assumes "fat32Geometry sizeBytes = Inr g"
  shows "geometry_ok g" "totalSectors g * FAT32_SECTOR_BYTES = nat sizeBytes"
    "sectorsPerCluster g = sectors_per_cluster (totalSectors g)" "data_area_used g"
    "fatSectors g = ceil_div (totalSectors g - 32) (128 * sectorsPerCluster g + 1)"
proof -
  define t where "t = nat sizeBytes div 512"
  define s where "s = sectors_per_cluster t"
  define f where "f = ceil_div (t - 32) (128 * s + 1)"
  have d: "(256 * s + 2) div 2 = 128 * s + 1" by simp
  have g: "s \<noteq> 0" "65525 < (t - (32 + 2 * f)) div s"
    "g = \<lparr>clusterCount = (t - (32 + 2 * f)) div s, fatSectors = f, firstDataSector = 32 + 2 * f,
      reservedSectors = 32, sectorsPerCluster = s, totalSectors = t\<rparr>"
    and size: "0 < sizeBytes" "sizeBytes mod 512 = 0"
    using assms unfolding fat32Geometry_def fat_constants Let_def t_def[symmetric] s_def[symmetric] d
      f_def[symmetric]
    by (auto split: if_splits)
  have s: "s \<in> set cluster_sizes" using sectors_per_cluster_cases[of t] g(1) by (simp add: s_def)
  have "t - 32 \<le> f * (128 * s + 1)" using ceil_div_covers[of "128 * s + 1" "t - 32"] by (simp add: f_def)
  from table_large_enough[OF s this g(2)] show "geometry_ok g"
    using g(2) s by (simp add: geometry_ok_def g(3) fat_constants)
  have "nat sizeBytes mod 512 = 0" using size nat_mod_distrib[of sizeBytes 512] by simp
  then show "totalSectors g * FAT32_SECTOR_BYTES = nat sizeBytes"
    by (simp add: g(3) t_def fat_constants mod_eq_0_iff_dvd)
  show "sectorsPerCluster g = sectors_per_cluster (totalSectors g)" "data_area_used g"
    "fatSectors g = ceil_div (totalSectors g - 32) (128 * sectorsPerCluster g + 1)"
    by (simp_all add: g(3) s_def f_def data_area_used_def)
qed

section \<open>Entries of one node\<close>

definition node_entry :: "fat32_node \<Rightarrow> nat \<Rightarrow> dir_entry" where
  "node_entry node cluster =
     \<lparr>entry_name = node_name node, entry_attributes = node_attributes node,
      entry_cluster = cluster mod 2 ^ 32, entry_size = node_length node\<rparr>"

definition name_slots :: "fat32_node \<Rightarrow> nat" where
  "name_slots node =
     (case fat32ShortName (node_name node) of
        Inl e \<Rightarrow> 0
      | Inr short \<Rightarrow>
          if exact short then 1
          else 1 + ceil_div (length (code_points (node_name node))) LONG_NAME_CHARS_PER_ENTRY)"

text \<open>Whole 32-byte entries that a directory lists as exactly these.\<close>

definition lists_as :: "bytes list \<Rightarrow> dir_entry list \<Rightarrow> bool" where
  "lists_as es ds \<longleftrightarrow>
     list_all (\<lambda>e. length e = 32) es \<and>
     (\<forall>rest. list_directory [] (es @ rest) = ds @ list_directory [] rest)"

lemma lists_as_append: "lists_as es ds \<Longrightarrow> lists_as fs xs \<Longrightarrow> lists_as (es @ fs) (ds @ xs)"
  by (simp add: lists_as_def)

lemma node_attributes_short: "node_attributes node \<noteq> ATTR_LONG_NAME"
  by (cases node) (simp_all add: name_constants)

lemma short_name_cases:
  assumes "fat32ShortName name = Inr short"
  obtains b x where "name_bytes short = shortNameField b x" "b \<noteq> []" "length b \<le> 8" "length x \<le> 3"
    "list_all visible b" "list_all visible x" "exact short \<longrightarrow> name = dotted b x"
    "list_all visible name" "name \<noteq> []" "length name \<le> 36"
proof -
  have "ENCODABLE_NAME name" using assms by (auto simp: fat32ShortName_def split: if_splits)
  then obtain c y where parts: "name = dotted c y" "1 \<le> length c" "length c \<le> 32" "length y \<le> 3"
    "list_all name_char c" "list_all name_char y"
    "short_base name = to_upper_case c" "short_extension name = to_upper_case y"
    by (rule encodable_parts)
  have v: "list_all visible c" "list_all visible y"
    using parts(5,6) by (auto simp: list_all_iff visible_name_char)
  have len: "length (to_upper_case s) = length s" if "list_all visible s" for s
    using that by (simp add: to_upper_visible)
  have up: "length (short_base name) = length c" "length (short_extension name) = length y"
    "list_all visible (short_base name)" "list_all visible (short_extension name)"
    using v by (simp_all add: parts(7,8) len visible_upper)
  have base: "short_base name \<noteq> []" using up(1) parts(2) by auto
  have name: "list_all visible name" "name \<noteq> []" "length name \<le> 36"
    using parts(1-4) v visible_marks(1) by (auto simp: dotted_def DOT_def)
  have cut: "list_all visible (take 6 (short_base name) @ js ''~1'')"
    using up(3) visible_marks by (auto simp: js_simps list_all_iff dest: in_set_takeD)
  show thesis
  proof (cases "exact short")
    case True
    then show thesis
      using that[of "short_base name" "short_extension name"] assms up base parts(2,4) name
      by (auto simp: fat32ShortName_def Let_def name_constants split: if_splits)
  next
    case False
    then show thesis
      using that[of "take 6 (short_base name) @ js ''~1''" "short_extension name"] assms up base
        parts(2,4) name cut
      by (auto simp: fat32ShortName_def Let_def name_constants js_simps split: if_splits)
  qed
qed

lemma nameEntries_listed:
  assumes "nameEntries node cluster = Inr bs"
  obtains es where "bs = concat es" "length es = name_slots node"
    "lists_as es [node_entry node cluster]"
proof -
  from assms obtain short entry where short: "fat32ShortName (node_name node) = Inr short"
    and entry: "fat32DirectoryEntry (node_attributes node) cluster (name_bytes short) (node_length node) = Inr entry"
    and bs: "if exact short then bs = entry else
      \<exists>checksum long. fat32ShortNameChecksum (name_bytes short) = Inr checksum \<and>
        fat32LongNameEntries (node_name node) checksum = Inr long \<and> bs = long @ entry"
    by (auto simp: nameEntries_def split: if_splits)
  from short obtain b x where n: "name_bytes short = shortNameField b x" "b \<noteq> []" "length b \<le> 8"
    "length x \<le> 3" "list_all visible b" "list_all visible x" "exact short \<longrightarrow> node_name node = dotted b x"
    "list_all visible (node_name node)" "node_name node \<noteq> []" "length (node_name node) \<le> 36"
    by (rule short_name_cases)
  note listed = short_entry_listed[OF entry[unfolded n(1)] n(2-6) node_attributes_short]
  have slots: "length (code_points (node_name node)) = length (node_name node)"
    using n(8) by (simp add: code_points_plain)
  show thesis
  proof (cases "exact short")
    case True
    then show thesis using that[of "[entry]"] bs listed n(7) short
      by (simp add: name_slots_def lists_as_def node_entry_def del: list_directory.simps)
  next
    case False
    then obtain checksum long where c: "fat32ShortNameChecksum (name_bytes short) = Inr checksum"
      "fat32LongNameEntries (node_name node) checksum = Inr long" "bs = long @ entry"
      using bs by auto
    have "length (node_name node) \<le> 255" using n(10) by simp
    with c(2) n(8,9) obtain parts where p: "long = concat parts"
      "length parts = ceil_div (length (node_name node)) 13" "list_all (\<lambda>e. length e = 32) parts"
      "\<forall>es. list_directory [] (parts @ es) = list_directory (rev parts) es"
      "parts_bind checksum (rev parts)"
      "takeWhile (\<lambda>c. c \<noteq> 0) (concat (map long_chars (rev parts))) = node_name node"
      by (rule long_entries_listed)
    have "short_sum (shortNameField b x) = checksum"
      using c(1) by (auto simp: fat32ShortNameChecksum_def short_sum_def n(1) split: if_splits)
    then have "lists_as (parts @ [entry]) [node_entry node cluster]"
      using p(3-6) listed
      by (simp add: lists_as_def node_entry_def list_all_iff del: list_directory.simps)
    then show thesis using that[of "parts @ [entry]"] False c(3) p(1,2) short slots
      by (simp add: name_slots_def name_constants)
  qed
qed

lemma length_concat_32: "list_all (\<lambda>e. length e = 32) es \<Longrightarrow> length (concat es) = 32 * length es"
  by (induction es) simp_all

section \<open>Filling one directory\<close>

definition node_clusters :: "fat32_geometry \<Rightarrow> fat32_node \<Rightarrow> nat" where
  "node_clusters g node =
     (case nodeSizeBytes node g of Inl e \<Rightarrow> 0 | Inr n \<Rightarrow> clustersFor n g)"

definition owned :: "fat32_geometry \<Rightarrow> fat32_node \<Rightarrow> nat \<Rightarrow> nat list" where
  "owned g node cluster = [cluster..<cluster + node_clusters g node]"

definition usable :: "fat32_geometry \<Rightarrow> bool" where
  "usable g \<longleftrightarrow> 0 < sectorsPerCluster g"

lemma clusterBytes_pos: "usable g \<Longrightarrow> 0 < clusterBytes g"
  by (simp add: usable_def clusterBytes_def fat_constants)

lemma clustersFor_simps:
  assumes "usable g"
  shows "clustersFor 0 g = 0" "clustersFor (k * clusterBytes g) g = k"
    "n \<le> clustersFor n g * clusterBytes g" "0 < n \<Longrightarrow> 0 < clustersFor n g"
proof -
  show c: "n \<le> clustersFor n g * clusterBytes g" for n
    using clusterBytes_pos[OF assms] by (simp add: clustersFor_def ceil_div_covers)
  show "clustersFor 0 g = 0" "clustersFor (k * clusterBytes g) g = k"
    using clusterBytes_pos[OF assms] by (simp_all add: clustersFor_def ceil_div_mult)
  show "0 < n \<Longrightarrow> 0 < clustersFor n g" using c[of n] by (cases "clustersFor n g") simp_all
qed

lemma directoryEntryCount_sum:
  "directoryEntryCount children leading = Inr n \<Longrightarrow> n = leading + sum_list (map name_slots children)"
proof (induction children arbitrary: leading)
  case (Cons child children)
  then obtain short where short: "fat32ShortName (node_name child) = Inr short" by auto
  with Cons.prems have "directoryEntryCount children (leading + name_slots child) = Inr n"
    by (simp add: name_slots_def)
  from Cons.IH[OF this] show ?case by simp
qed simp

lemma node_size_zero:
  assumes "usable g" "nodeSizeBytes node g = Inr n"
  shows "n = 0 \<longleftrightarrow> (\<exists>name. node = File_node [] name)"
proof (cases node)
  case (Directory_node children name)
  with assms(2) obtain k where "directoryEntryCount children 2 = Inr k"
    "n = clustersFor (k * 32) g * clusterBytes g"
    by (auto simp: directorySizeBytes_def name_constants)
  then have "2 \<le> k" "k * 32 \<le> n"
    using directoryEntryCount_sum[of children 2 k] clustersFor_simps(3)[OF assms(1), of "k * 32"]
    by auto
  then show ?thesis using Directory_node by simp
qed (use assms(2) in auto)

lemma enter_children_grows:
  "enter_children g children offset directory next = Inr (clusters, filled, free) \<Longrightarrow> next \<le> free"
proof (induction children arbitrary: offset directory "next" clusters)
  case (Cons child children)
  then show ?case by (fastforce simp: Let_def split: if_splits dest: Cons.IH)
qed simp

text \<open>A child and the cluster its entry names.\<close>

definition entered :: "fat32_node \<Rightarrow> nat \<Rightarrow> bool" where
  "entered node cluster \<longleftrightarrow>
     ENCODABLE_NAME (node_name node) \<and> (cluster = 0 \<longleftrightarrow> (\<exists>name. node = File_node [] name))"

lemma nameEntries_encodable: "nameEntries node cluster = Inr bs \<Longrightarrow> ENCODABLE_NAME (node_name node)"
  by (auto simp: nameEntries_def fat32ShortName_def split: if_splits)

lemma enter_children_result:
  assumes "enter_children g children offset directory next = Inr (clusters, filled, free)"
    and "usable g" "0 < next"
    and "offset + 32 * sum_list (map name_slots children) \<le> length directory"
  shows "next \<le> free \<and> list_all (\<lambda>c. c < free) clusters \<and>
    concat (map2 (owned g) children clusters) = [next..<free] \<and>
    list_all2 entered children clusters \<and>
    (\<exists>es. lists_as es (map2 node_entry children clusters) \<and>
       length es = sum_list (map name_slots children) \<and>
       filled = overlay directory offset (concat es))"
  using assms
proof (induction children arbitrary: offset directory "next" clusters)
  case Nil
  then show ?case by (auto simp: lists_as_def overlay_def)
next
  case (Cons child children)
  from Cons.prems(1) obtain n where n: "nodeSizeBytes child g = Inr n" by auto
  define c where "c = (if n = 0 then 0 else next)"
  define next' where "next' = (if n = 0 then next else next + clustersFor n g)"
  from Cons.prems(1) n obtain bs cs where bs: "nameEntries child c = Inr bs"
    and step: "enter_children g children (offset + min (length bs) (length directory - offset))
      (copy_into directory offset bs) next' = Inr (cs, filled, free)"
    and clusters: "clusters = c # cs"
    by (auto simp: c_def next'_def Let_def)
  have c0: "c = 0 \<longleftrightarrow> (\<exists>name. child = File_node [] name)"
    using node_size_zero[OF Cons.prems(2) n] Cons.prems(3) by (simp add: c_def)
  have own: "owned g child c = [next..<next']"
    using n clustersFor_simps(1)[OF Cons.prems(2)]
    by (simp add: owned_def node_clusters_def c_def next'_def)
  have "next' \<le> free" using step by (rule enter_children_grows)
  then have c: "c < free"
    using Cons.prems(3) clustersFor_simps(4)[OF Cons.prems(2), of n] by (auto simp: c_def next'_def)
  from bs obtain es where es: "bs = concat es" "length es = name_slots child"
    "lists_as es [node_entry child c]"
    by (rule nameEntries_listed)
  have len: "length bs = 32 * name_slots child"
    using es by (simp add: lists_as_def length_concat_32)
  have fits: "offset + length bs \<le> length directory" using Cons.prems(4) len by simp
  define directory' where "directory' = overlay directory offset bs"
  have dir': "length directory' = length directory"
    using fits by (simp add: directory'_def length_overlay)
  have step': "enter_children g children (offset + length bs) directory' next' = Inr (cs, filled, free)"
    using step fits by (simp add: directory'_def copy_into_fits)
  have "0 < next'" using Cons.prems(3) by (simp add: next'_def)
  moreover have "offset + length bs + 32 * sum_list (map name_slots children) \<le> length directory'"
    using Cons.prems(4) by (simp add: dir' len)
  ultimately obtain fs where IH: "list_all (\<lambda>c. c < free) cs"
    "concat (map2 (owned g) children cs) = [next'..<free]"
    "list_all2 entered children cs"
    "lists_as fs (map2 node_entry children cs)" "length fs = sum_list (map name_slots children)"
    "filled = overlay directory' (offset + length bs) (concat fs)"
    using Cons.IH[OF step' Cons.prems(2)] by blast
  have "next \<le> next'" by (simp add: next'_def)
  moreover have "[next..<next'] @ [next'..<free] = [next..<free]"
    using \<open>next' \<le> free\<close> calculation by (metis le_add_diff_inverse upt_add_eq_append)
  moreover have "lists_as (es @ fs) (map2 node_entry (child # children) (c # cs))"
    using lists_as_append[OF es(3) IH(4)] by simp
  moreover have "filled = overlay directory offset (concat (es @ fs))"
    using fits by (simp add: IH(6) directory'_def overlay_overlay es(1))
  moreover have "entered child c"
    using c0 nameEntries_encodable[OF bs] by (simp add: entered_def)
  ultimately show ?case using IH(1-3,5) es(2) own c \<open>next' \<le> free\<close>
    by (auto simp: clusters intro!: exI[of _ "es @ fs"])
qed

text \<open>What the model of a directory's allocation promises.\<close>

definition directory_of :: "allocation \<Rightarrow> dir_entry list \<Rightarrow> bool" where
  "directory_of a ds \<longleftrightarrow> list_directory [] (entries_of (held_bytes a)) = ds"

lemma list_zero_entries: "list_directory [] (entries_of (replicate m 0)) = []"
proof (cases "m div 32")
  case (Suc k)
  then have "entries_of (replicate m 0) =
      replicate 32 0 # map (\<lambda>i. bytes_at (32 * i) 32 (replicate m 0)) [1..<m div 32]"
    by (simp add: entries_of_def upt_conv_Cons bytes_at_def min_def del: upt_Suc)
  then show ?thesis by simp
qed (simp add: entries_of_def)

lemma list_filled:
  assumes "lists_as es ds"
  shows "list_directory [] (entries_of (overlay (replicate held 0) 0 (concat es))) = ds"
  using assms
  by (simp add: lists_as_def overlay_def entries_of_concat list_zero_entries)

lemma fill_directory_result:
  assumes "fill_directory g children first (concat ls) next = Inr (own, clusters, free)"
    and "usable g" "0 < next" "lists_as ls ds" "ls \<noteq> []"
  shows "next \<le> free \<and> list_all (\<lambda>c. c < free) clusters \<and>
    concat (map2 (owned g) children clusters) = [next..<free] \<and>
    list_all2 entered children clusters"
    "directory_of own (ds @ map2 node_entry children clusters)"
    "first_cluster own = first" "cluster_count own * clusterBytes g = length (held_bytes own)"
    "0 < cluster_count own"
    "\<exists>held. directorySizeBytes children (length ls) g = Inr held \<and> cluster_count own = clustersFor held g"
proof -
  have lead: "length (concat ls) = 32 * length ls"
    using assms(4) by (simp add: lists_as_def length_concat_32)
  from assms(1) obtain held filled where held: "directorySizeBytes children (length ls) g = Inr held"
    and enter: "enter_children g children (length (concat ls))
      (copy_into (replicate held 0) 0 (concat ls)) next = Inr (clusters, filled, free)"
    and own: "own = \<lparr>held_bytes = filled, first_cluster = first,
      cluster_count = clustersFor (length filled) g\<rparr>"
    by (auto simp: fill_directory_def lead name_constants)
  from held obtain k where k: "directoryEntryCount children (length ls) = Inr k"
    "held = clustersFor (k * 32) g * clusterBytes g"
    by (auto simp: directorySizeBytes_def name_constants)
  have "k * 32 \<le> held" using clustersFor_simps(3)[OF assms(2)] by (simp add: k(2))
  then have room: "32 * length ls + 32 * sum_list (map name_slots children) \<le> held"
    using directoryEntryCount_sum[OF k(1)] by simp
  define dir where "dir = overlay (replicate held 0) 0 (concat ls)"
  have dir: "copy_into (replicate held 0) 0 (concat ls) = dir" "length dir = held"
    using room by (simp_all add: dir_def lead copy_into_fits length_overlay)
  note filled = enter_children_result[OF enter[unfolded dir(1)] assms(2,3)]
  show main: "next \<le> free \<and> list_all (\<lambda>c. c < free) clusters \<and>
    concat (map2 (owned g) children clusters) = [next..<free] \<and>
    list_all2 entered children clusters"
    using filled room lead dir(2) by simp
  obtain es where es: "lists_as es (map2 node_entry children clusters)"
    "length es = sum_list (map name_slots children)" "filled = overlay dir (length (concat ls)) (concat es)"
    using filled room lead dir(2) by auto
  have "filled = overlay (replicate held 0) 0 (concat (ls @ es))"
    using overlay_overlay[of 0 "concat ls" "replicate held 0" "concat es"] room lead
    by (simp add: es(3) dir_def)
  then show "directory_of own (ds @ map2 node_entry children clusters)"
    using list_filled[OF lists_as_append[OF assms(4) es(1)]] by (simp add: directory_of_def own)
  have "length filled = held"
    using room lead dir(2) es(1,2) by (simp add: es(3) length_overlay lists_as_def length_concat_32)
  then have count: "cluster_count own = clustersFor (k * 32) g"
    "length (held_bytes own) = held"
    using clustersFor_simps(2)[OF assms(2)] by (simp_all add: own k(2))
  then show "cluster_count own * clusterBytes g = length (held_bytes own)" by (simp add: k(2))
  have "0 < k" using directoryEntryCount_sum[OF k(1)] assms(5) by simp
  then show "0 < cluster_count own" using clustersFor_simps(4)[OF assms(2)] by (simp add: count)
  show "\<exists>held. directorySizeBytes children (length ls) g = Inr held \<and> cluster_count own = clustersFor held g"
    using held clustersFor_simps(2)[OF assms(2)] by (simp add: count k(2))
  show "first_cluster own = first" by (simp add: own)
qed

section \<open>Who owns which cluster\<close>

definition range_of :: "allocation \<Rightarrow> nat list" where
  "range_of a = [first_cluster a..<first_cluster a + cluster_count a]"

definition allocation_ok :: "fat32_geometry \<Rightarrow> allocation \<Rightarrow> bool" where
  "allocation_ok g a \<longleftrightarrow>
     0 < cluster_count a \<and> length (held_bytes a) \<le> cluster_count a * clusterBytes g"

definition dot_entries :: "nat \<Rightarrow> nat \<Rightarrow> dir_entry list" where
  "dot_entries cluster parent =
     [\<lparr>entry_name = js ''.'', entry_attributes = ATTR_DIRECTORY, entry_cluster = cluster mod 2 ^ 32, entry_size = 0\<rparr>,
      \<lparr>entry_name = js ''..'', entry_attributes = ATTR_DIRECTORY, entry_cluster = parent mod 2 ^ 32, entry_size = 0\<rparr>]"

lemma fill_directory_grows:
  "fill_directory g children first leading next = Inr (own, clusters, free) \<Longrightarrow> next \<le> free"
  by (auto simp: fill_directory_def dest: enter_children_grows)

lemma place_nodes_grows:
  "place_nodes g parent nodes clusters next = Inr (as, free) \<Longrightarrow> next \<le> free"
proof (induction g parent nodes clusters "next" arbitrary: as free rule: place_nodes.induct)
  case (1 g parent children name nodes cluster clusters "next")
  then show ?case by (fastforce dest: fill_directory_grows)
qed auto

text \<open>The steps of placing one subdirectory and the nodes after it.\<close>

lemma place_directory_cases:
  assumes "place_nodes g parent (Directory_node children name # nodes) (cluster # clusters) next = Inr (as, final)"
    and "usable g" "0 < next"
  obtains own inner claimed below free others where
    "place_nodes g cluster children inner claimed = Inr (below, free)"
    "place_nodes g parent nodes clusters free = Inr (others, final)"
    "as = (own # below) @ others" "next \<le> claimed" "claimed \<le> free" "free \<le> final"
    "list_all2 entered children inner" "list_all (\<lambda>c. c < claimed) inner"
    "concat (map2 (owned g) children inner) = [next..<claimed]"
    "directory_of own (dot_entries cluster (parent_entry parent) @ map2 node_entry children inner)"
    "range_of own = owned g (Directory_node children name) cluster"
    "cluster_count own * clusterBytes g = length (held_bytes own)" "0 < cluster_count own"
    "first_cluster own = cluster"
proof -
  from assms(1) obtain dots own inner claimed below free others where
    dots: "fat32DotEntries cluster (parent_entry parent) = Inr dots"
    and fill: "fill_directory g children cluster dots next = Inr (own, inner, claimed)"
    and below: "place_nodes g cluster children inner claimed = Inr (below, free)"
    and others: "place_nodes g parent nodes clusters free = Inr (others, final)"
    and as: "as = (own # below) @ others"
    by auto
  have grows: "next \<le> claimed" "claimed \<le> free" "free \<le> final"
    using fill_directory_grows[OF fill] place_nodes_grows[OF below] place_nodes_grows[OF others]
    by simp_all
  from dot_entries_listed[OF dots] obtain self up where
    up: "dots = self @ up" "length self = 32" "length up = 32"
    "\<forall>es. list_directory [] (self # up # es) =
      dot_entries cluster (parent_entry parent) @ list_directory [] es"
    by (auto simp: dot_entries_def simp del: list_directory.simps)
  have lead: "dots = concat [self, up]" "lists_as [self, up] (dot_entries cluster (parent_entry parent))"
    using up by (simp_all add: lists_as_def del: list_directory.simps)
  note filled = fill_directory_result[OF fill[unfolded lead(1)] assms(2,3) lead(2)]
  have "range_of own = owned g (Directory_node children name) cluster"
    using filled(3,6) by (auto simp: range_of_def owned_def node_clusters_def numeral_2_eq_2)
  with below others as grows filled show thesis by (intro that) auto
qed

lemma file_owned:
  assumes "usable g"
  shows "owned g (File_node [] name) cluster = []"
    "content \<noteq> [] \<Longrightarrow> allocation_ok g \<lparr>held_bytes = content, first_cluster = cluster,
       cluster_count = clustersFor (length content) g\<rparr>"
    "range_of \<lparr>held_bytes = content, first_cluster = cluster,
       cluster_count = clustersFor (length content) g\<rparr> = owned g (File_node content name) cluster"
  using clustersFor_simps[OF assms]
  by (simp_all add: owned_def node_clusters_def range_of_def allocation_ok_def)

lemma place_nodes_owned:
  assumes "place_nodes g parent nodes clusters next = Inr (as, final)"
    and "usable g" "0 < next" "list_all2 entered nodes clusters"
  shows "list_all (allocation_ok g) as \<and>
    mset (concat (map range_of as)) =
      mset (concat (map2 (owned g) nodes clusters)) + mset [next..<final]"
  using assms
proof (induction g parent nodes clusters "next" arbitrary: as final rule: place_nodes.induct)
  case (1 g parent children name nodes cluster clusters "next")
  from "1.prems"(4) have c: "list_all2 entered nodes clusters" by simp
  from place_directory_cases[OF "1.prems"(1-3)]
  obtain own inner claimed below free others where *:
    "place_nodes g cluster children inner claimed = Inr (below, free)"
    "place_nodes g parent nodes clusters free = Inr (others, final)"
    "as = (own # below) @ others" "next \<le> claimed" "claimed \<le> free" "free \<le> final"
    "list_all2 entered children inner"
    "concat (map2 (owned g) children inner) = [next..<claimed]"
    "range_of own = owned g (Directory_node children name) cluster"
    "cluster_count own * clusterBytes g = length (held_bytes own)" "0 < cluster_count own"
    by metis
  have dir: "allocation_ok g own" using *(10,11) by (simp add: allocation_ok_def)
  have cut: "[next..<final] = [next..<claimed] @ [claimed..<free] @ [free..<final]"
    using *(4-6) by (metis le_add_diff_inverse le_trans upt_add_eq_append)
  have "list_all (allocation_ok g) below \<and>
      mset (concat (map range_of below)) = mset [next..<claimed] + mset [claimed..<free]"
    using "1.IH"(1)[OF *(1)] *(4-8) "1.prems"(2,3) by simp
  moreover have "list_all (allocation_ok g) others \<and>
      mset (concat (map range_of others)) = mset (concat (map2 (owned g) nodes clusters)) + mset [free..<final]"
    using "1.IH"(2)[OF *(2)] *(4-6) c "1.prems"(2,3) by simp
  ultimately show ?case using dir by (simp add: *(3,9) cut del: mset_upt)
next
  case (2 g parent content name nodes cluster clusters "next")
  from "2.prems"(1) obtain others where others:
    "place_nodes g parent nodes clusters next = Inr (others, final)"
    and as: "as = (if cluster \<noteq> 0 then [\<lparr>held_bytes = content, first_cluster = cluster,
      cluster_count = clustersFor (length content) g\<rparr>] else []) @ others"
    by auto
  have IH: "list_all (allocation_ok g) others \<and>
      mset (concat (map range_of others)) = mset (concat (map2 (owned g) nodes clusters)) + mset [next..<final]"
    using "2.IH"[OF others] "2.prems"(2-4) by simp
  have empty: "cluster = 0 \<longleftrightarrow> content = []" using "2.prems"(4) by (simp add: entered_def)
  show ?case
  proof (cases "cluster = 0")
    case True
    then show ?thesis using IH empty file_owned(1)[OF "2.prems"(2)] by (simp add: as)
  next
    case False
    then show ?thesis using IH empty file_owned(2,3)[OF "2.prems"(2)] by (simp add: as)
  qed
qed auto

definition tree_laid_out :: "fat32_geometry \<Rightarrow> fat32_node list \<Rightarrow> allocation list \<Rightarrow> nat \<Rightarrow> bool" where
  "tree_laid_out g root allocations final \<longleftrightarrow>
     (\<exists>own below clusters claimed e held leading.
        directorySizeBytes root 1 g = Inr held \<and>
        fill_directory g root FIRST_DATA_CLUSTER leading (FIRST_DATA_CLUSTER + clustersFor held g) =
          Inr (own, clusters, claimed) \<and>
        allocations = own # below \<and> first_cluster own = FIRST_DATA_CLUSTER \<and>
        cluster_count own * clusterBytes g = length (held_bytes own) \<and>
        directory_of own (e # map2 node_entry root clusters) \<and>
        entry_attributes e = ATTR_VOLUME_ID \<and>
        list_all2 entered root clusters \<and> list_all (\<lambda>c. c < claimed) clusters \<and> 0 < claimed \<and>
        place_nodes g FIRST_DATA_CLUSTER root clusters claimed = Inr (below, final))"

lemma allocateTree_owned:
  assumes "allocateTree g label root = Inr allocations" "usable g"
  shows "list_all (allocation_ok g) allocations"
    "mset (concat (map range_of allocations)) = mset [2..<2 + used_clusters allocations]"
    "tree_laid_out g root allocations (2 + used_clusters allocations)"
proof -
  from assms(1) obtain held leading own clusters claimed below final where
    held: "directorySizeBytes root 1 g = Inr held"
    and label: "fat32VolumeLabelEntry label = Inr leading"
    and fill: "fill_directory g root 2 leading (2 + clustersFor held g) = Inr (own, clusters, claimed)"
    and below: "place_nodes g 2 root clusters claimed = Inr (below, final)"
    and as: "allocations = own # below"
    by (auto simp: allocateTree_def place_tree_def fat_constants)
  define e where "e = read_entry [] leading"
  have e: "lists_as [leading] [e]" "entry_attributes e = ATTR_VOLUME_ID"
    using label_entry_listed[OF label] by (simp_all add: lists_as_def e_def del: list_directory.simps)
  have "fill_directory g root 2 (concat [leading]) (2 + clustersFor held g) = Inr (own, clusters, claimed)"
    using fill by simp
  note filled = fill_directory_result[OF this assms(2) _ e(1)]
  have own: "2 + clustersFor held g \<le> claimed" "list_all (\<lambda>c. c < claimed) clusters"
    "concat (map2 (owned g) root clusters) = [2 + clustersFor held g..<claimed]"
    "list_all2 entered root clusters" "directory_of own (e # map2 node_entry root clusters)"
    "first_cluster own = 2" "cluster_count own * clusterBytes g = length (held_bytes own)"
    "0 < cluster_count own" "cluster_count own = clustersFor held g"
    using filled held by auto
  have rest: "list_all (allocation_ok g) below \<and> mset (concat (map range_of below)) =
      mset (concat (map2 (owned g) root clusters)) + mset [claimed..<final]"
    using place_nodes_owned[OF below assms(2) _ own(4)] own(1) by simp
  have "claimed \<le> final" using below by (rule place_nodes_grows)
  then have cut: "[2..<final] = [2..<2 + clustersFor held g] @ [2 + clustersFor held g..<claimed] @ [claimed..<final]"
    using own(1) by (metis le_add1 le_add_diff_inverse le_trans upt_add_eq_append)
  have ranges: "mset (concat (map range_of allocations)) = mset [2..<final]"
    using rest own(3,6,9) by (simp add: as range_of_def cut del: mset_upt)
  have "used_clusters allocations = length (concat (map range_of allocations))"
    by (simp add: used_clusters_def length_concat range_of_def o_def)
  also have "\<dots> = length [2..<final]" using ranges by (metis size_mset)
  finally have used: "2 + used_clusters allocations = final"
    using own(1) \<open>claimed \<le> final\<close> by simp
  show "mset (concat (map range_of allocations)) = mset [2..<2 + used_clusters allocations]"
    by (simp only: ranges used)
  show "list_all (allocation_ok g) allocations"
    using rest own(7,8) by (simp add: as allocation_ok_def)
  show "tree_laid_out g root allocations (2 + used_clusters allocations)"
    unfolding tree_laid_out_def used
    using as own e(2) below held fill by (intro exI[of _ own] exI[of _ below] exI[of _ clusters]
        exI[of _ claimed] exI[of _ e] exI[of _ held] exI[of _ leading]) (simp add: fat_constants)
qed

end
