(* ===== verification/Fat32Read.thy ===== *)
theory Fat32Read
  imports Fat32
begin

text \<open>
  What a FAT32 driver reads from the volumes of \<open>Fat32\<close>: the fields of the boot sector, the
  cluster chains of the allocation table, directories and, down to a given depth, the whole
  tree.  This reader is the abstract specification of the writer; nothing in it refers to
  how an image was made.

  The theorems say that the writer's images read back as the tree they were made from, that
  their tables agree with each other, and which images are refused.
\<close>

section \<open>Reading a volume\<close>

definition sector_size :: "bytes \<Rightarrow> nat" where "sector_size disk = le_at 2 11 disk"
definition cluster_size :: "bytes \<Rightarrow> nat" where
  "cluster_size disk = le_at 1 13 disk * sector_size disk"
definition reserved_sectors :: "bytes \<Rightarrow> nat" where "reserved_sectors disk = le_at 2 14 disk"
definition fat_copies :: "bytes \<Rightarrow> nat" where "fat_copies disk = le_at 1 16 disk"
definition total_sectors :: "bytes \<Rightarrow> nat" where "total_sectors disk = le_at 4 32 disk"
definition fat_sectors :: "bytes \<Rightarrow> nat" where "fat_sectors disk = le_at 4 36 disk"
definition root_cluster :: "bytes \<Rightarrow> nat" where "root_cluster disk = le_at 4 44 disk"

definition data_start :: "bytes \<Rightarrow> nat" where
  "data_start disk = (reserved_sectors disk + fat_copies disk * fat_sectors disk) * sector_size disk"

definition cluster_total :: "bytes \<Rightarrow> nat" where
  "cluster_total disk =
     (total_sectors disk - (reserved_sectors disk + fat_copies disk * fat_sectors disk)) div
     le_at 1 13 disk"

text \<open>An entry of copy \<open>k\<close> of the table: the low 28 bits count.\<close>

definition fat_entry :: "bytes \<Rightarrow> nat \<Rightarrow> nat \<Rightarrow> nat" where
  "fat_entry disk k cluster =
     le_at 4 ((reserved_sectors disk + k * fat_sectors disk) * sector_size disk + 4 * cluster) disk
     mod 2 ^ 28"

definition cluster_at :: "bytes \<Rightarrow> nat \<Rightarrow> bytes" where
  "cluster_at disk cluster =
     bytes_at (data_start disk + (cluster - 2) * cluster_size disk) (cluster_size disk) disk"

fun cluster_chain :: "nat \<Rightarrow> (nat \<Rightarrow> nat) \<Rightarrow> nat \<Rightarrow> nat list" where
  "cluster_chain 0 follow cluster = []"
| "cluster_chain (Suc n) follow cluster =
     (if cluster < 2 \<or> 0x0ffffff8 \<le> cluster then []
      else cluster # cluster_chain n follow (follow cluster))"

definition chain_data :: "bytes \<Rightarrow> nat \<Rightarrow> bytes" where
  "chain_data disk cluster =
     concat (map (cluster_at disk)
       (cluster_chain (cluster_total disk) (fat_entry disk 0) cluster))"

text \<open>The entries of a directory other than the volume label, \<open>.\<close> and \<open>..\<close>.\<close>

definition proper_entry :: "dir_entry \<Rightarrow> bool" where
  "proper_entry e \<longleftrightarrow>
     entry_attributes e \<noteq> ATTR_VOLUME_ID \<and> entry_name e \<noteq> js ''.'' \<and> entry_name e \<noteq> js ''..''"

definition directory_entries :: "bytes \<Rightarrow> dir_entry list" where
  "directory_entries content = filter proper_entry (list_directory [] (entries_of content))"

fun read_node :: "nat \<Rightarrow> (nat \<Rightarrow> bytes) \<Rightarrow> dir_entry \<Rightarrow> fat32_node" where
  "read_node depth content e =
     (if entry_attributes e = ATTR_DIRECTORY then
        Directory_node
          (case depth of
             0 \<Rightarrow> []
           | Suc n \<Rightarrow> map (read_node n content) (directory_entries (content (entry_cluster e))))
          (entry_name e)
      else File_node (take (entry_size e) (content (entry_cluster e))) (entry_name e))"

declare read_node.simps [simp del]

definition read_volume :: "nat \<Rightarrow> bytes \<Rightarrow> fat32_node list" where
  "read_volume depth disk =
     map (read_node depth (chain_data disk)) (directory_entries (chain_data disk (root_cluster disk)))"

fun tree_depth :: "fat32_node list \<Rightarrow> nat" where
  "tree_depth [] = 0"
| "tree_depth (File_node content name # nodes) = tree_depth nodes"
| "tree_depth (Directory_node children name # nodes) =
     max (Suc (tree_depth children)) (tree_depth nodes)"

lemma read_one:
  "read_node (Suc n) content \<lparr>entry_name = name, entry_attributes = ATTR_DIRECTORY,
     entry_cluster = c, entry_size = k\<rparr> =
   Directory_node (map (read_node n content) (directory_entries (content c))) name"
  "read_node depth content \<lparr>entry_name = name, entry_attributes = ATTR_ARCHIVE,
     entry_cluster = c, entry_size = k\<rparr> =
   File_node (take k (content c)) name"
  by (simp_all add: read_node.simps name_constants)

section \<open>The tree from its allocations\<close>

text \<open>The chain of an allocation starts with the bytes it holds.\<close>

definition stored :: "fat32_geometry \<Rightarrow> (nat \<Rightarrow> bytes) \<Rightarrow> allocation \<Rightarrow> bool" where
  "stored g content a \<longleftrightarrow>
     take (length (held_bytes a)) (content (first_cluster a)) = held_bytes a \<and>
     length (content (first_cluster a)) = cluster_count a * clusterBytes g"

lemma stored_whole:
  "stored g content a \<Longrightarrow> cluster_count a * clusterBytes g = length (held_bytes a) \<Longrightarrow>
     content (first_cluster a) = held_bytes a"
  by (auto simp: stored_def)

lemma encodable_proper:
  assumes "ENCODABLE_NAME name"
  shows "name \<noteq> js ''.''" "name \<noteq> js ''..''"
  using assms by (auto simp: ENCODABLE_NAME_def Let_def js_simps name_char_def)

lemma proper_children:
  "list_all2 entered nodes clusters \<Longrightarrow>
     filter proper_entry (map2 node_entry nodes clusters) = map2 node_entry nodes clusters"
proof (induction nodes clusters rule: list_all2_induct)
  case (Cons node nodes cluster clusters)
  have "node_attributes node \<noteq> ATTR_VOLUME_ID" by (cases node) (simp_all add: name_constants)
  then have "proper_entry (node_entry node cluster)"
    using Cons(1) encodable_proper by (auto simp: proper_entry_def node_entry_def entered_def)
  then show ?case using Cons by simp
qed simp

lemma improper_dots: "filter proper_entry (dot_entries cluster parent) = []"
  by (simp add: dot_entries_def proper_entry_def)

lemma place_nodes_read:
  assumes "place_nodes g parent nodes clusters next = Inr (as, final)"
    and "usable g" "0 < next" "final \<le> 2 ^ 32" "list_all2 entered nodes clusters"
    and "list_all (\<lambda>c. c < 2 ^ 32) clusters" "list_all (stored g content) as" "content 0 = []"
    and "tree_depth nodes \<le> depth"
  shows "map (read_node depth content) (map2 node_entry nodes clusters) = nodes"
  using assms
proof (induction g parent nodes clusters "next" arbitrary: as final depth rule: place_nodes.induct)
  case (1 g parent children name nodes cluster clusters "next")
  from place_directory_cases[OF "1.prems"(1-3)]
  obtain own inner claimed below free others where *:
    "place_nodes g cluster children inner claimed = Inr (below, free)"
    "place_nodes g parent nodes clusters free = Inr (others, final)"
    "as = (own # below) @ others" "next \<le> claimed" "claimed \<le> free" "free \<le> final"
    "list_all2 entered children inner" "list_all (\<lambda>c. c < claimed) inner"
    "directory_of own (dot_entries cluster (parent_entry parent) @ map2 node_entry children inner)"
    "cluster_count own * clusterBytes g = length (held_bytes own)" "first_cluster own = cluster"
    by metis
  from "1.prems"(9) obtain n where n: "depth = Suc n" "tree_depth children \<le> n" "tree_depth nodes \<le> depth"
    by (cases depth) simp_all
  have "content cluster = held_bytes own"
    using stored_whole[of g content own] "1.prems"(7) *(3,10,11) by simp
  then have "directory_entries (content cluster) = map2 node_entry children inner"
    using *(7,9) by (simp add: directory_entries_def directory_of_def improper_dots proper_children)
  moreover have "list_all (\<lambda>c. c < 2 ^ 32) inner"
    using *(5,6,8) "1.prems"(4) by (fastforce simp: list_all_iff)
  then have "map (read_node n content) (map2 node_entry children inner) = children"
    using "1.IH"(1)[OF *(1), of n] * "1.prems"(2-8) n(2) by simp
  moreover have "map (read_node depth content) (map2 node_entry nodes clusters) = nodes"
    using "1.IH"(2)[OF *(2), of depth] * "1.prems"(2-8) n(3) by simp
  moreover have "node_entry (Directory_node children name) cluster =
      \<lparr>entry_name = name, entry_attributes = ATTR_DIRECTORY, entry_cluster = cluster, entry_size = 0\<rparr>"
    using "1.prems"(6) by (simp add: node_entry_def)
  ultimately show ?case by (simp add: read_one n(1))
next
  case (2 g parent held name nodes cluster clusters "next")
  from "2.prems"(1) obtain others where others:
    "place_nodes g parent nodes clusters next = Inr (others, final)"
    and as: "as = (if cluster \<noteq> 0 then [\<lparr>held_bytes = held, first_cluster = cluster,
      cluster_count = clustersFor (length held) g\<rparr>] else []) @ others"
    by auto
  have "map (read_node depth content) (map2 node_entry nodes clusters) = nodes"
    using "2.IH"[OF others, of depth] "2.prems"(2-9) by (simp add: as)
  moreover have "take (length held) (content cluster) = held"
    using "2.prems"(5,7,8) by (cases "cluster = 0") (simp_all add: as entered_def stored_def)
  moreover have "node_entry (File_node held name) cluster = \<lparr>entry_name = name,
      entry_attributes = ATTR_ARCHIVE, entry_cluster = cluster, entry_size = length held\<rparr>"
    using "2.prems"(6) by (simp add: node_entry_def)
  ultimately show ?case by (simp add: read_one)
qed (auto dest: list_all2_lengthD)

lemma tree_read:
  assumes "tree_laid_out g root allocations final" "usable g" "final \<le> 2 ^ 32"
    and "list_all (stored g content) allocations" "content 0 = []" "tree_depth root \<le> depth"
  shows "map (read_node depth content) (directory_entries (content 2)) = root"
proof -
  from assms(1) obtain own below clusters claimed e where *:
    "allocations = own # below" "first_cluster own = 2"
    "cluster_count own * clusterBytes g = length (held_bytes own)"
    "directory_of own (e # map2 node_entry root clusters)" "entry_attributes e = ATTR_VOLUME_ID"
    "list_all2 entered root clusters" "list_all (\<lambda>c. c < claimed) clusters" "0 < claimed"
    "place_nodes g 2 root clusters claimed = Inr (below, final)"
    unfolding tree_laid_out_def FIRST_DATA_CLUSTER_def by blast
  have "claimed \<le> final" using *(9) by (rule place_nodes_grows)
  then have small: "list_all (\<lambda>c. c < 2 ^ 32) clusters"
    using *(7) assms(3) by (fastforce simp: list_all_iff)
  have "content 2 = held_bytes own"
    using stored_whole[of g content own] assms(4) *(1-3) by simp
  then have "directory_entries (content 2) = map2 node_entry root clusters"
    using *(4-6) by (simp add: directory_entries_def directory_of_def proper_children)
      (simp add: proper_entry_def)
  then show ?thesis
    using place_nodes_read[where content = content, OF *(9) assms(2) *(8) assms(3) *(6) small]
      assms(4-6) *(1)
    by simp
qed

section \<open>Writes of numbers in sequence\<close>

definition field_of :: "nat \<times> nat \<times> nat \<Rightarrow> nat \<times> bytes" where
  "field_of = (\<lambda>(width, v, offset). (offset, le_bytes width v))"

lemma write_fields:
  "foldE write_field fs buf = Inr b \<Longrightarrow>
     b = overlays (map field_of fs) buf \<and> list_all (fits (length buf)) (map field_of fs) \<and>
     list_all (\<lambda>(width, v, offset). v < 256 ^ width) fs"
proof (induction fs arbitrary: buf)
  case (Cons f fs)
  obtain width v offset where f: "f = (width, v, offset)" by (cases f)
  from Cons.prems f have "v < 256 ^ width" "offset + width \<le> length buf"
    "foldE write_field fs (overlay buf offset (le_bytes width v)) = Inr b"
    by (auto simp: write_field_def write_le_def set_bytes_def split: if_splits)
  then show ?case using Cons.IH[of "overlay buf offset (le_bytes width v)"] f
    by (simp add: field_of_def length_overlay)
qed simp

definition fat_field :: "nat \<times> nat \<Rightarrow> nat \<times> bytes" where
  "fat_field = (\<lambda>(cluster, v). (cluster * 4, le_bytes 4 v))"

lemma write_fat_entries:
  "list_all (\<lambda>(cluster, v). v < 2 ^ 32 \<and> (cluster + 1) * 4 \<le> length buf) ws \<Longrightarrow>
     foldE write_fat_entry ws buf = Inr (overlays (map fat_field ws) buf) \<and>
     list_all (fits (length buf)) (map fat_field ws)"
proof (induction ws arbitrary: buf)
  case (Cons w ws)
  obtain c v where w: "w = (c, v)" by (cases w)
  show ?case using Cons.prems Cons.IH[of "overlay buf (c * 4) (le_bytes 4 v)"] w
    by (simp add: write_fat_entry_def fat_field_def fat_constants write_le_def set_bytes_def
        length_overlay del: le_bytes.simps)
qed simp

lemma fat_fields_apart: "distinct (map fst ws) \<Longrightarrow> sorted_wrt apart (map fat_field ws)"
proof (induction ws)
  case (Cons w ws)
  have "apart (fat_field w) (fat_field v)" if "fst w \<noteq> fst v" for v
    using that by (cases w; cases v) (auto simp: fat_field_def simp del: le_bytes.simps)
  with Cons show ?case by fastforce
qed simp

lemma fat_fields_read:
  assumes "list_all (\<lambda>(cluster, v). v < 2 ^ 32 \<and> (cluster + 1) * 4 \<le> length buf) ws"
    and "distinct (map fst ws)" "(cluster, v) \<in> set ws"
  shows "le_at 4 (4 * cluster) (overlays (map fat_field ws) buf) = v"
proof -
  have "(cluster * 4, le_bytes 4 v) \<in> set (map fat_field ws)"
    using assms(3) by (force simp: fat_field_def simp del: le_bytes.simps)
  from read_overlays[OF conjunct2[OF write_fat_entries[OF assms(1)]] fat_fields_apart[OF assms(2)] this]
  have "le_at 4 (4 * cluster) (overlays (map fat_field ws) buf) = v mod 256 ^ 4"
    by (simp add: le_at_def le_value_bytes mult.commute del: le_bytes.simps)
  moreover have "v < 2 ^ 32" using assms(1,3) by (auto simp: list_all_iff)
  ultimately show ?thesis by simp
qed

section \<open>The allocation table\<close>

text \<open>What the tables of an image hold: allocations that own the clusters from 2 on, once each.\<close>

definition laid_out :: "fat32_geometry \<Rightarrow> allocation list \<Rightarrow> bool" where
  "laid_out g allocations \<longleftrightarrow>
     geometry_ok g \<and> clusterCount g < 2 ^ 27 \<and> used_clusters allocations \<le> clusterCount g \<and>
     list_all (allocation_ok g) allocations \<and>
     mset (concat (map range_of allocations)) = mset [2..<2 + used_clusters allocations]"

definition fat_writes :: "allocation list \<Rightarrow> (nat \<times> nat) list" where
  "fat_writes allocations =
     [(0, FAT_ENTRY_MEDIA), (1, FAT_ENTRY_END_OF_CHAIN)] @ concat (map chain_writes allocations)"

lemma laid_out_ranges:
  assumes "laid_out g allocations"
  shows "distinct (concat (map range_of allocations))"
    "set (concat (map range_of allocations)) = {2..<2 + used_clusters allocations}"
proof -
  have m: "mset (concat (map range_of allocations)) = mset [2..<2 + used_clusters allocations]"
    using assms by (simp add: laid_out_def)
  show "distinct (concat (map range_of allocations))"
    using mset_eq_imp_distinct_iff[OF m] by simp
  show "set (concat (map range_of allocations)) = {2..<2 + used_clusters allocations}"
    unfolding mset_eq_setD[OF m] by (rule set_upt)
qed

lemma chain_writes_keys: "map fst (chain_writes a) = range_of a"
  unfolding chain_writes_def range_of_def Let_def
  by (rule nth_equalityI) simp_all

lemma chain_write_value:
  "(c, v) \<in> set (chain_writes a) \<Longrightarrow> c \<in> set (range_of a) \<and> (v = FAT_ENTRY_END_OF_CHAIN \<or> v = c + 1)"
  by (auto simp: chain_writes_def range_of_def Let_def)

lemma fat_writes_keys:
  assumes "laid_out g allocations"
  shows "distinct (map fst (fat_writes allocations))"
    "set (map fst (fat_writes allocations)) = {0..<2 + used_clusters allocations}"
proof -
  have "map fst (concat (map chain_writes allocations)) = concat (map range_of allocations)"
    by (induction allocations) (simp_all add: chain_writes_keys)
  then have keys: "map fst (fat_writes allocations) = [0, 1] @ concat (map range_of allocations)"
    by (simp add: fat_writes_def)
  show "distinct (map fst (fat_writes allocations))"
    unfolding keys using laid_out_ranges[OF assms] by (simp del: set_concat)
  show "set (map fst (fat_writes allocations)) = {0..<2 + used_clusters allocations}"
    unfolding keys using laid_out_ranges[OF assms] by (auto simp del: set_concat)
qed

lemma fat_writes_fit:
  assumes "laid_out g allocations"
  shows "list_all (\<lambda>(c, v). v < 2 ^ 28 \<and> 0 < v \<and> (c + 1) * 4 \<le> fatSectors g * 512) (fat_writes allocations)"
proof -
  have g: "(clusterCount g + 2) * 4 \<le> fatSectors g * 512" "clusterCount g < 2 ^ 27"
    "used_clusters allocations \<le> clusterCount g"
    using assms by (simp_all add: laid_out_def geometry_ok_def fat_constants)
  have "v < 2 ^ 28 \<and> 0 < v" if "(c, v) \<in> set (fat_writes allocations)" "c < 2 + used_clusters allocations" for c v
    using that g(2,3) chain_write_value by (fastforce simp: fat_writes_def fat_constants)
  moreover have "c < 2 + used_clusters allocations" if "(c, v) \<in> set (fat_writes allocations)" for c v
    using that fat_writes_keys(2)[OF assms] by force
  ultimately show ?thesis using g by (fastforce simp: list_all_iff)
qed

lemma le_value_zeros: "le_value (replicate n 0) = 0"
  by (induction n) simp_all

lemma le_at_zeros: "le_at n off (replicate m 0) = 0"
  by (simp add: le_at_def bytes_at_def le_value_zeros)

lemma buildFat_entries:
  assumes "laid_out g allocations"
  obtains fat where "buildFat allocations g = Inr fat" "length fat = fatSectors g * 512"
    "\<forall>(c, v)\<in>set (fat_writes allocations). le_at 4 (4 * c) fat = v"
    "\<forall>c. 2 + used_clusters allocations \<le> c \<and> c < clusterCount g + 2 \<longrightarrow> le_at 4 (4 * c) fat = 0"
proof -
  define buf :: bytes where "buf = replicate (fatSectors g * 512) 0"
  define fat where "fat = overlays (map fat_field (fat_writes allocations)) buf"
  have ok: "list_all (\<lambda>(c, v). v < 2 ^ 32 \<and> (c + 1) * 4 \<le> length buf) (fat_writes allocations)"
    using fat_writes_fit[OF assms] by (fastforce simp: list_all_iff buf_def)
  note written = write_fat_entries[OF ok, folded fat_def]
  show thesis
  proof (rule that)
    show "buildFat allocations g = Inr fat"
      using written by (simp add: buildFat_def fat_writes_def buf_def FAT32_SECTOR_BYTES_def)
    show "length fat = fatSectors g * 512"
      unfolding fat_def using written by (simp add: length_overlays buf_def)
    show "\<forall>(c, v)\<in>set (fat_writes allocations). le_at 4 (4 * c) fat = v"
      unfolding fat_def using fat_fields_read[OF ok fat_writes_keys(1)[OF assms]] by auto
    show "\<forall>c. 2 + used_clusters allocations \<le> c \<and> c < clusterCount g + 2 \<longrightarrow> le_at 4 (4 * c) fat = 0"
    proof (intro allI impI)
      fix c assume c: "2 + used_clusters allocations \<le> c \<and> c < clusterCount g + 2"
      have "fst w < c" if "w \<in> set (fat_writes allocations)" for w
      proof -
        have "fst w \<in> set (map fst (fat_writes allocations))" using that by simp
        then show ?thesis using c unfolding fat_writes_keys(2)[OF assms] by simp
      qed
      then have "bytes_at (4 * c) 4 fat = bytes_at (4 * c) 4 buf"
        unfolding fat_def using written
        by (intro read_overlays_apart) (fastforce simp: fat_field_def simp del: le_bytes.simps)+
      then show "le_at 4 (4 * c) fat = 0"
        using le_at_zeros[of 4 "4 * c" "fatSectors g * 512"] by (simp add: le_at_def buf_def)
    qed
  qed
qed

section \<open>Reading a written image\<close>

text \<open>The writes that make up an image, and that none of them touches another.\<close>

definition image_writes ::
  "fat32_geometry \<Rightarrow> bytes \<Rightarrow> bytes \<Rightarrow> bytes \<Rightarrow> allocation list \<Rightarrow> (nat \<times> bytes) list" where
  "image_writes g boot fsInfo fat allocations =
     [(0, boot), (512, fsInfo), (6 * 512, boot), (7 * 512, fsInfo), (32 * 512, fat),
      ((32 + fatSectors g) * 512, fat)] @
     map (\<lambda>a. (data_offset g (first_cluster a), held_bytes a)) allocations"

lemma data_offset_clusters:
  "data_offset g c = firstDataSector g * 512 + (c - 2) * clusterBytes g"
  by (simp add: data_offset_def clusterBytes_def fat_constants algebra_simps)

lemma ranges_apart:
  assumes "distinct (range_of a @ range_of b)" "allocation_ok g a" "allocation_ok g b"
    and "2 \<le> first_cluster a" "2 \<le> first_cluster b"
  shows "apart (data_offset g (first_cluster a), held_bytes a) (data_offset g (first_cluster b), held_bytes b)"
proof -
  have pos: "0 < cluster_count a" "0 < cluster_count b"
    and held: "length (held_bytes a) \<le> cluster_count a * clusterBytes g"
      "length (held_bytes b) \<le> cluster_count b * clusterBytes g"
    using assms(2,3) by (simp_all add: allocation_ok_def)
  have "first_cluster a \<notin> set (range_of b)" "first_cluster b \<notin> set (range_of a)"
    using assms(1) pos by (auto simp: range_of_def)
  then consider "first_cluster a + cluster_count a \<le> first_cluster b"
    | "first_cluster b + cluster_count b \<le> first_cluster a"
    by (simp add: range_of_def) linarith
  then show ?thesis
  proof cases
    case 1
    then have "(first_cluster a - 2) + cluster_count a \<le> first_cluster b - 2" using assms(4) by simp
    then have "(first_cluster a - 2) * clusterBytes g + cluster_count a * clusterBytes g
        \<le> (first_cluster b - 2) * clusterBytes g"
      by (metis add_mult_distrib mult_le_mono1)
    then show ?thesis using held(1) by (simp add: data_offset_clusters)
  next
    case 2
    then have "(first_cluster b - 2) + cluster_count b \<le> first_cluster a - 2" using assms(5) by simp
    then have "(first_cluster b - 2) * clusterBytes g + cluster_count b * clusterBytes g
        \<le> (first_cluster a - 2) * clusterBytes g"
      by (metis add_mult_distrib mult_le_mono1)
    then show ?thesis using held(2) by (simp add: data_offset_clusters)
  qed
qed

lemma distinct_range: "distinct (range_of a)"
  by (simp add: range_of_def)

lemma allocations_apart:
  assumes "distinct (concat (map range_of as))" "list_all (allocation_ok g) as"
    and "\<forall>a\<in>set as. 2 \<le> first_cluster a"
  shows "sorted_wrt apart (map (\<lambda>a. (data_offset g (first_cluster a), held_bytes a)) as)"
  using assms
proof (induction as)
  case (Cons a as)
  have "apart (data_offset g (first_cluster a), held_bytes a) (data_offset g (first_cluster b), held_bytes b)"
    if b: "b \<in> set as" for b
  proof (rule ranges_apart)
    show "distinct (range_of a @ range_of b)"
      using Cons.prems(1) b distinct_upt by (auto simp: distinct_range)
    show "allocation_ok g a" "allocation_ok g b" "2 \<le> first_cluster a" "2 \<le> first_cluster b"
      using Cons.prems(2,3) b by (auto simp: list_all_iff)
  qed
  then show ?case using Cons by simp
qed simp

lemma laid_out_allocation:
  assumes "laid_out g allocations" "a \<in> set allocations"
  shows "allocation_ok g a" "2 \<le> first_cluster a"
    "first_cluster a + cluster_count a \<le> 2 + used_clusters allocations"
proof -
  show ok: "allocation_ok g a" using assms by (simp add: laid_out_def list_all_iff)
  have "set (range_of a) \<subseteq> {2..<2 + used_clusters allocations}"
    using assms(2) laid_out_ranges(2)[OF assms(1)] by auto
  moreover have "first_cluster a \<in> set (range_of a)"
    "first_cluster a + cluster_count a - 1 \<in> set (range_of a)"
    using ok by (auto simp: allocation_ok_def range_of_def)
  ultimately show "2 \<le> first_cluster a"
    "first_cluster a + cluster_count a \<le> 2 + used_clusters allocations"
    by fastforce+
qed

lemma data_fits:
  assumes "laid_out g allocations" "2 \<le> c" "c + n \<le> 2 + used_clusters allocations"
  shows "data_offset g c + n * clusterBytes g \<le> totalSectors g * 512"
proof -
  have "used_clusters allocations \<le> clusterCount g" using assms(1) by (simp add: laid_out_def)
  then have "(c - 2) + n \<le> clusterCount g" using assms(2,3) by simp
  then have "((c - 2) + n) * sectorsPerCluster g \<le> clusterCount g * sectorsPerCluster g"
    by (rule mult_le_mono1)
  moreover have "firstDataSector g + clusterCount g * sectorsPerCluster g \<le> totalSectors g"
    using assms(1) by (simp add: laid_out_def geometry_ok_def)
  ultimately have "firstDataSector g + ((c - 2) + n) * sectorsPerCluster g \<le> totalSectors g"
    by (rule order_trans[OF add_left_mono])
  then have "(firstDataSector g + ((c - 2) + n) * sectorsPerCluster g) * 512 \<le> totalSectors g * 512"
    by (rule mult_le_mono1)
  then show ?thesis
    by (simp add: data_offset_clusters clusterBytes_def fat_constants add_mult_distrib mult.assoc)
qed

lemma image_writes_apart:
  assumes "laid_out g allocations" "length boot = 512" "length fsInfo = 512"
    and "length fat = fatSectors g * 512"
  shows "list_all (fits (totalSectors g * 512)) (image_writes g boot fsInfo fat allocations)"
    "sorted_wrt apart (image_writes g boot fsInfo fat allocations)"
proof -
  have g: "firstDataSector g = 32 + 2 * fatSectors g" "firstDataSector g \<le> totalSectors g"
    using assms(1) by (simp_all add: laid_out_def geometry_ok_def fat_constants)
  note facts = laid_out_allocation[OF assms(1)]
  have data: "data_offset g (first_cluster a) + length (held_bytes a) \<le> totalSectors g * 512"
    if a: "a \<in> set allocations" for a
  proof -
    have "data_offset g (first_cluster a) + cluster_count a * clusterBytes g \<le> totalSectors g * 512"
      using facts[OF a] by (intro data_fits[OF assms(1)])
    then show ?thesis using facts(1)[OF a] by (simp add: allocation_ok_def)
  qed
  show "list_all (fits (totalSectors g * 512)) (image_writes g boot fsInfo fat allocations)"
    using g data by (auto simp: image_writes_def assms(2-4) list_all_iff)
  have "sorted_wrt apart (map (\<lambda>a. (data_offset g (first_cluster a), held_bytes a)) allocations)"
    using laid_out_ranges(1)[OF assms(1)] facts assms(1)
    by (intro allocations_apart) (simp_all add: laid_out_def)
  moreover define sys where "sys = [(0, boot), (512, fsInfo), (6 * 512, boot), (7 * 512, fsInfo),
      (32 * 512, fat), ((32 + fatSectors g) * 512, fat)]"
  have whole: "image_writes g boot fsInfo fat allocations =
      sys @ map (\<lambda>a. (data_offset g (first_cluster a), held_bytes a)) allocations"
    by (simp add: image_writes_def sys_def)
  have "sorted_wrt apart sys" by (simp add: sys_def assms(2-4))
  moreover have "list_all (\<lambda>w. fst w + length (snd w) \<le> firstDataSector g * 512) sys"
    by (simp add: sys_def g(1) assms(2-4))
  then have "apart w (data_offset g c, held)" if "w \<in> set sys" for w c held
    using that by (fastforce simp: list_all_iff apart_def data_offset_clusters)
  ultimately show "sorted_wrt apart (image_writes g boot fsInfo fat allocations)"
    unfolding whole by (auto simp: sorted_wrt_append)
qed

text \<open>What the first sector says.\<close>

definition boot_says :: "fat32_geometry \<Rightarrow> bytes \<Rightarrow> bool" where
  "boot_says g boot \<longleftrightarrow>
     length boot = 512 \<and> le_at 2 11 boot = 512 \<and> le_at 1 13 boot = sectorsPerCluster g \<and>
     le_at 2 14 boot = 32 \<and> le_at 1 16 boot = 2 \<and> le_at 4 32 boot = totalSectors g \<and>
     le_at 4 36 boot = fatSectors g \<and> le_at 4 44 boot = 2 \<and> le_at 2 50 boot = 6 \<and>
     le_at 2 510 boot = 0xaa55"

lemma buildBootSector_says:
  assumes "buildBootSector g label = Inr boot" "geometry_ok g"
  shows "boot_says g boot" "totalSectors g < 2 ^ 32"
proof -
  define fs :: "(nat \<times> nat \<times> nat) list" where "fs =
     [(2, 512, 11), (1, sectorsPerCluster g, 13), (2, reservedSectors g, 14),
      (1, FAT_COUNT, 16), (1, MEDIA_FIXED, 21), (2, 63, 24), (2, 255, 26),
      (4, totalSectors g, 32), (4, fatSectors g, 36), (4, FIRST_DATA_CLUSTER, 44), (2, 1, 48),
      (2, BACKUP_BOOT_SECTOR, 50), (1, 0x80, 64), (1, 0x29, 66), (4, VOLUME_SERIAL, 67)]"
  define s where "s = overlays [(0, [0xeb, 0x58, 0x90]), (3, ascii (js ''NESSIE  ''))] (replicate 512 0)"
  have s: "length s = 512" by (simp add: s_def length_overlay)
  have start: "write_ascii (js ''NESSIE  '') 3 8 (overlay (replicate 512 0) 0 [0xeb, 0x58, 0x90]) = s"
    by (simp add: s_def write_ascii_def copy_into_fits length_overlay)
  from assms(1) obtain t where t: "foldE write_field fs s = Inr t"
    and boot: "write_le 2 0xaa55 510 (write_ascii (js ''FAT32   '') 82 8
      (write_ascii (padEnd 11 label) 71 11 t)) = Inr boot"
    by (auto simp: buildBootSector_def set_bytes_def start fs_def FAT32_SECTOR_BYTES_def)
  note fields = write_fields[OF t]
  have "length t = 512" using fields s by (simp add: length_overlays)
  define tag where "tag = ascii (take 11 (padEnd 11 label))"
  have tag: "length tag = 11" by (simp add: tag_def padEnd_def)
  define ws where "ws = [(0, [0xeb, 0x58, 0x90]), (3, ascii (js ''NESSIE  ''))] @ map field_of fs @
    [(71, tag), (82, ascii (js ''FAT32   '')), (510, le_bytes 2 0xaa55)]"
  have b: "boot = overlays ws (replicate 512 0)"
    using boot fields \<open>length t = 512\<close> tag
    by (simp add: ws_def s_def write_ascii_def copy_into_fits tag_def[symmetric]
        length_overlay write_le_def set_bytes_def del: le_bytes.simps)
  have ok: "list_all (fits (length (replicate 512 (0 :: byte)))) ws" "sorted_wrt apart ws"
    using tag by (simp_all add: ws_def fs_def field_of_def del: le_bytes.simps)
  note get = read_overlays[OF ok, folded b]
  have number: "le_at n off boot = v" if "(n, v, off) \<in> set fs" for n v off
  proof -
    have "(off, le_bytes n v) \<in> set ws" using that
      by (force simp: ws_def field_of_def simp del: le_bytes.simps)
    moreover have "v < 256 ^ n" using fields that by (fastforce simp: list_all_iff)
    ultimately show ?thesis using get[of off "le_bytes n v"] by (simp add: le_at_def le_value_bytes)
  qed
  have "le_at 2 510 boot = 0xaa55"
    using get[of 510 "le_bytes 2 0xaa55"] by (simp add: ws_def le_at_def le_value_bytes)
  moreover have "length boot = 512" using ok(1) by (simp add: b length_overlays)
  ultimately show "boot_says g boot"
    using assms(2) number
    by (simp add: boot_says_def fs_def geometry_ok_def fat_constants)
  show "totalSectors g < 2 ^ 32" using fields by (simp add: fs_def)
qed

lemma buildFsInfo_says:
  assumes "buildFsInfo n m = Inr b"
  shows "length b = 512" "le_at 4 488 b = n" "le_at 4 492 b = m"
proof -
  define fs :: "(nat \<times> nat \<times> nat) list"
    where "fs = [(4, 0x41615252, 0), (4, 0x61417272, 484), (4, n, 488), (4, m, 492), (4, 0xaa550000, 508)]"
  have w: "foldE write_field fs (replicate 512 0) = Inr b"
    using assms by (simp add: buildFsInfo_def fs_def FAT32_SECTOR_BYTES_def)
  note fields = write_fields[OF w]
  have apart: "sorted_wrt apart (map field_of fs)"
    by (simp add: fs_def field_of_def del: le_bytes.simps)
  note get = read_overlays[OF conjunct1[OF conjunct2[OF fields]] apart, folded conjunct1[OF fields]]
  show "length b = 512" using fields by (simp add: length_overlays)
  show "le_at 4 488 b = n" "le_at 4 492 b = m"
    using get[of 488 "le_bytes 4 n"] get[of 492 "le_bytes 4 m"] fields
    by (simp_all add: fs_def field_of_def le_at_def le_value_bytes del: le_bytes.simps)
qed

text \<open>Everything an image that was built is made of.\<close>

definition built_from ::
  "fat32_geometry \<Rightarrow> allocation list \<Rightarrow> bytes \<Rightarrow> bytes \<Rightarrow> bytes \<Rightarrow> bytes \<Rightarrow> bool" where
  "built_from g allocations boot fsInfo fat disk \<longleftrightarrow>
     laid_out g allocations \<and> data_area_used g \<and> totalSectors g < 2 ^ 32 \<and> boot_says g boot \<and> length fsInfo = 512 \<and>
     le_at 4 488 fsInfo = clusterCount g - used_clusters allocations \<and>
     le_at 4 492 fsInfo = 2 + used_clusters allocations \<and>
     length fat = fatSectors g * 512 \<and>
     (\<forall>(c, v)\<in>set (fat_writes allocations). le_at 4 (4 * c) fat = v) \<and>
     (\<forall>c. 2 + used_clusters allocations \<le> c \<and> c < clusterCount g + 2 \<longrightarrow> le_at 4 (4 * c) fat = 0) \<and>
     disk = overlays (image_writes g boot fsInfo fat allocations) (replicate (totalSectors g * 512) 0)"

lemma clusters_below:
  assumes "geometry_ok g" "totalSectors g < 2 ^ 32"
    and "sectorsPerCluster g = sectors_per_cluster (totalSectors g)"
  shows "clusterCount g < 2 ^ 27"
proof -
  have "clusterCount g * sectorsPerCluster g \<le> totalSectors g"
    using assms(1) by (simp add: geometry_ok_def)
  then show ?thesis using assms
    by (auto simp: sectors_per_cluster_def SECTORS_PER_CLUSTER_TABLE_def geometry_ok_def
        cluster_sizes_def split: if_splits)
qed

lemma write_allocations_overlays:
  "list_all (fits (length disk)) (map (\<lambda>a. (data_offset g (first_cluster a), held_bytes a)) as) \<Longrightarrow>
     write_allocations g as disk =
       Inr (overlays (map (\<lambda>a. (data_offset g (first_cluster a), held_bytes a)) as) disk)"
  unfolding write_allocations_def
  by (induction as arbitrary: disk) (simp_all add: set_bytes_def length_overlay)

lemma write_system_area_overlays:
  assumes "length boot = 512" "length fsInfo = 512" "length fat = fatSectors g * 512"
    and "reservedSectors g = 32" "(32 + 2 * fatSectors g) * 512 \<le> length disk"
  shows "write_system_area g boot fsInfo fat disk =
    overlays [(0, boot), (512, fsInfo), (6 * 512, boot), (7 * 512, fsInfo), (32 * 512, fat),
      ((32 + fatSectors g) * 512, fat)] disk"
  using assms by (simp add: write_system_area_def fat_constants copy_into_fits length_overlay)

lemma built:
  assumes "buildFat32Image label root sizeBytes = Inr disk"
  obtains g allocations boot fsInfo fat where
    "built_from g allocations boot fsInfo fat disk"
    "tree_laid_out g root allocations (2 + used_clusters allocations)"
    "totalSectors g * 512 = nat sizeBytes"
proof -
  from assms obtain g allocations boot fsInfo fat where
    g: "fat32Geometry sizeBytes = Inr g" and as: "allocateTree g label root = Inr allocations"
    and used: "used_clusters allocations \<le> clusterCount g"
    and boot: "buildBootSector g label = Inr boot"
    and info: "buildFsInfo (clusterCount g - used_clusters allocations) (2 + used_clusters allocations) = Inr fsInfo"
    and fat: "buildFat allocations g = Inr fat"
    and disk: "write_allocations g allocations
      (write_system_area g boot fsInfo fat (replicate (nat sizeBytes) 0)) = Inr disk"
    by (auto simp: buildFat32Image_def Let_def FIRST_DATA_CLUSTER_def split: if_splits)
  note geometry = fat32Geometry_sound[OF g]
  note says = buildBootSector_says[OF boot geometry(1)]
  have "usable g" using geometry(1) by (auto simp: usable_def geometry_ok_def cluster_sizes_def)
  note tree = allocateTree_owned[OF as this]
  have laid: "laid_out g allocations"
    using geometry(1) clusters_below[OF geometry(1) says(2) geometry(3)] used tree(1,2)
    by (simp add: laid_out_def)
  from buildFat_entries[OF laid] obtain fat' where "buildFat allocations g = Inr fat'"
    and entries: "length fat' = fatSectors g * 512"
      "\<forall>(c, v)\<in>set (fat_writes allocations). le_at 4 (4 * c) fat' = v"
      "\<forall>c. 2 + used_clusters allocations \<le> c \<and> c < clusterCount g + 2 \<longrightarrow> le_at 4 (4 * c) fat' = 0"
    by blast
  then have "fat' = fat" using fat by simp
  note entries = entries[unfolded this]
  note info = buildFsInfo_says[OF info]
  have size: "totalSectors g * 512 = nat sizeBytes"
    using geometry(2) by (simp add: FAT32_SECTOR_BYTES_def)
  have boot: "length boot = 512" using says(1) by (simp add: boot_says_def)
  have first: "reservedSectors g = 32" "(32 + 2 * fatSectors g) * 512 \<le> totalSectors g * 512"
    using geometry(1) by (simp_all add: geometry_ok_def fat_constants)
  define sys where "sys = [(0, boot), (512, fsInfo), (6 * 512, boot), (7 * 512, fsInfo), (32 * 512, fat),
      ((32 + fatSectors g) * 512, fat)]"
  define data where "data = map (\<lambda>a. (data_offset g (first_cluster a), held_bytes a)) allocations"
  have writes: "image_writes g boot fsInfo fat allocations = sys @ data"
    by (simp add: image_writes_def sys_def data_def)
  have fit: "list_all (fits (totalSectors g * 512)) sys" "list_all (fits (totalSectors g * 512)) data"
    using image_writes_apart(1)[OF laid boot info(1) entries(1)] by (simp_all add: writes)
  have area: "write_system_area g boot fsInfo fat (replicate (nat sizeBytes) 0) =
      overlays sys (replicate (totalSectors g * 512) 0)"
    unfolding sys_def size[symmetric]
    using first by (intro write_system_area_overlays[OF boot info(1) entries(1)]) simp_all
  have "length (overlays sys (replicate (totalSectors g * 512) 0)) = totalSectors g * 512"
    using fit(1) by (simp add: length_overlays)
  then have "disk = overlays (sys @ data) (replicate (totalSectors g * 512) 0)"
    using disk area fit(2) write_allocations_overlays unfolding data_def by simp
  with laid says entries info geometry(4) have "built_from g allocations boot fsInfo fat disk"
    by (simp add: built_from_def writes)
  from that[OF this tree(3) size] show thesis .
qed

lemma built_reads:
  assumes "built_from g allocations boot fsInfo fat disk"
    and "(off, src) \<in> set (image_writes g boot fsInfo fat allocations)"
    and "off \<le> a" "a + n \<le> off + length src"
  shows "bytes_at a n disk = bytes_at (a - off) n src"
proof -
  have w: "laid_out g allocations" "length boot = 512" "length fsInfo = 512"
    "length fat = fatSectors g * 512"
    "disk = overlays (image_writes g boot fsInfo fat allocations) (replicate (totalSectors g * 512) 0)"
    using assms(1) by (simp_all add: built_from_def boot_says_def)
  show ?thesis
    unfolding w(5) using image_writes_apart[OF w(1-4)] assms(2-4)
    by (intro read_overlays_inside) simp_all
qed

lemma built_length:
  assumes "built_from g allocations boot fsInfo fat disk"
  shows "length disk = totalSectors g * 512"
proof -
  have w: "laid_out g allocations" "length boot = 512" "length fsInfo = 512"
    "length fat = fatSectors g * 512"
    "disk = overlays (image_writes g boot fsInfo fat allocations) (replicate (totalSectors g * 512) 0)"
    using assms(1) by (simp_all add: built_from_def boot_says_def)
  show ?thesis unfolding w(5) using image_writes_apart(1)[OF w(1-4)]
    by (subst length_overlays) simp_all
qed

lemma built_fields:
  assumes "built_from g allocations boot fsInfo fat disk"
  shows "sector_size disk = 512" "cluster_size disk = clusterBytes g" "reserved_sectors disk = 32"
    "fat_copies disk = 2" "total_sectors disk = totalSectors g" "fat_sectors disk = fatSectors g"
    "root_cluster disk = 2" "data_start disk = firstDataSector g * 512"
    "cluster_total disk = clusterCount g"
proof -
  have says: "boot_says g boot" and g: "geometry_ok g"
    using assms by (simp_all add: built_from_def laid_out_def)
  have first: "(0, boot) \<in> set (image_writes g boot fsInfo fat allocations)"
    by (simp add: image_writes_def)
  have field: "le_at n a disk = le_at n a boot" if "a + n \<le> 512" for n a
    using built_reads[OF assms first, of a n] that says by (simp add: le_at_def boot_says_def)
  show s: "sector_size disk = 512" "reserved_sectors disk = 32" "fat_copies disk = 2"
    "total_sectors disk = totalSectors g" "fat_sectors disk = fatSectors g" "root_cluster disk = 2"
    using says by (simp_all add: sector_size_def reserved_sectors_def fat_copies_def
        total_sectors_def fat_sectors_def root_cluster_def field boot_says_def)
  have spc: "le_at 1 13 disk = sectorsPerCluster g"
    using says by (simp add: field boot_says_def)
  then show "cluster_size disk = clusterBytes g"
    by (simp add: cluster_size_def s clusterBytes_def FAT32_SECTOR_BYTES_def)
  show "data_start disk = firstDataSector g * 512"
    using g by (simp add: data_start_def s geometry_ok_def fat_constants)
  have area: "clusterCount g = (totalSectors g - (32 + 2 * fatSectors g)) div sectorsPerCluster g"
    using assms g unfolding built_from_def data_area_used_def geometry_ok_def FAT_COUNT_def
      RESERVED_SECTORS_def by metis
  show "cluster_total disk = clusterCount g"
    using area unfolding cluster_total_def s spc by simp
qed

lemma built_fat_entry:
  assumes "built_from g allocations boot fsInfo fat disk" "k < 2" "c < clusterCount g + 2"
  shows "fat_entry disk k c = le_at 4 (4 * c) fat mod 2 ^ 28"
proof -
  have g: "(clusterCount g + 2) * 4 \<le> fatSectors g * 512" "length fat = fatSectors g * 512"
    using assms(1) by (simp_all add: built_from_def laid_out_def geometry_ok_def fat_constants)
  have copy: "((32 + k * fatSectors g) * 512, fat) \<in> set (image_writes g boot fsInfo fat allocations)"
    using assms(2) by (cases k) (simp_all add: image_writes_def less_Suc_eq)
  have "bytes_at ((32 + k * fatSectors g) * 512 + 4 * c) 4 disk = bytes_at (4 * c) 4 fat"
    using built_reads[OF assms(1) copy, of "(32 + k * fatSectors g) * 512 + 4 * c" 4] g assms(3) by simp
  then show ?thesis
    by (simp add: fat_entry_def le_at_def built_fields[OF assms(1)])
qed

lemma follow_chain:
  assumes "\<forall>i<n. follow (c + i) = (if i = n - 1 then 0x0fffffff else c + i + 1)"
    and "2 \<le> c" "c + n \<le> 0x0ffffff8" "0 < n" "n \<le> fuel"
  shows "cluster_chain fuel follow c = [c..<c + n]"
  using assms
proof (induction n arbitrary: c fuel)
  case (Suc n)
  from Suc.prems(5) obtain m where m: "fuel = Suc m" "n \<le> m" by (cases fuel) auto
  show ?case
  proof (cases "n = 0")
    case True
    then have "follow c = 0x0fffffff" using Suc.prems(1) by auto
    then have "cluster_chain m follow (follow c) = []" by (cases m) simp_all
    then show ?thesis using Suc.prems True by (simp add: m)
  next
    case False
    have "follow c = c + 1" using Suc.prems(1) False by auto
    moreover have "cluster_chain m follow (c + 1) = [c + 1..<c + 1 + n]"
    proof (rule Suc.IH)
      show "\<forall>i<n. follow (c + 1 + i) = (if i = n - 1 then 0x0fffffff else c + 1 + i + 1)"
      proof (intro allI impI)
        fix i assume "i < n"
        then show "follow (c + 1 + i) = (if i = n - 1 then 0x0fffffff else c + 1 + i + 1)"
          using Suc.prems(1)[rule_format, of "Suc i"] by auto
      qed
    qed (use Suc.prems False m in auto)
    ultimately show ?thesis using Suc.prems by (simp add: m upt_conv_Cons)
  qed
qed simp

lemma cluster_run:
  assumes "2 \<le> c"
  shows "concat (map (cluster_at disk) [c..<c + n]) =
    bytes_at (data_start disk + (c - 2) * cluster_size disk) (n * cluster_size disk) disk"
proof (induction n)
  case (Suc n)
  have "(c + n - 2) * cluster_size disk = (c - 2) * cluster_size disk + n * cluster_size disk"
    using assms by (simp add: add_mult_distrib[symmetric])
  then show ?case using Suc bytes_at_append[of _ "n * cluster_size disk" "cluster_size disk" disk]
    by (simp add: cluster_at_def add.commute add.left_commute)
qed (simp add: bytes_at_def)

lemma built_chain:
  assumes "built_from g allocations boot fsInfo fat disk" "a \<in> set allocations"
  shows "chain_data disk (first_cluster a) =
    bytes_at (data_offset g (first_cluster a)) (cluster_count a * clusterBytes g) disk"
proof -
  have laid: "laid_out g allocations" using assms(1) by (simp add: built_from_def)
  have used: "used_clusters allocations \<le> clusterCount g" "clusterCount g < 2 ^ 27"
    using laid by (simp_all add: laid_out_def)
  note own = laid_out_allocation[OF laid assms(2)]
  have "fat_entry disk 0 (first_cluster a + i) =
      (if i = cluster_count a - 1 then 0x0fffffff else first_cluster a + i + 1)"
    if i: "i < cluster_count a" for i
  proof -
    have "(first_cluster a + i, if i = cluster_count a - 1 then FAT_ENTRY_END_OF_CHAIN
        else first_cluster a + i + 1) \<in> set (chain_writes a)"
      using i unfolding chain_writes_def Let_def set_map by (rule_tac image_eqI[of _ _ i]) simp_all
    then have "(first_cluster a + i, if i = cluster_count a - 1 then FAT_ENTRY_END_OF_CHAIN
        else first_cluster a + i + 1) \<in> set (fat_writes allocations)"
      using assms(2) unfolding fat_writes_def by fastforce
    then have "le_at 4 (4 * (first_cluster a + i)) fat =
        (if i = cluster_count a - 1 then FAT_ENTRY_END_OF_CHAIN else first_cluster a + i + 1)"
      using assms(1) by (fastforce simp: built_from_def)
    then show ?thesis
      using built_fat_entry[OF assms(1), of 0 "first_cluster a + i"] i own(3) used
      by (simp add: FAT_ENTRY_END_OF_CHAIN_def)
  qed
  then have "cluster_chain (cluster_total disk) (fat_entry disk 0) (first_cluster a) =
      [first_cluster a..<first_cluster a + cluster_count a]"
    using own used built_fields(9)[OF assms(1)]
    by (intro follow_chain) (auto simp: allocation_ok_def)
  then show ?thesis
    by (simp add: chain_data_def cluster_run[OF own(2)] built_fields[OF assms(1)] data_offset_clusters)
qed

lemma built_stored:
  assumes "built_from g allocations boot fsInfo fat disk" "a \<in> set allocations"
  shows "stored g (chain_data disk) a"
proof -
  have laid: "laid_out g allocations" using assms(1) by (simp add: built_from_def)
  note own = laid_out_allocation[OF laid assms(2)]
  have held: "length (held_bytes a) \<le> cluster_count a * clusterBytes g"
    using own(1) by (simp add: allocation_ok_def)
  have "(data_offset g (first_cluster a), held_bytes a) \<in>
      set (image_writes g boot fsInfo fat allocations)"
    using assms(2) by (simp add: image_writes_def)
  from built_reads[OF assms(1) this, of "data_offset g (first_cluster a)" "length (held_bytes a)"]
  have "bytes_at (data_offset g (first_cluster a)) (length (held_bytes a)) disk = held_bytes a"
    by simp
  moreover have "data_offset g (first_cluster a) + cluster_count a * clusterBytes g \<le> length disk"
    using data_fits[OF laid own(2,3)] by (simp add: built_length[OF assms(1)])
  ultimately show ?thesis
    using held by (simp add: stored_def built_chain[OF assms] length_bytes_at)
      (simp add: bytes_at_def min_def)
qed

section \<open>The images of the writer\<close>

text \<open>Reading back an image gives the tree it was built from.\<close>

lemma built_tree:
  assumes "built_from g allocations boot fsInfo fat disk"
    and "tree_laid_out g root allocations (2 + used_clusters allocations)"
  shows "read_volume (tree_depth root) disk = root"
proof -
  have "geometry_ok g" "used_clusters allocations \<le> clusterCount g" "clusterCount g < 2 ^ 27"
    using assms(1) by (simp_all add: built_from_def laid_out_def)
  then have g: "usable g" "2 + used_clusters allocations \<le> 2 ^ 32"
    by (auto simp: usable_def geometry_ok_def cluster_sizes_def)
  have "chain_data disk 0 = []"
    by (cases "cluster_total disk") (simp_all add: chain_data_def)
  moreover have "list_all (stored g (chain_data disk)) allocations"
    using built_stored[OF assms(1)] by (simp add: list_all_iff)
  ultimately show ?thesis
    unfolding read_volume_def built_fields(7)[OF assms(1)]
    using tree_read[OF assms(2) g] by simp
qed

lemma image_read:
  assumes "buildFat32Image label root sizeBytes = Inr disk"
  shows "length disk = nat sizeBytes" "read_volume (tree_depth root) disk = root"
  using assms by (auto elim!: built simp: built_tree built_length)

text \<open>C8: A FAT32 image that \<open>buildFat32Image\<close> returns has exactly the size asked for, and a
  driver that knows nothing of the writer - it reads the boot sector, follows the cluster
  chains of the allocation table, decodes short and long directory entries and checks the
  checksum that binds them - finds in it exactly the tree of directories, names and file
  contents the image was built from.\<close>

theorem image_reads_back:
  "case buildFat32Image label root sizeBytes of
     Inl e \<Rightarrow> True
   | Inr disk \<Rightarrow> length disk = nat sizeBytes \<and> read_volume (tree_depth root) disk = root"
proof (cases "buildFat32Image label root sizeBytes")
  case (Inr disk)
  then show ?thesis by (simp add: image_read)
qed simp

lemma free_entries:
  assumes "built_from g allocations boot fsInfo fat disk"
  shows "length (filter (\<lambda>c. fat_entry disk 0 c = 0) [2..<2 + clusterCount g]) =
    clusterCount g - used_clusters allocations"
proof -
  let ?free = "\<lambda>c. fat_entry disk 0 c = 0"
  have laid: "laid_out g allocations" using assms by (simp add: built_from_def)
  have used: "used_clusters allocations \<le> clusterCount g" using laid by (simp add: laid_out_def)
  have taken: "\<not> ?free c" if c: "c < 2 + used_clusters allocations" for c
  proof -
    have "c \<in> set (map fst (fat_writes allocations))"
      unfolding fat_writes_keys(2)[OF laid] using c by simp
    then obtain v where v: "(c, v) \<in> set (fat_writes allocations)" by auto
    then have "v < 2 ^ 28 \<and> 0 < v" using fat_writes_fit[OF laid] by (auto simp: list_all_iff)
    moreover have "le_at 4 (4 * c) fat = v" using v assms by (fastforce simp: built_from_def)
    ultimately show ?thesis using built_fat_entry[OF assms, of 0 c] c used by simp
  qed
  have free: "?free c" if "2 + used_clusters allocations \<le> c" "c < 2 + clusterCount g" for c
    using built_fat_entry[OF assms, of 0 c] assms that by (simp add: built_from_def)
  have "[2..<2 + clusterCount g] =
      [2..<2 + used_clusters allocations] @ [2 + used_clusters allocations..<2 + clusterCount g]"
    using used by (metis add_left_mono le_add1 le_add_diff_inverse upt_add_eq_append)
  moreover have "filter ?free [2..<2 + used_clusters allocations] = []"
    using taken by (simp only: filter_empty_conv set_upt) simp
  moreover have "filter ?free [2 + used_clusters allocations..<2 + clusterCount g] =
      [2 + used_clusters allocations..<2 + clusterCount g]"
    using free by (simp only: filter_id_conv set_upt) simp
  ultimately show ?thesis by (simp only: filter_append append_Nil length_upt)
qed

text \<open>C11: In every image that is returned the two copies of the allocation table are equal, the
  sectors 6 and 7 repeat the boot sector and the FSInfo sector, and FSInfo tells the truth
  about the table: its free count is the number of clusters whose entry is zero, and all of
  them come from the cluster it names as the next free one.\<close>

theorem image_tables_agree:
  "case buildFat32Image label root sizeBytes of
     Inl e \<Rightarrow> True
   | Inr disk \<Rightarrow>
       let size = sector_size disk; table = fat_sectors disk * size;
           free = filter (\<lambda>c. fat_entry disk 0 c = 0) [2..<2 + cluster_total disk]
       in bytes_at (reserved_sectors disk * size + table) table disk =
            bytes_at (reserved_sectors disk * size) table disk \<and>
          bytes_at (6 * size) (2 * size) disk = bytes_at 0 (2 * size) disk \<and>
          le_at 4 (size + 488) disk = length free \<and>
          le_at 4 (size + 492) disk = 2 + cluster_total disk - length free"
proof (cases "buildFat32Image label root sizeBytes")
  case (Inr disk)
  then obtain g allocations boot fsInfo fat where b: "built_from g allocations boot fsInfo fat disk"
    by (rule built)
  have len: "length boot = 512" "length fsInfo = 512" "length fat = fatSectors g * 512"
    and info: "le_at 4 488 fsInfo = clusterCount g - used_clusters allocations"
      "le_at 4 492 fsInfo = 2 + used_clusters allocations"
    and used: "used_clusters allocations \<le> clusterCount g"
    using b by (simp_all add: built_from_def boot_says_def laid_out_def)
  have get: "bytes_at off (length src) disk = src"
    if "(off, src) \<in> set (image_writes g boot fsInfo fat allocations)" for off src
    using built_reads[OF b that, of off "length src"] by simp
  have "bytes_at (32 * 512 + fatSectors g * 512) (fatSectors g * 512) disk = fat"
    "bytes_at (32 * 512) (fatSectors g * 512) disk = fat"
    using get[of "(32 + fatSectors g) * 512" fat] get[of "32 * 512" fat]
    by (simp_all add: image_writes_def len add_mult_distrib)
  moreover have "bytes_at 0 1024 disk = boot @ fsInfo" "bytes_at 3072 1024 disk = boot @ fsInfo"
    using get[of 0 boot] get[of 512 fsInfo] get[of 3072 boot] get[of 3584 fsInfo]
      bytes_at_append[of 0 512 512 disk] bytes_at_append[of 3072 512 512 disk]
    by (simp_all add: image_writes_def len)
  moreover have "le_at 4 (512 + n) disk = le_at 4 n fsInfo" if "n + 4 \<le> 512" for n
    using built_reads[OF b, of 512 fsInfo "512 + n" 4] that
    by (simp add: image_writes_def len le_at_def)
  from this[of 488] this[of 492] have "le_at 4 1000 disk = clusterCount g - used_clusters allocations"
    "le_at 4 1004 disk = 2 + used_clusters allocations"
    by (simp_all add: info)
  ultimately show ?thesis
    using free_entries[OF b] used
    by (simp add: Inr Let_def built_fields[OF b] del: upt_Suc)
qed simp

end
