(* ===== verification/Fat32Limits.thy ===== *)
theory Fat32Limits
  imports Fat32Read
begin

text \<open>
  Which volumes the FAT32 writer builds and which it refuses.  \<open>buildable\<close> says it without
  the allocator: every name can be encoded, no file reaches 4 GiB, the label is valid, the
  size is a whole number of sectors inside the limits, and the clusters the tree needs
  (\<open>tree_need\<close>) fit.
\<close>

section \<open>Names and lengths\<close>

fun tree_ok :: "fat32_node list \<Rightarrow> bool" where
  "tree_ok [] = True"
| "tree_ok (File_node content name # nodes) \<longleftrightarrow>
     ENCODABLE_NAME name \<and> length content < 2 ^ 32 \<and> tree_ok nodes"
| "tree_ok (Directory_node children name # nodes) \<longleftrightarrow>
     ENCODABLE_NAME name \<and> tree_ok children \<and> tree_ok nodes"

definition label_ok :: "jsstring \<Rightarrow> bool" where
  "label_ok label \<longleftrightarrow> 1 \<le> length label \<and> length label \<le> 11 \<and> list_all label_char label"

definition entry_ok :: "fat32_node \<Rightarrow> bool" where
  "entry_ok node \<longleftrightarrow> ENCODABLE_NAME (node_name node) \<and> node_length node < 2 ^ 32"

definition returns :: "'e + 'a \<Rightarrow> bool" where
  "returns r \<longleftrightarrow> (\<exists>a. r = Inr a)"

lemma returns_simps [simp]:
  "returns (Inr a)" "\<not> returns (Inl e)"
  "returns (if c then r else r') = (if c then returns r else returns r')"
  "returns (bindE r f) \<longleftrightarrow> (\<exists>a. r = Inr a \<and> returns (f a))"
  by (auto simp: returns_def)

lemma short_name_returns: "returns (fat32ShortName name) \<longleftrightarrow> ENCODABLE_NAME name"
  by (simp add: fat32ShortName_def Let_def)

lemma directory_entry_returns:
  assumes "length name = 11"
  shows "returns (fat32DirectoryEntry attributes cluster name held) \<longleftrightarrow> held < 2 ^ 32"
  using assms
  by (simp add: fat32DirectoryEntry_def Let_def write_le_def set_bytes_def copy_into_fits
      length_overlay name_constants)

lemma name_entries_return: "returns (nameEntries node cluster) \<longleftrightarrow> entry_ok node"
proof (cases "fat32ShortName (node_name node)")
  case (Inl e)
  then have "\<not> ENCODABLE_NAME (node_name node)"
    using short_name_returns[of "node_name node"] by simp
  then show ?thesis using Inl by (simp add: nameEntries_def entry_ok_def)
next
  case (Inr short)
  then have "ENCODABLE_NAME (node_name node)"
    using short_name_returns[of "node_name node"] by simp
  from Inr obtain b x where n: "name_bytes short = shortNameField b x" "b \<noteq> []" "length b \<le> 8"
    "length x \<le> 3" "list_all visible b" "list_all visible x" "exact short \<longrightarrow> node_name node = dotted b x"
    "list_all visible (node_name node)" "node_name node \<noteq> []" "length (node_name node) \<le> 36"
    by (rule short_name_cases)
  have len: "length (name_bytes short) = 11" using n(3,4) by (simp add: n(1) length_shortNameField)
  obtain checksum where checksum: "fat32ShortNameChecksum (name_bytes short) = Inr checksum"
    using len by (simp add: fat32ShortNameChecksum_def name_constants)
  obtain long where "fat32LongNameEntries (node_name node) checksum = Inr long"
    using n(8,10) by (simp add: fat32LongNameEntries_def code_points_plain Let_def
        LONG_NAME_MAX_CHARS_def list_ex_iff)
  with checksum have "returns (nameEntries node cluster) \<longleftrightarrow>
      returns (fat32DirectoryEntry (node_attributes node) cluster (name_bytes short) (node_length node))"
    by (cases "fat32DirectoryEntry (node_attributes node) cluster (name_bytes short) (node_length node)")
      (simp_all add: nameEntries_def Inr)
  then show ?thesis
    using \<open>ENCODABLE_NAME (node_name node)\<close> by (simp add: directory_entry_returns[OF len] entry_ok_def)
qed

lemma entry_count_returns:
  "returns (directoryEntryCount children n) \<longleftrightarrow> list_all (\<lambda>c. ENCODABLE_NAME (node_name c)) children"
proof (induction children arbitrary: n)
  case (Cons child children)
  show ?case
  proof (cases "fat32ShortName (node_name child)")
    case (Inl e)
    then show ?thesis using short_name_returns[of "node_name child"] by simp
  next
    case (Inr short)
    then show ?thesis using short_name_returns[of "node_name child"] Cons by simp
  qed
qed simp

lemma directory_size_returns:
  "returns (directorySizeBytes children n g) \<longleftrightarrow> list_all (\<lambda>c. ENCODABLE_NAME (node_name c)) children"
  using entry_count_returns[of children n] by (simp add: directorySizeBytes_def returns_def)

lemma tree_ok_entries: "tree_ok nodes \<Longrightarrow> list_all entry_ok nodes"
  by (induction nodes rule: tree_ok.induct) (simp_all add: entry_ok_def)

lemma entry_ok_names: "list_all entry_ok nodes \<Longrightarrow> list_all (\<lambda>c. ENCODABLE_NAME (node_name c)) nodes"
  by (auto simp: list_all_iff entry_ok_def)

section \<open>The clusters a tree needs\<close>

text \<open>The clusters of the nodes themselves, then those of everything below them.\<close>

fun node_need :: "fat32_geometry \<Rightarrow> fat32_node \<Rightarrow> nat" where
  "node_need g (File_node content name) = ceil_div (length content) (clusterBytes g)"
| "node_need g (Directory_node children name) =
     ceil_div (32 * (2 + sum_list (map name_slots children))) (clusterBytes g)"

definition level_need :: "fat32_geometry \<Rightarrow> fat32_node list \<Rightarrow> nat" where
  "level_need g nodes = sum_list (map (node_need g) nodes)"

fun below_need :: "fat32_geometry \<Rightarrow> fat32_node list \<Rightarrow> nat" where
  "below_need g [] = 0"
| "below_need g (File_node content name # nodes) = below_need g nodes"
| "below_need g (Directory_node children name # nodes) =
     level_need g children + below_need g children + below_need g nodes"

lemma directory_size:
  assumes "directorySizeBytes children n g = Inr held" "usable g"
  shows "clustersFor held g = ceil_div (32 * (n + sum_list (map name_slots children))) (clusterBytes g)"
proof -
  from assms(1) obtain k where "directoryEntryCount children n = Inr k"
    "held = clustersFor (k * 32) g * clusterBytes g"
    by (auto simp: directorySizeBytes_def name_constants)
  then have "clustersFor held g = clustersFor (k * 32) g" "k = n + sum_list (map name_slots children)"
    using directoryEntryCount_sum clustersFor_simps(2)[OF assms(2)] by simp_all
  then show ?thesis by (simp add: clustersFor_def mult.commute)
qed

lemma node_size:
  assumes "nodeSizeBytes node g = Inr n" "usable g"
  shows "clustersFor n g = node_need g node"
proof (cases node)
  case (File_node content name)
  then show ?thesis using assms by (simp add: clustersFor_def)
next
  case (Directory_node children name)
  then show ?thesis using assms directory_size[of children 2 g n] by simp
qed

lemma returns3: "returns r \<Longrightarrow> \<exists>a b c. r = Inr (a, b, c)"
  by (auto simp: returns_def)

lemma enter_children_returns:
  "list_all entry_ok children \<Longrightarrow> list_all (\<lambda>n. returns (nodeSizeBytes n g)) children \<Longrightarrow>
     returns (enter_children g children offset directory next)"
proof (induction children arbitrary: offset directory "next")
  case (Cons child children)
  then obtain n where n: "nodeSizeBytes child g = Inr n" by (auto simp: returns_def)
  obtain e where "nameEntries child (if n = 0 then 0 else next) = Inr e"
    using name_entries_return[of child] Cons.prems(1) by (auto simp: returns_def)
  moreover define c where "c = (if n = 0 then next else next + clustersFor n g)"
  moreover have "returns (enter_children g children
      (offset + min (length e) (length directory - offset)) (copy_into directory offset e) c)"
    using Cons by simp
  then obtain clusters filled free where "enter_children g children
      (offset + min (length e) (length directory - offset)) (copy_into directory offset e) c =
      Inr (clusters, filled, free)"
    using returns3 by blast
  ultimately show ?case using n by (simp add: Let_def)
qed simp

lemma enter_children_needs:
  assumes "enter_children g children offset directory next = Inr (clusters, filled, free)" "usable g"
  shows "list_all entry_ok children \<and> free = next + level_need g children \<and>
    length clusters = length children"
  using assms
proof (induction children arbitrary: offset directory "next" clusters)
  case (Cons child children)
  from Cons.prems(1) obtain n where n: "nodeSizeBytes child g = Inr n" by auto
  define next' where "next' = (if n = 0 then next else next + clustersFor n g)"
  from Cons.prems(1) n obtain bs cs where bs: "nameEntries child (if n = 0 then 0 else next) = Inr bs"
    and step: "enter_children g children (offset + min (length bs) (length directory - offset))
      (copy_into directory offset bs) next' = Inr (cs, filled, free)"
    and "clusters = (if n = 0 then 0 else next) # cs"
    by (auto simp: next'_def Let_def)
  moreover have "entry_ok child" using bs name_entries_return by (force simp: returns_def)
  moreover have "next' = next + node_need g child"
    using node_size[OF n assms(2)] clustersFor_simps(1)[OF assms(2)] by (auto simp: next'_def)
  ultimately show ?case
    using Cons.IH[OF step assms(2)] by (simp_all add: level_need_def)
qed (simp_all add: level_need_def)

text \<open>What \<open>tree_ok\<close> adds to the entries of one directory: the directories below.\<close>

definition sizes_return :: "fat32_geometry \<Rightarrow> fat32_node list \<Rightarrow> bool" where
  "sizes_return g nodes \<longleftrightarrow> list_all (\<lambda>n. returns (nodeSizeBytes n g)) nodes"

lemma tree_ok_sizes: "tree_ok nodes \<Longrightarrow> sizes_return g nodes"
proof (induction nodes rule: tree_ok.induct)
  case (3 children name nodes)
  then show ?case using entry_ok_names[OF tree_ok_entries[of children]]
    by (simp add: sizes_return_def directory_size_returns)
qed (simp_all add: sizes_return_def)

lemma fill_directory_returns:
  assumes "tree_ok children"
  shows "returns (fill_directory g children first leading next)"
proof -
  note entries = tree_ok_entries[OF assms]
  obtain held where "directorySizeBytes children (length leading div DIRECTORY_ENTRY_BYTES) g = Inr held"
    using directory_size_returns entry_ok_names[OF entries] by (metis returns_def)
  moreover obtain clusters filled free where "enter_children g children (length leading)
      (copy_into (replicate held 0) 0 leading) next = Inr (clusters, filled, free)"
    using returns3[OF enter_children_returns[OF entries tree_ok_sizes[OF assms, unfolded sizes_return_def]]]
    by blast
  ultimately show ?thesis by (simp add: fill_directory_def)
qed

lemma fill_directory_needs:
  assumes "fill_directory g children first leading next = Inr (own, clusters, free)" "usable g"
  shows "list_all entry_ok children" "free = next + level_need g children"
    "length clusters = length children"
proof -
  from assms(1) obtain held directory filled where
    "enter_children g children (length leading) directory next = Inr (clusters, filled, free)"
    by (auto simp: fill_directory_def)
  from enter_children_needs[OF this assms(2)] show "list_all entry_ok children"
    "free = next + level_need g children" "length clusters = length children"
    by simp_all
qed

lemma dots_return: "returns (fat32DotEntries cluster parent)"
proof -
  have "returns (fat32DirectoryEntry ATTR_DIRECTORY c (shortNameField (js s) []) 0)"
    if "length s \<le> 8" for c s
    using that by (simp add: directory_entry_returns length_shortNameField)
  from this[of "''.''" cluster] this[of "''..''" parent] show ?thesis
    by (auto simp: fat32DotEntries_def returns_def)
qed

lemma place_nodes_returns:
  "tree_ok nodes \<Longrightarrow> returns (place_nodes g parent nodes clusters next)"
proof (induction g parent nodes clusters "next" rule: place_nodes.induct)
  case (1 g parent children name nodes cluster clusters "next")
  obtain dots where "fat32DotEntries cluster (parent_entry parent) = Inr dots"
    using dots_return by (auto simp: returns_def)
  moreover obtain own inner claimed where "fill_directory g children cluster dots next = Inr (own, inner, claimed)"
    using returns3[OF fill_directory_returns[of children]] "1.prems" by (metis tree_ok.simps(3))
  moreover obtain below free where "place_nodes g cluster children inner claimed = Inr (below, free)"
    using "1.IH"(1)[of inner claimed] "1.prems" by (auto simp: returns_def)
  moreover obtain others final where "place_nodes g parent nodes clusters free = Inr (others, final)"
    using "1.IH"(2)[of free] "1.prems" by (auto simp: returns_def)
  ultimately show ?case by simp
next
  case (2 g parent content name nodes cluster clusters "next")
  then show ?case by (auto simp: returns_def)
qed simp_all

lemma place_nodes_needs:
  assumes "place_nodes g parent nodes clusters next = Inr (as, final)" "usable g"
    and "list_all entry_ok nodes" "length clusters = length nodes"
  shows "tree_ok nodes \<and> final = next + below_need g nodes"
  using assms
proof (induction g parent nodes clusters "next" arbitrary: as final rule: place_nodes.induct)
  case (1 g parent children name nodes cluster clusters "next")
  from "1.prems"(1) obtain dots own inner claimed below free others where
    fill: "fill_directory g children cluster dots next = Inr (own, inner, claimed)"
    and below: "place_nodes g cluster children inner claimed = Inr (below, free)"
    and others: "place_nodes g parent nodes clusters free = Inr (others, final)"
    by auto
  note filled = fill_directory_needs[OF fill "1.prems"(2)]
  have "tree_ok children \<and> free = claimed + below_need g children"
    using "1.IH"(1)[OF below "1.prems"(2) filled(1,3)] .
  moreover have "tree_ok nodes \<and> final = free + below_need g nodes"
    using "1.IH"(2)[OF others "1.prems"(2)] "1.prems"(3,4) by simp
  ultimately show ?case using "1.prems"(3) filled(2) by (simp add: entry_ok_def)
next
  case (2 g parent content name nodes cluster clusters "next")
  then show ?case by (auto simp: entry_ok_def)
qed auto

section \<open>Which images are built\<close>

definition tree_need :: "fat32_geometry \<Rightarrow> fat32_node list \<Rightarrow> nat" where
  "tree_need g root =
     ceil_div (32 * (1 + sum_list (map name_slots root))) (clusterBytes g) +
     level_need g root + below_need g root"

lemma geometry_usable: "geometry_ok g \<Longrightarrow> usable g"
  by (auto simp: geometry_ok_def usable_def cluster_sizes_def)

lemma allocateTree_returns:
  assumes "usable g"
  shows "returns (allocateTree g label root) \<longleftrightarrow> label_ok label \<and> tree_ok root"
    "allocateTree g label root = Inr allocations \<Longrightarrow> used_clusters allocations = tree_need g root"
proof -
  have label: "returns (fat32VolumeLabelEntry label) \<longleftrightarrow> label_ok label"
  proof (cases "label_ok label")
    case True
    have "returns (fat32DirectoryEntry ATTR_VOLUME_ID 0
        (write_ascii label 0 SHORT_NAME_BYTES (replicate SHORT_NAME_BYTES 0x20)) 0)"
      by (subst directory_entry_returns)
        (simp_all add: write_ascii_def length_copy_into name_constants)
    then show ?thesis using True by (simp add: fat32VolumeLabelEntry_def label_ok_def)
  next
    case False
    then show ?thesis by (auto simp: fat32VolumeLabelEntry_def label_ok_def)
  qed
  have forth: "label_ok label \<and> tree_ok root \<and> used_clusters as = tree_need g root"
    if as: "allocateTree g label root = Inr as" for as
  proof -
    from allocateTree_owned(3)[OF as assms] obtain held leading own clusters claimed below where
      held: "directorySizeBytes root 1 g = Inr held"
      and fill: "fill_directory g root 2 leading (2 + clustersFor held g) = Inr (own, clusters, claimed)"
      and below: "place_nodes g 2 root clusters claimed = Inr (below, 2 + used_clusters as)"
      unfolding tree_laid_out_def FIRST_DATA_CLUSTER_def by blast
    note filled = fill_directory_needs[OF fill assms]
    have "returns (fat32VolumeLabelEntry label)" using as by (auto simp: allocateTree_def)
    with place_nodes_needs[OF below assms filled(1,3)] filled(2) directory_size[OF held assms] label
    show ?thesis by (simp add: tree_need_def)
  qed
  have only: "returns (allocateTree g label root)" if ok: "label_ok label" "tree_ok root"
  proof -
    obtain held where held: "directorySizeBytes root 1 g = Inr held"
      using directory_size_returns entry_ok_names[OF tree_ok_entries[OF ok(2)]] by (metis returns_def)
    moreover obtain leading where "fat32VolumeLabelEntry label = Inr leading"
      using label ok(1) by (auto simp: returns_def)
    moreover obtain own clusters claimed where "fill_directory g root 2 leading (2 + clustersFor held g)
        = Inr (own, clusters, claimed)"
      using returns3[OF fill_directory_returns[OF ok(2)]] by blast
    moreover obtain below final where "place_nodes g 2 root clusters claimed = Inr (below, final)"
      using place_nodes_returns[OF ok(2)] by (force simp: returns_def)
    ultimately show ?thesis by (simp add: allocateTree_def place_tree_def fat_constants)
  qed
  show "returns (allocateTree g label root) \<longleftrightarrow> label_ok label \<and> tree_ok root"
    using forth only by (auto simp: returns_def)
  show "allocateTree g label root = Inr allocations \<Longrightarrow> used_clusters allocations = tree_need g root"
    using forth by simp
qed

lemma ceil_div_upper: "0 < b \<Longrightarrow> ceil_div a b * b \<le> a + b - 1"
  by (simp add: ceil_div_def)

text \<open>The second test of the geometry never fires: every row of the table leaves enough clusters.\<close>

lemma enough_clusters:
  assumes "66600 < t" "t \<le> MAX_SAFE_INTEGER" "s = sectors_per_cluster t"
  shows "65525 < (t - (32 + 2 * ceil_div (t - 32) (128 * s + 1))) div s"
proof -
  have "ceil_div (t - 32) (128 * s + 1) * (128 * s + 1) \<le> t - 32 + (128 * s + 1) - 1"
    by (rule ceil_div_upper) simp
  then show ?thesis using assms
    by (auto simp: sectors_per_cluster_def SECTORS_PER_CLUSTER_TABLE_def split: if_splits)
qed

definition size_ok :: "int \<Rightarrow> bool" where
  "size_ok sizeBytes \<longleftrightarrow>
     sizeBytes mod 512 = 0 \<and> 512 * 66600 < sizeBytes \<and> sizeBytes \<le> int MAX_SAFE_INTEGER"

lemma geometry_returns: "returns (fat32Geometry sizeBytes) \<longleftrightarrow> size_ok sizeBytes"
proof (cases "sizeBytes \<le> int MAX_SAFE_INTEGER \<and> 0 < sizeBytes \<and> sizeBytes mod 512 = 0")
  case True
  define t where "t = nat sizeBytes div 512"
  define s where "s = sectors_per_cluster t"
  have d: "(256 * s + 2) div 2 = 128 * s + 1" by simp
  have size: "sizeBytes = 512 * int t"
    using True by (auto simp: t_def zdiv_int)
  have t: "t \<le> MAX_SAFE_INTEGER" using True size by linarith
  have small: "s = 0 \<longleftrightarrow> t \<le> 66600"
    using t by (auto simp: s_def sectors_per_cluster_def SECTORS_PER_CLUSTER_TABLE_def split: if_splits)
  have "returns (fat32Geometry sizeBytes) \<longleftrightarrow>
      s \<noteq> 0 \<and> 65525 < (t - (32 + 2 * ceil_div (t - 32) (128 * s + 1))) div s"
    using True unfolding fat32Geometry_def fat_constants Let_def t_def[symmetric] s_def[symmetric] d
    by (auto simp: not_le)
  then show ?thesis using enough_clusters[OF _ t s_def] small True size by (auto simp: size_ok_def)
next
  case False
  then show ?thesis by (auto simp: fat32Geometry_def size_ok_def)
qed

text \<open>A FAT32 geometry exists for exactly the disks of more than 66,600 whole sectors, and it is
  sound: the volume has more than 65,525 clusters, so a driver takes it for FAT32, its data area
  ends inside the disk, and one allocation table holds an entry for every cluster and the
  two reserved ones.\<close>

theorem geometry_is_sound:
  "case fat32Geometry sizeBytes of
     Inl e \<Rightarrow> \<not> (sizeBytes mod 512 = 0 \<and> 512 * 66600 < sizeBytes \<and> sizeBytes \<le> int MAX_SAFE_INTEGER)
   | Inr g \<Rightarrow>
       (sizeBytes mod 512 = 0 \<and> 512 * 66600 < sizeBytes \<and> sizeBytes \<le> int MAX_SAFE_INTEGER) \<and>
       512 * totalSectors g = nat sizeBytes \<and> 65525 < clusterCount g \<and>
       firstDataSector g = 32 + 2 * fatSectors g \<and>
       firstDataSector g + clusterCount g * sectorsPerCluster g \<le> totalSectors g \<and>
       4 * (clusterCount g + 2) \<le> 512 * fatSectors g"
proof (cases "fat32Geometry sizeBytes")
  case (Inl e)
  then show ?thesis using geometry_returns[of sizeBytes] by (simp add: size_ok_def)
next
  case (Inr g)
  then show ?thesis
    using geometry_returns[of sizeBytes] fat32Geometry_sound(1,2)[OF Inr]
    by (simp add: size_ok_def geometry_ok_def fat_constants)
qed

definition buildable :: "jsstring \<Rightarrow> fat32_node list \<Rightarrow> int \<Rightarrow> bool" where
  "buildable label root sizeBytes \<longleftrightarrow>
     label_ok label \<and> tree_ok root \<and> sizeBytes < 512 * 2 ^ 32 \<and>
     (case fat32Geometry sizeBytes of
        Inl e \<Rightarrow> False | Inr g \<Rightarrow> tree_need g root \<le> clusterCount g)"

lemma write_fields_return:
  "list_all (\<lambda>(width, v, offset). v < 256 ^ width \<and> offset + width \<le> length buf) fs \<Longrightarrow>
     \<exists>b. foldE write_field fs buf = Inr b \<and> length b = length buf"
proof (induction fs arbitrary: buf)
  case (Cons f fs)
  obtain width v offset where f: "f = (width, v, offset)" by (cases f)
  show ?case using Cons.prems Cons.IH[of "overlay buf offset (le_bytes width v)"] f
    by (simp add: write_field_def write_le_def set_bytes_def length_overlay)
qed simp

lemma boot_sector_returns:
  assumes "geometry_ok g" "totalSectors g < 2 ^ 32"
  shows "returns (buildBootSector g label)"
proof -
  define s where "s = write_ascii (js ''NESSIE  '') 3 8 (overlay (replicate 512 0) 0 [0xeb, 0x58, 0x90])"
  have s: "length s = 512" by (simp add: s_def write_ascii_def length_copy_into length_overlay)
  have g: "sectorsPerCluster g < 256" "reservedSectors g = 32" "fatSectors g < 2 ^ 32"
    using assms by (auto simp: geometry_ok_def cluster_sizes_def fat_constants)
  have "list_all (\<lambda>(width, v, offset). v < 256 ^ width \<and> offset + width \<le> length s)
     [(2, 512, 11), (1, sectorsPerCluster g, 13), (2, reservedSectors g, 14),
      (1, FAT_COUNT, 16), (1, MEDIA_FIXED, 21), (2, 63, 24), (2, 255, 26),
      (4, totalSectors g, 32), (4, fatSectors g, 36), (4, FIRST_DATA_CLUSTER, 44), (2, 1, 48),
      (2, BACKUP_BOOT_SECTOR, 50), (1, 0x80, 64), (1, 0x29, 66), (4, VOLUME_SERIAL, 67)]"
    using g assms(2) by (simp add: s fat_constants)
  from write_fields_return[OF this] s show ?thesis
    by (auto simp: buildBootSector_def set_bytes_def s_def FAT32_SECTOR_BYTES_def write_le_def
        write_ascii_def length_copy_into)
qed

lemma fs_info_returns: "n < 2 ^ 32 \<Longrightarrow> m < 2 ^ 32 \<Longrightarrow> returns (buildFsInfo n m)"
  using write_fields_return[of "replicate 512 0" "[(4, 0x41615252, 0), (4, 0x61417272, 484),
    (4, n, 488), (4, m, 492), (4, 0xaa550000, 508)]"]
  unfolding buildFsInfo_def FAT32_SECTOR_BYTES_def returns_def
  by (simp del: foldE.simps) blast

lemma fitting_image_returns:
  assumes geometry: "fat32Geometry sizeBytes = Inr g" and small: "totalSectors g < 2 ^ 32"
    and as: "allocateTree g label root = Inr allocations"
    and used: "used_clusters allocations \<le> clusterCount g"
  shows "returns (buildFat32Image label root sizeBytes)"
proof -
  note sound = fat32Geometry_sound[OF geometry]
  have laid: "laid_out g allocations"
    using sound(1) clusters_below[OF sound(1) small sound(3)] used
      allocateTree_owned(1,2)[OF as geometry_usable[OF sound(1)]]
    by (simp add: laid_out_def)
  then have below: "clusterCount g < 2 ^ 27" by (simp add: laid_out_def)
  obtain boot where boot: "buildBootSector g label = Inr boot"
    using boot_sector_returns[OF sound(1) small] by (auto simp: returns_def)
  obtain info where info: "buildFsInfo (clusterCount g - used_clusters allocations)
      (FIRST_DATA_CLUSTER + used_clusters allocations) = Inr info"
    using fs_info_returns below used by (fastforce simp: returns_def FIRST_DATA_CLUSTER_def)
  from buildFat_entries[OF laid] obtain fat where fat: "buildFat allocations g = Inr fat"
    and len: "length fat = fatSectors g * 512"
    by blast
  have lengths: "length boot = 512" "length info = 512"
    using buildBootSector_says(1)[OF boot sound(1)] buildFsInfo_says(1)[OF info]
    by (simp_all add: boot_says_def)
  have size: "nat sizeBytes = totalSectors g * 512" using sound(2) by (simp add: FAT32_SECTOR_BYTES_def)
  have area: "length (write_system_area g boot info fat (replicate (nat sizeBytes) 0)) = nat sizeBytes"
    using image_writes_apart(1)[OF laid lengths len] sound(1) lengths len size
    by (subst write_system_area_overlays)
      (auto simp: geometry_ok_def fat_constants length_overlay)
  have "returns (write_allocations g allocations
      (write_system_area g boot info fat (replicate (nat sizeBytes) 0)))"
    using image_writes_apart(1)[OF laid lengths len] size
    by (subst write_allocations_overlays) (simp_all add: area[unfolded size] image_writes_def)
  then show ?thesis
    using used by (simp add: buildFat32Image_def geometry as boot info fat Let_def)
qed

lemma images_returned:
  "returns (buildFat32Image label root sizeBytes) = buildable label root sizeBytes"
proof (cases "fat32Geometry sizeBytes")
  case (Inl e)
  then show ?thesis by (simp add: buildFat32Image_def buildable_def)
next
  case (Inr g)
  note sound = fat32Geometry_sound[OF Inr]
  note usable = geometry_usable[OF sound(1)]
  have size: "sizeBytes = 512 * int (totalSectors g)"
    using sound(2) geometry_returns[of sizeBytes] Inr by (auto simp: size_ok_def fat_constants)
  show ?thesis
  proof
    assume "returns (buildFat32Image label root sizeBytes)"
    then obtain allocations boot where as: "allocateTree g label root = Inr allocations"
      and used: "used_clusters allocations \<le> clusterCount g"
      and boot: "buildBootSector g label = Inr boot"
      by (auto simp: buildFat32Image_def Inr Let_def split: if_splits)
    have "label_ok label \<and> tree_ok root"
      using as allocateTree_returns(1)[OF usable, of label root] by simp
    then show "buildable label root sizeBytes"
      using buildBootSector_says(2)[OF boot sound(1)] allocateTree_returns(2)[OF usable as] used Inr size
      by (simp add: buildable_def)
  next
    assume ok: "buildable label root sizeBytes"
    then obtain allocations where as: "allocateTree g label root = Inr allocations"
      using allocateTree_returns(1)[OF usable] by (auto simp: buildable_def returns_def)
    show "returns (buildFat32Image label root sizeBytes)"
      using ok size allocateTree_returns(2)[OF usable as] Inr
      by (intro fitting_image_returns[OF Inr _ as]) (simp_all add: buildable_def)
  qed
qed

text \<open>C9: \<open>buildFat32Image\<close> refuses nothing it could write and writes nothing it should refuse: it
  returns an image exactly when every name in the tree can be encoded, every file is below
  4 GiB, the label is valid, the disk has a FAT32 geometry and less than 2^32 sectors, and the
  clusters of all files and directories, counted from their lengths and names alone, fit.\<close>

theorem images_built_exactly:
  "returns (buildFat32Image label root sizeBytes) = buildable label root sizeBytes"
  by (rule images_returned)

end
