(* ===== verification/BootDisk.thy ===== *)
theory BootDisk
  imports Fat32Limits
begin

text \<open>
  The boot disk of a Hyper-V guest (\<open>src/executor/src/hyperv/boot-disk.ts\<close>): its size, its tree
  and the file that is written.  The file system is a map from paths to contents, so reading a
  missing file and writing over an existing one (\<open>flag: 'wx'\<close>) are the errors they are.

  The theorem is the contract of the disk with the firmware: under the two paths of the
  module the kernel and the initrd are found by the driver of \<open>Fat32Read\<close>.
\<close>

section \<open>The disk\<close>

definition BOOT_DISK_LABEL :: jsstring where "BOOT_DISK_LABEL = js ''NESSIEBOOT''"
definition BOOT_DISK_EFI_DIRECTORY :: jsstring where "BOOT_DISK_EFI_DIRECTORY = js ''EFI''"
definition BOOT_DISK_BOOT_DIRECTORY :: jsstring where "BOOT_DISK_BOOT_DIRECTORY = js ''BOOT''"
definition BOOT_DISK_LOADER_NAME :: jsstring where "BOOT_DISK_LOADER_NAME = js ''BOOTX64.EFI''"
definition BOOT_DISK_INITRD_NAME :: jsstring where "BOOT_DISK_INITRD_NAME = js ''initrd.img''"
definition BOOT_DISK_LOADER_PATH :: jsstring where
  "BOOT_DISK_LOADER_PATH =
     BOOT_DISK_EFI_DIRECTORY @ js ''/'' @ BOOT_DISK_BOOT_DIRECTORY @ js ''/'' @ BOOT_DISK_LOADER_NAME"
definition BOOT_DISK_INITRD_PATH :: jsstring where
  "BOOT_DISK_INITRD_PATH =
     BOOT_DISK_EFI_DIRECTORY @ js ''/'' @ BOOT_DISK_BOOT_DIRECTORY @ js ''/'' @ BOOT_DISK_INITRD_NAME"

definition MEBIBYTE :: nat where "MEBIBYTE = 1024 * 1024"
definition MINIMUM_BOOT_DISK_BYTES :: nat where "MINIMUM_BOOT_DISK_BYTES = 64 * MEBIBYTE"
definition BOOT_DISK_SLACK_BYTES :: nat where "BOOT_DISK_SLACK_BYTES = 8 * MEBIBYTE"
definition MAX_BOOT_PAYLOAD_BYTES :: nat where "MAX_BOOT_PAYLOAD_BYTES = 256 * MEBIBYTE"

lemmas boot_names = BOOT_DISK_LABEL_def BOOT_DISK_EFI_DIRECTORY_def BOOT_DISK_BOOT_DIRECTORY_def
  BOOT_DISK_LOADER_NAME_def BOOT_DISK_INITRD_NAME_def

lemmas boot_sizes = MEBIBYTE_def MINIMUM_BOOT_DISK_BYTES_def BOOT_DISK_SLACK_BYTES_def
  MAX_BOOT_PAYLOAD_BYTES_def

definition bootDiskSizeBytes :: "nat \<Rightarrow> disk_error + nat" where
  "bootDiskSizeBytes payloadBytes =
     (if payloadBytes > MAX_SAFE_INTEGER \<or> payloadBytes = 0 then
        Inl (Workspace_path_error ''The executor guest boot payload has no readable size.'')
      else if payloadBytes > MAX_BOOT_PAYLOAD_BYTES then
        Inl (Workspace_path_error ''The executor guest kernel and initrd exceed the boot disk limit.'')
      else
        let wanted = max (payloadBytes + BOOT_DISK_SLACK_BYTES) MINIMUM_BOOT_DISK_BYTES
        in Inr (ceil_div wanted MEBIBYTE * MEBIBYTE))"

definition bootDiskTree :: "bytes \<Rightarrow> bytes \<Rightarrow> fat32_node list" where
  "bootDiskTree initrd vmlinuz =
     [Directory_node
        [Directory_node
           [File_node vmlinuz BOOT_DISK_LOADER_NAME, File_node initrd BOOT_DISK_INITRD_NAME]
           BOOT_DISK_BOOT_DIRECTORY]
        BOOT_DISK_EFI_DIRECTORY]"

datatype boot_error = File_missing | File_exists | Disk_refused disk_error

type_synonym file_system = "jsstring \<rightharpoonup> bytes"

definition boot_image :: "bytes \<Rightarrow> bytes \<Rightarrow> disk_error + bytes \<times> nat" where
  "boot_image vmlinuz initrd =
     bindE (bootDiskSizeBytes (length vmlinuz + length initrd)) (\<lambda>sizeBytes.
     bindE (buildFat32Image BOOT_DISK_LABEL (bootDiskTree initrd vmlinuz) (int sizeBytes)) (\<lambda>disk.
     Inr (disk, sizeBytes)))"

definition buildGuestBootImage ::
  "jsstring \<Rightarrow> jsstring \<Rightarrow> jsstring \<Rightarrow> file_system \<Rightarrow> (boot_error + jsstring \<times> nat) \<times> file_system" where
  "buildGuestBootImage imagePath initrdPath kernelPath files =
     (case (files kernelPath, files initrdPath) of
        (Some vmlinuz, Some initrd) \<Rightarrow>
          (case boot_image vmlinuz initrd of
             Inl e \<Rightarrow> (Inl (Disk_refused e), files)
           | Inr (disk, sizeBytes) \<Rightarrow>
               if files imagePath \<noteq> None then (Inl File_exists, files)
               else (Inr (imagePath, sizeBytes), files(imagePath \<mapsto> disk)))
      | _ \<Rightarrow> (Inl File_missing, files))"

section \<open>Finding a file\<close>

fun find_file :: "jsstring list \<Rightarrow> fat32_node list \<Rightarrow> bytes option" where
  "find_file [] nodes = None"
| "find_file (name # path) nodes =
     (case find (\<lambda>n. node_name n = name) nodes of
        Some (Directory_node children _) \<Rightarrow> find_file path children
      | Some (File_node content _) \<Rightarrow> if path = [] then Some content else None
      | None \<Rightarrow> None)"

definition SLASH :: code_unit where "SLASH = 47"

definition file_at :: "jsstring \<Rightarrow> bytes \<Rightarrow> bytes option" where
  "file_at path disk = find_file (split_on SLASH path) (read_volume 2 disk)"

section \<open>The disk always fits its payload\<close>

lemma boot_name_slots:
  "name_slots (Directory_node c BOOT_DISK_EFI_DIRECTORY) = 1"
  "name_slots (Directory_node c BOOT_DISK_BOOT_DIRECTORY) = 1"
  "name_slots (File_node b BOOT_DISK_LOADER_NAME) = 1"
  "name_slots (File_node b BOOT_DISK_INITRD_NAME) = 2"
proof -
  have "fat32ShortName (js ''EFI'') = Inr \<lparr>name_bytes = shortNameField (js ''EFI'') [], exact = True\<rparr>"
    "fat32ShortName (js ''BOOT'') = Inr \<lparr>name_bytes = shortNameField (js ''BOOT'') [], exact = True\<rparr>"
    "fat32ShortName (js ''BOOTX64.EFI'') =
      Inr \<lparr>name_bytes = shortNameField (js ''BOOTX64'') (js ''EFI''), exact = True\<rparr>"
    "fat32ShortName (js ''initrd.img'') =
      Inr \<lparr>name_bytes = shortNameField (js ''INITRD~1'') (js ''IMG''), exact = False\<rparr>"
    by code_simp+
  moreover have "length (code_points (js ''initrd.img'')) = 10" by code_simp
  ultimately show
    "name_slots (Directory_node c BOOT_DISK_EFI_DIRECTORY) = 1"
    "name_slots (Directory_node c BOOT_DISK_BOOT_DIRECTORY) = 1"
    "name_slots (File_node b BOOT_DISK_LOADER_NAME) = 1"
    "name_slots (File_node b BOOT_DISK_INITRD_NAME) = 2"
    by (simp_all add: name_slots_def boot_names LONG_NAME_CHARS_PER_ENTRY_def ceil_div_def)
qed

lemma boot_tree_ok:
  "tree_ok (bootDiskTree initrd vmlinuz) \<longleftrightarrow> length vmlinuz < 2 ^ 32 \<and> length initrd < 2 ^ 32"
  "label_ok BOOT_DISK_LABEL"
proof -
  have "ENCODABLE_NAME (js ''EFI'')" "ENCODABLE_NAME (js ''BOOT'')" "ENCODABLE_NAME (js ''BOOTX64.EFI'')"
    "ENCODABLE_NAME (js ''initrd.img'')" "label_ok (js ''NESSIEBOOT'')"
    by code_simp+
  then show "tree_ok (bootDiskTree initrd vmlinuz) \<longleftrightarrow> length vmlinuz < 2 ^ 32 \<and> length initrd < 2 ^ 32"
    "label_ok BOOT_DISK_LABEL"
    by (simp_all add: bootDiskTree_def boot_names)
qed

definition payload_fits :: "nat \<Rightarrow> bool" where
  "payload_fits n \<longleftrightarrow> 1 \<le> n \<and> n \<le> 256 * 1024 * 1024"

definition disk_size :: "nat \<Rightarrow> nat" where
  "disk_size n = ceil_div (max (n + 8 * 1048576) (64 * 1048576)) 1048576 * 1048576"

lemma bootDiskSizeBytes_returns:
  "bootDiskSizeBytes n = Inr held \<longleftrightarrow> payload_fits n \<and> held = disk_size n"
  by (auto simp: bootDiskSizeBytes_def payload_fits_def disk_size_def boot_sizes MAX_SAFE_INTEGER_def
      Let_def)

lemma disk_size_bounds:
  assumes "payload_fits n"
  shows "64 * 1048576 \<le> disk_size n" "disk_size n \<le> 264 * 1048576" "n + 8 * 1048576 \<le> disk_size n"
    "disk_size n mod 1048576 = 0"
proof -
  have "max (n + 8 * 1048576) (64 * 1048576) \<le> disk_size n"
    unfolding disk_size_def by (rule ceil_div_covers) simp
  then show "64 * 1048576 \<le> disk_size n" "n + 8 * 1048576 \<le> disk_size n" by simp_all
  have "ceil_div (max (n + 8 * 1048576) (64 * 1048576)) 1048576 \<le> 264"
    using assms by (auto simp: ceil_div_def payload_fits_def max_def)
  then show "disk_size n \<le> 264 * 1048576" unfolding disk_size_def by (rule mult_le_mono1)
  show "disk_size n mod 1048576 = 0" by (simp add: disk_size_def)
qed

lemma boot_tree_need:
  assumes "512 \<le> clusterBytes g"
  shows "tree_need g (bootDiskTree initrd vmlinuz) =
    3 + ceil_div (length vmlinuz) (clusterBytes g) + ceil_div (length initrd) (clusterBytes g)"
proof -
  have "ceil_div n (clusterBytes g) = 1" if "1 \<le> n" "n \<le> 512" for n
    unfolding ceil_div_def using that assms by (intro div_nat_eqI) simp_all
  then show ?thesis
    by (simp add: tree_need_def level_need_def bootDiskTree_def boot_name_slots)
qed

text \<open>The arithmetic: 8 MiB of slack pay for both tables, the directories and the rounding.\<close>

lemma slack_is_enough:
  assumes "s = 1 \<or> s = (8 :: nat)" "k + i + 8 * 1048576 \<le> 512 * t" "t \<le> 540672"
    and "f = ceil_div (t - 32) (128 * s + 1)"
  shows "3 + ceil_div k (s * 512) + ceil_div i (s * 512) \<le> (t - (32 + 2 * f)) div s"
proof -
  have f: "f * (128 * s + 1) \<le> t - 32 + (128 * s + 1) - 1"
    unfolding assms(4) by (rule ceil_div_upper) simp
  have "ceil_div n (s * 512) * (s * 512) \<le> n + s * 512 - 1" for n
    using assms(1) by (intro ceil_div_upper) auto
  from this[of k] this[of i] show ?thesis
    using assms(1-3) f by (elim disjE) (auto simp: less_eq_div_iff_mult_less_eq)
qed

lemma boot_buildable:
  assumes "payload_fits (length vmlinuz + length initrd)"
  shows "buildable BOOT_DISK_LABEL (bootDiskTree initrd vmlinuz)
    (int (disk_size (length vmlinuz + length initrd)))"
proof -
  let ?n = "length vmlinuz + length initrd" and ?size = "disk_size (length vmlinuz + length initrd)"
  note bounds = disk_size_bounds[OF assms]
  have "?size mod 512 = 0" using bounds(4) mod_mod_cancel[of 512 1048576 ?size] by simp
  then have "int ?size mod 512 = 0" using zmod_int[of ?size 512] by simp
  then have "size_ok (int ?size)"
    using bounds(1,2) by (simp add: size_ok_def MAX_SAFE_INTEGER_def)
  then obtain g where g: "fat32Geometry (int ?size) = Inr g"
    using geometry_returns by (auto simp: returns_def)
  note sound = fat32Geometry_sound[OF g]
  have t: "512 * totalSectors g = ?size" using sound(2) by (simp add: fat_constants mult.commute)
  have s: "sectorsPerCluster g = 1 \<or> sectorsPerCluster g = 8"
    using sound(3) t bounds(1,2) by (auto simp: sectors_per_cluster_def SECTORS_PER_CLUSTER_TABLE_def)
  have "3 + ceil_div (length vmlinuz) (sectorsPerCluster g * 512) + ceil_div (length initrd) (sectorsPerCluster g * 512)
      \<le> (totalSectors g - (32 + 2 * fatSectors g)) div sectorsPerCluster g"
    using bounds(2,3) t by (intro slack_is_enough[OF s _ _ sound(5)]) simp_all
  also have "\<dots> = clusterCount g"
    using sound(1,4) by (simp add: geometry_ok_def data_area_used_def fat_constants)
  finally have "tree_need g (bootDiskTree initrd vmlinuz) \<le> clusterCount g"
    using s by (subst boot_tree_need) (auto simp: clusterBytes_def fat_constants)
  then show ?thesis
    using assms bounds(2) by (simp add: buildable_def g boot_tree_ok payload_fits_def)
qed

lemma boot_image_result:
  "case boot_image vmlinuz initrd of
     Inl e \<Rightarrow> \<not> payload_fits (length vmlinuz + length initrd)
   | Inr (disk, sizeBytes) \<Rightarrow>
       payload_fits (length vmlinuz + length initrd) \<and> length disk = sizeBytes \<and>
       sizeBytes = disk_size (length vmlinuz + length initrd) \<and>
       read_volume 2 disk = bootDiskTree initrd vmlinuz"
proof (cases "payload_fits (length vmlinuz + length initrd)")
  case True
  then obtain disk where disk: "buildFat32Image BOOT_DISK_LABEL (bootDiskTree initrd vmlinuz)
      (int (disk_size (length vmlinuz + length initrd))) = Inr disk"
    using boot_buildable images_returned by (fastforce simp: returns_def)
  have "tree_depth (bootDiskTree initrd vmlinuz) = 2" by (simp add: bootDiskTree_def)
  then show ?thesis
    using True image_read[OF disk] iffD2[OF bootDiskSizeBytes_returns, OF conjI[OF True refl]] disk
    by (simp add: boot_image_def)
next
  case False
  then have "\<exists>e. bootDiskSizeBytes (length vmlinuz + length initrd) = Inl e"
    using bootDiskSizeBytes_returns by (metis old.sum.exhaust)
  then show ?thesis using False by (auto simp: boot_image_def)
qed

lemma boot_paths:
  "split_on SLASH BOOT_DISK_LOADER_PATH = [js ''EFI'', js ''BOOT'', js ''BOOTX64.EFI'']"
  "split_on SLASH BOOT_DISK_INITRD_PATH = [js ''EFI'', js ''BOOT'', js ''initrd.img'']"
  unfolding SLASH_def BOOT_DISK_LOADER_PATH_def BOOT_DISK_INITRD_PATH_def boot_names
  by code_simp+

lemma boot_files:
  "find_file [js ''EFI'', js ''BOOT'', js ''BOOTX64.EFI''] (bootDiskTree initrd vmlinuz) = Some vmlinuz"
  "find_file [js ''EFI'', js ''BOOT'', js ''initrd.img''] (bootDiskTree initrd vmlinuz) = Some initrd"
  by (simp_all add: bootDiskTree_def boot_names js_simps)

definition boot_payload :: "file_system \<Rightarrow> jsstring \<Rightarrow> jsstring \<Rightarrow> nat" where
  "boot_payload files kernelPath initrdPath =
     (case (files kernelPath, files initrdPath) of
        (Some vmlinuz, Some initrd) \<Rightarrow> length vmlinuz + length initrd | _ \<Rightarrow> 0)"

text \<open>C7: The boot disk of a guest: when both files exist, hold between 1 byte and 256 MiB together
  and no image is in the way, \<open>buildGuestBootImage\<close> succeeds - the disk is always large enough
  for its payload - writes one new file of the size it reports, between 64 and 264 MiB, and a
  FAT32 driver finds the kernel under \<open>EFI/BOOT/BOOTX64.EFI\<close> and the initrd under
  \<open>EFI/BOOT/initrd.img\<close> in it.  In every other case it throws and no file has changed.\<close>

theorem guest_boot_disk_boots:
  "case buildGuestBootImage imagePath initrdPath kernelPath files of
     (Inl e, files') \<Rightarrow>
       files' = files \<and>
       \<not> (files imagePath = None \<and> 1 \<le> boot_payload files kernelPath initrdPath \<and>
          boot_payload files kernelPath initrdPath \<le> 256 * 1024 * 1024)
   | (Inr (path, sizeBytes), files') \<Rightarrow>
       path = imagePath \<and> files imagePath = None \<and>
       (\<exists>disk. files' = files(imagePath \<mapsto> disk) \<and> length disk = sizeBytes \<and>
          64 * 1024 * 1024 \<le> sizeBytes \<and> sizeBytes \<le> 264 * 1024 * 1024 \<and>
          file_at BOOT_DISK_LOADER_PATH disk = files kernelPath \<and>
          file_at BOOT_DISK_INITRD_PATH disk = files initrdPath)"
proof (cases "\<exists>vmlinuz initrd. files kernelPath = Some vmlinuz \<and> files initrdPath = Some initrd")
  case True
  then obtain vmlinuz initrd where files: "files kernelPath = Some vmlinuz" "files initrdPath = Some initrd"
    by auto
  then have n: "boot_payload files kernelPath initrdPath = length vmlinuz + length initrd"
    by (simp add: boot_payload_def)
  show ?thesis
  proof (cases "boot_image vmlinuz initrd")
    case (Inl e)
    then show ?thesis using boot_image_result[of vmlinuz initrd]
      by (simp add: buildGuestBootImage_def files n payload_fits_def)
  next
    case (Inr r)
    then obtain disk where disk: "boot_image vmlinuz initrd = Inr (disk, length disk)"
      "payload_fits (length vmlinuz + length initrd)" "length disk = disk_size (length vmlinuz + length initrd)"
      "read_volume 2 disk = bootDiskTree initrd vmlinuz"
      using boot_image_result[of vmlinuz initrd] by (cases r) auto
    have "file_at BOOT_DISK_LOADER_PATH disk = Some vmlinuz" "file_at BOOT_DISK_INITRD_PATH disk = Some initrd"
      by (simp_all only: file_at_def boot_paths disk(4) boot_files)
    then show ?thesis using disk(1-3) disk_size_bounds(1,2)[OF disk(2)]
      by (auto simp: buildGuestBootImage_def files intro!: exI[of _ disk])
  qed
next
  case False
  then show ?thesis
    by (auto simp: buildGuestBootImage_def boot_payload_def split: option.split)
qed

end
