(* ===== verification/Vhd.thy ===== *)
theory Vhd
  imports BootDisk
begin

text \<open>
  Fixed VHD disks (\<open>src/executor/src/hyperv/vhd.ts\<close>): the disk geometry, the checksum, the
  512-byte footer and the wrapping of an image by renaming it and appending the footer.

  The footer is read back big-endian: what it says of the disk is the disk, its checksum is
  the one's complement of its other bytes, and no field is ever out of range for a disk below
  \<open>2 ^ 53\<close> bytes.  Wrapping a boot disk leaves the FAT32 volume of \<open>BootDisk\<close> in place.
\<close>

definition FOOTER_BYTES :: nat where "FOOTER_BYTES = 512"
definition SECTOR_BYTES :: nat where "SECTOR_BYTES = 512"
definition COOKIE :: jsstring where "COOKIE = js ''conectix''"
definition FEATURES :: nat where "FEATURES = 0x00000002"
definition FILE_FORMAT_VERSION :: nat where "FILE_FORMAT_VERSION = 0x00010000"
definition DATA_OFFSET :: nat where "DATA_OFFSET = 0xffffffffffffffff"
definition CREATOR_APPLICATION :: jsstring where "CREATOR_APPLICATION = js ''nsse''"
definition CREATOR_VERSION :: nat where "CREATOR_VERSION = 0x00010000"
definition CREATOR_HOST_OS :: nat where "CREATOR_HOST_OS = 0x5769326b"
definition DISK_TYPE_FIXED :: nat where "DISK_TYPE_FIXED = 2"
definition VHD_EPOCH_MS :: int where "VHD_EPOCH_MS = 946684800000"

lemmas vhd_constants = FOOTER_BYTES_def SECTOR_BYTES_def FEATURES_def
  FILE_FORMAT_VERSION_def DATA_OFFSET_def CREATOR_VERSION_def
  CREATOR_HOST_OS_def DISK_TYPE_FIXED_def

record vhd_geometry =
  cylinders :: nat
  heads :: nat
  sectorsPerTrack :: nat

definition vhdGeometry :: "nat \<Rightarrow> vhd_geometry" where
  "vhdGeometry totalSectorsInput =
     (let sectors = min totalSectorsInput (65535 * 16 * 255);
          (spt, hd, product) =
            (if sectors \<ge> 65535 * 16 * 63 then (255, 16, sectors div 255)
             else
               let product0 = sectors div 17;
                   heads0 = (product0 + 1023) div 1024;
                   heads1 = (if heads0 < 4 then 4 else heads0);
                   (spt1, heads2, product1) =
                     (if product0 \<ge> heads1 * 1024 \<or> heads1 > 16 then (31, 16, sectors div 31)
                      else (17, heads1, product0))
               in if product1 \<ge> heads2 * 1024 then (63, 16, sectors div 63)
                  else (spt1, heads2, product1))
      in \<lparr>cylinders = product div hd, heads = hd, sectorsPerTrack = spt\<rparr>)"

definition byte_sum :: "bytes \<Rightarrow> nat" where
  "byte_sum footer =
     sum_list (map (\<lambda>i. unat (footer ! i)) (filter (\<lambda>i. \<not> (64 \<le> i \<and> i < 68)) [0..<length footer]))"

text \<open>\<open>~sum >>> 0\<close>\<close>

definition vhdFooterChecksum :: "bytes \<Rightarrow> nat" where
  "vhdFooterChecksum footer = 2 ^ 32 - 1 - byte_sum footer mod 2 ^ 32"

text \<open>\<open>Buffer.from(text, 'hex')\<close>: pairs of hexadecimal digits up to the first that is none.\<close>

definition hex_value_of :: "code_unit \<Rightarrow> nat option" where
  "hex_value_of c =
     (if 48 \<le> c \<and> c \<le> 57 then Some (unat c - 48)
      else if 65 \<le> c \<and> c \<le> 70 then Some (unat c - 55)
      else if 97 \<le> c \<and> c \<le> 102 then Some (unat c - 87) else None)"

fun hex_bytes :: "jsstring \<Rightarrow> bytes" where
  "hex_bytes (c # d # s) =
     (case (hex_value_of c, hex_value_of d) of
        (Some h, Some l) \<Rightarrow> word_of_nat (16 * h + l) # hex_bytes s
      | _ \<Rightarrow> [])"
| "hex_bytes s = []"

definition write_be_field :: "nat \<times> nat \<times> nat \<Rightarrow> bytes \<Rightarrow> disk_error + bytes" where
  "write_be_field = (\<lambda>(width, v, offset). write_be width v offset)"

text \<open>
  \<open>timestampMs\<close> and \<open>uniqueId\<close> are given or come from the clock and the random generator.
\<close>

definition buildFixedVhdFooter :: "int \<Rightarrow> int \<Rightarrow> jsstring \<Rightarrow> disk_error + bytes" where
  "buildFixedVhdFooter sizeBytes timestampMs uniqueId =
     (if sizeBytes > int MAX_SAFE_INTEGER \<or> sizeBytes \<le> 0 then
        Inl (Workspace_path_error ''A guest disk image has no readable size.'')
      else if sizeBytes mod int SECTOR_BYTES \<noteq> 0 then
        Inl (Workspace_path_error ''A guest disk image must be a whole number of 512-byte sectors.'')
      else
        let seconds = (timestampMs - VHD_EPOCH_MS) div 1000;
            geometry = vhdGeometry (nat sizeBytes div SECTOR_BYTES);
            ident = hex_bytes (filter (\<lambda>c. c \<noteq> 45) uniqueId)
        in
        bindE (foldE write_be_field
          [(4, FEATURES, 8), (4, FILE_FORMAT_VERSION, 12), (8, DATA_OFFSET, 16),
           (4, nat (max 0 seconds) mod 2 ^ 32, 24)]
          (write_ascii COOKIE 0 (length COOKIE) (replicate FOOTER_BYTES 0))) (\<lambda>footer.
        bindE (foldE write_be_field
          [(4, CREATOR_VERSION, 32), (4, CREATOR_HOST_OS, 36), (8, nat sizeBytes, 40),
           (8, nat sizeBytes, 48), (2, cylinders geometry, 56), (1, heads geometry, 58),
           (1, sectorsPerTrack geometry, 59), (4, DISK_TYPE_FIXED, 60)]
          (write_ascii CREATOR_APPLICATION 28 (length CREATOR_APPLICATION) footer)) (\<lambda>footer.
        if length ident \<noteq> 16 then
          Inl (Workspace_path_error ''A guest disk image identifier is malformed.'')
        else
          let footer = copy_into footer 68 ident
          in write_be 4 (vhdFooterChecksum footer) 64 footer)))"

datatype vhd_error = Image_missing | Footer_refused disk_error

text \<open>The file is renamed first and the footer built after it, so a refused footer leaves the
  image under its new name.\<close>

definition wrapImageAsFixedVhd ::
  "jsstring \<Rightarrow> jsstring \<Rightarrow> int \<Rightarrow> jsstring \<Rightarrow> file_system \<Rightarrow> (vhd_error + jsstring) \<times> file_system" where
  "wrapImageAsFixedVhd rawPath vhdPath timestampMs uniqueId files =
     (case files rawPath of
        None \<Rightarrow> (Inl Image_missing, files)
      | Some raw \<Rightarrow>
          let renamed = (files(rawPath := None))(vhdPath \<mapsto> raw) in
          case buildFixedVhdFooter (int (length raw)) timestampMs uniqueId of
            Inl e \<Rightarrow> (Inl (Footer_refused e), renamed)
          | Inr footer \<Rightarrow> (Inr vhdPath, renamed(vhdPath \<mapsto> raw @ footer)))"

section \<open>Geometry\<close>

lemma vhdGeometry_cases:
  obtains s h where "s \<in> {17, 31, 63, 255}" "4 \<le> h" "h \<le> 16"
    "vhdGeometry n = \<lparr>cylinders = min n 267382800 div s div h, heads = h, sectorsPerTrack = s\<rparr>"
    "min n 267382800 div s div h \<le> 65535"
proof (cases "min n 267382800 \<ge> 66059280")
  case True
  then show thesis using that[of 255 16] by (simp add: vhdGeometry_def Let_def)
next
  case False
  define m where "m = min n (65535 * 16 * 255)"
  define h where "h = (if (m div 17 + 1023) div 1024 < 4 then 4 else (m div 17 + 1023) div 1024)"
  have m: "m < 66059280" "min n 267382800 = m" using False by (simp_all add: m_def)
  have h: "4 \<le> h" by (simp add: h_def)
  have geometry: "vhdGeometry n =
      (if h * 1024 \<le> m div 17 \<or> 16 < h then
         if 16 * 1024 \<le> m div 31 then \<lparr>cylinders = m div 63 div 16, heads = 16, sectorsPerTrack = 63\<rparr>
         else \<lparr>cylinders = m div 31 div 16, heads = 16, sectorsPerTrack = 31\<rparr>
       else \<lparr>cylinders = m div 17 div h, heads = h, sectorsPerTrack = 17\<rparr>)"
    unfolding vhdGeometry_def Let_def m_def[symmetric] h_def[symmetric] using m(1)
    by (simp split del: if_split) simp
  consider "h * 1024 \<le> m div 17 \<or> 16 < h" "16 * 1024 \<le> m div 31"
    | "h * 1024 \<le> m div 17 \<or> 16 < h" "m div 31 < 16 * 1024"
    | "m div 17 < h * 1024" "h \<le> 16"
    by linarith
  then show thesis
  proof cases
    case 1
    then show thesis using that[of 63 16] m by (simp add: geometry)
  next
    case 2
    then show thesis using that[of 31 16] m by (simp add: geometry)
  next
    case 3
    have "m div 17 div h \<le> 65535" using div_le_dividend[of "m div 17" h] 3 by linarith
    then show thesis using that[of 17 h] h 3 m by (simp add: geometry)
  qed
qed

lemma vhdGeometry_bounds:
  "cylinders (vhdGeometry n) \<le> 65535" "heads (vhdGeometry n) < 256" "sectorsPerTrack (vhdGeometry n) < 256"
  "cylinders (vhdGeometry n) * heads (vhdGeometry n) * sectorsPerTrack (vhdGeometry n) \<le> n"
proof -
  obtain s h where *: "s \<in> {17, 31, 63, 255}" "4 \<le> h" "h \<le> 16"
    "vhdGeometry n = \<lparr>cylinders = min n 267382800 div s div h, heads = h, sectorsPerTrack = s\<rparr>"
    "min n 267382800 div s div h \<le> 65535"
    by (rule vhdGeometry_cases)
  then show "cylinders (vhdGeometry n) \<le> 65535" "heads (vhdGeometry n) < 256"
    "sectorsPerTrack (vhdGeometry n) < 256"
    by auto
  have "min n 267382800 div s div h * h * s \<le> min n 267382800 div s * s"
    by (intro mult_le_mono1 div_times_less_eq_dividend)
  also have "\<dots> \<le> n" by (meson div_times_less_eq_dividend le_trans min.cobounded1)
  finally show "cylinders (vhdGeometry n) * heads (vhdGeometry n) * sectorsPerTrack (vhdGeometry n) \<le> n"
    by (simp add: *(4))
qed

section \<open>The footer\<close>

definition be_field_of :: "nat \<times> nat \<times> nat \<Rightarrow> nat \<times> bytes" where
  "be_field_of = (\<lambda>(width, v, offset). (offset, be_bytes width v))"

lemma write_be_fields:
  "list_all (\<lambda>(width, v, offset). v < 256 ^ width \<and> offset + width \<le> length buf) fs \<Longrightarrow>
     foldE write_be_field fs buf = Inr (overlays (map be_field_of fs) buf)"
proof (induction fs arbitrary: buf)
  case (Cons f fs)
  obtain width v offset where f: "f = (width, v, offset)" by (cases f)
  show ?case using Cons.prems Cons.IH[of "overlay buf offset (be_bytes width v)"] f
    by (simp add: write_be_field_def write_be_def set_bytes_def be_field_of_def length_overlay)
qed simp

lemma checksum_ignores_itself:
  assumes "length footer = 512" "length four = 4"
  shows "byte_sum (overlay footer 64 four) = byte_sum footer"
proof -
  have "overlay footer 64 four ! i = footer ! i" if "i < 512" "\<not> (64 \<le> i \<and> i < 68)" for i
    using that assms by (auto simp: overlay_def nth_append)
  then have "map (\<lambda>i. unat (overlay footer 64 four ! i)) (filter (\<lambda>i. \<not> (64 \<le> i \<and> i < 68)) [0..<512]) =
      map (\<lambda>i. unat (footer ! i)) (filter (\<lambda>i. \<not> (64 \<le> i \<and> i < 68)) [0..<512])"
    by (intro map_cong refl) auto
  moreover have "length (overlay footer 64 four) = 512" using assms by (simp add: length_overlay)
  ultimately show ?thesis unfolding byte_sum_def assms(1) by (simp only:)
qed

lemma byte_sum_small: "length footer = 512 \<Longrightarrow> byte_sum footer < 2 ^ 32"
proof -
  assume len: "length footer = 512"
  let ?is = "filter (\<lambda>i. \<not> (64 \<le> i \<and> i < 68)) [0..<512]"
  have "unat b \<le> 255" for b :: byte using unsigned_less[of b, where 'a = nat] by simp
  then have "sum_list (map (\<lambda>i. unat (footer ! i)) ?is) \<le> sum_list (map (\<lambda>i. 255) ?is)"
    by (intro sum_list_mono) simp
  also have "\<dots> \<le> 255 * 512"
    using length_filter_le[of _ "[0..<512]"] by (simp add: sum_list_triv)
  finally show ?thesis using len by (simp add: byte_sum_def)
qed

definition plain_writes :: "nat \<Rightarrow> int \<Rightarrow> bytes \<Rightarrow> (nat \<times> bytes) list" where
  "plain_writes n seconds ident =
     [(0, ascii COOKIE)] @
     map be_field_of [(4, FEATURES, 8), (4, FILE_FORMAT_VERSION, 12), (8, DATA_OFFSET, 16),
       (4, nat (max 0 seconds) mod 2 ^ 32, 24)] @
     [(28, ascii CREATOR_APPLICATION)] @
     map be_field_of [(4, CREATOR_VERSION, 32), (4, CREATOR_HOST_OS, 36), (8, n, 40), (8, n, 48),
       (2, cylinders (vhdGeometry (n div 512)), 56), (1, heads (vhdGeometry (n div 512)), 58),
       (1, sectorsPerTrack (vhdGeometry (n div 512)), 59), (4, DISK_TYPE_FIXED, 60)] @
     [(68, ident)]"

lemma plain_writes_ok:
  assumes "length ident = 16" "length four = 4"
  shows "list_all (fits 512) (plain_writes n seconds ident @ [(64, four)])"
    "sorted_wrt apart (plain_writes n seconds ident @ [(64, four)])"
  using assms by (simp_all add: plain_writes_def be_field_of_def COOKIE_def CREATOR_APPLICATION_def)

lemma footer_built:
  fixes n ts uid
  defines "ident \<equiv> hex_bytes (filter (\<lambda>c. c \<noteq> 45) uid)"
    and "plain \<equiv> overlays (plain_writes n ((ts - VHD_EPOCH_MS) div 1000)
      (hex_bytes (filter (\<lambda>c. c \<noteq> 45) uid))) (replicate 512 0)"
  assumes "0 < n" "n \<le> MAX_SAFE_INTEGER" "n mod 512 = 0"
  shows "buildFixedVhdFooter (int n) ts uid =
    (if length ident \<noteq> 16 then
       Inl (Workspace_path_error ''A guest disk image identifier is malformed.'')
     else Inr (overlay plain 64 (be_bytes 4 (vhdFooterChecksum plain))))"
proof -
  let ?sec = "(ts - VHD_EPOCH_MS) div 1000" and ?g = "vhdGeometry (n div 512)"
  let ?fs = "[(4, FEATURES, 8), (4, FILE_FORMAT_VERSION, 12), (8, DATA_OFFSET, 16),
    (4, nat (max 0 ?sec) mod 2 ^ 32, 24)]"
  let ?hs = "[(4, CREATOR_VERSION, 32), (4, CREATOR_HOST_OS, 36), (8, n, 40), (8, n, 48),
    (2, cylinders ?g, 56), (1, heads ?g, 58), (1, sectorsPerTrack ?g, 59), (4, DISK_TYPE_FIXED, 60)]"
  define a where "a = overlay (replicate 512 0) 0 (ascii COOKIE)"
  define b where "b = overlay (overlays (map be_field_of ?fs) a) 28 (ascii CREATOR_APPLICATION)"
  have a: "write_ascii COOKIE 0 (length COOKIE) (replicate FOOTER_BYTES 0) = a" "length a = 512"
    by (simp_all add: a_def write_ascii_def copy_into_fits length_overlay COOKIE_def FOOTER_BYTES_def)
  have fs: "foldE write_be_field ?fs a = Inr (overlays (map be_field_of ?fs) a)"
    by (rule write_be_fields) (simp add: a(2) vhd_constants)
  have lf: "length (overlays (map be_field_of ?fs) a) = 512"
    by (simp add: be_field_of_def length_overlay a(2))
  have b: "write_ascii CREATOR_APPLICATION 28 (length CREATOR_APPLICATION) (overlays (map be_field_of ?fs) a) = b"
    "length b = 512"
    using lf by (simp_all add: b_def write_ascii_def copy_into_fits length_overlay CREATOR_APPLICATION_def
        del: overlays_simps)
  have "n < 256 ^ 8" using assms(4) by (simp add: MAX_SAFE_INTEGER_def)
  then have hs: "foldE write_be_field ?hs b = Inr (overlays (map be_field_of ?hs) b)"
    using vhdGeometry_bounds(1-3)[of "n div 512"]
    by (intro write_be_fields) (simp add: b(2) vhd_constants)
  have lh: "length (overlays (map be_field_of ?hs) b) = 512"
    by (simp add: be_field_of_def length_overlay b(2))
  have plain: "overlay (overlays (map be_field_of ?hs) b) 68 ident = plain"
    by (simp add: plain_def plain_writes_def a_def b_def ident_def)
  have "length plain = 512" if "length ident = 16"
    using that lh by (simp add: plain[symmetric] length_overlay)
  moreover have "vhdFooterChecksum plain < 256 ^ 4"
    by (simp add: vhdFooterChecksum_def)
  moreover have "int n mod 512 = 0" using assms(5) zmod_int[of n 512] by simp
  ultimately show ?thesis
    using assms(3,4) lh plain
    unfolding buildFixedVhdFooter_def Let_def a(1) SECTOR_BYTES_def nat_int ident_def[symmetric] fs
      bindE_simps b(1) hs
    by (auto simp: copy_into_fits write_be_def set_bytes_def)
qed

definition footer_fits :: "int \<Rightarrow> jsstring \<Rightarrow> bool" where
  "footer_fits sizeBytes uid \<longleftrightarrow>
     0 < sizeBytes \<and> sizeBytes \<le> int MAX_SAFE_INTEGER \<and> sizeBytes mod 512 = 0 \<and>
     length (hex_bytes (filter (\<lambda>c. c \<noteq> 45) uid)) = 16"

lemma footer_returns: "returns (buildFixedVhdFooter sizeBytes ts uid) \<longleftrightarrow> footer_fits sizeBytes uid"
proof (cases "0 < sizeBytes \<and> sizeBytes \<le> int MAX_SAFE_INTEGER \<and> sizeBytes mod 512 = 0")
  case True
  then obtain n where n: "sizeBytes = int n" "0 < n" "n \<le> MAX_SAFE_INTEGER" "n mod 512 = 0"
    using zmod_int[of "nat sizeBytes" 512] by (intro that[of "nat sizeBytes"]) auto
  show ?thesis unfolding n(1) footer_built[OF n(2-4)] using True n(1) by (simp add: footer_fits_def)
next
  case False
  then show ?thesis by (auto simp: buildFixedVhdFooter_def footer_fits_def SECTOR_BYTES_def)
qed

definition describes :: "bytes \<Rightarrow> nat \<Rightarrow> bool" where
  "describes footer n \<longleftrightarrow>
     length footer = 512 \<and> bytes_at 0 8 footer = ascii (js ''conectix'') \<and>
     be_at 8 40 footer = n \<and> be_at 8 48 footer = n \<and> be_at 4 60 footer = 2 \<and>
     be_at 2 56 footer * be_at 1 58 footer * be_at 1 59 footer \<le> n div 512 \<and>
     be_at 4 64 footer + byte_sum footer = 2 ^ 32 - 1"

lemma footer_describes:
  assumes "buildFixedVhdFooter sizeBytes ts uid = Inr footer"
  shows "describes footer (nat sizeBytes)" "bytes_at 68 16 footer = hex_bytes (filter (\<lambda>c. c \<noteq> 45) uid)"
proof -
  have fits: "footer_fits sizeBytes uid" using footer_returns[of sizeBytes ts uid] assms by simp
  define ident where "ident = hex_bytes (filter (\<lambda>c. c \<noteq> 45) uid)"
  define n where "n = nat sizeBytes"
  have n: "0 < n" "n \<le> MAX_SAFE_INTEGER" "n mod 512 = 0" "sizeBytes = int n" "length ident = 16"
    using fits zmod_int[of n 512] by (auto simp: footer_fits_def n_def ident_def)
  define ws where "ws = plain_writes n ((ts - VHD_EPOCH_MS) div 1000) ident"
  define plain where "plain = overlays ws (replicate 512 0)"
  define four where "four = be_bytes 4 (vhdFooterChecksum plain)"
  have footer: "footer = overlay plain 64 four"
    using assms n(5) unfolding n(4) footer_built[OF n(1-3)]
    by (simp add: plain_def four_def ws_def ident_def)
  have all: "footer = overlays (ws @ [(64, four)]) (replicate 512 0)"
    by (simp add: footer plain_def)
  have ok: "list_all (fits (length (replicate 512 (0 :: byte)))) (ws @ [(64, four)])"
    "sorted_wrt apart (ws @ [(64, four)])"
    using plain_writes_ok[OF n(5), of four] by (simp_all add: ws_def four_def)
  note get = read_overlays[OF ok, folded all]
  have number: "be_at k off footer = v" if "(off, be_bytes k v) \<in> set (ws @ [(64, four)])" "v < 256 ^ k" for k v off
    using get[OF that(1)] that(2) by (simp add: be_at_def be_value_bytes)
  have in_ws: "be_at k off footer = v"
    if "(k, v, off) \<in> {(8, n, 40), (8, n, 48), (2, cylinders (vhdGeometry (n div 512)), 56),
      (1, heads (vhdGeometry (n div 512)), 58), (1, sectorsPerTrack (vhdGeometry (n div 512)), 59),
      (4, DISK_TYPE_FIXED, 60)}" "v < 256 ^ k" for k v off
    using that by (intro number) (auto simp: ws_def plain_writes_def be_field_of_def)
  have "n < 256 ^ 8" using n(2) by (simp add: MAX_SAFE_INTEGER_def)
  then have fields: "be_at 8 40 footer = n" "be_at 8 48 footer = n" "be_at 4 60 footer = 2"
    "be_at 2 56 footer = cylinders (vhdGeometry (n div 512))" "be_at 1 58 footer = heads (vhdGeometry (n div 512))"
    "be_at 1 59 footer = sectorsPerTrack (vhdGeometry (n div 512))"
    using vhdGeometry_bounds(1-3)[of "n div 512"]
    by (intro in_ws; simp add: DISK_TYPE_FIXED_def)+
  have len: "length plain = 512" "length footer = 512"
    using ok(1) by (simp_all add: plain_def all length_overlays length_overlay)
  have "be_at 4 64 footer = vhdFooterChecksum plain"
    by (rule number) (simp_all add: four_def vhdFooterChecksum_def)
  moreover have "byte_sum footer = byte_sum plain"
    unfolding footer by (rule checksum_ignores_itself[OF len(1)]) (simp add: four_def)
  ultimately have "be_at 4 64 footer + byte_sum footer = 2 ^ 32 - 1"
    using byte_sum_small[OF len(1)] by (simp add: vhdFooterChecksum_def)
  moreover have "bytes_at 0 8 footer = ascii (js ''conectix'')"
  proof -
    have "length (ascii COOKIE) = 8" unfolding COOKIE_def by code_simp
    then show ?thesis using get[of 0 "ascii COOKIE"] by (simp add: ws_def plain_writes_def) (simp add: COOKIE_def)
  qed
  ultimately show "describes footer (nat sizeBytes)"
    using fields len(2) vhdGeometry_bounds(4)[of "n div 512"] by (simp add: describes_def n(4))
  show "bytes_at 68 16 footer = hex_bytes (filter (\<lambda>c. c \<noteq> 45) uid)"
    using get[of 68 ident] n(5) by (simp add: ws_def plain_writes_def ident_def)
qed

text \<open>C12: A VHD footer is built for exactly the sizes of whole sectors and the identifiers of 16
  bytes, and describes its disk: the cookie, both sizes and the disk type are read back, the
  cylinders, heads and sectors it claims are no more than the disk has, and its checksum is the
  one's complement of the sum of all its other bytes.\<close>

theorem vhd_footer_describes_disk:
  "case buildFixedVhdFooter sizeBytes timestampMs uniqueId of
     Inl e \<Rightarrow>
       \<not> (0 < sizeBytes \<and> sizeBytes \<le> int MAX_SAFE_INTEGER \<and> sizeBytes mod 512 = 0 \<and>
          length (hex_bytes (filter (\<lambda>c. c \<noteq> 45) uniqueId)) = 16)
   | Inr footer \<Rightarrow>
       length footer = 512 \<and> bytes_at 0 8 footer = ascii (js ''conectix'') \<and>
       int (be_at 8 40 footer) = sizeBytes \<and> int (be_at 8 48 footer) = sizeBytes \<and>
       be_at 4 60 footer = 2 \<and> bytes_at 68 16 footer = hex_bytes (filter (\<lambda>c. c \<noteq> 45) uniqueId) \<and>
       int (be_at 2 56 footer * be_at 1 58 footer * be_at 1 59 footer) \<le> sizeBytes div 512 \<and>
       be_at 4 64 footer + byte_sum footer = 2 ^ 32 - 1"
proof (cases "buildFixedVhdFooter sizeBytes timestampMs uniqueId")
  case (Inl e)
  then show ?thesis using footer_returns[of sizeBytes timestampMs uniqueId] by (simp add: footer_fits_def)
next
  case (Inr footer)
  then have "0 < sizeBytes"
    using footer_returns[of sizeBytes timestampMs uniqueId] by (simp add: footer_fits_def)
  then have "int (nat sizeBytes) = sizeBytes" "int (nat sizeBytes div 512) = sizeBytes div 512"
    by (simp_all add: zdiv_int)
  then show ?thesis using footer_describes[OF Inr] unfolding describes_def
    by (simp add: Inr) (metis of_nat_le_iff of_nat_mult)
qed

section \<open>The wrapped boot disk\<close>

lemma boot_image_written:
  assumes "buildGuestBootImage imagePath initrdPath kernelPath files = (Inr (path, sizeBytes), files')"
  obtains disk where "path = imagePath" "files' = files(imagePath \<mapsto> disk)" "length disk = sizeBytes"
    "64 * 1048576 \<le> sizeBytes" "sizeBytes \<le> 264 * 1048576" "sizeBytes mod 512 = 0"
    "file_at BOOT_DISK_LOADER_PATH disk = files kernelPath"
    "file_at BOOT_DISK_INITRD_PATH disk = files initrdPath"
proof -
  from assms obtain vmlinuz initrd disk where files: "files kernelPath = Some vmlinuz"
    "files initrdPath = Some initrd" "boot_image vmlinuz initrd = Inr (disk, sizeBytes)"
    and path: "path = imagePath" "files' = files(imagePath \<mapsto> disk)"
    by (auto simp: buildGuestBootImage_def split: option.splits sum.splits if_splits)
  note result = boot_image_result[of vmlinuz initrd, unfolded files(3), simplified]
  have "sizeBytes mod 512 = 0"
    using result disk_size_bounds(4)[of "length vmlinuz + length initrd"]
      mod_mod_cancel[of 512 1048576 sizeBytes] by simp
  moreover have "file_at BOOT_DISK_LOADER_PATH disk = Some vmlinuz"
    "file_at BOOT_DISK_INITRD_PATH disk = Some initrd"
    using result by (simp_all only: file_at_def boot_paths boot_files)
  ultimately show thesis
    using that path files result disk_size_bounds(1,2)[of "length vmlinuz + length initrd"] by simp
qed

text \<open>C10: From the two files to an attachable disk: once \<open>buildGuestBootImage\<close> has written a boot
  image, wrapping it as a fixed VHD can fail only for a malformed identifier; otherwise the
  new file is the FAT32 volume, byte for byte, followed by one footer that describes it, the
  kernel and the initrd are still found in it under the paths of the firmware, and the raw
  image is gone.\<close>

theorem wrapped_boot_disk:
  "case buildGuestBootImage rawPath initrdPath kernelPath files of
     (Inl e, _) \<Rightarrow> True
   | (Inr (path, sizeBytes), files1) \<Rightarrow>
       (case wrapImageAsFixedVhd path vhdPath timestampMs uniqueId files1 of
          (Inl e, _) \<Rightarrow> length (hex_bytes (filter (\<lambda>c. c \<noteq> 45) uniqueId)) \<noteq> 16
        | (Inr result, files2) \<Rightarrow>
            \<exists>disk footer.
              result = vhdPath \<and> files2 = (files(rawPath := None))(vhdPath \<mapsto> disk @ footer) \<and>
              length disk = sizeBytes \<and> describes footer sizeBytes \<and>
              file_at BOOT_DISK_LOADER_PATH disk = files kernelPath \<and>
              file_at BOOT_DISK_INITRD_PATH disk = files initrdPath)"
proof (cases "buildGuestBootImage rawPath initrdPath kernelPath files")
  case (Pair r files1)
  show ?thesis
  proof (cases r)
    case (Inr pair)
    obtain path sizeBytes where pair: "pair = (path, sizeBytes)" by (cases pair)
    from Pair[unfolded Inr pair] obtain disk where disk: "path = rawPath" "files1 = files(rawPath \<mapsto> disk)"
      "length disk = sizeBytes" "64 * 1048576 \<le> sizeBytes" "sizeBytes \<le> 264 * 1048576" "sizeBytes mod 512 = 0"
      "file_at BOOT_DISK_LOADER_PATH disk = files kernelPath"
      "file_at BOOT_DISK_INITRD_PATH disk = files initrdPath"
      by (rule boot_image_written)
    have size: "footer_fits (int sizeBytes) uniqueId \<longleftrightarrow>
        length (hex_bytes (filter (\<lambda>c. c \<noteq> 45) uniqueId)) = 16"
      using disk(4-6) zmod_int[of sizeBytes 512] by (simp add: footer_fits_def MAX_SAFE_INTEGER_def)
    show ?thesis
    proof (cases "buildFixedVhdFooter (int sizeBytes) timestampMs uniqueId")
      case (Inl e)
      then show ?thesis
        using footer_returns[of "int sizeBytes" timestampMs uniqueId] size disk(1-3)
        by (simp add: Pair Inr pair wrapImageAsFixedVhd_def Let_def)
    next
      case footer: (Inr footer)
      have wrapped: "wrapImageAsFixedVhd path vhdPath timestampMs uniqueId files1 =
          (Inr vhdPath, (files(rawPath := None))(vhdPath \<mapsto> disk @ footer))"
        by (simp add: wrapImageAsFixedVhd_def disk(1-3) footer Let_def)
      have "describes footer sizeBytes" using footer_describes(1)[OF footer] by simp
      with disk show ?thesis
        unfolding Pair Inr pair prod.case sum.case wrapped
        by (intro exI[of _ disk] exI[of _ footer]) simp
    qed
  qed (simp add: Pair)
qed

end
