(* ===== verification/Spec2Isabelle.thy ===== *)
theory Spec2Isabelle
  imports Rebase SheetFilter SheetSort SheetCsv SheetFind SheetRead
    SecretPrecedence ToolLoop ToolPolicy RunBudget LineDiff PartialJson
    AgentContext RetryPolicy ToolBatch ToolOutput LoopCompletion AgentLoop Vhd
begin

text \<open>
  Verification library of the Nessie repository.

  Nessie is a workplace where people and agents share channels, boards, documents and
  spreadsheets.  Most of its code moves data between a database, HTTP routes, providers and
  user interfaces; this library models the parts that decide something by themselves.

  \<^bold>\<open>Spreadsheets\<close> (\<open>packages/spreadsheet/src\<close>, \<open>packages/schemas/src/spreadsheet.ts\<close>).  One
  calculation engine holds the workbook; every command is a function over its interface.
    \<^item> \<open>Addressing\<close>: column labels, A1 text, selections, limits, sheet lookup (\<open>a1.ts\<close>).
    \<^item> \<open>LineEdits\<close>, \<open>Structural\<close>, \<open>Grids\<close>: structural edits, the index maps \<open>shiftIndex\<close> and
      \<open>remapSheetIndex\<close>, and the splice of lines they stand for, which they refine.
    \<^item> \<open>Rebase\<close>: replay of intents and selections through other people's edits (\<open>rebase.ts\<close>).
    \<^item> \<open>Engine\<close>: the interface as a record of operations over an unknown state, with the laws a
      caller relies on as locales, interpreted on a sparse grid engine (\<open>engine.ts\<close>).
    \<^item> \<open>SheetWrite\<close>, \<open>SheetFilter\<close>, \<open>SheetSort\<close>, \<open>FormulaShift\<close>, \<open>SheetRead\<close>, \<open>SheetCsv\<close>,
      \<open>SheetFind\<close>: \<open>write.ts\<close>, \<open>filter.ts\<close>, \<open>sort.ts\<close>, \<open>formula-shift.ts\<close>, \<open>read.ts\<close> and
      \<open>projection.ts\<close>, \<open>csv.ts\<close>, \<open>find.ts\<close>.

  \<^bold>\<open>Agent runs\<close> (\<open>worker/src/run\<close>).  Every call a run makes passes these gates.
    \<^item> \<open>ToolPolicy\<close>: which tools an agent may call and how their schemas are offered
      (\<open>tool-policy.ts\<close>, \<open>builtin-toolset-deferred.ts\<close>).
    \<^item> \<open>ToolLoop\<close>: the counters that refuse a repeated call, against the history they stand for
      (\<open>tool-loop-detection.ts\<close>).
    \<^item> \<open>RunBudget\<close>: metering, stop and wind-down verdicts, budgets, output admission
      (\<open>loop-budget.ts\<close>, \<open>run-budget.ts\<close>, \<open>output-admission.ts\<close>).
    \<^item> \<open>AgentContext\<close>: token estimates, groups of messages, the emergency trim, context plans and the
      compaction governor (\<open>context-management.ts\<close>, \<open>context-window.ts\<close>).
    \<^item> \<open>RetryPolicy\<close>: the reason of a provider error, its recovery and the retry loop
      (\<open>error-classification.ts\<close>, \<open>inference-retry.ts\<close>).
    \<^item> \<open>ToolBatch\<close>: a batch of tool calls as interleaved steps, and the circuit breaker
      (\<open>tool-batch.ts\<close>, \<open>circuit-breaker.ts\<close>).  \<open>Schedules\<close> has the locales for what steps keep,
      how many there are and that they can finish, interpreted on the batch and on the loop.
    \<^item> \<open>ToolOutput\<close>: results and images on their way into the transcript (\<open>tool-util.ts\<close>,
      \<open>tool-images.ts\<close>, \<open>message-redaction.ts\<close>).
    \<^item> \<open>LoopCompletion\<close>: recovery of an unusable answer and the stop boundary
      (\<open>output-finalization.ts\<close>, \<open>loop-completion.ts\<close>).
    \<^item> \<open>AgentLoop\<close>: the loop that composes all of these (\<open>agentic-loop.ts\<close>): its state is a record of
      the variables of \<open>runAgenticLoop\<close>, one pass of \<open>while (true)\<close> is \<open>loop_pass\<close>, a run
      is \<open>runAgenticLoop\<close> over the answers of the environment to each pass.

  \<^bold>\<open>Guest disks\<close> (\<open>executor/src/hyperv\<close>).  The boot disk of a sandbox, byte for byte.
    \<^item> \<open>Bytes\<close>: buffers, numbers as bytes, and what is read after writes that do not overlap.
    \<^item> \<open>Fat32Names\<close>: short and long names, directory entries (\<open>fat32-names.ts\<close>) and the
      reader of a directory.
    \<^item> \<open>Fat32\<close>: geometry, allocation, tables and the image (\<open>fat32.ts\<close>); \<open>Fat32Read\<close> is the
      driver's view, the specification the image refines; \<open>Fat32Limits\<close> says which images are
      built.
    \<^item> \<open>BootDisk\<close>, \<open>Vhd\<close>: the disk of kernel and initrd and its VHD footer (\<open>boot-disk.ts\<close>,
      \<open>vhd.ts\<close>).

  \<^bold>\<open>Shared decisions\<close> (\<open>packages/schemas/src\<close>).
    \<^item> \<open>SecretPrecedence\<close>: which secret of a name is in force (\<open>secret-precedence.ts\<close>), and the check
      of a write against the locks above it (\<open>findLockAboveScope\<close> of \<open>secret-vault-write.ts\<close>).
    \<^item> \<open>LineDiff\<close>: line diffs and their unified form (\<open>line-diff.ts\<close>).
    \<^item> \<open>PartialJson\<close>: tool arguments read while they stream (\<open>partial-json-lexer.ts\<close>,
      \<open>partial-json.ts\<close>), shown to agree with the parser of the theory \<open>Json\<close>, which models
      \<open>JSON.stringify\<close> and \<open>JSON.parse\<close>.

  \<^bold>\<open>Conventions.\<close>  \<open>Prelude\<close> has strings as lists of 16-bit code units (\<open>js ''abc''\<close> is a literal),
  their operations and decimal text.  A throw is \<open>Inl\<close> of a sum, an early return a branch, a
  closure's variables the fields of a record.  A number that stays an integer is \<open>nat\<close> or
  \<open>int\<close>; a fraction is an exact rational.  JavaScript's doubles are exact up to \<open>2 ^ 53\<close>, far
  above every limit of these parts.

  \<^bold>\<open>Parameters.\<close>  Code outside the repository is an argument: the calculation engine and its
  formula lexer, what the engine makes of a formula in a structural edit (\<open>rewriting\<close> in \<open>Rebase\<close>), the collator of the sort, the regular-expression engine of the search, case
  mapping, the number that a numeral denotes, the rows of a pricing lookup, the memberships of a person.  The answers of a model, a tool, a clock, a
  review or a person to a run are arguments too, in the order they are asked for; the scanner for
  secrets is one, because the loop only passes its answers on.  What a theorem needs of
  them is a hypothesis or a locale, with an instance that meets it.

  \<^bold>\<open>Recursion.\<close>  Loops over lists are structural or have a measure.  The JSON parser takes a bound
  on nested calls; \<open>json_parse\<close> gives it twice the length of the text and two, which is enough since two
  nested calls consume a code unit (\<open>wf_json_reads_back\<close>).  Myers' search has the code's own
  bound of edits, past which the code falls back.  The agentic loop runs over a list of answers; that a
  run asks for boundedly many is a theorem (\<open>run_ends\<close>), and so it is for a batch
  (\<open>batch_can_always_finish\<close>).

  \<^bold>\<open>What the lemmas show.\<close>  The replay of a cell write lands where writing
  first would, with the value the engine's rewriting has made of it (a formula is replayed as typed);
  selections and filters follow their lines; index maps refine
  splices; sorting is a stable permutation that moves cells and rewrites their formulas; filters hide
  exactly the failing rows; writes pause and resume evaluation on every path; CSV, A1 and column
  labels round-trip; search and reads keep their limits, and a replacement writes
  what it reports.  Exactly the calls that pass every gate are allowed; a lock that is shown is
  enforced; the emergency trim parts no tool result from its call; the
  loop counters refine the history; a guarded run never crosses its token limit; a line diff is
  exact, and minimal where the table is built; a streamed field is the parsed one, cut however.  Every
  call of a batch is answered once and in order under every interleaving, a batch never deadlocks, a
  run ends, asks the model only within its limits, and survives a restart with its accounts.  A
  FAT32 image reads back as its tree, with the driver's recursion as deep as the tree and its chains
  as long as the volume; a boot disk always has room for its payload.
  Where the code departs from what it says, the theorem shows the departure: a replayed deletion that
  takes foreign rows, a formula replayed with its old references, a replacement misaligned by case folding, duplicate keys that are published, a
  result that is not capped, a successful call answered as failed.

  \<^bold>\<open>Not modelled.\<close>  The elapsed time and the results of finished tools that a checkpoint of the loop
  carries, and the checkpoints a batch writes between its calls; the adapters of the engine's raw bindings (calls of an external library); the
  executor's policies and sessions; exhaustion of memory in the disk writers; the API routes, the rest of the worker, the
  administration packages and the runtime services, which are database queries and network calls;
  the zod schemas, whose validation is that library's; the user interfaces; the Go and Rust parts.
\<close>

end
